(* ===== verification/Rtw_Prelude.thy ===== *)
theory Rtw_Prelude
  imports Main "HOL-Library.Word" "HOL-Library.Monad_Syntax"
begin

text \<open>
  Shared vocabulary of the development: the C integer types as words, C objects as byte
  lists with checked accesses, the little- and big-endian accessors of
  \<^verbatim>\<open>include/osdep_service.h\<close>, and the generic lemmas the component theories use.

  A C object (an array, a buffer, a frame) is a \<^typ>\<open>8 word list\<close>; a pointer into it
  is an offset. Every load and store goes through the checked operations below, which give
  \<open>None\<close> as soon as an access leaves the object. A result \<open>None\<close> of a modelled function
  therefore says that the C code performs an access outside the object, which C leaves
  undefined; \<open>Some r\<close> says that every access was inside it and that \<open>r\<close> is what the
  code computes. Sizes and offsets are \<open>nat\<close>: they are bounded by the size of an object.
  Integers whose wrap-around matters keep their width.
\<close>

unbundle bit_operations_syntax

named_theorems mem_simps \<open>unfolding rules of the checked memory operations\<close>

type_synonym u8 = "8 word"
type_synonym u16 = "16 word"
type_synonym u32 = "32 word"
type_synonym u64 = "64 word"
type_synonym mem = "u8 list"

section \<open>Checked accesses to a C object\<close>

definition rd8 :: "mem \<Rightarrow> nat \<Rightarrow> u8 option" where
  "rd8 m a = (if a < length m then Some (m ! a) else None)"

definition rd_bytes :: "mem \<Rightarrow> nat \<Rightarrow> nat \<Rightarrow> u8 list option" where
  "rd_bytes m a n = (if a + n \<le> length m then Some (take n (drop a m)) else None)"

definition wr_bytes :: "mem \<Rightarrow> nat \<Rightarrow> u8 list \<Rightarrow> mem option" where
  "wr_bytes m a bs =
     (if a + length bs \<le> length m then Some (take a m @ bs @ drop (a + length bs) m) else None)"

text \<open>An element of an array of other objects, and a byte at an address that arithmetic may have
  taken below the object.\<close>

definition arr :: "'a list \<Rightarrow> nat \<Rightarrow> 'a option" where
  "arr xs i = (if i < length xs then Some (xs ! i) else None)"

definition rd8i :: "mem \<Rightarrow> int \<Rightarrow> u8 option" where
  "rd8i m a = (if a < 0 then None else rd8 m (nat a))"

text \<open>Whether an address has the group bit, from \<^verbatim>\<open>include/wifi.h\<close>.\<close>

definition IS_MCAST :: "mem \<Rightarrow> bool option" where
  "IS_MCAST da = map_option (\<lambda>b. b AND 1 \<noteq> 0) (rd8 da 0)"

text \<open>
  \<open>_rtw_memcmp\<close> (true for equal ranges), \<open>_rtw_memcpy\<close> between two objects and
  \<open>_rtw_memset\<close>. A comparison or copy reads its whole range.
\<close>

definition rtw_memcmp :: "mem \<Rightarrow> nat \<Rightarrow> mem \<Rightarrow> nat \<Rightarrow> nat \<Rightarrow> bool option" where
  "rtw_memcmp d da s sa n = do { x \<leftarrow> rd_bytes d da n; y \<leftarrow> rd_bytes s sa n; Some (x = y) }"

definition rtw_memcpy :: "mem \<Rightarrow> nat \<Rightarrow> mem \<Rightarrow> nat \<Rightarrow> nat \<Rightarrow> mem option" where
  "rtw_memcpy d da s sa n = do { x \<leftarrow> rd_bytes s sa n; wr_bytes d da x }"

definition rtw_memset :: "mem \<Rightarrow> nat \<Rightarrow> u8 \<Rightarrow> nat \<Rightarrow> mem option" where
  "rtw_memset d da v n = wr_bytes d da (replicate n v)"

text \<open>Subtraction of the 32-bit \<open>uint\<close> type on sizes, with its wrap-around.\<close>

definition sub_u32 :: "nat \<Rightarrow> nat \<Rightarrow> nat" where
  "sub_u32 a b = nat ((int a - int b) mod 2 ^ 32)"

text \<open>
  A loop that may run forever has a result of type \<open>'a run\<close>: \<open>None\<close> when it never
  returns, \<open>Some None\<close> when an access leaves its object, \<open>Some (Some r)\<close> when it returns
  \<open>r\<close>. \<open>run_bind\<close> sequences such computations.
\<close>

type_synonym 'a run = "'a option option"

definition run_bind :: "'a run \<Rightarrow> ('a \<Rightarrow> 'b run) \<Rightarrow> 'b run" where
  "run_bind r f = (case r of None \<Rightarrow> None | Some None \<Rightarrow> Some None | Some (Some x) \<Rightarrow> f x)"

section \<open>Endian accessors\<close>

definition le16 :: "u8 \<Rightarrow> u8 \<Rightarrow> u16" where
  "le16 b0 b1 = push_bit 8 (ucast b1) OR ucast b0"

definition be24 :: "u8 \<Rightarrow> u8 \<Rightarrow> u8 \<Rightarrow> u32" where
  "be24 b0 b1 b2 = push_bit 16 (ucast b0) OR push_bit 8 (ucast b1) OR ucast b2"

definition le32 :: "u8 \<Rightarrow> u8 \<Rightarrow> u8 \<Rightarrow> u8 \<Rightarrow> u32" where
  "le32 b0 b1 b2 b3 =
     push_bit 24 (ucast b3) OR push_bit 16 (ucast b2) OR push_bit 8 (ucast b1) OR ucast b0"

definition RTW_GET_LE16 :: "mem \<Rightarrow> nat \<Rightarrow> u16 option" where
  "RTW_GET_LE16 m a = do { b1 \<leftarrow> rd8 m (a + 1); b0 \<leftarrow> rd8 m a; Some (le16 b0 b1) }"

definition RTW_GET_BE16 :: "mem \<Rightarrow> nat \<Rightarrow> u16 option" where
  "RTW_GET_BE16 m a = do { b0 \<leftarrow> rd8 m a; b1 \<leftarrow> rd8 m (a + 1); Some (le16 b1 b0) }"

definition RTW_GET_BE24 :: "mem \<Rightarrow> nat \<Rightarrow> u32 option" where
  "RTW_GET_BE24 m a =
     do { b0 \<leftarrow> rd8 m a; b1 \<leftarrow> rd8 m (a + 1); b2 \<leftarrow> rd8 m (a + 2); Some (be24 b0 b1 b2) }"

definition RTW_PUT_LE16 :: "u16 \<Rightarrow> u8 list" where
  "RTW_PUT_LE16 v = [ucast (v AND 0xff), ucast (drop_bit 8 v)]"

definition RTW_PUT_BE16 :: "u16 \<Rightarrow> u8 list" where
  "RTW_PUT_BE16 v = [ucast (drop_bit 8 v), ucast (v AND 0xff)]"

text \<open>A 32-bit value as the little-endian machine stores it.\<close>

definition u32_bytes :: "u32 \<Rightarrow> mem" where
  "u32_bytes v = [ucast v, ucast (drop_bit 8 v), ucast (drop_bit 16 v), ucast (drop_bit 24 v)]"

section \<open>Lemmas on the checked accesses\<close>

lemma run_bind_simps [simp]:
  "run_bind None f = None"
  "run_bind (Some None) f = Some None"
  "run_bind (Some (Some x)) f = f x"
  by (simp_all add: run_bind_def)

lemma run_bind_cong [fundef_cong]:
  "r = r' \<Longrightarrow> (\<And>x. r' = Some (Some x) \<Longrightarrow> f x = g x) \<Longrightarrow> run_bind r f = run_bind r' g"
  by (auto simp: run_bind_def split: option.splits)

lemma run_bind_eq_ret:
  "run_bind r f = Some (Some y) \<longleftrightarrow> (\<exists>x. r = Some (Some x) \<and> f x = Some (Some y))"
  by (auto simp: run_bind_def split: option.splits)

lemma rd8_in: "a < length m \<Longrightarrow> rd8 m a = Some (m ! a)"
  by (simp add: rd8_def)

lemma rd8_out: "\<not> a < length m \<Longrightarrow> rd8 m a = None"
  by (simp add: rd8_def)

lemma rd8_append_left [simp]: "a < length xs \<Longrightarrow> rd8 (xs @ ys) a = rd8 xs a"
  by (simp add: rd8_def nth_append)

lemma rd8_append_right: "length xs \<le> a \<Longrightarrow> rd8 (xs @ ys) a = rd8 ys (a - length xs)"
  by (auto simp: rd8_def nth_append)

lemma rd8_append_at [simp]: "rd8 (xs @ ys) (length xs + a) = rd8 ys a"
  by (simp add: rd8_append_right)

lemma rd8_append_at' [simp]: "rd8 (xs @ ys) (a + length xs) = rd8 ys a"
  by (simp add: rd8_append_right)

lemma rd8_append_at0 [simp]: "rd8 (xs @ ys) (length xs) = rd8 ys 0"
  by (simp add: rd8_append_right)

lemma rd8_append_at_Suc [simp]: "rd8 (xs @ ys) (Suc (length xs)) = rd8 ys 1"
  by (simp add: rd8_append_right)

lemma rd8_append_at_Suc_more [simp]:
  "rd8 (xs @ ys) (Suc (Suc (length xs))) = rd8 ys 2"
  "rd8 (xs @ ys) (Suc (Suc (Suc (length xs)))) = rd8 ys 3"
  by (simp_all add: rd8_append_right numeral_2_eq_2 numeral_3_eq_3)

lemma rd8_append_at_Suc_add [simp]: "rd8 (xs @ ys) (Suc (length xs + a)) = rd8 ys (Suc a)"
  by (simp add: rd8_append_right)

lemma rd8_Nil [simp]: "rd8 [] a = None"
  by (simp add: rd8_def)

lemma rd8_Cons_0 [simp]: "rd8 (x # xs) 0 = Some x"
  by (simp add: rd8_def)

lemma rd8_Cons_Suc [simp]: "rd8 (x # xs) (Suc a) = rd8 xs a"
  by (simp add: rd8_def)

lemma rd8_Cons_1 [simp]: "rd8 (x # xs) 1 = rd8 xs 0"
  by (simp add: rd8_def)

lemma rd8_Cons_numeral [simp]: "rd8 (x # xs) (numeral k) = rd8 xs (pred_numeral k)"
  by (simp add: rd8_def)

lemma rd_bytes_append_at [simp]: "rd_bytes (xs @ ys) (length xs + a) n = rd_bytes ys a n"
  by (auto simp: rd_bytes_def)

lemma rd_bytes_append_at0 [simp]: "rd_bytes (xs @ ys) (length xs) n = rd_bytes ys 0 n"
  by (auto simp: rd_bytes_def)

lemma rd_bytes_Cons_Suc [simp]: "rd_bytes (x # xs) (Suc a) n = rd_bytes xs a n"
  by (auto simp: rd_bytes_def)

lemma rd_bytes_Cons_1 [simp]: "rd_bytes (x # xs) 1 n = rd_bytes xs 0 n"
  by (auto simp: rd_bytes_def)

lemma rd_bytes_Cons_numeral [simp]: "rd_bytes (x # xs) (numeral k) n = rd_bytes xs (pred_numeral k) n"
  by (auto simp: rd_bytes_def numeral_eq_Suc)

lemma rd_bytes_prefix [simp]: "n = length xs \<Longrightarrow> rd_bytes (xs @ ys) 0 n = Some xs"
  by (simp add: rd_bytes_def)

lemma rd_bytes_self [simp]: "n = length xs \<Longrightarrow> rd_bytes xs 0 n = Some xs"
  by (simp add: rd_bytes_def)

lemma rd_bytes_in: "a + n \<le> length m \<Longrightarrow> rd_bytes m a n = Some (take n (drop a m))"
  by (simp add: rd_bytes_def)

lemma rd_bytes_append_left: "a + n \<le> length xs \<Longrightarrow> rd_bytes (xs @ ys) a n = rd_bytes xs a n"
  by (simp add: rd_bytes_def)

text \<open>A read that stays inside a part of the object sees only that part.\<close>

lemma rd8_window: "i < length m \<Longrightarrow> rd8 (pre @ m @ post) (length pre + i) = rd8 m i"
  by simp

lemma rd_bytes_window: "i + n \<le> length m \<Longrightarrow> rd_bytes (pre @ m @ post) (length pre + i) n = rd_bytes m i n"
  by (simp add: rd_bytes_append_left)

lemma rd_bytes_no_fault: "a + n \<le> length m \<Longrightarrow> \<exists>bs. rd_bytes m a n = Some bs"
  by (simp add: rd_bytes_def)

lemma rd_bytes_length: "rd_bytes m a n = Some bs \<Longrightarrow> length bs = n"
  by (auto simp: rd_bytes_def split: if_splits)

lemma rd_bytes_split:
  assumes "rd_bytes m a n = Some bs"
  obtains pre post where "m = pre @ bs @ post" "length pre = a" "length bs = n"
proof
  have le: "a + n \<le> length m" and bs: "bs = take n (drop a m)"
    using assms by (auto simp: rd_bytes_def split: if_splits)
  show "m = take a m @ bs @ drop (a + n) m"
    unfolding bs by (metis append_take_drop_id add.commute drop_drop)
  show "length (take a m) = a" "length bs = n"
    using le bs by simp_all
qed

lemma wr_bytes_length: "wr_bytes m a bs = Some m' \<Longrightarrow> length m' = length m"
  by (auto simp: wr_bytes_def split: if_splits)

lemma wr_bytes_in: "a + length bs \<le> length m \<Longrightarrow> \<exists>m'. wr_bytes m a bs = Some m'"
  by (simp add: wr_bytes_def)

lemma rd_wr_bytes: "wr_bytes m a bs = Some m' \<Longrightarrow> rd_bytes m' a (length bs) = Some bs"
  by (auto simp: wr_bytes_def rd_bytes_def split: if_splits)

lemma wr_bytes_nth:
  assumes "wr_bytes m a bs = Some m'"
  shows "m' ! k = (if a \<le> k \<and> k < a + length bs then bs ! (k - a) else m ! k)"
proof -
  have m': "m' = take a m @ bs @ drop (a + length bs) m" and len: "a + length bs \<le> length m"
    using assms by (auto simp: wr_bytes_def split: if_splits)
  show ?thesis
    using len by (auto simp: m' nth_append)
qed

lemma sub_u32_le: "b \<le> a \<Longrightarrow> a < 2 ^ 32 \<Longrightarrow> sub_u32 a b = a - b"
  by (simp add: sub_u32_def)

lemma sub_u32_wrap: "a < b \<Longrightarrow> b \<le> a + 2 ^ 32 \<Longrightarrow> sub_u32 a b = a + 2 ^ 32 - b"
proof -
  assume ab: "a < b" "b \<le> a + 2 ^ 32"
  have "(int a - int b) mod 2 ^ 32 = (int a - int b + 2 ^ 32) mod 2 ^ 32"
    by simp
  also have "\<dots> = int a - int b + 2 ^ 32"
    using ab by (intro mod_pos_pos_trivial) auto
  finally show ?thesis
    using ab by (simp add: sub_u32_def nat_diff_distrib')
qed

lemma sub_u32_mono: "sub_u32 a b \<le> k \<Longrightarrow> 0 < b \<Longrightarrow> b \<le> a + d \<Longrightarrow> k + d < 2 ^ 32 \<Longrightarrow> 0 < a \<Longrightarrow> sub_u32 a b < a"
proof -
  assume a: "sub_u32 a b \<le> k" "0 < b" "b \<le> a + d" "k + d < 2 ^ 32" "0 < a"
  show "sub_u32 a b < a"
  proof (cases "b \<le> a")
    case True
    have "(int a - int b) mod 2 ^ 32 \<le> int a - int b"
      using True by (intro zmod_le_nonneg_dividend) auto
    then show ?thesis
      using True a by (simp add: sub_u32_def)
  next
    case False
    then have "sub_u32 a b = a + 2 ^ 32 - b"
      using a by (intro sub_u32_wrap) auto
    then show ?thesis
      using a False by simp
  qed
qed

section \<open>Lemmas on the endian accessors\<close>

lemma unat_u8_lt: "unat (b :: u8) < 256"
  using unsigned_less [of b] by simp

lemma unat_u16_lt: "unat (w :: u16) < 65536"
  using unsigned_less [of w] by simp

lemma unat_of_nat_u8: "n < 256 \<Longrightarrow> unat (word_of_nat n :: u8) = n"
  by (simp add: unat_of_nat take_bit_nat_eq_self)

lemma unat_ucast_u8: "unat (ucast (b :: u8) :: u16) = unat b" "unat (ucast b :: u32) = unat b"
  using unat_u8_lt [of b] by (simp_all add: unsigned_ucast_eq take_bit_nat_eq_self)

lemma unat_le16: "unat (le16 b0 b1) = unat b0 + 256 * unat b1"
proof -
  have dis: "push_bit 8 (ucast b1 :: u16) OR ucast b0 = push_bit 8 (ucast b1) + ucast b0"
    by (rule disjunctive_add_eq_or [symmetric])
      (auto simp: bit_eq_iff bit_simps dest: bit_imp_le_length)
  have "le16 b0 b1 = ucast b1 * 256 + ucast b0"
    unfolding le16_def dis by (simp add: push_bit_eq_mult)
  then show ?thesis
    using unat_u8_lt [of b0] unat_u8_lt [of b1]
    by (simp add: unat_word_ariths unat_ucast_u8)
qed

lemma length_u32_bytes [simp]: "length (u32_bytes v) = 4"
  by (simp add: u32_bytes_def)

lemma le16_split: "le16 (ucast (v AND 0xff)) (ucast (drop_bit 8 v)) = v"
proof (rule bit_word_eqI)
  fix n
  assume "n < LENGTH(16)"
  have ff: "(0xff :: u16) = mask 8"
    by (simp add: mask_eq_exp_minus_1)
  show "bit (le16 (ucast (v AND 0xff)) (ucast (drop_bit 8 v))) n = bit v n"
    unfolding le16_def ff using \<open>n < LENGTH(16)\<close> by (auto simp: bit_simps)
qed

lemma RTW_GET_LE16_at: "RTW_GET_LE16 (xs @ RTW_PUT_LE16 v @ ys) (length xs) = Some v"
  by (simp add: RTW_GET_LE16_def RTW_PUT_LE16_def le16_split)

end
