(* ===== verification/Tlv.thy ===== *)
theory Tlv
  imports Rtw_Prelude
begin

text \<open>
  The interface between the element formats and the loops that search them. A stream is the
  concatenation of encoded elements; \<open>tlv_find\<close> is the specification of a search: the
  offset and the value of the first element that satisfies a predicate. The locale
  \<open>tlv_search\<close> states the three laws one iteration of a search loop has to satisfy
  (it stops at the limit, it answers at a hit, it skips exactly one element at a miss); the
  lemma \<open>srch_correct\<close> then gives the result on every stream. The theories of the
  components interpret the locale on their loops. Positions start at \<open>base\<close>, the address the
  loop measures its limit from.
\<close>

abbreviation stream :: "('e \<Rightarrow> u8 list) \<Rightarrow> 'e list \<Rightarrow> u8 list" where
  "stream enc es \<equiv> concat (map enc es)"

fun tlv_find :: "('e \<Rightarrow> u8 list) \<Rightarrow> ('e \<Rightarrow> bool) \<Rightarrow> nat \<Rightarrow> 'e list \<Rightarrow> (nat \<times> 'e) option" where
  "tlv_find enc hit base [] = None"
| "tlv_find enc hit base (e # es) =
     (if hit e then Some (base, e) else tlv_find enc hit (base + length (enc e)) es)"

lemma tlv_find_Some:
  assumes "tlv_find enc hit base es = Some (a, e)"
  shows "\<exists>xs ys. es = xs @ e # ys \<and> a = base + length (stream enc xs) \<and> hit e \<and> (\<forall>x\<in>set xs. \<not> hit x)"
  using assms
proof (induction es arbitrary: base)
  case Nil
  then show ?case by simp
next
  case (Cons x es)
  show ?case
  proof (cases "hit x")
    case True
    then show ?thesis
      using Cons.prems by (intro exI [of _ "[]"] exI [of _ es]) auto
  next
    case False
    then obtain xs ys where "es = xs @ e # ys" "a = base + length (enc x) + length (stream enc xs)"
      "hit e" "\<forall>x\<in>set xs. \<not> hit x"
      using Cons.IH [of "base + length (enc x)"] Cons.prems by auto
    then show ?thesis
      using False by (intro exI [of _ "x # xs"] exI [of _ ys]) auto
  qed
qed

lemma tlv_find_mem: "tlv_find enc hit base es = Some (a, e) \<Longrightarrow> e \<in> set es \<and> hit e"
  by (drule tlv_find_Some) auto

lemma tlv_find_None: "tlv_find enc hit base es = None \<longleftrightarrow> (\<forall>e\<in>set es. \<not> hit e)"
  by (induction es arbitrary: base) auto

lemma tlv_find_bytes:
  assumes "tlv_find enc hit (length pre) es = Some (a, e)"
  shows "rd_bytes (pre @ stream enc es @ post) a (length (enc e)) = Some (enc e)"
proof -
  obtain xs ys where "es = xs @ e # ys" "a = length pre + length (stream enc xs)"
    using tlv_find_Some [OF assms] by blast
  then show ?thesis
    by simp
qed

locale tlv_search =
  fixes enc :: "'e \<Rightarrow> u8 list"
    and good :: "'e \<Rightarrow> bool"
    and hit :: "'e \<Rightarrow> bool"
    and srch :: "u8 list \<Rightarrow> nat \<Rightarrow> nat \<Rightarrow> 'r"
    and found :: "u8 list \<Rightarrow> nat \<Rightarrow> 'e \<Rightarrow> 'r"
    and miss :: 'r
    and base :: nat
  assumes srch_end: "srch m lim lim = miss"
    and srch_hit: "good e \<Longrightarrow> hit e \<Longrightarrow> base \<le> length pre \<Longrightarrow> length pre + length (enc e) \<le> lim \<Longrightarrow>
          srch (pre @ enc e @ post) lim (length pre) = found (pre @ enc e @ post) (length pre) e"
    and srch_skip: "good e \<Longrightarrow> \<not> hit e \<Longrightarrow> base \<le> length pre \<Longrightarrow> length pre + length (enc e) \<le> lim \<Longrightarrow>
          srch (pre @ enc e @ post) lim (length pre)
            = srch (pre @ enc e @ post) lim (length pre + length (enc e))"
begin

lemma srch_correct:
  assumes "\<forall>e\<in>set es. good e" and "lim = length pre + length (stream enc es)"
    and "base \<le> length pre"
  shows "srch (pre @ stream enc es @ post) lim (length pre) =
           (case tlv_find enc hit (length pre) es of
              None \<Rightarrow> miss | Some (a, e) \<Rightarrow> found (pre @ stream enc es @ post) a e)"
  using assms
proof (induction es arbitrary: pre)
  case Nil
  then show ?case by (simp add: srch_end)
next
  case (Cons e es)
  show ?case
  proof (cases "hit e")
    case True
    then show ?thesis
      using srch_hit [of e pre lim "stream enc es @ post"] Cons.prems by simp
  next
    case False
    have "srch (pre @ stream enc (e # es) @ post) lim (length pre)
            = srch ((pre @ enc e) @ stream enc es @ post) lim (length (pre @ enc e))"
      using srch_skip [of e pre lim "stream enc es @ post"] Cons.prems False by simp
    also have "\<dots> = (case tlv_find enc hit (length (pre @ enc e)) es of
              None \<Rightarrow> miss | Some (a, x) \<Rightarrow> found ((pre @ enc e) @ stream enc es @ post) a x)"
      using Cons.prems by (intro Cons.IH) auto
    finally show ?thesis
      using False by (simp split: option.split)
  qed
qed

lemma srch_miss:
  assumes "\<forall>e\<in>set es. good e \<and> \<not> hit e" and "lim = length pre + length (stream enc es)"
    and "base \<le> length pre"
  shows "srch (pre @ stream enc es @ post) lim (length pre) = miss"
proof -
  have "tlv_find enc hit (length pre) es = None"
    using assms(1) by (simp add: tlv_find_None)
  then show ?thesis
    using srch_correct [of es lim pre post] assms by simp
qed

end

end
