(* ===== verification/Ie_Search.thy ===== *)
theory Ie_Search
  imports Tlv
begin

text \<open>
  The tag-length-value machinery of \<^verbatim>\<open>core/rtw_ieee80211.c\<close>: writing and searching
  information elements (IEs) and the attributes inside WPS, P2P and WFD elements. Each C
  loop is a recursive function over the offset; a NULL output pointer is \<open>None\<close>, a NULL
  result is \<open>None\<close> inside the returned tuple. The locale \<open>tlv_search\<close> states what
  one step of such a loop has to satisfy and derives the behaviour of the whole search;
  it is interpreted on each loop.
\<close>

section \<open>Constants\<close>

abbreviation (input) WPA_IE_ID :: u8 where "WPA_IE_ID \<equiv> 0xdd"
abbreviation (input) WPA2_IE_ID :: u8 where "WPA2_IE_ID \<equiv> 0x30"
abbreviation (input) VENDOR_SPECIFIC_IE :: u8 where "VENDOR_SPECIFIC_IE \<equiv> 221"
abbreviation (input) MAX_IE_SZ :: nat where "MAX_IE_SZ \<equiv> 768"

definition wpa_oui_type :: mem where "wpa_oui_type = [0x00, 0x50, 0xf2, 0x01]"
definition wps_oui :: mem where "wps_oui = [0x00, 0x50, 0xf2, 0x04]"
definition p2p_oui :: mem where "p2p_oui = [0x50, 0x6f, 0x9a, 0x09]"
definition wfd_oui :: mem where "wfd_oui = [0x50, 0x6f, 0x9a, 0x0a]"

section \<open>Writing elements\<close>

text \<open>\<open>rtw_set_fixed_ie\<close> and \<open>rtw_set_ie\<close> give the written object, the pointer past
  the element and the updated frame length.\<close>

definition rtw_set_fixed_ie :: "mem \<Rightarrow> nat \<Rightarrow> nat \<Rightarrow> mem \<Rightarrow> nat \<Rightarrow> (mem \<times> nat \<times> nat) option" where
  "rtw_set_fixed_ie m pbuf len source frlen = do {
     m1 \<leftarrow> rtw_memcpy m pbuf source 0 len;
     Some (m1, pbuf + len, frlen + len) }"

definition rtw_set_ie ::
  "mem \<Rightarrow> nat \<Rightarrow> int \<Rightarrow> nat \<Rightarrow> mem \<Rightarrow> nat \<Rightarrow> (mem \<times> nat \<times> nat) option" where
  "rtw_set_ie m pbuf index len source frlen = do {
     m1 \<leftarrow> wr_bytes m pbuf [word_of_int index];
     m2 \<leftarrow> wr_bytes m1 (pbuf + 1) [word_of_nat len];
     m3 \<leftarrow> (if len > 0 then rtw_memcpy m2 (pbuf + 2) source 0 len else Some m2);
     Some (m3, pbuf + len + 2, frlen + (len + 2)) }"

definition rtw_set_ie_ch_switch ::
  "mem \<Rightarrow> nat \<Rightarrow> nat \<Rightarrow> u8 \<Rightarrow> u8 \<Rightarrow> u8 \<Rightarrow> (mem \<times> nat \<times> nat) option" where
  "rtw_set_ie_ch_switch m buf buf_len ch_switch_mode new_ch ch_switch_cnt =
     rtw_set_ie m buf 37 3 [ch_switch_mode, new_ch, ch_switch_cnt] buf_len"

definition rtw_set_ie_secondary_ch_offset ::
  "mem \<Rightarrow> nat \<Rightarrow> nat \<Rightarrow> u8 \<Rightarrow> (mem \<times> nat \<times> nat) option" where
  "rtw_set_ie_secondary_ch_offset m buf buf_len secondary_ch_offset =
     rtw_set_ie m buf 62 1 [secondary_ch_offset] buf_len"

definition rtw_set_ie_mesh_ch_switch_parm ::
  "mem \<Rightarrow> nat \<Rightarrow> nat \<Rightarrow> u8 \<Rightarrow> u8 \<Rightarrow> u16 \<Rightarrow> u16 \<Rightarrow> (mem \<times> nat \<times> nat) option" where
  "rtw_set_ie_mesh_ch_switch_parm m buf buf_len ttl flags reason precedence =
     rtw_set_ie m buf 0x118 6
       ([ttl, flags] @ RTW_PUT_LE16 reason @ RTW_PUT_LE16 precedence) buf_len"

definition rtw_set_p2p_attr_content ::
  "mem \<Rightarrow> nat \<Rightarrow> u8 \<Rightarrow> u16 \<Rightarrow> mem option \<Rightarrow> (mem \<times> nat) option" where
  "rtw_set_p2p_attr_content m pbuf attr_id attr_len pdata_attr = do {
     m1 \<leftarrow> wr_bytes m pbuf [attr_id];
     m2 \<leftarrow> wr_bytes m1 (pbuf + 1) (RTW_PUT_LE16 attr_len);
     m3 \<leftarrow> (case pdata_attr of None \<Rightarrow> Some m2
           | Some d \<Rightarrow> rtw_memcpy m2 (pbuf + 3) d 0 (unat attr_len));
     Some (m3, unat attr_len + 3) }"

section \<open>Searching elements\<close>

text \<open>
  \<open>rtw_get_ie\<close>: the loop tests \<open>i \<ge> limit\<close> only after advancing. The result is the
  pointer (or NULL) and the value of \<open>*len\<close>, which keeps its old value when
  \<open>limit < 1\<close>.
\<close>

function rtw_get_ie_loop :: "mem \<Rightarrow> int \<Rightarrow> int \<Rightarrow> nat \<Rightarrow> nat \<Rightarrow> (nat option \<times> int) option" where
  "rtw_get_ie_loop m index limit p i = do {
     b \<leftarrow> rd8 m p;
     if uint b = index
     then do { l \<leftarrow> rd8 m (p + 1); Some (Some p, uint l) }
     else do {
       tmp \<leftarrow> rd8 m (p + 1);
       let p' = p + (unat tmp + 2); i' = i + (unat tmp + 2) in
       if int i' \<ge> limit then Some (None, 0) else rtw_get_ie_loop m index limit p' i' } }"
  by pat_completeness auto
termination
  by (relation "measure (\<lambda>(m, index, limit, p, i). nat (limit - int i))") (auto simp del: of_nat_unat)

definition rtw_get_ie :: "mem \<Rightarrow> nat \<Rightarrow> int \<Rightarrow> int \<Rightarrow> int \<Rightarrow> (nat option \<times> int) option" where
  "rtw_get_ie m pbuf index len limit =
     (if limit < 1 then Some (None, len) else rtw_get_ie_loop m index limit pbuf 0)"

text \<open>
  \<open>rtw_get_ie_ex\<close>: the optional \<open>oui\<close> is compared after the element id matched; the
  copy into \<open>ie\<close> and the store to \<open>ielen\<close> happen only for non-NULL pointers. The
  result is the pointer, the object \<open>ie\<close> points to and the value of \<open>*ielen\<close>.
\<close>

definition oui_match :: "mem \<Rightarrow> nat \<Rightarrow> mem option \<Rightarrow> nat \<Rightarrow> bool option" where
  "oui_match m a oui oui_len =
     (case oui of None \<Rightarrow> Some True | Some d \<Rightarrow> rtw_memcmp m a d 0 oui_len)"

definition ie_ex_match :: "mem \<Rightarrow> nat \<Rightarrow> u8 \<Rightarrow> mem option \<Rightarrow> nat \<Rightarrow> bool option" where
  "ie_ex_match m a eid oui oui_len = do {
     b \<leftarrow> rd8 m a;
     if eid = b then oui_match m (a + 2) oui oui_len else Some False }"

definition copy_ie_out :: "mem \<Rightarrow> nat \<Rightarrow> mem option \<Rightarrow> mem option option" where
  "copy_ie_out m a ie =
     (case ie of None \<Rightarrow> Some None
      | Some d \<Rightarrow> do { l \<leftarrow> rd8 m (a + 1); d' \<leftarrow> rtw_memcpy d 0 m a (unat l + 2); Some (Some d') })"

definition put_ielen :: "mem \<Rightarrow> nat \<Rightarrow> nat option \<Rightarrow> nat option option" where
  "put_ielen m a ielen =
     (case ielen of None \<Rightarrow> Some None
      | Some _ \<Rightarrow> do { l \<leftarrow> rd8 m (a + 1); Some (Some (unat l + 2)) })"

function rtw_get_ie_ex_loop ::
  "mem \<Rightarrow> nat \<Rightarrow> nat \<Rightarrow> u8 \<Rightarrow> mem option \<Rightarrow> nat \<Rightarrow> mem option \<Rightarrow> nat option \<Rightarrow> nat
     \<Rightarrow> (nat option \<times> mem option \<times> nat option) option" where
  "rtw_get_ie_ex_loop m in_ie in_len eid oui oui_len ie ielen cnt =
     (if cnt < in_len then do {
        hit \<leftarrow> ie_ex_match m (in_ie + cnt) eid oui oui_len;
        if hit then do {
          ie' \<leftarrow> copy_ie_out m (in_ie + cnt) ie;
          ielen' \<leftarrow> put_ielen m (in_ie + cnt) ielen;
          Some (Some (in_ie + cnt), ie', ielen') }
        else do {
          l \<leftarrow> rd8 m (in_ie + cnt + 1);
          rtw_get_ie_ex_loop m in_ie in_len eid oui oui_len ie ielen (cnt + (unat l + 2)) } }
      else Some (None, ie, ielen))"
  by pat_completeness auto
termination
  by (relation "measure (\<lambda>(m, in_ie, in_len, eid, oui, oui_len, ie, ielen, cnt). in_len - cnt)") auto

definition rtw_get_ie_ex ::
  "mem \<Rightarrow> nat option \<Rightarrow> nat \<Rightarrow> u8 \<Rightarrow> mem option \<Rightarrow> nat \<Rightarrow> mem option \<Rightarrow> nat option
     \<Rightarrow> (nat option \<times> mem option \<times> nat option) option" where
  "rtw_get_ie_ex m in_ie in_len eid oui oui_len ie ielen =
     (let ielen = map_option (\<lambda>_. 0) ielen in
      case in_ie of None \<Rightarrow> Some (None, ie, ielen)
      | Some a \<Rightarrow> if in_len = 0 then Some (None, ie, ielen)
                  else rtw_get_ie_ex_loop m a in_len eid oui oui_len ie ielen 0)"

declare rtw_get_ie_loop.simps [simp del] rtw_get_ie_ex_loop.simps [simp del]

text \<open>
  \<open>rtw_ies_remove_ie\<close>: what the search returns, needed for the termination of the loop
  that removes every match.
\<close>

lemma rtw_get_ie_ex_loop_bounds:
  assumes "rtw_get_ie_ex_loop m a n eid oui oui_len ie ielen cnt = Some (Some p, ie', ielen')"
  shows "a + cnt \<le> p \<and> p < a + n \<and> (\<forall>l. ielen' = Some l \<longrightarrow> 2 \<le> l \<and> l \<le> 257)"
  using assms
proof (induction m a n eid oui oui_len ie ielen cnt rule: rtw_get_ie_ex_loop.induct)
  case (1 m a n eid oui oui_len ie ielen cnt)
  note unfold = rtw_get_ie_ex_loop.simps [of m a n eid oui oui_len ie ielen cnt]
  obtain hit where cnt: "cnt < n" and hit: "ie_ex_match m (a + cnt) eid oui oui_len = Some hit"
    using "1.prems" by (cases "ie_ex_match m (a + cnt) eid oui oui_len") (auto simp: unfold split: if_splits)
  show ?case
  proof (cases hit)
    case True
    have "unat (l :: u8) + 2 \<le> 257" for l
      using unat_u8_lt [of l] by simp
    then show ?thesis
      using "1.prems" cnt hit True
      by (auto simp: unfold put_ielen_def bind_eq_Some_conv split: option.splits)
  next
    case False
    then obtain l where l: "rd8 m (a + cnt + 1) = Some l"
      and rest: "rtw_get_ie_ex_loop m a n eid oui oui_len ie ielen (cnt + (unat l + 2)) = Some (Some p, ie', ielen')"
      using "1.prems" cnt hit by (auto simp: unfold bind_eq_Some_conv)
    show ?thesis
      using "1.IH" [OF cnt hit False l rest] by auto
  qed
qed

lemma rtw_ies_remove_ie_decreases:
  assumes ex: "rtw_get_ie_ex m (Some start) n eid oui oui_len None (Some 0) = Some (Some t, x, Some l)"
    and cp: "rtw_memcpy (replicate MAX_IE_SZ 0) 0 m (t + l) (sub_u32 n (t + l - start)) = Some buf"
  shows "sub_u32 n (t + l - start) < n"
proof -
  have pos: "0 < n"
    using ex by (auto simp: rtw_get_ie_ex_def Let_def split: if_splits)
  then have b: "start \<le> t \<and> t < start + n \<and> 2 \<le> l \<and> l \<le> 257"
    using ex rtw_get_ie_ex_loop_bounds [of m start n eid oui oui_len None "Some 0" 0]
    by (auto simp: rtw_get_ie_ex_def)
  have "sub_u32 n (t + l - start) \<le> 768"
    using cp by (auto simp: rtw_memcpy_def bind_eq_Some_conv wr_bytes_def dest!: rd_bytes_length split: if_splits)
  then show ?thesis
    using b pos by (intro sub_u32_mono [where k = 768 and d = 257]) auto
qed

function rtw_ies_remove_ie_loop ::
  "mem \<Rightarrow> nat \<Rightarrow> u8 \<Rightarrow> mem option \<Rightarrow> nat \<Rightarrow> nat \<Rightarrow> nat \<Rightarrow> bool \<Rightarrow> (mem \<times> nat \<times> bool) option" where
  "rtw_ies_remove_ie_loop m ies_len eid oui oui_len start search_len ret =
     (case rtw_get_ie_ex m (Some start) search_len eid oui oui_len None (Some 0) of
        Some (Some target_ie, _, Some target_ielen) \<Rightarrow>
          if target_ielen = 0 then Some (m, ies_len, ret)
          else
            (let remain_ies = target_ie + target_ielen;
                 remain_len = sub_u32 search_len (remain_ies - start) in
             case rtw_memcpy (replicate MAX_IE_SZ 0) 0 m remain_ies remain_len of
               None \<Rightarrow> None
             | Some buf \<Rightarrow>
                (case rtw_memcpy m target_ie buf 0 remain_len of
                   None \<Rightarrow> None
                 | Some m1 \<Rightarrow>
                     rtw_ies_remove_ie_loop m1 (sub_u32 ies_len target_ielen) eid oui oui_len
                       target_ie remain_len True))
      | Some _ \<Rightarrow> Some (m, ies_len, ret)
      | None \<Rightarrow> None)"
  by pat_completeness auto
termination
  by (relation "measure (\<lambda>(m, ies_len, eid, oui, oui_len, start, search_len, ret). search_len)")
    (auto dest: rtw_ies_remove_ie_decreases)

definition rtw_ies_remove_ie ::
  "mem \<Rightarrow> nat option \<Rightarrow> nat option \<Rightarrow> nat \<Rightarrow> u8 \<Rightarrow> mem option \<Rightarrow> nat
     \<Rightarrow> (mem \<times> nat option \<times> bool) option" where
  "rtw_ies_remove_ie m ies ies_len offset eid oui oui_len =
     (case (ies, ies_len) of
        (Some a, Some n) \<Rightarrow>
          if n \<le> offset then Some (m, ies_len, False)
          else do {
            (m1, n1, ret) \<leftarrow> rtw_ies_remove_ie_loop m n eid oui oui_len (a + offset) (n - offset) False;
            Some (m1, Some n1, ret) }
      | _ \<Rightarrow> Some (m, ies_len, False))"

declare rtw_ies_remove_ie_loop.simps [simp del]

section \<open>WPA, RSN and WAPI elements\<close>

text \<open>\<open>rtw_get_ie\<close> never returns a pointer before the one it started from: the loop of
  \<open>rtw_get_wpa_ie\<close>, which restarts the search behind each candidate, terminates.\<close>

lemma rtw_get_ie_loop_ge:
  "rtw_get_ie_loop m index limit p i = Some (Some q, l) \<Longrightarrow> p \<le> q \<and> 0 \<le> l"
proof (induction m index limit p i rule: rtw_get_ie_loop.induct)
  case (1 m index limit p i)
  note unfold = rtw_get_ie_loop.simps [of m index limit p i]
  obtain b where b: "rd8 m p = Some b"
    using "1.prems" by (cases "rd8 m p") (auto simp: unfold)
  obtain t where t: "rd8 m (p + 1) = Some t"
    using "1.prems" b by (cases "rd8 m (p + 1)") (auto simp: unfold split: if_splits)
  show ?case
    using "1.prems" "1.IH" [OF b _ t refl refl] b t by (auto simp: unfold Let_def split: if_splits)
qed

lemma rtw_get_ie_ge: "rtw_get_ie m p index len limit = Some (Some q, l) \<Longrightarrow> p \<le> q \<and> 0 \<le> l \<and> 1 \<le> limit"
  by (auto simp: rtw_get_ie_def dest: rtw_get_ie_loop_ge split: if_splits)

text \<open>The checks of one candidate: the OUI and the version.\<close>

definition wpa_ie_candidate :: "mem \<Rightarrow> nat \<Rightarrow> bool option" where
  "wpa_ie_candidate m pbuf = do {
     eq \<leftarrow> rtw_memcmp m (pbuf + 2) wpa_oui_type 0 4;
     if \<not> eq then Some False
     else do { v0 \<leftarrow> rd8 m (pbuf + 6); v1 \<leftarrow> rd8 m (pbuf + 7); Some (le16 v0 v1 = 1) } }"

function rtw_get_wpa_ie_loop :: "mem \<Rightarrow> nat \<Rightarrow> int \<Rightarrow> nat \<Rightarrow> int \<Rightarrow> (nat option \<times> int) option" where
  "rtw_get_wpa_ie_loop m pie limit pbuf limit_new =
     (case rtw_get_ie m pbuf 0xdd 0 limit_new of
        None \<Rightarrow> None
      | Some (None, _) \<Rightarrow> Some (None, 0)
      | Some (Some q, len) \<Rightarrow>
         (case wpa_ie_candidate m q of
            None \<Rightarrow> None
          | Some True \<Rightarrow> do { l \<leftarrow> rd8 m (q + 1); Some (Some q, uint l) }
          | Some False \<Rightarrow>
             (let limit_new' = limit - (int q - int pie) - 2 - len in
              if limit_new' \<le> 0 then Some (None, 0)
              else rtw_get_wpa_ie_loop m pie limit (q + nat (2 + len)) limit_new')))"
  by pat_completeness auto
termination
  by (relation "measure (\<lambda>(m, pie, limit, pbuf, limit_new). nat (limit - (int pbuf - int pie)))")
    (auto dest!: rtw_get_ie_ge)

definition rtw_get_wpa_ie :: "mem \<Rightarrow> nat \<Rightarrow> int \<Rightarrow> (nat option \<times> int) option" where
  "rtw_get_wpa_ie m pie limit = rtw_get_wpa_ie_loop m pie limit pie limit"

definition rtw_get_wpa2_ie :: "mem \<Rightarrow> nat \<Rightarrow> int \<Rightarrow> int \<Rightarrow> (nat option \<times> int) option" where
  "rtw_get_wpa2_ie m pie rsn_ie_len limit = rtw_get_ie m pie 0x30 rsn_ie_len limit"

text \<open>
  \<open>rtw_get_sec_ie\<close> walks the whole element list behind the twelve fixed bytes; the last
  WPA and the last RSN element win. After copying an element out, the code walks the copy
  for a debug trace with an 8-bit index that advances by eight; the trace arguments read
  eight bytes of the copy. The state of the outer loop is the two output objects and the two
  lengths.
\<close>

type_synonym sec_out = "mem option \<times> nat \<times> mem option \<times> nat"

partial_function (option) trace_ie :: "mem \<Rightarrow> nat \<Rightarrow> u8 \<Rightarrow> unit run" where
  "trace_ie buf n i =
     (if unat i < n
      then (if unat i + 7 < length buf then trace_ie buf n (i + 8) else Some None)
      else Some (Some ()))"

definition copy_ie_trace :: "mem \<Rightarrow> nat \<Rightarrow> mem option \<Rightarrow> mem option run" where
  "copy_ie_trace m a ie =
     (case ie of None \<Rightarrow> Some (Some None)
      | Some d \<Rightarrow>
         run_bind (Some (rd8 m (a + 1))) (\<lambda>l.
         run_bind (Some (rtw_memcpy d 0 m a (unat l + 2))) (\<lambda>d'.
         run_bind (trace_ie d' (unat l + 2) 0) (\<lambda>_. Some (Some (Some d'))))))"

definition sec_ie_is_wpa :: "mem \<Rightarrow> nat \<Rightarrow> u8 \<Rightarrow> bool option" where
  "sec_ie_is_wpa m cnt authmode =
     (if authmode = WPA_IE_ID then rtw_memcmp m (cnt + 2) wpa_oui_type 0 4 else Some False)"

function rtw_get_sec_ie_loop :: "mem \<Rightarrow> nat \<Rightarrow> nat \<Rightarrow> sec_out \<Rightarrow> sec_out run" where
  "rtw_get_sec_ie_loop m in_len cnt out =
     (if cnt < in_len then
        (case out of (rsn_ie, rsn_len, wpa_ie, wpa_len) \<Rightarrow>
          run_bind (Some (rd8 m cnt)) (\<lambda>authmode.
          run_bind (Some (sec_ie_is_wpa m cnt authmode)) (\<lambda>is_wpa.
          if is_wpa then
            run_bind (copy_ie_trace m cnt wpa_ie) (\<lambda>w.
            run_bind (Some (rd8 m (cnt + 1))) (\<lambda>l.
              rtw_get_sec_ie_loop m in_len (cnt + (unat l + 2)) (rsn_ie, rsn_len, w, unat l + 2)))
          else if authmode = WPA2_IE_ID then
            run_bind (copy_ie_trace m cnt rsn_ie) (\<lambda>r.
            run_bind (Some (rd8 m (cnt + 1))) (\<lambda>l.
              rtw_get_sec_ie_loop m in_len (cnt + (unat l + 2)) (r, unat l + 2, wpa_ie, wpa_len)))
          else
            run_bind (Some (rd8 m (cnt + 1))) (\<lambda>l.
              rtw_get_sec_ie_loop m in_len (cnt + (unat l + 2)) out))))
      else Some (Some out))"
  by pat_completeness auto
termination
  by (relation "measure (\<lambda>(m, in_len, cnt, out). in_len - cnt)") auto

definition rtw_get_sec_ie :: "mem \<Rightarrow> nat \<Rightarrow> sec_out \<Rightarrow> (sec_out \<times> nat) run" where
  "rtw_get_sec_ie m in_len out =
     run_bind (rtw_get_sec_ie_loop m in_len (8 + 2 + 2) out) (\<lambda>out'.
       Some (Some (out', fst (snd out') + snd (snd (snd out')))))"

definition wapi_match :: "mem \<Rightarrow> nat \<Rightarrow> bool option" where
  "wapi_match m cnt = do {
     authmode \<leftarrow> rd8 m cnt;
     if authmode = 68 then do {
       e1 \<leftarrow> rtw_memcmp m (cnt + 6) [0x00, 0x14, 0x72, 0x01] 0 4;
       if e1 then Some True else rtw_memcmp m (cnt + 6) [0x00, 0x14, 0x72, 0x02] 0 4 }
     else Some False }"

function rtw_get_wapi_ie_loop ::
  "mem \<Rightarrow> nat \<Rightarrow> nat \<Rightarrow> mem option \<Rightarrow> nat option \<Rightarrow> (mem option \<times> nat option) run" where
  "rtw_get_wapi_ie_loop m in_len cnt wapi_ie wapi_len =
     (if cnt < in_len then
        run_bind (Some (wapi_match m cnt)) (\<lambda>hit.
        run_bind (if hit then copy_ie_trace m cnt wapi_ie else Some (Some wapi_ie)) (\<lambda>w.
        run_bind (Some (if hit then put_ielen m cnt wapi_len else Some wapi_len)) (\<lambda>wl.
        run_bind (Some (rd8 m (cnt + 1))) (\<lambda>l.
          rtw_get_wapi_ie_loop m in_len (cnt + (unat l + 2)) w wl))))
      else Some (Some (wapi_ie, wapi_len)))"
  by pat_completeness auto
termination
  by (relation "measure (\<lambda>(m, in_len, cnt, wapi_ie, wapi_len). in_len - cnt)") auto

definition rtw_get_wapi_ie ::
  "mem option \<Rightarrow> nat \<Rightarrow> mem option \<Rightarrow> nat option \<Rightarrow> (mem option \<times> nat option \<times> nat) run" where
  "rtw_get_wapi_ie in_ie in_len wapi_ie wapi_len =
     (let wapi_len = map_option (\<lambda>_. 0) wapi_len in
      case in_ie of None \<Rightarrow> Some (Some (wapi_ie, wapi_len, 0))
      | Some m \<Rightarrow> if in_len = 0 then Some (Some (wapi_ie, wapi_len, 0))
         else run_bind (rtw_get_wapi_ie_loop m in_len (8 + 2 + 2) wapi_ie wapi_len) (\<lambda>(w, wl).
                Some (Some (w, wl, (case wl of None \<Rightarrow> 0 | Some l \<Rightarrow> l)))))"

declare rtw_get_wpa_ie_loop.simps [simp del] rtw_get_sec_ie_loop.simps [simp del]
  rtw_get_wapi_ie_loop.simps [simp del]


section \<open>The element format\<close>

type_synonym ie = "u8 \<times> u8 list"

definition enc_ie :: "ie \<Rightarrow> u8 list" where
  "enc_ie e = fst e # word_of_nat (length (snd e)) # snd e"

definition good_ie :: "ie \<Rightarrow> bool" where
  "good_ie e \<longleftrightarrow> length (snd e) < 256"

lemma length_enc_ie [simp]: "length (enc_ie e) = Suc (Suc (length (snd e)))"
  by (simp add: enc_ie_def)

lemma enc_ie_rd8 [simp]:
  "rd8 (enc_ie e) 0 = Some (fst e)"
  "rd8 (enc_ie e) (Suc 0) = Some (word_of_nat (length (snd e)))"
  by (simp_all add: enc_ie_def)

lemma enc_ie_len:
  assumes "good_ie e"
  shows "unat (word_of_nat (length (snd e)) :: u8) = length (snd e)"
    and "uint (word_of_nat (length (snd e)) :: u8) = int (length (snd e))"
  using assms by (simp_all add: good_ie_def unat_of_nat_u8 uint_nat)

lemma oui_match_enc:
  assumes "oui_len \<le> length (snd e)" "oui_len \<le> length d"
  shows "oui_match (pre @ enc_ie e @ post) (length pre + 2) (Some d) oui_len
           = Some (take oui_len (snd e) = take oui_len d)"
proof -
  have "rd_bytes (pre @ enc_ie e @ post) (length pre + 2) oui_len = rd_bytes (snd e @ post) 0 oui_len"
    unfolding rd_bytes_append_at by (simp add: enc_ie_def numeral_2_eq_2)
  then show ?thesis
    using assms by (simp add: oui_match_def rtw_memcmp_def rd_bytes_in)
qed

lemmas ie_read = enc_ie_len

section \<open>\<open>rtw_get_ie\<close> finds the first element\<close>

text \<open>Only the distance between the limit and the consumed length matters.\<close>

lemma rtw_get_ie_loop_shift:
  "rtw_get_ie_loop m index (limit + int k) p (i + k) = rtw_get_ie_loop m index limit p i"
proof (induction m index limit p i rule: rtw_get_ie_loop.induct)
  case (1 m index limit p i)
  note unfold = rtw_get_ie_loop.simps [of m index limit p i]
    rtw_get_ie_loop.simps [of m index "limit + int k" p "i + k"]
  show ?case
  proof (cases "rd8 m p")
    case None
    then show ?thesis by (simp add: unfold)
  next
    case b: (Some b)
    show ?thesis
    proof (cases "rd8 m (p + 1)")
      case None
      then show ?thesis using b by (simp add: unfold)
    next
      case t: (Some t)
      then show ?thesis
        using b "1.IH" [OF b _ t refl refl] by (auto simp: unfold Let_def ac_simps)
    qed
  qed
qed

lemma rtw_get_ie_loop_restart:
  "int i \<le> limit \<Longrightarrow> rtw_get_ie_loop m index limit p i = rtw_get_ie_loop m index (limit - int i) p 0"
  using rtw_get_ie_loop_shift [of m index "limit - int i" i p 0] by simp

interpretation get_ie: tlv_search enc_ie good_ie "\<lambda>e. uint (fst e) = index"
  "\<lambda>m lim p. rtw_get_ie m p index 0 (int lim - int p)"
  "\<lambda>m a e. Some (Some a, int (length (snd e)))" "Some (None, 0)" 0 for index :: int
proof (unfold_locales, goal_cases)
  case (1 m lim)
  show ?case by (simp add: rtw_get_ie_def)
next
  case (2 e pre lim post)
  then show ?case
    by (simp add: rtw_get_ie_def rtw_get_ie_loop.simps [of "pre @ enc_ie e @ post" _ _ _ 0] ie_read)
next
  case (3 e pre lim post)
  let ?m = "pre @ enc_ie e @ post" and ?n = "length (snd e) + 2"
  have "rtw_get_ie ?m (length pre) index 0 (int lim - int (length pre))
     = (if int lim - int (length pre) \<le> int ?n then Some (None, 0)
        else rtw_get_ie_loop ?m index (int lim - int (length pre)) (length pre + ?n) ?n)"
    using 3 by (simp add: rtw_get_ie_def rtw_get_ie_loop.simps [of ?m index _ "length pre" 0] ie_read)
  also have "\<dots> = rtw_get_ie ?m (length pre + ?n) index 0 (int lim - int (length pre + ?n))"
    using rtw_get_ie_loop_restart [of ?n "int lim - int (length pre)" ?m index "length pre + ?n"]
    by (simp add: rtw_get_ie_def algebra_simps)
  finally show ?case
    by (simp add: algebra_simps)
qed

section \<open>\<open>rtw_get_ie_ex\<close> finds the first element with a matching OUI\<close>

definition hit_ie_ex :: "u8 \<Rightarrow> mem option \<Rightarrow> nat \<Rightarrow> ie \<Rightarrow> bool" where
  "hit_ie_ex eid oui oui_len e \<longleftrightarrow>
     fst e = eid \<and> (case oui of None \<Rightarrow> True | Some d \<Rightarrow> take oui_len (snd e) = take oui_len d)"

text \<open>The comparison of an OUI stays inside the element and inside the OUI.\<close>

definition good_ie_ex :: "u8 \<Rightarrow> mem option \<Rightarrow> nat \<Rightarrow> ie \<Rightarrow> bool" where
  "good_ie_ex eid oui oui_len e \<longleftrightarrow>
     good_ie e \<and>
     (case oui of None \<Rightarrow> True
      | Some d \<Rightarrow> oui_len \<le> length d \<and> (fst e = eid \<longrightarrow> oui_len \<le> length (snd e)))"

lemma good_ie_ex_good [simp]: "good_ie_ex eid oui oui_len e \<Longrightarrow> good_ie e"
  by (simp add: good_ie_ex_def)

lemma ie_ex_match_enc:
  assumes "good_ie_ex eid oui oui_len e"
  shows "ie_ex_match (pre @ enc_ie e @ post) (length pre) eid oui oui_len = Some (hit_ie_ex eid oui oui_len e)"
proof (cases "fst e = eid")
  case True
  then have match: "ie_ex_match (pre @ enc_ie e @ post) (length pre) eid oui oui_len
      = oui_match (pre @ enc_ie e @ post) (length pre + 2) oui oui_len"
    by (simp add: ie_ex_match_def)
  show ?thesis
  proof (cases oui)
    case None
    then show ?thesis
      unfolding match using True by (simp add: oui_match_def hit_ie_ex_def)
  next
    case (Some d)
    then have "oui_len \<le> length (snd e)" "oui_len \<le> length d"
      using True assms by (simp_all add: good_ie_ex_def)
    then show ?thesis
      using match oui_match_enc [of oui_len e d pre post] Some True by (simp add: hit_ie_ex_def)
  qed
next
  case False
  then show ?thesis
    by (auto simp: ie_ex_match_def hit_ie_ex_def)
qed

lemma put_ielen_enc:
  "good_ie e \<Longrightarrow> put_ielen (pre @ enc_ie e @ post) (length pre) ielen = Some (map_option (\<lambda>_. length (enc_ie e)) ielen)"
  by (simp add: put_ielen_def ie_read split: option.split)

lemma rtw_get_ie_ex_loop_shift:
  "rtw_get_ie_ex_loop m a n eid oui oui_len ie ielen cnt
     = rtw_get_ie_ex_loop m (a + cnt) (n - cnt) eid oui oui_len ie ielen 0"
proof -
  have "rtw_get_ie_ex_loop m a (n + k) eid oui oui_len ie ielen (cnt + k)
     = rtw_get_ie_ex_loop m (a + k) n eid oui oui_len ie ielen cnt" for k n cnt
  proof (induction m "a + k" n eid oui oui_len ie ielen cnt rule: rtw_get_ie_ex_loop.induct)
    case (1 m n eid oui oui_len ie ielen cnt)
    note unfold = rtw_get_ie_ex_loop.simps [of m "a + k" n eid oui oui_len ie ielen cnt]
      rtw_get_ie_ex_loop.simps [of m a "n + k" eid oui oui_len ie ielen "cnt + k"]
    have eq: "a + (cnt + k) = a + k + cnt"
      by simp
    show ?case
      unfolding unfold eq using "1" by (auto simp: ac_simps intro!: bind_option_cong)
  qed
  from this [of "n - cnt" cnt 0] show ?thesis
    by (cases "cnt \<le> n") (auto simp: rtw_get_ie_ex_loop.simps [of m a n] rtw_get_ie_ex_loop.simps [of _ _ 0])
qed


lemma rtw_get_ie_ex_unfold:
  "rtw_get_ie_ex m (Some a) n eid oui oui_len ie ielen =
     (if n = 0 then Some (None, ie, map_option (\<lambda>_. 0) ielen)
      else do {
        hit \<leftarrow> ie_ex_match m a eid oui oui_len;
        if hit then do {
          ie' \<leftarrow> copy_ie_out m a ie;
          ielen' \<leftarrow> put_ielen m a ielen;
          Some (Some a, ie', ielen') }
        else do { l \<leftarrow> rd8 m (a + 1);
                  rtw_get_ie_ex m (Some (a + (unat l + 2))) (n - (unat l + 2)) eid oui oui_len ie ielen } })"
proof -
  have restart: "rtw_get_ie_ex_loop m a n eid oui oui_len ie (map_option (\<lambda>_. 0) ielen) k
      = rtw_get_ie_ex m (Some (a + k)) (n - k) eid oui oui_len ie ielen" for k
    using rtw_get_ie_ex_loop_shift [of m a n eid oui oui_len ie "map_option (\<lambda>_. 0) ielen" k]
    by (auto simp: rtw_get_ie_ex_def Let_def rtw_get_ie_ex_loop.simps [of _ _ 0])
  have put: "put_ielen m a (map_option (\<lambda>_. 0) ielen) = put_ielen m a ielen"
    by (simp add: put_ielen_def split: option.split)
  show ?thesis
  proof (cases "n = 0")
    case False
    then have "rtw_get_ie_ex m (Some a) n eid oui oui_len ie ielen
        = rtw_get_ie_ex_loop m a n eid oui oui_len ie (map_option (\<lambda>_. 0) ielen) 0"
      by (simp add: rtw_get_ie_ex_def)
    then show ?thesis
      using False by (simp add: rtw_get_ie_ex_loop.simps [of m a n _ _ _ _ _ 0] restart put cong: if_cong)
  qed (simp add: rtw_get_ie_ex_def)
qed

interpretation get_ie_ex: tlv_search enc_ie "good_ie_ex eid oui oui_len" "hit_ie_ex eid oui oui_len"
  "\<lambda>m lim p. rtw_get_ie_ex m (Some p) (lim - p) eid oui oui_len ie ielen"
  "\<lambda>m a e. do { ie' \<leftarrow> copy_ie_out m a ie; Some (Some a, ie', map_option (\<lambda>_. length (enc_ie e)) ielen) }"
  "Some (None, ie, map_option (\<lambda>_. 0) ielen)" 0 for eid oui oui_len ie ielen
proof (unfold_locales, goal_cases)
  case (1 m lim)
  show ?case by (simp add: rtw_get_ie_ex_def)
next
  case (2 e pre lim post)
  then show ?case
    by (subst rtw_get_ie_ex_unfold) (simp add: ie_ex_match_enc put_ielen_enc)
next
  case (3 e pre lim post)
  then show ?case
    by (subst rtw_get_ie_ex_unfold) (simp add: ie_ex_match_enc ie_read)
qed


section \<open>\<open>rtw_ies_remove_ie\<close> filters the stream\<close>

lemma rtw_get_ie_ex_stream:
  assumes "\<forall>e\<in>set es. good_ie_ex eid oui oui_len e"
  shows "rtw_get_ie_ex (pre @ stream enc_ie es @ post) (Some (length pre)) (length (stream enc_ie es))
           eid oui oui_len None (Some k) =
         (case tlv_find enc_ie (hit_ie_ex eid oui oui_len) (length pre) es of
            None \<Rightarrow> Some (None, None, Some 0)
          | Some (a, e) \<Rightarrow> Some (Some a, None, Some (length (enc_ie e))))"
  using get_ie_ex.srch_correct [OF assms refl le0, of pre post None "Some k"]
  by (simp add: copy_ie_out_def split: option.split)

lemma rtw_memcpy_back:
  assumes "length ys \<le> MAX_IE_SZ"
  shows "rtw_memcpy (replicate MAX_IE_SZ 0) 0 (xs @ d @ ys @ zs) (length xs + length d) (length ys)
           = Some (ys @ replicate (MAX_IE_SZ - length ys) 0)"
    and "\<exists>zs'. rtw_memcpy (xs @ d @ ys @ zs) (length xs) (ys @ replicate (MAX_IE_SZ - length ys) 0) 0 (length ys)
           = Some (xs @ ys @ zs') \<and> length zs' = length d + length zs"
proof -
  have "rd_bytes (xs @ d @ ys @ zs) (length xs + length d) (length ys) = Some ys"
    by simp
  then show "rtw_memcpy (replicate MAX_IE_SZ 0) 0 (xs @ d @ ys @ zs) (length xs + length d) (length ys)
           = Some (ys @ replicate (MAX_IE_SZ - length ys) 0)"
    using assms by (simp add: rtw_memcpy_def wr_bytes_def)
  show "\<exists>zs'. rtw_memcpy (xs @ d @ ys @ zs) (length xs) (ys @ replicate (MAX_IE_SZ - length ys) 0) 0 (length ys)
           = Some (xs @ ys @ zs') \<and> length zs' = length d + length zs"
    by (simp add: rtw_memcpy_def wr_bytes_def)
qed

lemma rtw_ies_remove_ie_loop_stream:
  assumes "\<forall>e\<in>set es. good_ie_ex eid oui oui_len e" and "length (stream enc_ie es) \<le> MAX_IE_SZ"
    and "length (stream enc_ie es) \<le> n" and "n < 2 ^ 32"
  shows "\<exists>post'. rtw_ies_remove_ie_loop (pre @ stream enc_ie es @ post) n eid oui oui_len
             (length pre) (length (stream enc_ie es)) ret
           = Some (pre @ stream enc_ie (filter (\<lambda>e. \<not> hit_ie_ex eid oui oui_len e) es) @ post',
                   n - (length (stream enc_ie es) - length (stream enc_ie (filter (\<lambda>e. \<not> hit_ie_ex eid oui oui_len e) es))),
                   ret \<or> (\<exists>e\<in>set es. hit_ie_ex eid oui oui_len e))
         \<and> length (stream enc_ie (filter (\<lambda>e. \<not> hit_ie_ex eid oui oui_len e) es) @ post') = length (stream enc_ie es @ post)"
  using assms
proof (induction "length es" arbitrary: es pre post n ret rule: less_induct)
  case less
  let ?hit = "hit_ie_ex eid oui oui_len"
  let ?m = "pre @ stream enc_ie es @ post"
  note unfold = rtw_ies_remove_ie_loop.simps [of ?m n eid oui oui_len "length pre" "length (stream enc_ie es)" ret]
    rtw_get_ie_ex_stream [OF less.prems(1)]
  show ?case
  proof (cases "tlv_find enc_ie ?hit (length pre) es")
    case None
    then have "filter (\<lambda>e. \<not> ?hit e) es = es" "\<not> (\<exists>e\<in>set es. ?hit e)"
      by (auto simp: tlv_find_None filter_id_conv)
    then show ?thesis
      by (simp add: unfold None)
  next
    case (Some ae)
    obtain a e where ae: "ae = (a, e)" by (cases ae)
    obtain xs ys where es: "es = xs @ e # ys" and a: "a = length pre + length (stream enc_ie xs)"
      and e: "?hit e" and xs: "\<forall>x\<in>set xs. \<not> ?hit x"
      using tlv_find_Some [OF Some [unfolded ae]] by blast
    let ?xs = "pre @ stream enc_ie xs" and ?d = "enc_ie e" and ?ys = "stream enc_ie ys"
    have m: "?m = ?xs @ ?d @ ?ys @ post"
      by (simp add: es)
    have d_pos: "?d \<noteq> []"
      by (simp add: enc_ie_def)
    have ys_le: "length ?ys \<le> MAX_IE_SZ"
      using less.prems(2) by (simp add: es)
    have remain: "sub_u32 (length (stream enc_ie es)) (length (stream enc_ie xs) + length ?d) = length ?ys"
      using less.prems by (subst sub_u32_le) (simp_all add: es)
    have sub_n: "sub_u32 n (length ?d) = n - length ?d"
      using less.prems by (subst sub_u32_le) (simp_all add: es)
    obtain zs' where zs': "rtw_memcpy ?m (length ?xs) (?ys @ replicate (MAX_IE_SZ - length ?ys) 0) 0 (length ?ys)
           = Some (?xs @ ?ys @ zs')" and zs'_len: "length zs' = length ?d + length post"
      using rtw_memcpy_back(2) [OF ys_le, of ?xs ?d post] unfolding m by blast
    have step: "rtw_ies_remove_ie_loop ?m n eid oui oui_len (length pre) (length (stream enc_ie es)) ret
        = rtw_ies_remove_ie_loop (?xs @ ?ys @ zs') (n - length ?d) eid oui oui_len (length ?xs) (length ?ys) True"
      using rtw_memcpy_back(1) [OF ys_le, of ?xs ?d post] zs'
      unfolding unfold Some ae m [symmetric]
      by (simp add: remain sub_n a Let_def add.assoc d_pos del: length_enc_ie)
    have ys_prems: "length ys < length es" "\<forall>e\<in>set ys. good_ie_ex eid oui oui_len e"
      "length ?ys \<le> n - length ?d" "n - length ?d < 2 ^ 32"
      using less.prems by (auto simp: es)
    obtain post' where rec: "rtw_ies_remove_ie_loop (?xs @ ?ys @ zs') (n - length ?d) eid oui oui_len (length ?xs) (length ?ys) True
        = Some (?xs @ stream enc_ie (filter (\<lambda>e. \<not> ?hit e) ys) @ post',
             n - length ?d - (length ?ys - length (stream enc_ie (filter (\<lambda>e. \<not> ?hit e) ys))), True)"
      and post'_len: "length (stream enc_ie (filter (\<lambda>e. \<not> ?hit e) ys) @ post') = length (?ys @ zs')"
      using less.hyps [OF ys_prems(1,2) ys_le ys_prems(3,4), of ?xs zs' True] by auto
    have filt: "filter (\<lambda>e. \<not> ?hit e) xs = xs"
      using xs by (simp add: filter_id_conv)
    have "length (stream enc_ie (filter (\<lambda>e. \<not> ?hit e) ys)) \<le> length ?ys"
      by (induction ys) auto
    then show ?thesis
      unfolding step rec using e post'_len zs'_len by (intro exI [of _ post']) (auto simp: es filt)
  qed
qed

section \<open>Properties of the element search\<close>

lemma rtw_get_ie_stream:
  assumes "\<forall>e\<in>set es. good_ie e" and "es \<noteq> []"
  shows "rtw_get_ie (pre @ stream enc_ie es @ post) (length pre) index len (int (length (stream enc_ie es))) =
           (case tlv_find enc_ie (\<lambda>e. uint (fst e) = index) (length pre) es of
              None \<Rightarrow> Some (None, 0)
            | Some (a, e) \<Rightarrow> Some (Some a, int (length (snd e))))"
proof -
  have lim: "\<not> int (length (stream enc_ie es)) < 1"
    using assms(2) by (cases es) auto
  then have "rtw_get_ie (pre @ stream enc_ie es @ post) (length pre) index len (int (length (stream enc_ie es)))
       = rtw_get_ie (pre @ stream enc_ie es @ post) (length pre) index 0 (int (length (stream enc_ie es)))"
    by (simp only: rtw_get_ie_def if_not_P [OF lim] if_False)
  then show ?thesis
    using get_ie.srch_correct [OF assms(1) refl le0, of pre post index] by simp
qed

text \<open>C16. On a well-formed element list \<open>rtw_get_ie\<close> returns the address and the length of
  the first element with the given id, and NULL when there is none, whatever surrounds the
  list in memory and whatever \<open>*len\<close> held before.\<close>

theorem rtw_get_ie_first:
  assumes "\<forall>e\<in>set es. good_ie e" and "es \<noteq> []"
  shows "rtw_get_ie (pre @ stream enc_ie es @ post) (length pre) index len (int (length (stream enc_ie es))) =
           (case tlv_find enc_ie (\<lambda>e. uint (fst e) = index) (length pre) es of
              None \<Rightarrow> Some (None, 0)
            | Some (a, e) \<Rightarrow> Some (Some a, int (length (snd e))))"
  using assms by (rule rtw_get_ie_stream)

theorem rtw_get_ie_first_witness:
  "rtw_get_ie ([7, 7] @ stream enc_ie [(0, [65, 66]), (48, [1, 0]), (1, [130])] @ [9]) 2 48 0
      (int (length (stream enc_ie [(0, [65, 66]), (48, [1, 0]), (1, [130])]))) = Some (Some 6, 2)"
  using rtw_get_ie_first [of "[(0, [65, 66]), (48, [1, 0]), (1, [130])]" "[7, 7]" "[9]" 48 0]
  by (simp add: good_ie_def One_nat_def [symmetric] del: One_nat_def)

lemma rtw_get_ie_loop_in_bounds:
  "int i < limit \<Longrightarrow> int p + (limit - int i) < int (length m) \<Longrightarrow> rtw_get_ie_loop m index limit p i \<noteq> None"
proof (induction m index limit p i rule: rtw_get_ie_loop.induct)
  case (1 m index limit p i)
  have b: "rd8 m p = Some (m ! p)" and t: "rd8 m (p + 1) = Some (m ! (p + 1))"
    using "1.prems" by (simp_all add: rd8_in)
  show ?case
    using "1.IH" [OF b _ t refl refl] "1.prems" b t
    by (auto simp: rtw_get_ie_loop.simps [of m index limit p i] Let_def)
qed

text \<open>\<open>rtw_get_ie\<close> reads at most one byte past its limit: for arbitrary contents the
  search performs no access outside the object when the object extends one byte beyond the
  limit.\<close>

theorem rtw_get_ie_in_bounds:
  assumes "int pbuf + limit < int (length m)"
  shows "rtw_get_ie m pbuf index len limit \<noteq> None"
  using assms rtw_get_ie_loop_in_bounds [of 0 limit pbuf m index] by (auto simp: rtw_get_ie_def)

theorem rtw_get_ie_in_bounds_witness:
  "rtw_get_ie [1, 200, 3] 0 5 0 2 \<noteq> None"
  using rtw_get_ie_in_bounds [of 0 2 "[1, 200, 3]" 5 0] by simp

text \<open>The byte past the limit is really read: on a one-byte buffer passed with its exact
  size as the limit, every search leaves the object.\<close>

theorem rtw_get_ie_overread: "rtw_get_ie [b] 0 index len 1 = None"
  by (simp add: rtw_get_ie_def rtw_get_ie_loop.simps [of "[b]" index 1 0 0])




section \<open>Writing an element and reading it back\<close>

lemma rtw_set_ie_eq:
  assumes "pbuf + len + 2 \<le> length m" and "len \<le> length source"
  shows "rtw_set_ie m pbuf index len source frlen =
           Some (take pbuf m @ (word_of_int index # word_of_nat len # take len source) @ drop (pbuf + len + 2) m,
                 pbuf + len + 2, frlen + (len + 2))"
proof (cases "len = 0")
  case True
  then show ?thesis
    using assms by (simp add: rtw_set_ie_def wr_bytes_def bind_eq_Some_conv min_def Suc_diff_le)
next
  case False
  have rd: "rd_bytes source 0 len = Some (take len source)"
    using assms by (simp add: rd_bytes_in)
  then show ?thesis
    using assms False by (auto simp: rtw_set_ie_def rtw_memcpy_def wr_bytes_def min_def Suc_diff_le ac_simps)
qed

text \<open>What \<open>rtw_set_ie\<close> writes, \<open>rtw_get_ie\<close> reads back: the element lies at the
  given place with its id, length and payload, the pointer and the frame length advance by
  the size of the element, no other byte of the object changes, and a search from there finds
  it.\<close>

theorem rtw_set_get_ie_roundtrip:
  assumes "0 \<le> index" "index < 256" and "len < 256" and "len \<le> length source"
    and "pbuf + len + 2 \<le> length m"
  shows "\<exists>m'. rtw_set_ie m pbuf index len source frlen = Some (m', pbuf + len + 2, frlen + (len + 2))
       \<and> rd_bytes m' pbuf (len + 2) = Some (enc_ie (word_of_int index, take len source))
       \<and> length m' = length m
       \<and> (\<forall>k. k < pbuf \<or> pbuf + len + 2 \<le> k \<longrightarrow> m' ! k = m ! k)
       \<and> rtw_get_ie m' pbuf index l0 (int (len + 2)) = Some (Some pbuf, int len)"
proof -
  let ?e = "(word_of_int index, take len source) :: ie"
  let ?m = "take pbuf m @ enc_ie ?e @ drop (pbuf + len + 2) m"
  have enc: "enc_ie ?e = word_of_int index # word_of_nat len # take len source"
    using assms by (simp add: enc_ie_def min_def)
  have len_e: "length (enc_ie ?e) = len + 2"
    using assms by simp
  have pre: "length (take pbuf m) = pbuf"
    using assms by simp
  have set_ie: "rtw_set_ie m pbuf index len source frlen = Some (?m, pbuf + len + 2, frlen + (len + 2))"
    using rtw_set_ie_eq [OF assms(5,4)] by (simp add: enc)
  have rd: "rd_bytes ?m pbuf (len + 2) = Some (enc_ie ?e)"
    using rd_bytes_append_at0 [of "take pbuf m"] pre len_e by simp
  have frame: "?m ! k = m ! k" if "k < pbuf \<or> pbuf + len + 2 \<le> k" for k
    using that assms len_e by (auto simp: nth_append intro!: arg_cong [of _ _ "(!) m"])
  have "uint (fst ?e) = index"
    using assms by (simp add: uint_word_of_int)
  then have "rtw_get_ie ?m pbuf index l0 (int (len + 2)) = Some (Some pbuf, int len)"
    using rtw_get_ie_stream [of "[?e]" "take pbuf m" "drop (pbuf + len + 2) m" index l0] assms
    by (simp add: good_ie_def)
  moreover have "length ?m = length m"
    using assms len_e by simp
  ultimately show ?thesis
    using set_ie rd frame by blast
qed

theorem rtw_set_get_ie_roundtrip_witness:
  "\<exists>m'. rtw_set_ie [9, 9, 9, 9, 9, 9] 1 48 2 [1, 0, 7] 36 = Some (m', 1 + 2 + 2, 36 + (2 + 2))
       \<and> rtw_get_ie m' 1 48 0 (int (2 + 2)) = Some (Some 1, int 2)"
  using rtw_set_get_ie_roundtrip [of 48 2 "[1, 0, 7]" 1 "[9, 9, 9, 9, 9, 9]" 36 0] by auto

lemma rtw_get_ie_loop_no_id:
  "255 < index \<Longrightarrow> rtw_get_ie_loop m index limit p i \<noteq> Some (Some q, l)"
proof (induction m index limit p i rule: rtw_get_ie_loop.induct)
  case (1 m index limit p i)
  have ne: "uint (b :: u8) \<noteq> index" for b
    using "1.prems" uint_lt2p [of b] by simp
  show ?case
  proof (cases "rd8 m p")
    case (Some b)
    then show ?thesis
    proof (cases "rd8 m (p + 1)")
      case (Some t)
      then show ?thesis
        using "1.IH" [OF \<open>rd8 m p = Some b\<close> ne Some refl refl] "1.prems" \<open>rd8 m p = Some b\<close> ne
        by (auto simp: rtw_get_ie_loop.simps [of m index limit p i] Let_def)
    qed (use ne in \<open>auto simp: rtw_get_ie_loop.simps [of m index limit p i]\<close>)
  qed (simp add: rtw_get_ie_loop.simps [of m index limit p i])
qed

lemma rtw_get_ie_no_id: "255 < index \<Longrightarrow> rtw_get_ie m p index len limit \<noteq> Some (Some q, l)"
  by (simp add: rtw_get_ie_def rtw_get_ie_loop_no_id)

text \<open>\<open>rtw_set_ie_mesh_ch_switch_parm\<close> passes the element id \<open>0x118\<close>, which does
  not fit the id byte: the element that is written carries the id \<open>0x18\<close>, and a search for
  the id the function was given never finds it, in any buffer.\<close>

theorem rtw_set_ie_mesh_id_truncated:
  assumes "buf + 8 \<le> length m"
  shows "\<exists>m'. rtw_set_ie_mesh_ch_switch_parm m buf n ttl flags reason precedence = Some (m', buf + 8, n + 8)
            \<and> rd8 m' buf = Some 0x18
            \<and> (\<forall>limit l q. rtw_get_ie m' buf 0x118 l0 limit \<noteq> Some (Some q, l))"
proof -
  let ?d = "[ttl, flags] @ RTW_PUT_LE16 reason @ RTW_PUT_LE16 precedence"
  have d: "length ?d = 6"
    by (simp add: RTW_PUT_LE16_def)
  have "rtw_set_ie m buf 0x118 6 ?d n
     = Some (take buf m @ (word_of_int 0x118 # word_of_nat 6 # take 6 ?d) @ drop (buf + 6 + 2) m, buf + 6 + 2, n + (6 + 2))"
    using assms d by (intro rtw_set_ie_eq) simp_all
  moreover have "rd8 (take buf m @ (word_of_int 0x118 # word_of_nat 6 # take 6 ?d) @ drop (buf + 6 + 2) m) buf = Some 0x18"
    using assms rd8_append_at0 [of "take buf m"] by simp
  ultimately show ?thesis
    by (auto simp: rtw_set_ie_mesh_ch_switch_parm_def rtw_get_ie_no_id)
qed

theorem rtw_set_ie_mesh_id_truncated_witness:
  "\<exists>m'. rtw_set_ie_mesh_ch_switch_parm (replicate 10 0) 1 0 5 1 4660 7 = Some (m', 1 + 8, 0 + 8) \<and> rd8 m' 1 = Some 0x18"
  using rtw_set_ie_mesh_id_truncated [where buf = 1 and m = "replicate 10 0" and n = 0 and ttl = 5 and flags = 1
      and reason = 4660 and precedence = 7 and ?l0.0 = 0] by auto


section \<open>The trace loop of \<open>rtw_get_sec_ie\<close>\<close>

lemma u8_step8: "8 dvd unat (i :: u8) \<Longrightarrow> 8 dvd unat (i + 8)"
  by (simp add: unat_word_ariths dvd_mod)

lemma trace_ie_stuck:
  assumes "8 dvd unat i" "248 < n" "256 \<le> length buf"
  shows "trace_ie buf n i = None"
proof (rule ccontr)
  assume "trace_ie buf n i \<noteq> None"
  then obtain r where r: "trace_ie buf n i = Some r" by blast
  have "\<not> (8 dvd unat i \<and> 248 < n \<and> 256 \<le> length buf)"
  proof (rule trace_ie.raw_induct
      [where P = "\<lambda>buf n i r. \<not> (8 dvd unat i \<and> 248 < n \<and> 256 \<le> length buf)", OF _ r])
    fix f :: "mem \<Rightarrow> nat \<Rightarrow> u8 \<Rightarrow> unit run" and buf :: mem and n i r
    assume IH: "\<And>buf n i r. f buf n i = Some r \<Longrightarrow> \<not> (8 dvd unat i \<and> 248 < n \<and> 256 \<le> length buf)"
      and eq: "(if unat i < n then if unat i + 7 < length buf then f buf n (i + 8) else Some None
                else Some (Some ())) = Some r"
    show "\<not> (8 dvd unat i \<and> 248 < n \<and> 256 \<le> length buf)"
    proof
      assume a: "8 dvd unat i \<and> 248 < n \<and> 256 \<le> length buf"
      then have "unat i \<le> 248"
        using unat_u8_lt [of i] by presburger
      then have "f buf n (i + 8) = Some r"
        using eq a by (simp split: if_splits)
      then show False
        using IH [of buf n "i + 8"] a u8_step8 by blast
    qed
  qed
  then show False
    using assms by simp
qed

lemma copy_ie_trace_stuck:
  assumes "good_ie e" "247 \<le> length (snd e)" "257 \<le> length buf"
  shows "copy_ie_trace (pre @ enc_ie e @ post) (length pre) (Some buf) = None"
proof -
  have "rd_bytes (pre @ enc_ie e @ post) (length pre) (length (snd e) + 2) = Some (enc_ie e)"
    by (simp add: rd_bytes_prefix)
  then obtain d' where d': "rtw_memcpy buf 0 (pre @ enc_ie e @ post) (length pre) (length (snd e) + 2) = Some d'"
    "length d' = length buf"
    using assms by (auto simp: rtw_memcpy_def wr_bytes_def good_ie_def)
  then have "trace_ie d' (length (snd e) + 2) 0 = None"
    using assms by (intro trace_ie_stuck) auto
  then show ?thesis
    using d' assms by (simp add: copy_ie_trace_def ie_read)
qed



end
