(* ===== verification/Ie_Attr.thy ===== *)
theory Ie_Attr
  imports Ie_Search
begin

text \<open>
  The vendor elements of \<^verbatim>\<open>core/rtw_ieee80211.c\<close> (WPS, P2P, WFD) and the attributes they
  carry. WPS attributes have a two-byte big-endian id and length, P2P attributes a one-byte
  id and a little-endian length, WFD attributes a one-byte id and a big-endian length. The
  attribute length of the WPS and P2P loops is a 16-bit sum, kept at its width: it can wrap
  to zero, and the loop then makes no progress.
\<close>

section \<open>WPS\<close>

definition rtw_is_wps_ie :: "mem \<Rightarrow> nat option \<Rightarrow> nat \<Rightarrow> (bool \<times> nat) option" where
  "rtw_is_wps_ie m ie_ptr wps_ielen =
     (case ie_ptr of None \<Rightarrow> Some (False, wps_ielen)
      | Some a \<Rightarrow> do {
          eid \<leftarrow> rd8 m a;
          hit \<leftarrow> (if eid = WPA_IE_ID then rtw_memcmp m (a + 2) wps_oui 0 4 else Some False);
          if hit then do { l \<leftarrow> rd8 m (a + 1); Some (True, unat l + 2) }
          else Some (False, wps_ielen) })"

function rtw_get_wps_ie_loop ::
  "mem \<Rightarrow> nat \<Rightarrow> nat \<Rightarrow> mem option \<Rightarrow> nat option \<Rightarrow> nat
     \<Rightarrow> (nat option \<times> mem option \<times> nat option) option" where
  "rtw_get_wps_ie_loop m in_ie in_len wps_ie wps_ielen cnt =
     (if cnt < in_len then do {
        hit \<leftarrow> ie_ex_match m (in_ie + cnt) WPA_IE_ID (Some wps_oui) 4;
        if hit then do {
          w \<leftarrow> copy_ie_out m (in_ie + cnt) wps_ie;
          n \<leftarrow> put_ielen m (in_ie + cnt) wps_ielen;
          Some (Some (in_ie + cnt), w, n) }
        else do {
          l \<leftarrow> rd8 m (in_ie + cnt + 1);
          rtw_get_wps_ie_loop m in_ie in_len wps_ie wps_ielen (cnt + (unat l + 2)) } }
      else Some (None, wps_ie, wps_ielen))"
  by pat_completeness auto
termination
  by (relation "measure (\<lambda>(m, in_ie, in_len, wps_ie, wps_ielen, cnt). in_len - cnt)") auto

definition rtw_get_wps_ie ::
  "mem \<Rightarrow> nat option \<Rightarrow> nat \<Rightarrow> mem option \<Rightarrow> nat option
     \<Rightarrow> (nat option \<times> mem option \<times> nat option) option" where
  "rtw_get_wps_ie m in_ie in_len wps_ie wps_ielen =
     (let wps_ielen = map_option (\<lambda>_. 0) wps_ielen in
      case in_ie of None \<Rightarrow> Some (None, wps_ie, wps_ielen)
      | Some a \<Rightarrow> if in_len = 0 then Some (None, wps_ie, wps_ielen)
                  else rtw_get_wps_ie_loop m a in_len wps_ie wps_ielen 0)"

definition rtw_get_wps_ie_from_scan_queue ::
  "mem \<Rightarrow> nat \<Rightarrow> nat \<Rightarrow> mem option \<Rightarrow> nat option \<Rightarrow> u8
     \<Rightarrow> (nat option \<times> mem option \<times> nat option) option" where
  "rtw_get_wps_ie_from_scan_queue m in_ie in_len wps_ie wps_ielen frame_type =
     (if frame_type = 1 \<or> frame_type = 3
      then rtw_get_wps_ie m (Some (in_ie + 12)) (sub_u32 in_len 12) wps_ie wps_ielen
      else if frame_type = 2 then rtw_get_wps_ie m (Some (in_ie + 0)) (sub_u32 in_len 0) wps_ie wps_ielen
      else Some (None, wps_ie, wps_ielen))"

text \<open>The copy and the stored length of an attribute that was found.\<close>

definition attr_out ::
  "mem \<Rightarrow> nat \<Rightarrow> u16 \<Rightarrow> mem option \<Rightarrow> nat option \<Rightarrow> (nat option \<times> mem option \<times> nat option) option" where
  "attr_out m attr_ptr attr_len buf_attr len_attr = do {
     b \<leftarrow> (case buf_attr of None \<Rightarrow> Some None
          | Some d \<Rightarrow> do { d' \<leftarrow> rtw_memcpy d 0 m attr_ptr (unat attr_len); Some (Some d') });
     Some (Some attr_ptr, b, map_option (\<lambda>_. unat attr_len) len_attr) }"

definition wps_attr_hdr :: "mem \<Rightarrow> nat \<Rightarrow> (u16 \<times> u16) option" where
  "wps_attr_hdr m attr_ptr = do {
     attr_id \<leftarrow> RTW_GET_BE16 m attr_ptr;
     attr_data_len \<leftarrow> RTW_GET_BE16 m (attr_ptr + 2);
     Some (attr_id, attr_data_len + 4) }"

partial_function (option) rtw_get_wps_attr_loop ::
  "mem \<Rightarrow> nat \<Rightarrow> nat \<Rightarrow> u16 \<Rightarrow> mem option \<Rightarrow> nat option \<Rightarrow> nat
     \<Rightarrow> (nat option \<times> mem option \<times> nat option) run" where
  "rtw_get_wps_attr_loop m wps_ie wps_ielen target_attr_id buf_attr len_attr attr_ptr =
     (if attr_ptr - wps_ie < wps_ielen then
        (case wps_attr_hdr m attr_ptr of
           None \<Rightarrow> Some None
         | Some (attr_id, attr_len) \<Rightarrow>
             if attr_id = target_attr_id then Some (attr_out m attr_ptr attr_len buf_attr len_attr)
             else rtw_get_wps_attr_loop m wps_ie wps_ielen target_attr_id buf_attr len_attr
                    (attr_ptr + unat attr_len))
      else Some (Some (None, buf_attr, len_attr)))"

definition rtw_get_wps_attr ::
  "mem \<Rightarrow> nat \<Rightarrow> nat \<Rightarrow> u16 \<Rightarrow> mem option \<Rightarrow> nat option
     \<Rightarrow> (nat option \<times> mem option \<times> nat option) run" where
  "rtw_get_wps_attr m wps_ie wps_ielen target_attr_id buf_attr len_attr =
     (let len_attr = map_option (\<lambda>_. 0) len_attr in
      run_bind (Some (ie_ex_match m wps_ie VENDOR_SPECIFIC_IE (Some wps_oui) 4)) (\<lambda>ok.
        if \<not> ok then Some (Some (None, buf_attr, len_attr))
        else rtw_get_wps_attr_loop m wps_ie wps_ielen target_attr_id buf_attr len_attr (wps_ie + 6)))"

text \<open>The content variant: the attribute without its header, NULL when its length is 0.\<close>

definition attr_content_out ::
  "mem \<Rightarrow> nat \<Rightarrow> (nat option \<times> mem option \<times> nat option) \<Rightarrow> mem option \<Rightarrow> nat option
     \<Rightarrow> (nat option \<times> mem option \<times> nat option) option" where
  "attr_content_out m hdr r buf_content len_content =
     (case r of
        (Some attr_ptr, _, Some attr_len) \<Rightarrow>
          if attr_len = 0 then Some (None, buf_content, len_content)
          else do {
            b \<leftarrow> (case buf_content of None \<Rightarrow> Some None
                 | Some d \<Rightarrow> do { d' \<leftarrow> rtw_memcpy d 0 m (attr_ptr + hdr) (sub_u32 attr_len hdr); Some (Some d') });
            Some (Some (attr_ptr + hdr), b, map_option (\<lambda>_. sub_u32 attr_len hdr) len_content) }
      | _ \<Rightarrow> Some (None, buf_content, len_content))"

definition rtw_get_wps_attr_content ::
  "mem \<Rightarrow> nat \<Rightarrow> nat \<Rightarrow> u16 \<Rightarrow> mem option \<Rightarrow> nat option
     \<Rightarrow> (nat option \<times> mem option \<times> nat option) run" where
  "rtw_get_wps_attr_content m wps_ie wps_ielen target_attr_id buf_content len_content =
     (let len_content = map_option (\<lambda>_. 0) len_content in
      run_bind (rtw_get_wps_attr m wps_ie wps_ielen target_attr_id None (Some 0)) (\<lambda>r.
        Some (attr_content_out m 4 r buf_content len_content)))"

section \<open>P2P\<close>

text \<open>
  \<open>rtw_get_p2p_ie\<close> has a signed \<open>in_len\<close>: the loop guard compares it as unsigned, the
  body tests its sign after having read the first element id.
\<close>

function rtw_get_p2p_ie_loop ::
  "mem \<Rightarrow> nat \<Rightarrow> int \<Rightarrow> mem option \<Rightarrow> nat option \<Rightarrow> nat
     \<Rightarrow> (nat option \<times> mem option \<times> nat option) option" where
  "rtw_get_p2p_ie_loop m in_ie in_len p2p_ie p2p_ielen cnt =
     (if int cnt < in_len mod 2 ^ 32 then do {
        eid \<leftarrow> rd8 m (in_ie + cnt);
        if in_len < 0 \<or> cnt > MAX_IE_SZ then Some (None, p2p_ie, p2p_ielen)
        else do {
          hit \<leftarrow> (if eid = VENDOR_SPECIFIC_IE then rtw_memcmp m (in_ie + cnt + 2) p2p_oui 0 4 else Some False);
          if hit then do {
            w \<leftarrow> copy_ie_out m (in_ie + cnt) p2p_ie;
            n \<leftarrow> put_ielen m (in_ie + cnt) p2p_ielen;
            Some (Some (in_ie + cnt), w, n) }
          else do {
            l \<leftarrow> rd8 m (in_ie + cnt + 1);
            rtw_get_p2p_ie_loop m in_ie in_len p2p_ie p2p_ielen (cnt + (unat l + 2)) } } }
      else Some (None, p2p_ie, p2p_ielen))"
  by pat_completeness auto
termination
  by (relation "measure (\<lambda>(m, in_ie, in_len, p2p_ie, p2p_ielen, cnt). nat (in_len mod 2 ^ 32) - cnt)")
    (auto simp: zless_nat_eq_int_zless)

definition rtw_get_p2p_ie ::
  "mem \<Rightarrow> nat \<Rightarrow> int \<Rightarrow> mem option \<Rightarrow> nat option
     \<Rightarrow> (nat option \<times> mem option \<times> nat option) option" where
  "rtw_get_p2p_ie m in_ie in_len p2p_ie p2p_ielen =
     rtw_get_p2p_ie_loop m in_ie in_len p2p_ie (map_option (\<lambda>_. 0) p2p_ielen) 0"

definition rtw_get_p2p_ie_from_scan_queue ::
  "mem \<Rightarrow> nat \<Rightarrow> int \<Rightarrow> mem option \<Rightarrow> nat option \<Rightarrow> u8
     \<Rightarrow> (nat option \<times> mem option \<times> nat option) option" where
  "rtw_get_p2p_ie_from_scan_queue m in_ie in_len p2p_ie p2p_ielen frame_type =
     (if frame_type = 1 \<or> frame_type = 3 then rtw_get_p2p_ie m (in_ie + 12) (in_len - 12) p2p_ie p2p_ielen
      else if frame_type = 2 then rtw_get_p2p_ie m (in_ie + 0) (in_len - 0) p2p_ie p2p_ielen
      else Some (None, p2p_ie, p2p_ielen))"

definition p2p_attr_hdr :: "mem \<Rightarrow> nat \<Rightarrow> (u8 \<times> u16) option" where
  "p2p_attr_hdr m attr_ptr = do {
     attr_id \<leftarrow> rd8 m attr_ptr;
     attr_data_len \<leftarrow> RTW_GET_LE16 m (attr_ptr + 1);
     Some (attr_id, attr_data_len + 3) }"

partial_function (option) rtw_get_p2p_attr_loop ::
  "mem \<Rightarrow> nat \<Rightarrow> nat \<Rightarrow> u8 \<Rightarrow> mem option \<Rightarrow> nat option \<Rightarrow> nat
     \<Rightarrow> (nat option \<times> mem option \<times> nat option) run" where
  "rtw_get_p2p_attr_loop m p2p_ie p2p_ielen target_attr_id buf_attr len_attr attr_ptr =
     (if attr_ptr - p2p_ie < p2p_ielen then
        (case p2p_attr_hdr m attr_ptr of
           None \<Rightarrow> Some None
         | Some (attr_id, attr_len) \<Rightarrow>
             if attr_id = target_attr_id then Some (attr_out m attr_ptr attr_len buf_attr len_attr)
             else rtw_get_p2p_attr_loop m p2p_ie p2p_ielen target_attr_id buf_attr len_attr
                    (attr_ptr + unat attr_len))
      else Some (Some (None, buf_attr, len_attr)))"

definition rtw_get_p2p_attr ::
  "mem \<Rightarrow> nat option \<Rightarrow> nat \<Rightarrow> u8 \<Rightarrow> mem option \<Rightarrow> nat option
     \<Rightarrow> (nat option \<times> mem option \<times> nat option) run" where
  "rtw_get_p2p_attr m p2p_ie p2p_ielen target_attr_id buf_attr len_attr =
     (let len_attr = map_option (\<lambda>_. 0) len_attr in
      case p2p_ie of None \<Rightarrow> Some (Some (None, buf_attr, len_attr))
      | Some a \<Rightarrow>
         run_bind (Some (ie_ex_match m a VENDOR_SPECIFIC_IE (Some p2p_oui) 4)) (\<lambda>ok.
           if \<not> ok then Some (Some (None, buf_attr, len_attr))
           else rtw_get_p2p_attr_loop m a p2p_ielen target_attr_id buf_attr len_attr (a + 6)))"

definition rtw_get_p2p_attr_content ::
  "mem \<Rightarrow> nat option \<Rightarrow> nat \<Rightarrow> u8 \<Rightarrow> mem option \<Rightarrow> nat option
     \<Rightarrow> (nat option \<times> mem option \<times> nat option) run" where
  "rtw_get_p2p_attr_content m p2p_ie p2p_ielen target_attr_id buf_content len_content =
     (let len_content = map_option (\<lambda>_. 0) len_content in
      run_bind (rtw_get_p2p_attr m p2p_ie p2p_ielen target_attr_id None (Some 0)) (\<lambda>r.
        Some (attr_content_out m 3 r buf_content len_content)))"

text \<open>Merging several P2P elements: the \<open>int\<close> length and the copying loop with its 8-bit length.\<close>

definition p2p_ie_at :: "mem \<Rightarrow> nat \<Rightarrow> bool option" where
  "p2p_ie_at m i = ie_ex_match m i VENDOR_SPECIFIC_IE (Some p2p_oui) 4"

function rtw_get_p2p_merged_ies_len_loop :: "mem \<Rightarrow> nat \<Rightarrow> nat \<Rightarrow> int \<Rightarrow> int option" where
  "rtw_get_p2p_merged_ies_len_loop m in_len i len =
     (if i < in_len then do {
        hit \<leftarrow> p2p_ie_at m i;
        l \<leftarrow> rd8 m (i + 1);
        rtw_get_p2p_merged_ies_len_loop m in_len (i + (unat l + 2))
          (if hit then len + (uint l - 4) else len) }
      else Some len)"
  by pat_completeness auto
termination
  by (relation "measure (\<lambda>(m, in_len, i, len). in_len - i)") auto

definition rtw_get_p2p_merged_ies_len :: "mem \<Rightarrow> nat \<Rightarrow> u32 option" where
  "rtw_get_p2p_merged_ies_len m in_len = do {
     len \<leftarrow> rtw_get_p2p_merged_ies_len_loop m in_len 0 0;
     Some (word_of_int (len + 4)) }"

function rtw_p2p_merge_ies_loop ::
  "mem \<Rightarrow> nat \<Rightarrow> nat \<Rightarrow> u8 \<Rightarrow> mem \<Rightarrow> nat \<Rightarrow> (u8 \<times> mem) option" where
  "rtw_p2p_merge_ies_loop m in_len i len merge_ie pos =
     (if i < in_len then do {
        hit \<leftarrow> p2p_ie_at m i;
        l \<leftarrow> rd8 m (i + 1);
        if hit then
          (if unat l < 4 then None
           else do {
             d \<leftarrow> rtw_memcpy merge_ie pos m (i + 2 + 4) (unat l - 4);
             rtw_p2p_merge_ies_loop m in_len (i + (unat l + 2)) (len + (l - 4)) d (pos + (unat l - 4)) })
        else rtw_p2p_merge_ies_loop m in_len (i + (unat l + 2)) len merge_ie pos }
      else Some (len, merge_ie))"
  by pat_completeness auto
termination
  by (relation "measure (\<lambda>(m, in_len, i, len, merge_ie, pos). in_len - i)") auto

definition rtw_p2p_merge_ies :: "mem \<Rightarrow> nat \<Rightarrow> mem option \<Rightarrow> (mem option \<times> nat) option" where
  "rtw_p2p_merge_ies m in_len merge_ie =
     (case merge_ie of None \<Rightarrow> Some (None, 0)
      | Some d \<Rightarrow> do {
          d1 \<leftarrow> rtw_memcpy d 0 [0xdd, 0x00, 0x50, 0x6f, 0x9a, 0x09] 0 6;
          (len, d2) \<leftarrow> rtw_p2p_merge_ies_loop m in_len 0 0 d1 6;
          Some (Some d2, unat len + 4) })"

section \<open>WFD\<close>

function rtw_get_wfd_ie_loop ::
  "mem \<Rightarrow> nat \<Rightarrow> nat \<Rightarrow> mem option \<Rightarrow> nat option \<Rightarrow> nat \<Rightarrow> (nat \<times> mem option \<times> nat option) option" where
  "rtw_get_wfd_ie_loop m in_ie in_len wfd_ie wfd_ielen cnt =
     (if cnt < in_len then do {
        hit \<leftarrow> ie_ex_match m (in_ie + cnt) VENDOR_SPECIFIC_IE (Some wfd_oui) 4;
        if hit then do {
          w \<leftarrow> copy_ie_out m (in_ie + cnt) wfd_ie;
          n \<leftarrow> put_ielen m (in_ie + cnt) wfd_ielen;
          l \<leftarrow> rd8 m (in_ie + cnt + 1);
          Some (cnt + (unat l + 2), w, n) }
        else do {
          l \<leftarrow> rd8 m (in_ie + cnt + 1);
          rtw_get_wfd_ie_loop m in_ie in_len wfd_ie wfd_ielen (cnt + (unat l + 2)) } }
      else Some (0, wfd_ie, wfd_ielen))"
  by pat_completeness auto
termination
  by (relation "measure (\<lambda>(m, in_ie, in_len, wfd_ie, wfd_ielen, cnt). in_len - cnt)") auto

definition rtw_get_wfd_ie ::
  "mem \<Rightarrow> nat \<Rightarrow> int \<Rightarrow> mem option \<Rightarrow> nat option \<Rightarrow> (nat \<times> mem option \<times> nat option) option" where
  "rtw_get_wfd_ie m in_ie in_len wfd_ie wfd_ielen =
     (if in_len < 0 then Some (0, wfd_ie, wfd_ielen)
      else rtw_get_wfd_ie_loop m in_ie (nat in_len) wfd_ie wfd_ielen 0)"

definition rtw_get_wfd_ie_from_scan_queue ::
  "mem \<Rightarrow> nat \<Rightarrow> int \<Rightarrow> mem option \<Rightarrow> nat option \<Rightarrow> u8 \<Rightarrow> (nat \<times> mem option \<times> nat option) option" where
  "rtw_get_wfd_ie_from_scan_queue m in_ie in_len wfd_ie wfd_ielen frame_type =
     (if frame_type = 1 \<or> frame_type = 3 then rtw_get_wfd_ie m (in_ie + 12) (in_len - 12) wfd_ie wfd_ielen
      else if frame_type = 2 then rtw_get_wfd_ie m (in_ie + 0) (in_len - 0) wfd_ie wfd_ielen
      else Some (0, wfd_ie, wfd_ielen))"

function rtw_get_wfd_attr_content_loop ::
  "mem \<Rightarrow> nat \<Rightarrow> nat \<Rightarrow> u8 \<Rightarrow> mem option \<Rightarrow> nat option \<Rightarrow> nat \<Rightarrow> (bool \<times> mem option \<times> nat option) option" where
  "rtw_get_wfd_attr_content_loop m wfd_ie wfd_ielen target_attr_id attr_content attr_contentlen cnt =
     (if cnt < wfd_ielen then do {
        attrlen \<leftarrow> RTW_GET_BE16 m (wfd_ie + cnt + 1);
        attr_id \<leftarrow> rd8 m (wfd_ie + cnt);
        if attr_id = target_attr_id then do {
          c \<leftarrow> (case attr_content of None \<Rightarrow> Some None
               | Some d \<Rightarrow> do { d' \<leftarrow> rtw_memcpy d 0 m (wfd_ie + cnt + 3) (unat attrlen); Some (Some d') });
          Some (True, c, map_option (\<lambda>_. unat attrlen) attr_contentlen) }
        else rtw_get_wfd_attr_content_loop m wfd_ie wfd_ielen target_attr_id attr_content attr_contentlen
               (cnt + (unat attrlen + 3)) }
      else Some (False, attr_content, attr_contentlen))"
  by pat_completeness auto
termination
  by (relation "measure (\<lambda>(m, wfd_ie, wfd_ielen, target_attr_id, attr_content, attr_contentlen, cnt). wfd_ielen - cnt)") auto

definition rtw_get_wfd_attr_content ::
  "mem \<Rightarrow> nat \<Rightarrow> nat \<Rightarrow> u8 \<Rightarrow> mem option \<Rightarrow> nat option \<Rightarrow> (bool \<times> mem option \<times> nat option) option" where
  "rtw_get_wfd_attr_content m wfd_ie wfd_ielen target_attr_id attr_content attr_contentlen = do {
     ok \<leftarrow> ie_ex_match m wfd_ie VENDOR_SPECIFIC_IE (Some wfd_oui) 4;
     if \<not> ok then Some (False, attr_content, attr_contentlen)
     else rtw_get_wfd_attr_content_loop m wfd_ie wfd_ielen target_attr_id attr_content attr_contentlen 6 }"

declare rtw_get_wps_ie_loop.simps [simp del] rtw_get_p2p_ie_loop.simps [simp del]
  rtw_get_p2p_merged_ies_len_loop.simps [simp del] rtw_p2p_merge_ies_loop.simps [simp del]
  rtw_get_wfd_ie_loop.simps [simp del] rtw_get_wfd_attr_content_loop.simps [simp del]


section \<open>The attribute formats\<close>

definition enc_wps :: "u16 \<times> u8 list \<Rightarrow> u8 list" where
  "enc_wps a = RTW_PUT_BE16 (fst a) @ RTW_PUT_BE16 (word_of_nat (length (snd a))) @ snd a"

definition enc_p2p :: "u8 \<times> u8 list \<Rightarrow> u8 list" where
  "enc_p2p a = fst a # RTW_PUT_LE16 (word_of_nat (length (snd a))) @ snd a"

definition enc_wfd :: "u8 \<times> u8 list \<Rightarrow> u8 list" where
  "enc_wfd a = fst a # RTW_PUT_BE16 (word_of_nat (length (snd a))) @ snd a"

text \<open>An attribute whose total length fits the 16-bit sum.\<close>

definition good_attr :: "nat \<Rightarrow> 'i \<times> u8 list \<Rightarrow> bool" where
  "good_attr hdr a \<longleftrightarrow> length (snd a) + hdr < 65536"

lemma length_enc_attr [simp]:
  "length (enc_wps a) = length (snd a) + 4"
  "length (enc_p2p b) = length (snd b) + 3"
  "length (enc_wfd b) = length (snd b) + 3"
  by (simp_all add: enc_wps_def enc_p2p_def enc_wfd_def RTW_PUT_BE16_def RTW_PUT_LE16_def)

lemma unat_of_nat_u16: "n < 65536 \<Longrightarrow> unat (word_of_nat n :: u16) = n"
  by (simp add: unat_of_nat take_bit_nat_eq_self)

lemma wps_attr_hdr_enc:
  assumes "good_attr 4 a"
  shows "wps_attr_hdr (pre @ enc_wps a @ post) (length pre) = Some (fst a, word_of_nat (length (snd a) + 4))"
  by (simp add: wps_attr_hdr_def RTW_GET_BE16_def enc_wps_def RTW_PUT_BE16_def le16_split)


lemma p2p_attr_hdr_enc:
  "p2p_attr_hdr (pre @ enc_p2p a @ post) (length pre) = Some (fst a, word_of_nat (length (snd a) + 3))"
  by (simp add: p2p_attr_hdr_def RTW_GET_LE16_def enc_p2p_def RTW_PUT_LE16_def le16_split)

interpretation wps_attr: tlv_search enc_wps "good_attr 4" "\<lambda>a. fst a = tid"
  "\<lambda>m lim p. rtw_get_wps_attr_loop m ie (lim - ie) tid buf len p"
  "\<lambda>m p a. Some (attr_out m p (word_of_nat (length (enc_wps a))) buf len)"
  "Some (Some (None, buf, len))" ie for ie tid buf len
proof (unfold_locales, goal_cases)
  case (1 m lim)
  show ?case by (simp add: rtw_get_wps_attr_loop.simps [of m])
next
  case (2 a pre lim post)
  then show ?case
    using diff_less_mono [of "length pre" lim ie] by (subst rtw_get_wps_attr_loop.simps) (simp add: wps_attr_hdr_enc)
next
  case (3 a pre lim post)
  then show ?case
    using diff_less_mono [of "length pre" lim ie]
    by (subst rtw_get_wps_attr_loop.simps) (simp add: wps_attr_hdr_enc good_attr_def unat_of_nat_u16 del: of_nat_add)
qed

interpretation p2p_attr: tlv_search enc_p2p "good_attr 3" "\<lambda>a. fst a = tid"
  "\<lambda>m lim p. rtw_get_p2p_attr_loop m ie (lim - ie) tid buf len p"
  "\<lambda>m p a. Some (attr_out m p (word_of_nat (length (enc_p2p a))) buf len)"
  "Some (Some (None, buf, len))" ie for ie tid buf len
proof (unfold_locales, goal_cases)
  case (1 m lim)
  show ?case by (simp add: rtw_get_p2p_attr_loop.simps [of m])
next
  case (2 a pre lim post)
  then show ?case
    using diff_less_mono [of "length pre" lim ie] by (subst rtw_get_p2p_attr_loop.simps) (simp add: p2p_attr_hdr_enc)
next
  case (3 a pre lim post)
  then show ?case
    using diff_less_mono [of "length pre" lim ie]
    by (subst rtw_get_p2p_attr_loop.simps) (simp add: p2p_attr_hdr_enc good_attr_def unat_of_nat_u16 del: of_nat_add)
qed

lemma wfd_attr_rd:
  "RTW_GET_BE16 (pre @ enc_wfd a @ post) (Suc (length pre)) = Some (word_of_nat (length (snd a)))"
  "rd8 (enc_wfd a) 0 = Some (fst a)"
  by (simp_all add: RTW_GET_BE16_def enc_wfd_def RTW_PUT_BE16_def le16_split)


lemma rtw_get_wfd_attr_content_loop_shift:
  "rtw_get_wfd_attr_content_loop m ie (n + k) tid c l (cnt + k) = rtw_get_wfd_attr_content_loop m (ie + k) n tid c l cnt"
proof (induction m "ie + k" n tid c l cnt rule: rtw_get_wfd_attr_content_loop.induct)
  case (1 m n tid c l cnt)
  note unfold = rtw_get_wfd_attr_content_loop.simps [of m "ie + k" n tid c l cnt]
    rtw_get_wfd_attr_content_loop.simps [of m ie "n + k" tid c l "cnt + k"]
  have eq: "ie + (cnt + k) = ie + k + cnt"
    by simp
  show ?case
    unfolding unfold eq using "1" by (auto simp: ac_simps intro!: bind_option_cong)
qed

interpretation wfd_attr: tlv_search enc_wfd "good_attr 0" "\<lambda>a. fst a = tid"
  "\<lambda>m lim p. rtw_get_wfd_attr_content_loop m p (lim - p) tid None len 0"
  "\<lambda>m p a. Some (True, None, map_option (\<lambda>_. length (snd a)) len)"
  "Some (False, None, len)" 0 for tid len
proof (unfold_locales, goal_cases)
  case (1 m lim)
  show ?case by (simp add: rtw_get_wfd_attr_content_loop.simps [of m])
next
  case (2 a pre lim post)
  then show ?case
    by (subst rtw_get_wfd_attr_content_loop.simps)
      (simp add: wfd_attr_rd good_attr_def unat_of_nat_u16)
next
  case (3 a pre lim post)
  let ?m = "pre @ enc_wfd a @ post" and ?n = "length (snd a) + 3"
  have len: "unat (word_of_nat (length (snd a)) :: u16) = length (snd a)"
    using 3 by (simp add: good_attr_def unat_of_nat_u16)
  have "rtw_get_wfd_attr_content_loop ?m (length pre) (lim - length pre) tid None len 0
     = rtw_get_wfd_attr_content_loop ?m (length pre) (lim - length pre) tid None len ?n"
    using 3 by (subst rtw_get_wfd_attr_content_loop.simps) (simp add: wfd_attr_rd len)
  also have "\<dots> = rtw_get_wfd_attr_content_loop ?m (length pre + ?n) (lim - length pre - ?n) tid None len 0"
    using rtw_get_wfd_attr_content_loop_shift [of ?m "length pre" "lim - length pre - ?n" ?n tid None len 0] 3 by simp
  finally show ?case
    by (simp add: algebra_simps)
qed

section \<open>Properties of the attribute search\<close>

lemma attr_out_no_copy:
  "n < 65536 \<Longrightarrow> attr_out m p (word_of_nat n) None (Some k) = Some (Some p, None, Some n)"
  by (simp add: attr_out_def unat_of_nat_u16)

lemma wps_ie_match:
  assumes "good_ie (221, wps_oui @ d)"
  shows "ie_ex_match (pre @ enc_ie (221, wps_oui @ d) @ post) (length pre) VENDOR_SPECIFIC_IE (Some wps_oui) 4 = Some True"
  using assms by (subst ie_ex_match_enc) (simp_all add: good_ie_ex_def hit_ie_ex_def wps_oui_def)

lemma p2p_ie_match:
  assumes "good_ie (221, p2p_oui @ d)"
  shows "ie_ex_match (pre @ enc_ie (221, p2p_oui @ d) @ post) (length pre) VENDOR_SPECIFIC_IE (Some p2p_oui) 4 = Some True"
  using assms by (subst ie_ex_match_enc) (simp_all add: good_ie_ex_def hit_ie_ex_def p2p_oui_def)

lemma wfd_ie_match:
  assumes "good_ie (221, wfd_oui @ d)"
  shows "ie_ex_match (pre @ enc_ie (221, wfd_oui @ d) @ post) (length pre) VENDOR_SPECIFIC_IE (Some wfd_oui) 4 = Some True"
  using assms by (subst ie_ex_match_enc) (simp_all add: good_ie_ex_def hit_ie_ex_def wfd_oui_def)

text \<open>A vendor element is its six header bytes followed by its attributes.\<close>

lemma vendor_ie_split:
  "length oui = 4 \<Longrightarrow> pre @ enc_ie (221, oui @ d) @ post = (pre @ [221, word_of_nat (4 + length d)] @ oui) @ d @ post"
  by (simp add: enc_ie_def)

lemma good_attr_in_ie:
  assumes "good_ie (221, oui @ stream enc as)" and "\<And>a. length (enc a) = length (snd a) + hdr"
    and "hdr \<le> 4" and "a \<in> set as"
  shows "good_attr hdr a"
proof -
  have "length (enc a) \<le> length (stream enc as)"
    using assms(4) by (induction as) auto
  then show ?thesis
    using assms(1,2,3) by (simp add: good_ie_def good_attr_def)
qed

text \<open>In a WPS element that holds a list of attributes, \<open>rtw_get_wps_attr_content\<close>
  returns the address and the length of the content of the first attribute with the wanted
  id, and NULL when there is none. It always returns.\<close>

theorem rtw_get_wps_attr_content_first:
  assumes "good_ie (221, wps_oui @ stream enc_wps as)"
  shows "rtw_get_wps_attr_content (pre @ enc_ie (221, wps_oui @ stream enc_wps as) @ post) (length pre)
           (6 + length (stream enc_wps as)) tid None (Some k) =
         (case tlv_find enc_wps (\<lambda>a. fst a = tid) (length pre + 6) as of
            None \<Rightarrow> Some (Some (None, None, Some 0))
          | Some (p, a) \<Rightarrow> Some (Some (Some (p + 4), None, Some (length (snd a)))))"
proof -
  let ?h = "pre @ [221, word_of_nat (4 + length (stream enc_wps as))] @ wps_oui"
  let ?m = "pre @ enc_ie (221, wps_oui @ stream enc_wps as) @ post"
  have h: "length ?h = length pre + 6" and m: "?m = ?h @ stream enc_wps as @ post"
    by (simp_all add: wps_oui_def enc_ie_def)
  have good: "\<forall>a\<in>set as. good_attr 4 a"
    using good_attr_in_ie [OF assms, of 4] by simp
  have small: "length (snd a) + 4 < 65536" if "a \<in> set as" for a
    using good that by (simp add: good_attr_def)
  have loop: "rtw_get_wps_attr_loop ?m (length pre) (6 + length (stream enc_wps as)) tid None (Some 0) (length pre + 6)
     = (case tlv_find enc_wps (\<lambda>a. fst a = tid) (length pre + 6) as of
          None \<Rightarrow> Some (Some (None, None, Some 0))
        | Some (p, a) \<Rightarrow> Some (attr_out ?m p (word_of_nat (length (enc_wps a))) None (Some 0)))"
    using wps_attr.srch_correct [OF good refl, of "length pre" ?h post tid None "Some 0"]
    unfolding m [symmetric] h by (simp add: h)
  have get: "rtw_get_wps_attr ?m (length pre) (6 + length (stream enc_wps as)) tid None (Some 0)
     = (case tlv_find enc_wps (\<lambda>a. fst a = tid) (length pre + 6) as of
          None \<Rightarrow> Some (Some (None, None, Some 0))
        | Some (p, a) \<Rightarrow> Some (Some (Some p, None, Some (length (enc_wps a)))))"
    using loop wps_ie_match [OF assms] small
    by (auto simp: rtw_get_wps_attr_def attr_out_no_copy simp del: of_nat_add dest: tlv_find_mem split: option.splits)
  show ?thesis
  proof (cases "tlv_find enc_wps (\<lambda>a. fst a = tid) (length pre + 6) as")
    case None
    then show ?thesis
      by (simp add: get rtw_get_wps_attr_content_def attr_content_out_def)
  next
    case (Some pa)
    then have "snd pa \<in> set as"
      by (cases pa) (auto dest: tlv_find_mem)
    then have "sub_u32 (length (snd (snd pa)) + 4) 4 = length (snd (snd pa))"
      using small [of "snd pa"] by (simp add: sub_u32_le)
    then show ?thesis
      by (auto simp: get Some rtw_get_wps_attr_content_def attr_content_out_def split: prod.split)
  qed
qed

theorem rtw_get_wps_attr_content_first_witness:
  "rtw_get_wps_attr_content ([7] @ enc_ie (221, wps_oui @ stream enc_wps [(4165, [1, 2]), (4183, [9])]) @ [0]) (length [7 :: u8])
     (6 + length (stream enc_wps [(4165, [1, 2]), (4183, [9])])) 4183 None (Some 5) = Some (Some (Some 17, None, Some 1))"
  using rtw_get_wps_attr_content_first [of "[(4165, [1, 2]), (4183, [9])]" "[7]" "[0]" 4183 5]
  by (simp add: good_ie_def wps_oui_def One_nat_def [symmetric] del: One_nat_def)

text \<open>In a P2P element that holds a list of attributes, \<open>rtw_get_p2p_attr_content\<close>
  returns the address and the length of the content of the first attribute with the wanted
  id, and NULL when there is none. It always returns.\<close>

theorem rtw_get_p2p_attr_content_first:
  assumes "good_ie (221, p2p_oui @ stream enc_p2p as)"
  shows "rtw_get_p2p_attr_content (pre @ enc_ie (221, p2p_oui @ stream enc_p2p as) @ post) (Some (length pre))
           (6 + length (stream enc_p2p as)) tid None (Some k) =
         (case tlv_find enc_p2p (\<lambda>a. fst a = tid) (length pre + 6) as of
            None \<Rightarrow> Some (Some (None, None, Some 0))
          | Some (p, a) \<Rightarrow> Some (Some (Some (p + 3), None, Some (length (snd a)))))"
proof -
  let ?h = "pre @ [221, word_of_nat (4 + length (stream enc_p2p as))] @ p2p_oui"
  let ?m = "pre @ enc_ie (221, p2p_oui @ stream enc_p2p as) @ post"
  have h: "length ?h = length pre + 6" and m: "?m = ?h @ stream enc_p2p as @ post"
    by (simp_all add: p2p_oui_def enc_ie_def)
  have good: "\<forall>a\<in>set as. good_attr 3 a"
    using good_attr_in_ie [OF assms, of 3] by simp
  have small: "length (snd a) + 3 < 65536" if "a \<in> set as" for a
    using good that by (simp add: good_attr_def)
  have loop: "rtw_get_p2p_attr_loop ?m (length pre) (6 + length (stream enc_p2p as)) tid None (Some 0) (length pre + 6)
     = (case tlv_find enc_p2p (\<lambda>a. fst a = tid) (length pre + 6) as of
          None \<Rightarrow> Some (Some (None, None, Some 0))
        | Some (p, a) \<Rightarrow> Some (attr_out ?m p (word_of_nat (length (enc_p2p a))) None (Some 0)))"
    using p2p_attr.srch_correct [OF good refl, of "length pre" ?h post tid None "Some 0"]
    unfolding m [symmetric] h by (simp add: h)
  have get: "rtw_get_p2p_attr ?m (Some (length pre)) (6 + length (stream enc_p2p as)) tid None (Some 0)
     = (case tlv_find enc_p2p (\<lambda>a. fst a = tid) (length pre + 6) as of
          None \<Rightarrow> Some (Some (None, None, Some 0))
        | Some (p, a) \<Rightarrow> Some (Some (Some p, None, Some (length (enc_p2p a)))))"
    using loop p2p_ie_match [OF assms] small
    by (auto simp: rtw_get_p2p_attr_def attr_out_no_copy simp del: of_nat_add dest: tlv_find_mem split: option.splits)
  show ?thesis
  proof (cases "tlv_find enc_p2p (\<lambda>a. fst a = tid) (length pre + 6) as")
    case None
    then show ?thesis
      by (simp add: get rtw_get_p2p_attr_content_def attr_content_out_def)
  next
    case (Some pa)
    then have "snd pa \<in> set as"
      by (cases pa) (auto dest: tlv_find_mem)
    then have "sub_u32 (length (snd (snd pa)) + 3) 3 = length (snd (snd pa))"
      using small [of "snd pa"] by (simp add: sub_u32_le)
    then show ?thesis
      by (auto simp: get Some rtw_get_p2p_attr_content_def attr_content_out_def split: prod.split)
  qed
qed

theorem rtw_get_p2p_attr_content_first_witness:
  "rtw_get_p2p_attr_content ([7] @ enc_ie (221, p2p_oui @ stream enc_p2p [(2, [1, 2]), (5, [9])]) @ [0]) (Some (length [7 :: u8]))
     (6 + length (stream enc_p2p [(2, [1, 2]), (5, [9])])) 5 None (Some 5) = Some (Some (Some 15, None, Some 1))"
  using rtw_get_p2p_attr_content_first [of "[(2, [1, 2]), (5, [9])]" "[7]" "[0]" 5 5]
  by (simp add: good_ie_def p2p_oui_def One_nat_def [symmetric] del: One_nat_def)


text \<open>The same for the attributes of a WFD element, whose 16-bit length is not summed
  with the header size.\<close>

theorem rtw_get_wfd_attr_content_first:
  assumes "good_ie (221, wfd_oui @ stream enc_wfd as)"
  shows "rtw_get_wfd_attr_content (pre @ enc_ie (221, wfd_oui @ stream enc_wfd as) @ post) (length pre)
           (6 + length (stream enc_wfd as)) tid None (Some k) =
         (case tlv_find enc_wfd (\<lambda>a. fst a = tid) (length pre + 6) as of
            None \<Rightarrow> Some (False, None, Some k)
          | Some (p, a) \<Rightarrow> Some (True, None, Some (length (snd a))))"
proof -
  let ?h = "pre @ [221, word_of_nat (4 + length (stream enc_wfd as))] @ wfd_oui"
  let ?m = "pre @ enc_ie (221, wfd_oui @ stream enc_wfd as) @ post"
  have h: "length ?h = length pre + 6" and m: "?m = ?h @ stream enc_wfd as @ post"
    by (simp_all add: wfd_oui_def enc_ie_def)
  have good: "\<forall>a\<in>set as. good_attr 0 a"
    using good_attr_in_ie [OF assms, of 3] by (fastforce simp: good_attr_def)
  have "rtw_get_wfd_attr_content_loop ?m (length pre) (6 + length (stream enc_wfd as)) tid None (Some k) 6
     = rtw_get_wfd_attr_content_loop ?m (length pre + 6) (length (stream enc_wfd as)) tid None (Some k) 0"
    using rtw_get_wfd_attr_content_loop_shift [of ?m "length pre" "length (stream enc_wfd as)" 6 tid None "Some k" 0]
    by (simp add: add.commute)
  also have "\<dots> = (case tlv_find enc_wfd (\<lambda>a. fst a = tid) (length pre + 6) as of
            None \<Rightarrow> Some (False, None, Some k)
          | Some (p, a) \<Rightarrow> Some (True, None, Some (length (snd a))))"
    using wfd_attr.srch_correct [OF good refl le0, of ?h post tid "Some k"]
    unfolding m [symmetric] h by (simp split: option.split)
  finally show ?thesis
    using wfd_ie_match [OF assms] by (simp add: rtw_get_wfd_attr_content_def)
qed

theorem rtw_get_wfd_attr_content_first_witness:
  "rtw_get_wfd_attr_content ([7] @ enc_ie (221, wfd_oui @ stream enc_wfd [(0, [1, 2]), (6, [9])]) @ [0]) (length [7 :: u8])
     (6 + length (stream enc_wfd [(0, [1, 2]), (6, [9])])) 6 None (Some 5) = Some (True, None, Some 1)"
  using rtw_get_wfd_attr_content_first [of "[(0, [1, 2]), (6, [9])]" "[7]" "[0]" 6 5]
  by (simp add: good_ie_def wfd_oui_def One_nat_def [symmetric] del: One_nat_def)

section \<open>Attributes that stop the loop from making progress\<close>

text \<open>A header whose 16-bit sum is zero leaves the loop where it is.\<close>

lemma rtw_get_wps_attr_loop_stuck:
  assumes "wps_attr_hdr m p = Some (i, 0)" "i \<noteq> tid" "p - ie < n"
  shows "rtw_get_wps_attr_loop m ie n tid buf len p = None"
proof (rule ccontr)
  assume "rtw_get_wps_attr_loop m ie n tid buf len p \<noteq> None"
  then obtain r where r: "rtw_get_wps_attr_loop m ie n tid buf len p = Some r" by blast
  have "\<not> (wps_attr_hdr m p = Some (i, 0) \<and> i \<noteq> tid \<and> p - ie < n)"
  proof (rule rtw_get_wps_attr_loop.raw_induct
      [where P = "\<lambda>m ie n tid buf len p r. \<not> (wps_attr_hdr m p = Some (i, 0) \<and> i \<noteq> tid \<and> p - ie < n)", OF _ r])
    fix f :: "mem \<Rightarrow> nat \<Rightarrow> nat \<Rightarrow> u16 \<Rightarrow> mem option \<Rightarrow> nat option \<Rightarrow> nat \<Rightarrow> (nat option \<times> mem option \<times> nat option) run"
    fix m ie n tid buf len p r
    assume IH: "\<And>m ie n tid buf len p r. f m ie n tid buf len p = Some r \<Longrightarrow>
        \<not> (wps_attr_hdr m p = Some (i, 0) \<and> i \<noteq> tid \<and> p - ie < n)"
      and eq: "(if p - ie < n then case wps_attr_hdr m p of None \<Rightarrow> Some None
          | Some (attr_id, attr_len) \<Rightarrow> if attr_id = tid then Some (attr_out m p attr_len buf len)
              else f m ie n tid buf len (p + unat attr_len)
         else Some (Some (None, buf, len))) = Some r"
    show "\<not> (wps_attr_hdr m p = Some (i, 0) \<and> i \<noteq> tid \<and> p - ie < n)"
      using eq IH [of m ie n tid buf len p] by auto
  qed
  then show False
    using assms by simp
qed

lemma rtw_get_p2p_attr_loop_stuck:
  assumes "p2p_attr_hdr m p = Some (i, 0)" "i \<noteq> tid" "p - ie < n"
  shows "rtw_get_p2p_attr_loop m ie n tid buf len p = None"
proof (rule ccontr)
  assume "rtw_get_p2p_attr_loop m ie n tid buf len p \<noteq> None"
  then obtain r where r: "rtw_get_p2p_attr_loop m ie n tid buf len p = Some r" by blast
  have "\<not> (p2p_attr_hdr m p = Some (i, 0) \<and> i \<noteq> tid \<and> p - ie < n)"
  proof (rule rtw_get_p2p_attr_loop.raw_induct
      [where P = "\<lambda>m ie n tid buf len p r. \<not> (p2p_attr_hdr m p = Some (i, 0) \<and> i \<noteq> tid \<and> p - ie < n)", OF _ r])
    fix f :: "mem \<Rightarrow> nat \<Rightarrow> nat \<Rightarrow> u8 \<Rightarrow> mem option \<Rightarrow> nat option \<Rightarrow> nat \<Rightarrow> (nat option \<times> mem option \<times> nat option) run"
    fix m ie n tid buf len p r
    assume IH: "\<And>m ie n tid buf len p r. f m ie n tid buf len p = Some r \<Longrightarrow>
        \<not> (p2p_attr_hdr m p = Some (i, 0) \<and> i \<noteq> tid \<and> p - ie < n)"
      and eq: "(if p - ie < n then case p2p_attr_hdr m p of None \<Rightarrow> Some None
          | Some (attr_id, attr_len) \<Rightarrow> if attr_id = tid then Some (attr_out m p attr_len buf len)
              else f m ie n tid buf len (p + unat attr_len)
         else Some (Some (None, buf, len))) = Some r"
    show "\<not> (p2p_attr_hdr m p = Some (i, 0) \<and> i \<noteq> tid \<and> p - ie < n)"
      using eq IH [of m ie n tid buf len p] by auto
  qed
  then show False
    using assms by simp
qed

text \<open>A WPS element whose first attribute claims a length of \<open>0xfffc\<close> makes
  \<open>rtw_get_wps_attr\<close> run forever for every other attribute id: the 16-bit sum of the length
  and the header size wraps to zero.\<close>

theorem rtw_get_wps_attr_diverges:
  assumes "i \<noteq> tid" and "6 < n"
  shows "rtw_get_wps_attr (pre @ [221, l] @ wps_oui @ RTW_PUT_BE16 i @ [0xff, 0xfc] @ post) (length pre) n tid buf len = None"
proof -
  let ?m = "pre @ [221, l] @ wps_oui @ RTW_PUT_BE16 i @ [0xff, 0xfc] @ post"
  have match: "ie_ex_match ?m (length pre) VENDOR_SPECIFIC_IE (Some wps_oui) 4 = Some True"
    by (simp add: ie_ex_match_def oui_match_def rtw_memcmp_def wps_oui_def rd_bytes_def)
  have hdr: "wps_attr_hdr ?m (length pre + 6) = Some (i, 0)"
    by (simp add: wps_attr_hdr_def RTW_GET_BE16_def wps_oui_def RTW_PUT_BE16_def le16_split) (simp add: le16_def)
  show ?thesis
    using rtw_get_wps_attr_loop_stuck [OF hdr assms(1)] assms(2) using match by (simp add: rtw_get_wps_attr_def Let_def)
qed

theorem rtw_get_wps_attr_diverges_witness:
  "rtw_get_wps_attr ([] @ [221, 8] @ wps_oui @ RTW_PUT_BE16 4165 @ [0xff, 0xfc] @ []) (length ([] :: mem)) 10 4183 None None = None"
  using rtw_get_wps_attr_diverges [of 4165 4183 10 "[]" 8 "[]" None None] by simp

text \<open>The same for a P2P element and a claimed length of \<open>0xfffd\<close>.\<close>

theorem rtw_get_p2p_attr_diverges:
  assumes "i \<noteq> tid" and "6 < n"
  shows "rtw_get_p2p_attr (pre @ [221, l] @ p2p_oui @ [i, 0xfd, 0xff] @ post) (Some (length pre)) n tid buf len = None"
proof -
  let ?m = "pre @ [221, l] @ p2p_oui @ [i, 0xfd, 0xff] @ post"
  have match: "ie_ex_match ?m (length pre) VENDOR_SPECIFIC_IE (Some p2p_oui) 4 = Some True"
    by (simp add: ie_ex_match_def oui_match_def rtw_memcmp_def p2p_oui_def rd_bytes_def)
  have hdr: "p2p_attr_hdr ?m (length pre + 6) = Some (i, 0)"
    by (simp add: p2p_attr_hdr_def RTW_GET_LE16_def p2p_oui_def) (simp add: le16_def)
  show ?thesis
    using rtw_get_p2p_attr_loop_stuck [OF hdr assms(1)] assms(2) using match by (simp add: rtw_get_p2p_attr_def Let_def)
qed

theorem rtw_get_p2p_attr_diverges_witness:
  "rtw_get_p2p_attr ([] @ [221, 7] @ p2p_oui @ [2, 0xfd, 0xff] @ []) (Some (length ([] :: mem))) 9 5 None None = None"
  using rtw_get_p2p_attr_diverges [of 2 5 9 "[]" 7 "[]" None None] by simp

end
