(* ===== verification/Ie_Parse.thy ===== *)
theory Ie_Parse
  imports Ie_Search
begin

text \<open>
  The element parser of \<^verbatim>\<open>core/rtw_ieee80211.c\<close>: \<open>rtw_ieee802_11_parse_elems\<close> with its
  vendor-specific branch. A pointer field and the length field that goes with it are one slot,
  \<open>(None, 0)\<close> being the cleared state. The parser is proved against a reference decoder.
\<close>

section \<open>Parsing the elements of a management frame\<close>

type_synonym elem = "nat option \<times> u8"

record rtw_ieee802_11_elems =
  e_ssid :: elem
  e_supp_rates :: elem
  e_fh_params :: elem
  e_ds_params :: elem
  e_cf_params :: elem
  e_tim :: elem
  e_ibss_params :: elem
  e_challenge :: elem
  e_erp_info :: elem
  e_ext_supp_rates :: elem
  e_wpa_ie :: elem
  e_rsn_ie :: elem
  e_wme :: elem
  e_wme_tspec :: elem
  e_wps_ie :: elem
  e_power_cap :: elem
  e_supp_channels :: elem
  e_mdie :: elem
  e_ftie :: elem
  e_timeout_int :: elem
  e_ht_capabilities :: elem
  e_ht_operation :: elem
  e_vendor_ht_cap :: elem
  e_vht_capabilities :: elem
  e_vht_operation :: elem
  e_vht_op_mode_notify :: elem

definition empty_elems :: rtw_ieee802_11_elems where
  "empty_elems = \<lparr>e_ssid = (None, 0),
     e_supp_rates = (None, 0),
     e_fh_params = (None, 0),
     e_ds_params = (None, 0),
     e_cf_params = (None, 0),
     e_tim = (None, 0),
     e_ibss_params = (None, 0),
     e_challenge = (None, 0),
     e_erp_info = (None, 0),
     e_ext_supp_rates = (None, 0),
     e_wpa_ie = (None, 0),
     e_rsn_ie = (None, 0),
     e_wme = (None, 0),
     e_wme_tspec = (None, 0),
     e_wps_ie = (None, 0),
     e_power_cap = (None, 0),
     e_supp_channels = (None, 0),
     e_mdie = (None, 0),
     e_ftie = (None, 0),
     e_timeout_int = (None, 0),
     e_ht_capabilities = (None, 0),
     e_ht_operation = (None, 0),
     e_vendor_ht_cap = (None, 0),
     e_vht_capabilities = (None, 0),
     e_vht_operation = (None, 0),
     e_vht_op_mode_notify = (None, 0)\<rparr>"

datatype ParseRes = ParseOK | ParseUnknown | ParseFailed

text \<open>\<open>rtw_ieee802_11_parse_vendor_specific\<close>: which case of the nested switches is taken,
  and what it stores. The flag is the result \<open>-1\<close>.\<close>

datatype vendor_case = V_wpa | V_wme | V_wme_tspec | V_wps | V_ht_cap | V_ignored

definition vendor_specific_case :: "mem \<Rightarrow> nat \<Rightarrow> u8 \<Rightarrow> vendor_case option" where
  "vendor_specific_case m pos elen =
     (if elen < 4 then Some V_ignored
      else do {
        oui \<leftarrow> RTW_GET_BE24 m pos;
        if oui = 0x0050f2 then do {
          t \<leftarrow> rd8 m (pos + 3);
          if t = 1 then Some V_wpa
          else if t = 2 then
            (if elen < 5 then Some V_ignored
             else do {
               st \<leftarrow> rd8 m (pos + 4);
               Some (if st = 0 \<or> st = 1 then V_wme
                     else if st = 2 then V_wme_tspec
                     else V_ignored) })
          else if t = 4 then Some V_wps
          else Some V_ignored }
        else if oui = 0x00904c then do {
          t \<leftarrow> rd8 m (pos + 3);
          Some (if t = 0x33 then V_ht_cap else V_ignored) }
        else Some V_ignored })"

definition rtw_ieee802_11_parse_vendor_specific ::
  "mem \<Rightarrow> nat \<Rightarrow> u8 \<Rightarrow> rtw_ieee802_11_elems \<Rightarrow> (rtw_ieee802_11_elems \<times> bool) option" where
  "rtw_ieee802_11_parse_vendor_specific m pos elen elems = do {
     k \<leftarrow> vendor_specific_case m pos elen;
     Some (case k of
         V_wpa \<Rightarrow> (elems\<lparr>e_wpa_ie := (Some pos, elen)\<rparr>, False)
       | V_wme \<Rightarrow> (elems\<lparr>e_wme := (Some pos, elen)\<rparr>, False)
       | V_wme_tspec \<Rightarrow> (elems\<lparr>e_wme_tspec := (Some pos, elen)\<rparr>, False)
       | V_wps \<Rightarrow> (elems\<lparr>e_wps_ie := (Some pos, elen)\<rparr>, False)
       | V_ht_cap \<Rightarrow> (elems\<lparr>e_vendor_ht_cap := (Some pos, elen)\<rparr>, False)
       | V_ignored \<Rightarrow> (elems, True)) }"

text \<open>The switch over the element id: the cases that store a slot, and the whole switch, whose
  flag says that the element counts as unknown.\<close>

definition set_elem :: "u8 \<Rightarrow> elem \<Rightarrow> rtw_ieee802_11_elems \<Rightarrow> rtw_ieee802_11_elems option" where
  "set_elem eid v elems =
     (if eid = 0 then Some (elems\<lparr>e_ssid := v\<rparr>)
      else if eid = 1 then Some (elems\<lparr>e_supp_rates := v\<rparr>)
      else if eid = 2 then Some (elems\<lparr>e_fh_params := v\<rparr>)
      else if eid = 3 then Some (elems\<lparr>e_ds_params := v\<rparr>)
      else if eid = 4 then Some (elems\<lparr>e_cf_params := v\<rparr>)
      else if eid = 5 then Some (elems\<lparr>e_tim := v\<rparr>)
      else if eid = 6 then Some (elems\<lparr>e_ibss_params := v\<rparr>)
      else if eid = 16 then Some (elems\<lparr>e_challenge := v\<rparr>)
      else if eid = 42 then Some (elems\<lparr>e_erp_info := v\<rparr>)
      else if eid = 50 then Some (elems\<lparr>e_ext_supp_rates := v\<rparr>)
      else if eid = 48 then Some (elems\<lparr>e_rsn_ie := v\<rparr>)
      else if eid = 33 then Some (elems\<lparr>e_power_cap := v\<rparr>)
      else if eid = 36 then Some (elems\<lparr>e_supp_channels := v\<rparr>)
      else if eid = 54 then Some (elems\<lparr>e_mdie := v\<rparr>)
      else if eid = 55 then Some (elems\<lparr>e_ftie := v\<rparr>)
      else if eid = 56 then Some (elems\<lparr>e_timeout_int := v\<rparr>)
      else if eid = 45 then Some (elems\<lparr>e_ht_capabilities := v\<rparr>)
      else if eid = 61 then Some (elems\<lparr>e_ht_operation := v\<rparr>)
      else if eid = 191 then Some (elems\<lparr>e_vht_capabilities := v\<rparr>)
      else if eid = 192 then Some (elems\<lparr>e_vht_operation := v\<rparr>)
      else if eid = 199 then Some (elems\<lparr>e_vht_op_mode_notify := v\<rparr>)
      else None)"

definition parse_elem ::
  "mem \<Rightarrow> nat \<Rightarrow> u8 \<Rightarrow> u8 \<Rightarrow> rtw_ieee802_11_elems \<Rightarrow> (rtw_ieee802_11_elems \<times> bool) option" where
  "parse_elem m pos eid elen elems =
     (if eid = VENDOR_SPECIFIC_IE then rtw_ieee802_11_parse_vendor_specific m pos elen elems
      else case set_elem eid (Some pos, elen) elems of
             Some elems' \<Rightarrow> Some (elems', False)
           | None \<Rightarrow> Some (elems, True))"

function parse_elems_loop ::
  "mem \<Rightarrow> nat \<Rightarrow> nat \<Rightarrow> nat \<Rightarrow> rtw_ieee802_11_elems \<Rightarrow> (ParseRes \<times> rtw_ieee802_11_elems) option" where
  "parse_elems_loop m left pos unknown elems =
     (if 2 \<le> left then do {
        eid \<leftarrow> rd8 m pos;
        elen \<leftarrow> rd8 m (pos + 1);
        if unat elen > left - 2 then Some (ParseFailed, elems)
        else do {
          r \<leftarrow> parse_elem m (pos + 2) eid elen elems;
          parse_elems_loop m (left - 2 - unat elen) (pos + 2 + unat elen)
            (if snd r then unknown + 1 else unknown) (fst r) } }
      else if left \<noteq> 0 then Some (ParseFailed, elems)
      else Some (if unknown \<noteq> 0 then ParseUnknown else ParseOK, elems))"
  by pat_completeness auto
termination
  by (relation "measure (\<lambda>(m, left, pos, unknown, elems). left)") auto

declare parse_elems_loop.simps [simp del]

definition rtw_ieee802_11_parse_elems :: "mem \<Rightarrow> nat \<Rightarrow> nat \<Rightarrow> (ParseRes \<times> rtw_ieee802_11_elems) option" where
  "rtw_ieee802_11_parse_elems m start len = parse_elems_loop m len start 0 empty_elems"

section \<open>Reference decoder\<close>

text \<open>The element list a byte string encodes, if it encodes one.\<close>

fun ie_split :: "u8 list \<Rightarrow> ie list option" where
  "ie_split [] = Some []"
| "ie_split [x] = None"
| "ie_split (t # l # rest) =
     (if unat l \<le> length rest
      then map_option (Cons (t, take (unat l) rest)) (ie_split (drop (unat l) rest)) else None)"

lemma ie_split_stream: "\<forall>e\<in>set es. good_ie e \<Longrightarrow> ie_split (stream enc_ie es) = Some es"
proof (induction es)
  case (Cons e es)
  then show ?case
    by (cases e) (simp add: enc_ie_def enc_ie_len [of e, simplified] good_ie_def unat_of_nat_u8)
qed simp

lemma ie_split_Some: "ie_split bs = Some es \<Longrightarrow> bs = stream enc_ie es \<and> (\<forall>e\<in>set es. good_ie e)"
proof (induction bs arbitrary: es rule: ie_split.induct)
  case (3 t l rest)
  then obtain es' where le: "unat l \<le> length rest" and es: "es = (t, take (unat l) rest) # es'"
    and "ie_split (drop (unat l) rest) = Some es'"
    by (auto split: if_splits)
  with "3.IH" [of es'] have rest: "drop (unat l) rest = stream enc_ie es'" "\<forall>e\<in>set es'. good_ie e"
    by simp_all
  have "enc_ie (t, take (unat l) rest) = t # l # take (unat l) rest"
    using le by (simp add: enc_ie_def min_def)
  moreover have "good_ie (t, take (unat l) rest)"
    using unat_u8_lt [of l] le by (simp add: good_ie_def)
  ultimately show ?case
    using rest by (simp add: es flip: rest(1))
qed auto

text \<open>The slot of a plain (not vendor-specific) id holds the last element with that id.\<close>

fun last_slot :: "u8 \<Rightarrow> nat \<Rightarrow> ie list \<Rightarrow> elem \<Rightarrow> elem" where
  "last_slot eid off [] acc = acc"
| "last_slot eid off (e # es) acc =
     last_slot eid (off + length (enc_ie e)) es
       (if fst e = eid then (Some (off + 2), word_of_nat (length (snd e))) else acc)"

definition plain_slots :: "(u8 \<times> (rtw_ieee802_11_elems \<Rightarrow> elem)) list" where
  "plain_slots = [(0, e_ssid),
     (1, e_supp_rates),
     (2, e_fh_params),
     (3, e_ds_params),
     (4, e_cf_params),
     (5, e_tim),
     (6, e_ibss_params),
     (16, e_challenge),
     (42, e_erp_info),
     (50, e_ext_supp_rates),
     (48, e_rsn_ie),
     (33, e_power_cap),
     (36, e_supp_channels),
     (54, e_mdie),
     (55, e_ftie),
     (56, e_timeout_int),
     (45, e_ht_capabilities),
     (61, e_ht_operation),
     (191, e_vht_capabilities),
     (192, e_vht_operation),
     (199, e_vht_op_mode_notify)]"

lemma rd8_some: "a < length m \<Longrightarrow> \<exists>b. rd8 m a = Some b"
  by (simp add: rd8_in)

lemma vendor_case_in_bounds:
  assumes "pos + unat elen \<le> length m"
  shows "\<exists>k. vendor_specific_case m pos elen = Some k"
proof (cases "elen < 4")
  case True
  then show ?thesis
    by (simp add: vendor_specific_case_def)
next
  case False
  then have len: "pos + 4 \<le> length m"
    using assms by (simp add: word_less_nat_alt)
  have "pos + 5 \<le> length m" if "\<not> elen < 5"
    using that assms by (simp add: word_less_nat_alt)
  then show ?thesis
    using False len by (auto simp: vendor_specific_case_def RTW_GET_BE24_def rd8_in)
qed

lemma parse_vendor_in_bounds:
  "pos + unat elen \<le> length m \<Longrightarrow> rtw_ieee802_11_parse_vendor_specific m pos elen elems \<noteq> None"
  using vendor_case_in_bounds [of pos elen m] by (auto simp: rtw_ieee802_11_parse_vendor_specific_def)

lemma parse_elem_in_bounds: "pos + unat elen \<le> length m \<Longrightarrow> parse_elem m pos eid elen elems \<noteq> None"
  using parse_vendor_in_bounds [of pos elen m elems] by (auto simp: parse_elem_def split: option.split)

lemma vendor_slots_keep:
  "list_all (\<lambda>(eid, sel). eid \<noteq> 221 \<and> sel (elems\<lparr>e_wpa_ie := v\<rparr>) = sel elems \<and> sel (elems\<lparr>e_wme := v\<rparr>) = sel elems
     \<and> sel (elems\<lparr>e_wme_tspec := v\<rparr>) = sel elems \<and> sel (elems\<lparr>e_wps_ie := v\<rparr>) = sel elems
     \<and> sel (elems\<lparr>e_vendor_ht_cap := v\<rparr>) = sel elems) plain_slots"
  by (simp add: plain_slots_def)

lemma set_elem_slots:
  "list_all (\<lambda>(eid, sel). case set_elem i v elems of None \<Rightarrow> i \<noteq> eid
      | Some elems' \<Rightarrow> sel elems' = (if i = eid then v else sel elems)) plain_slots"
  unfolding plain_slots_def list.pred_inject prod.case
  by (intro conjI TrueI; simp add: set_elem_def)

lemma parse_vendor_slot:
  assumes "rtw_ieee802_11_parse_vendor_specific m pos elen elems = Some r" and "(eid, sel) \<in> set plain_slots"
  shows "sel (fst r) = sel elems"
proof -
  obtain k where k: "vendor_specific_case m pos elen = Some k"
    using assms(1) by (cases "vendor_specific_case m pos elen")
      (auto simp: rtw_ieee802_11_parse_vendor_specific_def)
  show ?thesis
    using assms(1) vendor_slots_keep [where elems = elems and v = "(Some pos, elen)", unfolded list_all_iff, THEN bspec, OF assms(2)]
    by (cases k) (auto simp: k rtw_ieee802_11_parse_vendor_specific_def)
qed

lemma parse_elem_slot:
  assumes "parse_elem m pos eid' elen elems = Some r" and "(eid, sel) \<in> set plain_slots"
  shows "sel (fst r) = (if eid' = eid then (Some pos, elen) else sel elems)"
proof (cases "eid' = 221")
  case True
  then have "sel (fst r) = sel elems"
    using assms by (intro parse_vendor_slot) (simp_all add: parse_elem_def)
  moreover have "eid \<noteq> 221"
    using vendor_slots_keep [unfolded list_all_iff, THEN bspec, OF assms(2)] by simp
  ultimately show ?thesis
    using True by simp
next
  case False
  then show ?thesis
    using assms(1) set_elem_slots [where i = eid' and v = "(Some pos, elen)" and elems = elems, unfolded list_all_iff, THEN bspec, OF assms(2)]
    by (auto simp: parse_elem_def split: option.splits)
qed


section \<open>The parser refines the reference decoder\<close>

lemma take_drop_two:
  assumes "pos + left \<le> length m" "2 \<le> left"
  shows "take left (drop pos m) = m ! pos # m ! (pos + 1) # take (left - 2) (drop (pos + 2) m)"
proof -
  have "drop pos m = m ! pos # m ! (pos + 1) # drop (pos + 2) m"
    using assms by (simp add: Cons_nth_drop_Suc)
  then show ?thesis
    using assms(2) by (simp add: take_Cons' numeral_2_eq_2)
qed

lemma parse_elems_loop_refines:
  assumes "pos + left \<le> length m"
  shows "case ie_split (take left (drop pos m)) of
           None \<Rightarrow> \<exists>el. parse_elems_loop m left pos unknown elems = Some (ParseFailed, el)
         | Some es \<Rightarrow> \<exists>r el. parse_elems_loop m left pos unknown elems = Some (r, el) \<and> r \<noteq> ParseFailed \<and>
             (\<forall>(eid, sel) \<in> set plain_slots. sel el = last_slot eid pos es (sel elems))"
  using assms
proof (induction m left pos unknown elems rule: parse_elems_loop.induct)
  case (1 m left pos unknown elems)
  note unfold = parse_elems_loop.simps [of m left pos unknown elems]
  consider (many) "2 \<le> left" | (one) "left = 1" | (zero) "left = 0"
    by linarith
  then show ?case
  proof cases
    case zero
    then show ?thesis
      by (auto simp: parse_elems_loop.simps [of m 0])
  next
    case one
    then have "take left (drop pos m) = [m ! pos]"
      using "1.prems" by (simp add: take_Suc hd_drop_conv_nth)
    then show ?thesis
      using one by (simp add: parse_elems_loop.simps [of m "Suc 0"])
  next
    case many
    define t l where "t = m ! pos" and "l = m ! (pos + 1)"
    have rd: "rd8 m pos = Some t" "rd8 m (pos + 1) = Some l"
      using "1.prems" many by (simp_all add: t_def l_def rd8_in)
    have bs: "take left (drop pos m) = t # l # take (left - 2) (drop (pos + 2) m)"
      using take_drop_two [OF "1.prems" many] by (simp add: t_def l_def)
    have len: "length (take (left - 2) (drop (pos + 2) m)) = left - 2"
      using "1.prems" by simp
    show ?thesis
    proof (cases "unat l > left - 2")
      case True
      then show ?thesis
        using many rd by (simp add: bs len unfold)
    next
      case False
      have "pos + 2 + unat l \<le> length m"
        using "1.prems" many False by linarith
      then obtain r where r: "parse_elem m (pos + 2) t l elems = Some r"
        using parse_elem_in_bounds [of "pos + 2" l m t elems] by blast
      have rest: "drop (unat l) (take (left - 2) (drop (pos + 2) m))
          = take (left - 2 - unat l) (drop (pos + 2 + unat l) m)"
        by (simp add: drop_take add.commute)
      have data: "length (take (unat l) (take (left - 2) (drop (pos + 2) m))) = unat l"
        using False len by simp
      have step: "parse_elems_loop m left pos unknown elems = parse_elems_loop m (left - 2 - unat l) (pos + 2 + unat l)
            (if snd r then unknown + 1 else unknown) (fst r)"
        using many rd False r by (simp add: unfold)
      have bound: "pos + 2 + unat l + (left - 2 - unat l) \<le> length m"
        using "1.prems" many False by simp
      note IH = "1.IH" [OF many rd False r bound]
      have slot: "sel (fst r) = (if t = eid then (Some (pos + 2), l) else sel elems)"
        if "(eid, sel) \<in> set plain_slots" for eid sel
        using parse_elem_slot [OF r that] .
      let ?d = "take (unat l) (take (left - 2) (drop (pos + 2) m))"
      let ?rest = "take (left - 2 - unat l) (drop (pos + 2 + unat l) m)"
      have split: "ie_split (take left (drop pos m)) = map_option (Cons (t, ?d)) (ie_split ?rest)"
        unfolding bs ie_split.simps len rest using False by simp
      have last: "last_slot eid pos ((t, ?d) # es) v
          = last_slot eid (pos + 2 + unat l) es (if t = eid then (Some (pos + 2), l) else v)" for eid v es
        using data by (simp del: take_take)
      show ?thesis
      proof (cases "ie_split ?rest")
        case None
        then show ?thesis
          using IH unfolding split step by simp
      next
        case (Some es)
        then obtain r' el where el: "parse_elems_loop m left pos unknown elems = Some (r', el)" "r' \<noteq> ParseFailed"
          "\<forall>(eid, sel)\<in>set plain_slots. sel el = last_slot eid (pos + 2 + unat l) es (sel (fst r))"
          using IH unfolding step by auto
        have "\<forall>(eid, sel)\<in>set plain_slots. sel el = last_slot eid pos ((t, ?d) # es) (sel elems)"
          using el(3) slot unfolding last by fastforce
        then show ?thesis
          using el(1,2) unfolding split Some by auto
      qed
    qed
  qed
qed



end
