(* ===== verification/Ie_Wpa.thy ===== *)
theory Ie_Wpa
  imports Ie_Search
begin

text \<open>
  The WPA and RSN element parsers of \<^verbatim>\<open>core/rtw_ieee80211.c\<close> and the cipher-suite
  selectors they decode. The tail the two parsers share is proved once, in a locale over the
  selector decoder, and interpreted for both.
\<close>

section \<open>Cipher suites and the WPA and RSN parsers\<close>

abbreviation (input) WPA_CIPHER_NONE :: u32 where "WPA_CIPHER_NONE \<equiv> 1"
abbreviation (input) WPA_CIPHER_WEP40 :: u32 where "WPA_CIPHER_WEP40 \<equiv> 2"
abbreviation (input) WPA_CIPHER_WEP104 :: u32 where "WPA_CIPHER_WEP104 \<equiv> 4"
abbreviation (input) WPA_CIPHER_TKIP :: u32 where "WPA_CIPHER_TKIP \<equiv> 8"
abbreviation (input) WPA_CIPHER_CCMP :: u32 where "WPA_CIPHER_CCMP \<equiv> 16"

text \<open>Each comparison reads the four bytes of the selector.\<close>

definition rtw_get_wpa_cipher_suite :: "mem \<Rightarrow> nat \<Rightarrow> u32 option" where
  "rtw_get_wpa_cipher_suite m s = do {
     q \<leftarrow> rd_bytes m s 4;
     Some (if q = [0x00, 0x50, 0xf2, 0] then WPA_CIPHER_NONE
           else if q = [0x00, 0x50, 0xf2, 1] then WPA_CIPHER_WEP40
           else if q = [0x00, 0x50, 0xf2, 2] then WPA_CIPHER_TKIP
           else if q = [0x00, 0x50, 0xf2, 4] then WPA_CIPHER_CCMP
           else if q = [0x00, 0x50, 0xf2, 5] then WPA_CIPHER_WEP104
           else 0) }"

definition rtw_get_wpa2_cipher_suite :: "mem \<Rightarrow> nat \<Rightarrow> u32 option" where
  "rtw_get_wpa2_cipher_suite m s = do {
     q \<leftarrow> rd_bytes m s 4;
     Some (if q = [0x00, 0x0f, 0xac, 0] then WPA_CIPHER_NONE
           else if q = [0x00, 0x0f, 0xac, 1] then WPA_CIPHER_WEP40
           else if q = [0x00, 0x0f, 0xac, 2] then WPA_CIPHER_TKIP
           else if q = [0x00, 0x0f, 0xac, 4] then WPA_CIPHER_CCMP
           else if q = [0x00, 0x0f, 0xac, 5] then WPA_CIPHER_WEP104
           else 0) }"

text \<open>The three output variables; \<open>is_8021x\<close> may be a NULL pointer.\<close>

record wpa_out =
  group_cipher :: u32
  pairwise_cipher :: u32
  is_8021x :: "u32 option"

fun pairwise_loop :: "(nat \<Rightarrow> u32 option) \<Rightarrow> nat \<Rightarrow> nat \<Rightarrow> u32 \<Rightarrow> u32 option" where
  "pairwise_loop suite 0 pos acc = Some acc"
| "pairwise_loop suite (Suc n) pos acc = do {
     c \<leftarrow> suite pos;
     pairwise_loop suite n (pos + 4) (acc OR c) }"

text \<open>The common tail of the two parsers, from the group cipher on: \<open>pos\<close> and \<open>left\<close> as the
  code advances them, \<open>suite\<close> the selector decoder, \<open>suite_1x\<close> the 802.1X selector. The flag
  is \<open>_SUCCESS\<close>.\<close>

definition wpa_parse_8021x :: "mem \<Rightarrow> u8 list \<Rightarrow> nat \<Rightarrow> int \<Rightarrow> wpa_out \<Rightarrow> (bool \<times> wpa_out) option" where
  "wpa_parse_8021x m suite_1x pos left out =
     (case is_8021x out of None \<Rightarrow> Some (True, out)
      | Some _ \<Rightarrow>
         if left \<ge> 6 then do {
           eq \<leftarrow> rtw_memcmp m (pos + 2) suite_1x 0 4;
           Some (True, if eq then out\<lparr>is_8021x := Some 1\<rparr> else out) }
         else Some (True, out))"

definition wpa_parse_pairwise ::
  "mem \<Rightarrow> (nat \<Rightarrow> u32 option) \<Rightarrow> u8 list \<Rightarrow> nat \<Rightarrow> int \<Rightarrow> wpa_out \<Rightarrow> (bool \<times> wpa_out) option" where
  "wpa_parse_pairwise m suite suite_1x pos left out =
     (if left \<ge> 2 then do {
        count \<leftarrow> RTW_GET_LE16 m pos;
        if count = 0 \<or> left - 2 < uint count * 4 then Some (False, out)
        else do {
          pc \<leftarrow> pairwise_loop suite (unat count) (pos + 2) (pairwise_cipher out);
          wpa_parse_8021x m suite_1x (pos + 2 + 4 * unat count) (left - 2 - 4 * uint count)
            (out\<lparr>pairwise_cipher := pc\<rparr>) } }
      else if left = 1 then Some (False, out)
      else wpa_parse_8021x m suite_1x pos left out)"

definition wpa_parse_group ::
  "mem \<Rightarrow> (nat \<Rightarrow> u32 option) \<Rightarrow> u8 list \<Rightarrow> nat \<Rightarrow> int \<Rightarrow> wpa_out \<Rightarrow> (bool \<times> wpa_out) option" where
  "wpa_parse_group m suite suite_1x pos left out =
     (if left \<ge> 4 then do {
        g \<leftarrow> suite pos;
        wpa_parse_pairwise m suite suite_1x (pos + 4) (left - 4) (out\<lparr>group_cipher := g\<rparr>) }
      else if left > 0 then Some (False, out)
      else wpa_parse_pairwise m suite suite_1x pos left out)"

definition rtw_parse_wpa_ie :: "mem \<Rightarrow> nat \<Rightarrow> int \<Rightarrow> wpa_out \<Rightarrow> (bool \<times> wpa_out) option" where
  "rtw_parse_wpa_ie m wpa_ie wpa_ie_len out =
     (if wpa_ie_len \<le> 0 then Some (False, out)
      else do {
        b0 \<leftarrow> rd8 m wpa_ie;
        if b0 \<noteq> 0xdd then Some (False, out)
        else do {
          b1 \<leftarrow> rd8 m (wpa_ie + 1);
          if b1 \<noteq> word_of_int (wpa_ie_len - 2) then Some (False, out)
          else do {
            eq \<leftarrow> rtw_memcmp m (wpa_ie + 2) [0x00, 0x50, 0xf2, 1] 0 4;
            if \<not> eq then Some (False, out)
            else wpa_parse_group m (rtw_get_wpa_cipher_suite m) [0x00, 0x50, 0xf2, 1]
                   (wpa_ie + 8) (wpa_ie_len - 8) out } } })"

definition rtw_parse_wpa2_ie :: "mem \<Rightarrow> nat \<Rightarrow> int \<Rightarrow> wpa_out \<Rightarrow> (bool \<times> wpa_out) option" where
  "rtw_parse_wpa2_ie m rsn_ie rsn_ie_len out =
     (if rsn_ie_len \<le> 0 then Some (False, out)
      else do {
        b0 \<leftarrow> rd8 m rsn_ie;
        if b0 \<noteq> 0x30 then Some (False, out)
        else do {
          b1 \<leftarrow> rd8 m (rsn_ie + 1);
          if b1 \<noteq> word_of_int (rsn_ie_len - 2) then Some (False, out)
          else wpa_parse_group m (rtw_get_wpa2_cipher_suite m) [0x00, 0x0f, 0xac, 1]
                 (rsn_ie + 4) (rsn_ie_len - 4) out } })"

section \<open>The WPA and RSN parsers\<close>

text \<open>The interface between the two parsers and their selector decoders.\<close>

locale suite_decoder =
  fixes suite :: "mem \<Rightarrow> nat \<Rightarrow> u32 option" and val :: "u8 list \<Rightarrow> u32"
  assumes suite_at: "length s = 4 \<Longrightarrow> suite (pre @ s @ post) (length pre) = Some (val s)"
begin

lemma pairwise_stream:
  "\<forall>s\<in>set ps. length s = 4 \<Longrightarrow>
     pairwise_loop (suite (pre @ concat ps @ post)) (length ps) (length pre) acc
       = Some (foldl (\<lambda>a s. a OR val s) acc ps)"
proof (induction ps arbitrary: pre acc)
  case (Cons s ps)
  then have "suite (pre @ concat (s # ps) @ post) (length pre) = Some (val s)"
    using suite_at [of s pre "concat ps @ post"] by simp
  then show ?case
    using Cons.IH [of "pre @ s" "acc OR val s"] Cons.prems by simp
qed simp

definition parsed :: "u8 list \<Rightarrow> u8 list list \<Rightarrow> u8 list \<Rightarrow> u8 list \<Rightarrow> wpa_out \<Rightarrow> wpa_out" where
  "parsed g ps rest s1x out = out\<lparr>group_cipher := val g,
     pairwise_cipher := foldl (\<lambda>a s. a OR val s) (pairwise_cipher out) ps,
     is_8021x := map_option (\<lambda>x. if 6 \<le> length rest \<and> take 4 (drop 2 rest) = s1x then 1 else x) (is_8021x out)\<rparr>"

lemma parse_8021x_at:
  assumes "length s1x = 4"
  shows "wpa_parse_8021x (pre @ rest @ post) s1x (length pre) (int (length rest)) out
     = Some (True, out\<lparr>is_8021x := map_option (\<lambda>x. if 6 \<le> length rest \<and> take 4 (drop 2 rest) = s1x then 1 else x) (is_8021x out)\<rparr>)"
proof (cases "is_8021x out")
  case None
  then show ?thesis
    by (cases out) (simp add: wpa_parse_8021x_def)
next
  case (Some x)
  have "rd_bytes (pre @ rest @ post) (length pre + 2) 4 = Some (take 4 (drop 2 rest))" if "6 \<le> length rest"
    unfolding rd_bytes_append_at using that by (simp add: rd_bytes_def)
  then show ?thesis
    using Some assms by (cases out) (auto simp: wpa_parse_8021x_def rtw_memcmp_def simp del: rd_bytes_append_at)
qed

lemma parse_group_at:
  assumes "length g = 4" "\<forall>s\<in>set ps. length s = 4" "ps \<noteq> []" "length ps < 65536" "length s1x = 4"
  shows "wpa_parse_group (pre @ g @ RTW_PUT_LE16 (word_of_nat (length ps)) @ concat ps @ rest @ post)
           (suite (pre @ g @ RTW_PUT_LE16 (word_of_nat (length ps)) @ concat ps @ rest @ post)) s1x (length pre)
           (int (6 + 4 * length ps + length rest)) out = Some (True, parsed g ps rest s1x out)"
proof -
  let ?n = "word_of_nat (length ps) :: u16"
  let ?m = "pre @ g @ RTW_PUT_LE16 ?n @ concat ps @ rest @ post"
  have grp: "suite ?m (length pre) = Some (val g)"
    using suite_at [OF assms(1)] by simp
  have cnt: "RTW_GET_LE16 ?m (length pre + 4) = Some ?n"
    using RTW_GET_LE16_at [of "pre @ g" ?n "concat ps @ rest @ post"] assms(1) by simp
  have n: "unat ?n = length ps" "uint ?n = int (length ps)"
    using assms(4) by (simp_all add: unat_of_nat take_bit_nat_eq_self uint_nat)
  have ne: "?n \<noteq> 0"
    using n(1) assms(3) by (metis length_0_conv unat_0)
  have lenps: "length (concat ps) = 4 * length ps"
    using assms(2) by (induction ps) auto
  have pw: "pairwise_loop (suite ?m) (length ps) (length pre + 6) acc = Some (foldl (\<lambda>a s. a OR val s) acc ps)" for acc
    using pairwise_stream [OF assms(2), of "pre @ g @ RTW_PUT_LE16 ?n" "rest @ post" acc] assms(1)
    by (simp add: RTW_PUT_LE16_def add.commute)
  have tail: "wpa_parse_8021x ?m s1x (length pre + (6 + length ps * 4)) (int (length rest)) o'
      = Some (True, o'\<lparr>is_8021x := map_option (\<lambda>x. if 6 \<le> length rest \<and> take 4 (drop 2 rest) = s1x then 1 else x) (is_8021x o')\<rparr>)" for o'
    using parse_8021x_at [OF assms(5), of "pre @ g @ RTW_PUT_LE16 ?n @ concat ps" rest post o'] assms(1) lenps
    by (simp add: RTW_PUT_LE16_def ac_simps)
  show ?thesis
    by (simp add: wpa_parse_group_def wpa_parse_pairwise_def grp cnt n ne pw tail parsed_def algebra_simps)
qed

end

text \<open>The selectors: three OUI bytes and a suite type.\<close>

definition suite_types :: "u8 \<Rightarrow> u32" where
  "suite_types t = (if t = 0 then WPA_CIPHER_NONE else if t = 1 then WPA_CIPHER_WEP40 else if t = 2 then WPA_CIPHER_TKIP
     else if t = 4 then WPA_CIPHER_CCMP else if t = 5 then WPA_CIPHER_WEP104 else 0)"

definition suite_val :: "u8 list \<Rightarrow> u8 list \<Rightarrow> u32" where
  "suite_val oui s = (if take 3 s = oui then suite_types (s ! 3) else 0)"

lemma length4_conv: "length s = 4 \<longleftrightarrow> (\<exists>a b c d. s = [a, b, c, d])"
  by (auto simp: length_Suc_conv eval_nat_numeral)

interpretation wpa: suite_decoder rtw_get_wpa_cipher_suite "suite_val [0x00, 0x50, 0xf2]"
proof
  fix s pre post :: mem
  assume "length s = 4"
  then show "rtw_get_wpa_cipher_suite (pre @ s @ post) (length pre) = Some (suite_val [0x00, 0x50, 0xf2] s)"
    by (auto simp: length4_conv rtw_get_wpa_cipher_suite_def suite_val_def suite_types_def rd_bytes_def)
qed

interpretation rsn: suite_decoder rtw_get_wpa2_cipher_suite "suite_val [0x00, 0x0f, 0xac]"
proof
  fix s pre post :: mem
  assume "length s = 4"
  then show "rtw_get_wpa2_cipher_suite (pre @ s @ post) (length pre) = Some (suite_val [0x00, 0x0f, 0xac] s)"
    by (auto simp: length4_conv rtw_get_wpa2_cipher_suite_def suite_val_def suite_types_def rd_bytes_def)
qed

text \<open>The body of an element: version, group selector, pairwise count and selectors, rest.\<close>

definition sec_body :: "u8 list \<Rightarrow> u8 list \<Rightarrow> u8 list list \<Rightarrow> u8 list \<Rightarrow> u8 list" where
  "sec_body hdr g ps rest = hdr @ g @ RTW_PUT_LE16 (word_of_nat (length ps)) @ concat ps @ rest"

lemma length_sec_body:
  "length g = 4 \<Longrightarrow> \<forall>s\<in>set ps. length s = 4 \<Longrightarrow>
     length (sec_body hdr g ps rest) = length hdr + 6 + 4 * length ps + length rest"
proof -
  assume g: "length g = 4" and ps: "\<forall>s\<in>set ps. length s = 4"
  have "length (concat ps) = 4 * length ps"
    using ps by (induction ps) auto
  then show ?thesis
    using g by (simp add: sec_body_def RTW_PUT_LE16_def)
qed

text \<open>\<open>rtw_parse_wpa2_ie\<close> accepts every RSN element that carries a version, a group
  selector and a non-empty list of pairwise selectors: it reports the group cipher, the union
  of the pairwise ciphers, and 802.1X when the first key management selector says so.\<close>

theorem rtw_parse_wpa2_ie_correct:
  assumes "length ver = 2" "length g = 4" "\<forall>s\<in>set ps. length s = 4" "ps \<noteq> []"
    and "good_ie (0x30, sec_body ver g ps rest)"
  shows "rtw_parse_wpa2_ie (pre @ enc_ie (0x30, sec_body ver g ps rest) @ post) (length pre)
           (2 + int (length (sec_body ver g ps rest))) out =
         Some (True, out\<lparr>group_cipher := suite_val [0x00, 0x0f, 0xac] g,
            pairwise_cipher := foldl (\<lambda>a s. a OR suite_val [0x00, 0x0f, 0xac] s) (pairwise_cipher out) ps,
            is_8021x := map_option (\<lambda>x. if 6 \<le> length rest \<and> take 4 (drop 2 rest) = [0x00, 0x0f, 0xac, 1]
                                        then 1 else x) (is_8021x out)\<rparr>)"
proof -
  let ?b = "sec_body ver g ps rest"
  let ?m = "pre @ enc_ie (0x30, ?b) @ post"
  let ?pre = "pre @ [0x30, word_of_nat (length ?b)] @ ver"
  have m: "?m = ?pre @ g @ RTW_PUT_LE16 (word_of_nat (length ps)) @ concat ps @ rest @ post"
    by (simp add: enc_ie_def sec_body_def)
  have len: "length ?b = 8 + 4 * length ps + length rest"
    using length_sec_body [OF assms(2,3)] assms(1) by simp
  then have ps: "length ps < 65536"
    using assms(5) by (simp add: good_ie_def)
  have grp: "wpa_parse_group ?m (rtw_get_wpa2_cipher_suite ?m) [0x00, 0x0f, 0xac, 1] (length pre + 4)
      (int (6 + 4 * length ps + length rest)) out = Some (True, rsn.parsed g ps rest [0x00, 0x0f, 0xac, 1] out)"
    using rsn.parse_group_at [OF assms(2-4) ps, of "[0x00, 0x0f, 0xac, 1]" ?pre rest post out] assms(1)
    unfolding m [symmetric] by simp
  have b1: "word_of_int (2 + int (length ?b) - 2) = (word_of_nat (length ?b) :: u8)"
    by simp
  show ?thesis
    using grp len by (simp add: rtw_parse_wpa2_ie_def rsn.parsed_def b1 algebra_simps)
qed

theorem rtw_parse_wpa2_ie_correct_witness:
  "rtw_parse_wpa2_ie (enc_ie (0x30, sec_body [1, 0] [0x00, 0x0f, 0xac, 4] [[0x00, 0x0f, 0xac, 2], [0x00, 0x0f, 0xac, 4]]
      [1, 0, 0x00, 0x0f, 0xac, 1])) 0 24 \<lparr>group_cipher = 0, pairwise_cipher = 0, is_8021x = Some 0\<rparr> =
   Some (True, \<lparr>group_cipher = 16, pairwise_cipher = 24, is_8021x = Some 1\<rparr>)"
  using rtw_parse_wpa2_ie_correct [of "[1, 0]" "[0x00, 0x0f, 0xac, 4]" "[[0x00, 0x0f, 0xac, 2], [0x00, 0x0f, 0xac, 4]]"
      "[1, 0, 0x00, 0x0f, 0xac, 1]" "[]" "[]" "\<lparr>group_cipher = 0, pairwise_cipher = 0, is_8021x = Some 0\<rparr>"]
  by (simp add: good_ie_def length_sec_body suite_val_def suite_types_def)

text \<open>The same for \<open>rtw_parse_wpa_ie\<close> and the WPA element, whose body starts with the
  WPA identifier.\<close>

theorem rtw_parse_wpa_ie_correct:
  assumes "length ver = 2" "length g = 4" "\<forall>s\<in>set ps. length s = 4" "ps \<noteq> []"
    and "good_ie (0xdd, sec_body ([0x00, 0x50, 0xf2, 1] @ ver) g ps rest)"
  shows "rtw_parse_wpa_ie (pre @ enc_ie (0xdd, sec_body ([0x00, 0x50, 0xf2, 1] @ ver) g ps rest) @ post) (length pre)
           (2 + int (length (sec_body ([0x00, 0x50, 0xf2, 1] @ ver) g ps rest))) out =
         Some (True, out\<lparr>group_cipher := suite_val [0x00, 0x50, 0xf2] g,
            pairwise_cipher := foldl (\<lambda>a s. a OR suite_val [0x00, 0x50, 0xf2] s) (pairwise_cipher out) ps,
            is_8021x := map_option (\<lambda>x. if 6 \<le> length rest \<and> take 4 (drop 2 rest) = [0x00, 0x50, 0xf2, 1]
                                        then 1 else x) (is_8021x out)\<rparr>)"
proof -
  let ?b = "sec_body ([0x00, 0x50, 0xf2, 1] @ ver) g ps rest"
  let ?m = "pre @ enc_ie (0xdd, ?b) @ post"
  let ?pre = "pre @ [0xdd, word_of_nat (length ?b)] @ [0x00, 0x50, 0xf2, 1] @ ver"
  have m: "?m = ?pre @ g @ RTW_PUT_LE16 (word_of_nat (length ps)) @ concat ps @ rest @ post"
    by (simp add: enc_ie_def sec_body_def)
  have len: "length ?b = 12 + 4 * length ps + length rest"
    using length_sec_body [OF assms(2,3)] assms(1) by simp
  then have ps: "length ps < 65536"
    using assms(5) by (simp add: good_ie_def)
  have grp: "wpa_parse_group ?m (rtw_get_wpa_cipher_suite ?m) [0x00, 0x50, 0xf2, 1] (length pre + 8)
      (int (6 + 4 * length ps + length rest)) out = Some (True, wpa.parsed g ps rest [0x00, 0x50, 0xf2, 1] out)"
    using wpa.parse_group_at [OF assms(2-4) ps, of "[0x00, 0x50, 0xf2, 1]" ?pre rest post out] assms(1)
    unfolding m [symmetric] by (simp add: numeral_eq_Suc)
  have b1: "word_of_int (2 + int (length ?b) - 2) = (word_of_nat (length ?b) :: u8)"
    by simp
  have id: "rtw_memcmp ?m (length pre + 2) [0x00, 0x50, 0xf2, 1] 0 4 = Some True"
    unfolding rtw_memcmp_def rd_bytes_append_at by (simp add: enc_ie_def sec_body_def rd_bytes_def)
  have left: "2 + int (length ?b) - 8 = int (6 + 4 * length ps + length rest)"
    using len by simp
  have pos: "\<not> 2 + int (length ?b) \<le> 0"
    by simp
  have hd: "rd8 ?m (length pre) = Some 0xdd" "rd8 ?m (length pre + 1) = Some (word_of_nat (length ?b))"
    by (simp_all add: enc_ie_def)
  show ?thesis
    unfolding rtw_parse_wpa_ie_def if_not_P [OF pos] hd b1 left id bind.bind_lunit
    using grp by (simp add: wpa.parsed_def del: of_nat_add)
qed

theorem rtw_parse_wpa_ie_correct_witness:
  "rtw_parse_wpa_ie (enc_ie (0xdd, sec_body ([0x00, 0x50, 0xf2, 1] @ [1, 0]) [0x00, 0x50, 0xf2, 2] [[0x00, 0x50, 0xf2, 2]]
      [1, 0, 0x00, 0x50, 0xf2, 2])) 0 24 \<lparr>group_cipher = 0, pairwise_cipher = 0, is_8021x = Some 0\<rparr> =
   Some (True, \<lparr>group_cipher = 8, pairwise_cipher = 8, is_8021x = Some 0\<rparr>)"
  using rtw_parse_wpa_ie_correct [of "[1, 0]" "[0x00, 0x50, 0xf2, 2]" "[[0x00, 0x50, 0xf2, 2]]"
      "[1, 0, 0x00, 0x50, 0xf2, 2]" "[]" "[]" "\<lparr>group_cipher = 0, pairwise_cipher = 0, is_8021x = Some 0\<rparr>"]
  by (simp add: good_ie_def length_sec_body suite_val_def suite_types_def)

end
