(* ===== verification/Bcn_Info.thy ===== *)
theory Bcn_Info
  imports Ie_Wpa
begin

text \<open>
  \<open>rtw_get_cipher_info\<close> and \<open>rtw_get_bcn_info\<close> of \<^verbatim>\<open>core/rtw_ieee80211.c\<close>: what the
  driver learns of a network from the beacon body stored in \<open>wlan_network\<close>. The theorems say
  how the encryption protocol is classified, how much memory behind the body the code may read
  for arbitrary contents, and that a hostile body of the maximal size makes it read outside the
  array.
\<close>

record wlan_bcn_info =
  encryp_protocol :: u8
  bcn_group_cipher :: u32
  bcn_pairwise_cipher :: u32
  bcn_is_8021x :: u32
  ht_cap_info :: u16
  ht_info_infos_0 :: u8

record wlan_network =
  IEs :: mem
  IELength :: nat
  Privacy :: u32
  BcnInfo :: wlan_bcn_info

abbreviation (input) ENCRYP_PROTOCOL_OPENSYS :: u8 where "ENCRYP_PROTOCOL_OPENSYS \<equiv> 0"
abbreviation (input) ENCRYP_PROTOCOL_WEP :: u8 where "ENCRYP_PROTOCOL_WEP \<equiv> 1"
abbreviation (input) ENCRYP_PROTOCOL_WPA :: u8 where "ENCRYP_PROTOCOL_WPA \<equiv> 2"
abbreviation (input) ENCRYP_PROTOCOL_WPA2 :: u8 where "ENCRYP_PROTOCOL_WPA2 \<equiv> 3"

definition set_ciphers :: "wlan_network \<Rightarrow> bool \<times> wpa_out \<Rightarrow> bool \<times> wlan_network" where
  "set_ciphers n r = (case r of (ok, out) \<Rightarrow>
     if ok then (True, n\<lparr>BcnInfo := (BcnInfo n)\<lparr>bcn_group_cipher := group_cipher out,
         bcn_pairwise_cipher := pairwise_cipher out, bcn_is_8021x := (case is_8021x out of Some x \<Rightarrow> x | None \<Rightarrow> 0)\<rparr>\<rparr>)
     else (False, n))"

definition rtw_get_cipher_info :: "wlan_network \<Rightarrow> (bool \<times> wlan_network) option" where
  "rtw_get_cipher_info n = (let lim = int (IELength n) - 12; out = \<lparr>group_cipher = 0, pairwise_cipher = 0, is_8021x = Some 0\<rparr> in do {
     (pbuf, wpa_ielen) \<leftarrow> rtw_get_wpa_ie (IEs n) 12 lim;
     case (if wpa_ielen > 0 then pbuf else None) of
       Some p \<Rightarrow> do { r \<leftarrow> rtw_parse_wpa_ie (IEs n) p (wpa_ielen + 2) out; Some (set_ciphers n r) }
     | None \<Rightarrow> do {
         (pbuf2, wpa2_ielen) \<leftarrow> rtw_get_wpa2_ie (IEs n) 12 wpa_ielen lim;
         case (if wpa2_ielen > 0 then pbuf2 else None) of
           Some p \<Rightarrow> do { r \<leftarrow> rtw_parse_wpa2_ie (IEs n) p (wpa2_ielen + 2) out; Some (set_ciphers n r) }
         | None \<Rightarrow> Some (False, n) } })"

text \<open>The capability field decides between open and WEP; \<open>rtw_get_sec_ie\<close> is called with NULL
  buffers, for the lengths alone.\<close>

definition bcn_capability :: "u16 \<Rightarrow> wlan_network \<Rightarrow> wlan_network" where
  "bcn_capability cap n =
     (if cap AND 0x10 \<noteq> 0 then n\<lparr>Privacy := 1\<rparr>
      else n\<lparr>BcnInfo := (BcnInfo n)\<lparr>encryp_protocol := ENCRYP_PROTOCOL_OPENSYS\<rparr>\<rparr>)"

definition bcn_protocol :: "bool \<Rightarrow> nat \<Rightarrow> nat \<Rightarrow> wlan_network \<Rightarrow> wlan_network" where
  "bcn_protocol bencrypt rsn_len wpa_len n =
     (if rsn_len > 0 then n\<lparr>BcnInfo := (BcnInfo n)\<lparr>encryp_protocol := ENCRYP_PROTOCOL_WPA2\<rparr>\<rparr>
      else if wpa_len > 0 then n\<lparr>BcnInfo := (BcnInfo n)\<lparr>encryp_protocol := ENCRYP_PROTOCOL_WPA\<rparr>\<rparr>
      else if bencrypt then n\<lparr>BcnInfo := (BcnInfo n)\<lparr>encryp_protocol := ENCRYP_PROTOCOL_WEP\<rparr>\<rparr>
      else n)"

definition bcn_ht :: "wlan_network \<Rightarrow> wlan_network option" where
  "bcn_ht n = (let lim = int (IELength n) - 12 in do {
     (p, len) \<leftarrow> rtw_get_ie (IEs n) 12 45 0 lim;
     c \<leftarrow> (case (if len > 0 then p else None) of Some q \<Rightarrow> RTW_GET_LE16 (IEs n) (q + 2) | None \<Rightarrow> Some 0);
     (p2, len2) \<leftarrow> rtw_get_ie (IEs n) 12 61 0 lim;
     i0 \<leftarrow> (case (if len2 > 0 then p2 else None) of Some q \<Rightarrow> rd8 (IEs n) (q + 3) | None \<Rightarrow> Some 0);
     Some (n\<lparr>BcnInfo := (BcnInfo n)\<lparr>ht_cap_info := c, ht_info_infos_0 := i0\<rparr>\<rparr>) })"

definition rtw_get_bcn_info :: "wlan_network \<Rightarrow> wlan_network run" where
  "rtw_get_bcn_info n =
     run_bind (Some (RTW_GET_LE16 (IEs n) 10)) (\<lambda>cap.
     run_bind (rtw_get_sec_ie (IEs n) (IELength n) (None, 0, None, 0)) (\<lambda>((_, rsn_len, _, wpa_len), _).
     let n1 = bcn_protocol (cap AND 0x10 \<noteq> 0) rsn_len wpa_len (bcn_capability cap n) in
     run_bind (Some (rtw_get_cipher_info n1)) (\<lambda>(_, n2).
     Some (bcn_ht n2))))"

section \<open>Bounds for arbitrary contents\<close>

lemma rtw_get_ie_loop_found:
  "rtw_get_ie_loop m index limit p i = Some (Some q, l) \<Longrightarrow> int i < limit \<Longrightarrow>
     int q < int p + (limit - int i) \<and> 0 \<le> l \<and> l < 256"
proof (induction m index limit p i rule: rtw_get_ie_loop.induct)
  case (1 m index limit p i)
  note unfold = rtw_get_ie_loop.simps [of m index limit p i]
  obtain b where b: "rd8 m p = Some b"
    using "1.prems" by (cases "rd8 m p") (auto simp: unfold)
  obtain t where t: "rd8 m (p + 1) = Some t"
    using "1.prems" b by (cases "rd8 m (p + 1)") (auto simp: unfold split: if_splits)
  have t256: "uint t < 256"
    using uint_lt2p [of t] by simp
  show ?case
    using "1.prems" "1.IH" [OF b _ t refl refl] b t t256 by (auto simp: unfold Let_def split: if_splits)
qed

lemma rtw_get_ie_found:
  "rtw_get_ie m p index len limit = Some (Some q, l) \<Longrightarrow> p \<le> q \<and> int q < int p + limit \<and> 0 \<le> l \<and> l < 256"
  using rtw_get_ie_ge [of m p index len limit q l] rtw_get_ie_loop_found [of m index limit p 0 q l]
  by (auto simp: rtw_get_ie_def split: if_splits)

lemma rtw_get_ie_no_fault:
  "int p + limit < int (length m) \<Longrightarrow> rtw_get_ie m p index len limit \<noteq> None"
  using rtw_get_ie_loop_in_bounds [of 0 limit p m index] by (auto simp: rtw_get_ie_def)

lemma rd8_no_fault: "a < length m \<Longrightarrow> \<exists>b. rd8 m a = Some b"
  by (simp add: rd8_def)

lemma wpa_ie_candidate_no_fault: "q + 8 \<le> length m \<Longrightarrow> wpa_ie_candidate m q \<noteq> None"
  using rd8_no_fault [of "q + 6" m] rd8_no_fault [of "q + 7" m]
  by (auto simp: wpa_ie_candidate_def rtw_memcmp_def rd_bytes_def wpa_oui_type_def)

lemma rtw_get_wpa_ie_loop_no_fault:
  "int pie + limit + 8 \<le> int (length m) \<Longrightarrow> int pbuf + limit_new \<le> int pie + limit \<Longrightarrow>
   \<exists>q l. rtw_get_wpa_ie_loop m pie limit pbuf limit_new = Some (q, l) \<and>
      (\<forall>a. q = Some a \<longrightarrow> int a < int pie + limit) \<and> 0 \<le> l \<and> l < 256"
proof (induction m pie limit pbuf limit_new rule: rtw_get_wpa_ie_loop.induct)
  case (1 m pie limit pbuf limit_new)
  note unfold = rtw_get_wpa_ie_loop.simps [of m pie limit pbuf limit_new]
  obtain q len where g: "rtw_get_ie m pbuf 0xdd 0 limit_new = Some (q, len)"
    using rtw_get_ie_no_fault [of pbuf limit_new m 221 0] "1.prems" by force
  show ?case
  proof (cases q)
    case None
    then show ?thesis
      using g by (simp add: unfold)
  next
    case (Some a)
    with g have a: "pbuf \<le> a" "int a < int pbuf + limit_new" "0 \<le> len" "len < 256"
      using rtw_get_ie_found [of m pbuf 221 0 limit_new a len] by auto
    have fit: "a + 8 \<le> length m"
      using a "1.prems" by linarith
    obtain c where c: "wpa_ie_candidate m a = Some c"
      using wpa_ie_candidate_no_fault [OF fit] by blast
    obtain b where b: "rd8 m (a + 1) = Some b"
      using rd8_no_fault [of "a + 1" m] fit by auto
    have b256: "uint b < 256"
      using uint_lt2p [of b] by simp
    show ?thesis
    proof (cases c)
      case True
      then show ?thesis
        using g Some c b a b256 "1.prems" by (simp add: unfold)
    next
      case False
      then have cF: "c = False"
        by simp
      show ?thesis
        using cF "1.IH" [OF g refl Some c cF refl] g Some c a "1.prems" by (auto simp: unfold Let_def)
    qed
  qed
qed

text \<open>The shared tail of the parsers reads no byte behind the length it is given.\<close>

lemma cipher_suite_no_fault:
  "pos + 4 \<le> length m \<Longrightarrow> rtw_get_wpa_cipher_suite m pos \<noteq> None"
  "pos + 4 \<le> length m \<Longrightarrow> rtw_get_wpa2_cipher_suite m pos \<noteq> None"
  by (simp_all add: rtw_get_wpa_cipher_suite_def rtw_get_wpa2_cipher_suite_def rd_bytes_def)

lemma pairwise_loop_no_fault:
  assumes "\<And>p. p + 4 \<le> len \<Longrightarrow> suite p \<noteq> None"
  shows "pos + 4 * n \<le> len \<Longrightarrow> pairwise_loop suite n pos acc \<noteq> None"
proof (induction n arbitrary: pos acc)
  case (Suc n)
  obtain c where "suite pos = Some c"
    using assms [of pos] Suc.prems by auto
  then show ?case
    using Suc.IH [of "pos + 4"] Suc.prems by simp
qed simp

lemma parse_8021x_no_fault:
  "int pos + left \<le> int (length m) \<Longrightarrow> length s1x = 4 \<Longrightarrow> wpa_parse_8021x m s1x pos left out \<noteq> None"
  by (auto simp: wpa_parse_8021x_def rtw_memcmp_def rd_bytes_def split: option.splits)

lemma parse_pairwise_no_fault:
  assumes "\<And>p. p + 4 \<le> length m \<Longrightarrow> suite p \<noteq> None"
    and "int pos + left \<le> int (length m)" "length s1x = 4"
  shows "wpa_parse_pairwise m suite s1x pos left out \<noteq> None"
proof (cases "left \<ge> 2")
  case True
  obtain c where c: "RTW_GET_LE16 m pos = Some c"
    using True assms(2) rd8_no_fault [of pos m] rd8_no_fault [of "pos + 1" m] by (fastforce simp: RTW_GET_LE16_def)
  have u: "int (unat c) = uint c"
    by simp
  show ?thesis
  proof (cases "c = 0 \<or> left - 2 < uint c * 4")
    case False
    have "pos + 2 + 4 * unat c \<le> length m"
      using False assms(2) u by linarith
    then obtain pc where "pairwise_loop suite (unat c) (pos + 2) (pairwise_cipher out) = Some pc"
      using pairwise_loop_no_fault [of "length m" suite "pos + 2" "unat c" "pairwise_cipher out"] assms(1) by fastforce
    moreover have "wpa_parse_8021x m s1x (pos + 2 + 4 * unat c) (left - 2 - 4 * uint c) (out\<lparr>pairwise_cipher := pc\<rparr>) \<noteq> None"
      using assms(2,3) u by (intro parse_8021x_no_fault) auto
    ultimately show ?thesis
      using True c False by (simp add: wpa_parse_pairwise_def)
  qed (use True c in \<open>simp add: wpa_parse_pairwise_def\<close>)
next
  case False
  then show ?thesis
    using parse_8021x_no_fault [OF assms(2,3)] by (simp add: wpa_parse_pairwise_def del: not_None_eq)
qed

lemma parse_group_no_fault:
  assumes "\<And>p. p + 4 \<le> length m \<Longrightarrow> suite p \<noteq> None"
    and "int pos + left \<le> int (length m)" "length s1x = 4"
  shows "wpa_parse_group m suite s1x pos left out \<noteq> None"
proof (cases "left \<ge> 4")
  case True
  then obtain g where "suite pos = Some g"
    using assms(1) [of pos] assms(2) by fastforce
  then show ?thesis
    using True parse_pairwise_no_fault [OF assms(1), where pos = "pos + 4" and left = "left - 4" and s1x = s1x] assms(2,3)
    by (simp add: wpa_parse_group_def)
next
  case False
  then show ?thesis
    using parse_pairwise_no_fault [OF assms] by (simp add: wpa_parse_group_def del: not_None_eq)
qed

lemma rtw_parse_wpa_ie_no_fault:
  assumes "int p + n \<le> int (length m)" "p + 8 \<le> length m"
  shows "rtw_parse_wpa_ie m p n out \<noteq> None" "rtw_parse_wpa2_ie m p n out \<noteq> None"
proof -
  have "wpa_parse_group m (rtw_get_wpa_cipher_suite m) [0, 80, 242, 1] (p + 8) (n - 8) out \<noteq> None"
    by (rule parse_group_no_fault, rule cipher_suite_no_fault) (use assms in auto)
  moreover have "wpa_parse_group m (rtw_get_wpa2_cipher_suite m) [0, 15, 172, 1] (p + 4) (n - 4) out \<noteq> None"
    by (rule parse_group_no_fault, rule cipher_suite_no_fault) (use assms in auto)
  ultimately show "rtw_parse_wpa_ie m p n out \<noteq> None" "rtw_parse_wpa2_ie m p n out \<noteq> None"
    using assms(2) rd8_no_fault [of p m] rd8_no_fault [of "p + 1" m]
    by (auto simp: rtw_parse_wpa_ie_def rtw_parse_wpa2_ie_def rtw_memcmp_def rd_bytes_def)
qed

lemma rtw_get_cipher_info_no_fault:
  assumes "IELength n + 258 \<le> length (IEs n)"
  shows "rtw_get_cipher_info n \<noteq> None"
proof -
  let ?m = "IEs n" and ?lim = "int (IELength n) - 12"
  obtain q l where w: "rtw_get_wpa_ie ?m 12 ?lim = Some (q, l)" "\<forall>a. q = Some a \<longrightarrow> a < IELength n" "0 \<le> l" "l < 256"
    using rtw_get_wpa_ie_loop_no_fault [of 12 ?lim ?m 12 ?lim] assms by (auto simp: rtw_get_wpa_ie_def)
  show ?thesis
  proof (cases "if l > 0 then q else None")
    case (Some a)
    then have "a < IELength n"
      using w(2) by (auto split: if_splits)
    then have "rtw_parse_wpa_ie ?m a (l + 2) \<lparr>group_cipher = 0, pairwise_cipher = 0, is_8021x = Some 0\<rparr> \<noteq> None"
      using assms w(4) by (intro rtw_parse_wpa_ie_no_fault) auto
    then show ?thesis
      using w(1) Some by (auto simp: rtw_get_cipher_info_def Let_def)
  next
    case None
    obtain q2 l2 where g: "rtw_get_wpa2_ie ?m 12 l ?lim = Some (q2, l2)"
      using rtw_get_ie_no_fault [of 12 ?lim ?m 48 l] assms by (fastforce simp: rtw_get_wpa2_ie_def)
    show ?thesis
    proof (cases "if l2 > 0 then q2 else None")
      case (Some a)
      then have "int a < int (IELength n)" "l2 < 256"
        using g rtw_get_ie_found [of ?m 12 48 l ?lim a l2] by (auto simp: rtw_get_wpa2_ie_def split: if_splits)
      then have "rtw_parse_wpa2_ie ?m a (l2 + 2) \<lparr>group_cipher = 0, pairwise_cipher = 0, is_8021x = Some 0\<rparr> \<noteq> None"
        using assms by (intro rtw_parse_wpa_ie_no_fault) auto
      then show ?thesis
        using w(1) None g Some by (auto simp: rtw_get_cipher_info_def Let_def)
    qed (use w(1) None g in \<open>simp add: rtw_get_cipher_info_def Let_def\<close>)
  qed
qed

lemma bcn_ht_no_fault:
  assumes "IELength n + 4 \<le> length (IEs n)"
  shows "\<exists>n'. bcn_ht n = Some n' \<and> encryp_protocol (BcnInfo n') = encryp_protocol (BcnInfo n)"
proof -
  let ?m = "IEs n" and ?lim = "int (IELength n) - 12"
  obtain p l where g: "rtw_get_ie ?m 12 45 0 ?lim = Some (p, l)"
    using rtw_get_ie_no_fault [of 12 ?lim ?m 45 0] assms by fastforce
  obtain p2 l2 where g2: "rtw_get_ie ?m 12 61 0 ?lim = Some (p2, l2)"
    using rtw_get_ie_no_fault [of 12 ?lim ?m 61 0] assms by fastforce
  have "\<exists>c. (case (if l > 0 then p else None) of Some q \<Rightarrow> RTW_GET_LE16 ?m (q + 2) | None \<Rightarrow> Some 0) = Some c"
  proof (cases "if l > 0 then p else None")
    case (Some q)
    then have "int q < int (IELength n)"
      using rtw_get_ie_found [of ?m 12 45 0 ?lim q l] g by (auto split: if_splits)
    then show ?thesis
      using Some assms rd8_no_fault [of "q + 2" ?m] rd8_no_fault [of "q + 3" ?m]
      by (auto simp: RTW_GET_LE16_def numeral_3_eq_3 numeral_2_eq_2)
  qed simp
  moreover have "\<exists>i. (case (if l2 > 0 then p2 else None) of Some q \<Rightarrow> rd8 ?m (q + 3) | None \<Rightarrow> Some 0) = Some i"
  proof (cases "if l2 > 0 then p2 else None")
    case (Some q)
    then have "int q < int (IELength n)"
      using rtw_get_ie_found [of ?m 12 61 0 ?lim q l2] g2 by (auto split: if_splits)
    then show ?thesis
      using Some assms rd8_no_fault [of "q + 3" ?m] by auto
  qed simp
  ultimately show ?thesis
    using g g2 by (auto simp: bcn_ht_def Let_def)
qed

lemma sec_loop_no_fault:
  "in_len + 6 \<le> length m \<Longrightarrow> \<exists>r' w'. rtw_get_sec_ie_loop m in_len cnt (None, r, None, w) = Some (Some (None, r', None, w'))"
proof (induction "in_len - cnt" arbitrary: cnt r w rule: less_induct)
  case less
  show ?case
  proof (cases "cnt < in_len")
    case True
    obtain a where a: "rd8 m cnt = Some a"
      using rd8_no_fault [of cnt m] True less.prems by auto
    obtain l where l: "rd8 m (cnt + 1) = Some l"
      using rd8_no_fault [of "cnt + 1" m] True less.prems by auto
    obtain x where x: "sec_ie_is_wpa m cnt a = Some x"
      using True less.prems by (cases "a = WPA_IE_ID") (auto simp: sec_ie_is_wpa_def rtw_memcmp_def rd_bytes_def wpa_oui_type_def)
    have "in_len - (cnt + (unat l + 2)) < in_len - cnt"
      using True by simp
    note IH = less.hyps [OF this less.prems]
    show ?thesis
      using IH [of r "unat l + 2"] IH [of "unat l + 2" w] IH [of r w] True a l x
      by (auto simp: rtw_get_sec_ie_loop.simps [of m in_len cnt] copy_ie_trace_def)
  qed (simp add: rtw_get_sec_ie_loop.simps [of m in_len cnt])
qed

lemma keeps_ies [simp]:
  "IEs (bcn_protocol b r w n) = IEs n" "IELength (bcn_protocol b r w n) = IELength n"
  "IEs (bcn_capability c n) = IEs n" "IELength (bcn_capability c n) = IELength n"
  by (simp_all add: bcn_protocol_def bcn_capability_def)

lemma set_ciphers_keeps:
  "set_ciphers n x = (ok, n') \<Longrightarrow>
     IEs n' = IEs n \<and> IELength n' = IELength n \<and> encryp_protocol (BcnInfo n') = encryp_protocol (BcnInfo n)"
  by (auto simp: set_ciphers_def split: prod.splits if_splits)

lemma cipher_info_keeps:
  "rtw_get_cipher_info n = Some (ok, n') \<Longrightarrow>
     IEs n' = IEs n \<and> IELength n' = IELength n \<and> encryp_protocol (BcnInfo n') = encryp_protocol (BcnInfo n)"
  unfolding rtw_get_cipher_info_def Let_def
  by (auto simp: bind_eq_Some_conv split: option.splits prod.splits dest!: set_ciphers_keeps)

lemma bcn_info_runs:
  assumes "12 \<le> IELength n" "IELength n + 258 \<le> length (IEs n)"
    and "rtw_get_sec_ie (IEs n) (IELength n) (None, 0, None, 0) = Some (Some ((None, r, None, w), x))"
    and "RTW_GET_LE16 (IEs n) 10 = Some cap"
  shows "\<exists>n'. rtw_get_bcn_info n = Some (Some n') \<and>
    encryp_protocol (BcnInfo n') = encryp_protocol (BcnInfo (bcn_protocol (cap AND 0x10 \<noteq> 0) r w (bcn_capability cap n)))"
proof -
  let ?n1 = "bcn_protocol (cap AND 0x10 \<noteq> 0) r w (bcn_capability cap n)"
  obtain ok n2 where c: "rtw_get_cipher_info ?n1 = Some (ok, n2)"
    using rtw_get_cipher_info_no_fault [of ?n1] assms(2) by fastforce
  note k = cipher_info_keeps [OF c]
  obtain n' where "bcn_ht n2 = Some n'" "encryp_protocol (BcnInfo n') = encryp_protocol (BcnInfo n2)"
    using bcn_ht_no_fault [of n2] k assms(2) by auto
  then show ?thesis
    using assms(3,4) c k by (simp add: rtw_get_bcn_info_def Let_def)
qed

lemma bcn_info_no_fault:
  assumes "12 \<le> IELength n" "IELength n + 258 \<le> length (IEs n)"
  shows "\<exists>n'. rtw_get_bcn_info n = Some (Some n')"
proof -
  obtain r w where s: "rtw_get_sec_ie_loop (IEs n) (IELength n) 12 (None, 0, None, 0) = Some (Some (None, r, None, w))"
    using sec_loop_no_fault [of "IELength n" "IEs n" 12 0 0] assms(2) by auto
  obtain cap where "RTW_GET_LE16 (IEs n) 10 = Some cap"
    using assms rd8_no_fault [of 10 "IEs n"] rd8_no_fault [of 11 "IEs n"] by (auto simp: RTW_GET_LE16_def)
  then show ?thesis
    using bcn_info_runs [OF assms, of r w "r + w" cap] s by (auto simp: rtw_get_sec_ie_def)
qed

text \<open>C31. For every beacon body, however malformed, \<open>rtw_get_bcn_info\<close> returns and stays inside
  the array when the array extends 258 bytes behind the body.\<close>

theorem rtw_get_bcn_info_in_bounds:
  assumes "12 \<le> IELength n" "IELength n + 258 \<le> length (IEs n)"
  shows "\<exists>n'. rtw_get_bcn_info n = Some (Some n')"
  using assms by (rule bcn_info_no_fault)

definition bcn_blank :: wlan_bcn_info where
  "bcn_blank = \<lparr>encryp_protocol = 0, bcn_group_cipher = 0, bcn_pairwise_cipher = 0, bcn_is_8021x = 0, ht_cap_info = 0, ht_info_infos_0 = 0\<rparr>"

theorem rtw_get_bcn_info_in_bounds_witness:
  "\<exists>n'. rtw_get_bcn_info \<lparr>IEs = replicate 272 0xdd, IELength = 14, Privacy = 0, BcnInfo = bcn_blank\<rparr> = Some (Some n')"
  using rtw_get_bcn_info_in_bounds [of "\<lparr>IEs = replicate 272 0xdd, IELength = 14, Privacy = 0, BcnInfo = bcn_blank\<rparr>"] by simp

section \<open>Classification of the encryption protocol\<close>

definition is_wpa_ie :: "ie \<Rightarrow> bool" where
  "is_wpa_ie e \<longleftrightarrow> fst e = WPA_IE_ID \<and> take 4 (snd e) = wpa_oui_type"

text \<open>A vendor element is long enough to hold an OUI with its type.\<close>

definition good_sec_ie :: "ie \<Rightarrow> bool" where
  "good_sec_ie e \<longleftrightarrow> good_ie e \<and> (fst e = WPA_IE_ID \<longrightarrow> 4 \<le> length (snd e))"

fun sec_lens :: "ie list \<Rightarrow> nat \<times> nat \<Rightarrow> nat \<times> nat" where
  "sec_lens [] rw = rw"
| "sec_lens (e # es) (r, w) =
     sec_lens es (if is_wpa_ie e then (r, length (snd e) + 2)
                  else if fst e = WPA2_IE_ID then (length (snd e) + 2, w) else (r, w))"

lemma sec_ie_is_wpa_at:
  assumes "good_sec_ie e"
  shows "sec_ie_is_wpa (pre @ enc_ie e @ post) (length pre) (fst e) = Some (is_wpa_ie e)"
proof -
  have "rd_bytes (pre @ enc_ie e @ post) (length pre + 2) 4 = Some (take 4 (snd e))" if "fst e = WPA_IE_ID"
    unfolding rd_bytes_append_at using assms that by (simp add: enc_ie_def rd_bytes_def good_sec_ie_def)
  then show ?thesis
    by (auto simp: sec_ie_is_wpa_def rtw_memcmp_def is_wpa_ie_def wpa_oui_type_def)
qed

lemma sec_loop_stream:
  "\<forall>e\<in>set es. good_sec_ie e \<Longrightarrow> n = length pre + length (stream enc_ie es) \<Longrightarrow>
   rtw_get_sec_ie_loop (pre @ stream enc_ie es @ post) n (length pre) (None, r, None, w)
     = Some (Some (None, fst (sec_lens es (r, w)), None, snd (sec_lens es (r, w))))"
proof (induction es arbitrary: pre r w)
  case Nil
  then show ?case
    by (simp add: rtw_get_sec_ie_loop.simps [of _ _ "length pre"])
next
  case (Cons e es)
  let ?m = "pre @ stream enc_ie (e # es) @ post"
  have m: "?m = pre @ enc_ie e @ stream enc_ie es @ post"
    by simp
  have rd: "rd8 ?m (length pre) = Some (fst e)" "rd8 ?m (length pre + 1) = Some (word_of_nat (length (snd e)))"
    by (simp_all add: enc_ie_def)
  have len: "unat (word_of_nat (length (snd e)) :: u8) = length (snd e)"
    using Cons.prems by (simp add: good_sec_ie_def good_ie_def unat_of_nat_u8)
  have isw: "sec_ie_is_wpa ?m (length pre) (fst e) = Some (is_wpa_ie e)"
    unfolding m using Cons.prems by (intro sec_ie_is_wpa_at) simp
  have lt: "length pre < n"
    using Cons.prems(2) by simp
  have IH: "rtw_get_sec_ie_loop ?m n (length pre + (length (snd e) + 2)) (None, r', None, w')
     = Some (Some (None, fst (sec_lens es (r', w')), None, snd (sec_lens es (r', w'))))" for r' w'
    using Cons.IH [of "pre @ enc_ie e" r' w'] Cons.prems by simp
  show ?case
    unfolding rtw_get_sec_ie_loop.simps [of ?m n "length pre"] using lt
    by (simp add: rd [simplified] isw [simplified] len copy_ie_trace_def IH [simplified])
qed

lemma sec_lens_pos:
  "0 < fst (sec_lens es (r, w)) \<longleftrightarrow> 0 < r \<or> (\<exists>e\<in>set es. fst e = WPA2_IE_ID)"
  "0 < snd (sec_lens es (r, w)) \<longleftrightarrow> 0 < w \<or> (\<exists>e\<in>set es. is_wpa_ie e)"
  by (induction es arbitrary: r w) (auto simp: is_wpa_ie_def)

lemma bcn_protocol_value:
  "encryp_protocol (BcnInfo (bcn_protocol (cap AND 0x10 \<noteq> 0) r w (bcn_capability cap n))) =
     (if 0 < r then ENCRYP_PROTOCOL_WPA2 else if 0 < w then ENCRYP_PROTOCOL_WPA
      else if cap AND 0x10 \<noteq> 0 then ENCRYP_PROTOCOL_WEP else ENCRYP_PROTOCOL_OPENSYS)"
  by (simp add: bcn_protocol_def bcn_capability_def)

text \<open>C32. On a well-formed beacon body \<open>rtw_get_bcn_info\<close> reports WPA2 exactly when an RSN
  element is present, else WPA when a WPA vendor element is, else WEP when the privacy bit of the
  capability field is set, else an open network.\<close>

theorem rtw_get_bcn_info_protocol:
  assumes "IEs n = fixed @ stream enc_ie es @ post" "length fixed = 12" "258 \<le> length post"
    and "IELength n = 12 + length (stream enc_ie es)" "\<forall>e\<in>set es. good_sec_ie e"
  shows "\<exists>n'. rtw_get_bcn_info n = Some (Some n') \<and>
    encryp_protocol (BcnInfo n') =
      (if \<exists>e\<in>set es. fst e = WPA2_IE_ID then ENCRYP_PROTOCOL_WPA2
       else if \<exists>e\<in>set es. is_wpa_ie e then ENCRYP_PROTOCOL_WPA
       else if le16 (fixed ! 10) (fixed ! 11) AND 0x10 \<noteq> 0 then ENCRYP_PROTOCOL_WEP
       else ENCRYP_PROTOCOL_OPENSYS)"
proof -
  have "rtw_get_sec_ie_loop (IEs n) (IELength n) 12 (None, 0, None, 0)
      = Some (Some (None, fst (sec_lens es (0, 0)), None, snd (sec_lens es (0, 0))))"
    using sec_loop_stream [OF assms(5), of "IELength n" fixed post 0 0] assms by simp
  then obtain x where s: "rtw_get_sec_ie (IEs n) (IELength n) (None, 0, None, 0)
      = Some (Some ((None, fst (sec_lens es (0, 0)), None, snd (sec_lens es (0, 0))), x))"
    by (simp add: rtw_get_sec_ie_def)
  have "RTW_GET_LE16 (IEs n) 10 = Some (le16 (fixed ! 10) (fixed ! 11))"
    using assms(1,2) by (simp add: RTW_GET_LE16_def rd8_in nth_append)
  moreover have "12 \<le> IELength n" "IELength n + 258 \<le> length (IEs n)"
    using assms(1-4) by simp_all
  ultimately show ?thesis
    using bcn_info_runs [OF _ _ s, unfolded bcn_protocol_value sec_lens_pos] by (simp only: less_irrefl simp_thms)
qed

theorem rtw_get_bcn_info_protocol_witness:
  "\<exists>n'. rtw_get_bcn_info \<lparr>IEs = (replicate 10 0 @ [0x11, 0]) @ stream enc_ie [(0, [65]), (0xdd, wpa_oui_type @ [1, 0])] @ replicate 300 0,
      IELength = 12 + length (stream enc_ie [(0, [65]), (0xdd, wpa_oui_type @ [1, 0])]), Privacy = 0, BcnInfo = bcn_blank\<rparr> = Some (Some n') \<and>
    encryp_protocol (BcnInfo n') = ENCRYP_PROTOCOL_WPA"
  using rtw_get_bcn_info_protocol [of "\<lparr>IEs = (replicate 10 0 @ [0x11, 0]) @ stream enc_ie [(0, [65]), (0xdd, wpa_oui_type @ [1, 0])] @ replicate 300 0,
      IELength = 12 + length (stream enc_ie [(0, [65]), (0xdd, wpa_oui_type @ [1, 0])]), Privacy = 0, BcnInfo = bcn_blank\<rparr>"
      "replicate 10 0 @ [0x11, 0]" "[(0, [65]), (0xdd, wpa_oui_type @ [1, 0])]" "replicate 300 0"]
  by (simp add: good_sec_ie_def good_ie_def is_wpa_ie_def wpa_oui_type_def)

section \<open>A hostile body\<close>

lemma pairwise_loop_fault:
  assumes "\<And>p. len < p + 4 \<Longrightarrow> suite p = None"
  shows "len < pos + 4 * n \<Longrightarrow> pos \<le> len \<Longrightarrow> pairwise_loop suite n pos acc = None"
proof (induction n arbitrary: pos acc)
  case (Suc n)
  show ?case
  proof (cases "len < pos + 4")
    case True
    then show ?thesis
      using assms by simp
  next
    case False
    then show ?thesis
      using Suc.IH [of "pos + 4"] Suc.prems by (cases "suite pos") simp_all
  qed
qed simp

lemma sec_loop_returns:
  "\<exists>x. rtw_get_sec_ie_loop m in_len cnt (None, r, None, w) = Some x \<and> (\<forall>y. x = Some y \<longrightarrow> (\<exists>r' w'. y = (None, r', None, w')))"
proof (induction "in_len - cnt" arbitrary: cnt r w rule: less_induct)
  case less
  show ?case
  proof (cases "cnt < in_len")
    case True
    then have "in_len - (cnt + (unat l + 2)) < in_len - cnt" for l :: u8
      by simp
    note IH = less.hyps [OF this]
    show ?thesis
      using True IH by (auto simp: rtw_get_sec_ie_loop.simps [of m in_len cnt] copy_ie_trace_def run_bind_def split: option.splits)
  qed (simp add: rtw_get_sec_ie_loop.simps [of m in_len cnt])
qed

text \<open>The body: three rate elements and, at the very end, a WPA element whose length and pairwise
  count announce more than the array holds.\<close>

definition hostile_tail :: mem where
  "hostile_tail = [0xdd, 0xff, 0x00, 0x50, 0xf2, 0x01, 1, 0, 0, 0, 0, 0, 60, 0]"

definition hostile_body :: mem where
  "hostile_body = replicate 12 0 @ stream enc_ie [(1, replicate 255 0), (1, replicate 255 0), (1, replicate 226 0)] @ hostile_tail"

lemma hostile_length: "length hostile_body = 768"
  by (simp add: hostile_body_def hostile_tail_def)

lemma rtw_get_ie_skip_stream:
  "\<forall>e\<in>set es. good_ie e \<and> uint (fst e) \<noteq> index \<Longrightarrow> length pre + length (stream enc_ie es) \<le> lim \<Longrightarrow>
     rtw_get_ie (pre @ stream enc_ie es @ post) (length pre) index 0 (int lim - int (length pre)) =
     rtw_get_ie (pre @ stream enc_ie es @ post) (length pre + length (stream enc_ie es)) index 0
       (int lim - int (length pre + length (stream enc_ie es)))"
proof (induction es arbitrary: pre)
  case (Cons e es)
  have "rtw_get_ie (pre @ enc_ie e @ stream enc_ie es @ post) (length pre) index 0 (int lim - int (length pre))
      = rtw_get_ie ((pre @ enc_ie e) @ stream enc_ie es @ post) (length (pre @ enc_ie e)) index 0 (int lim - int (length (pre @ enc_ie e)))"
    using get_ie.srch_skip [of e index pre lim "stream enc_ie es @ post"] Cons.prems by simp
  also have "\<dots> = rtw_get_ie ((pre @ enc_ie e) @ stream enc_ie es @ post) (length (pre @ enc_ie e) + length (stream enc_ie es)) index 0
       (int lim - int (length (pre @ enc_ie e) + length (stream enc_ie es)))"
    using Cons.prems by (intro Cons.IH) auto
  finally show ?case
    by (simp add: algebra_simps)
qed simp

lemma hostile_tail_at: "rd8 hostile_body (754 + k) = rd8 hostile_tail k"
  "rd_bytes hostile_body (754 + k) n = rd_bytes hostile_tail k n"
proof -
  define p where "p = replicate 12 0 @ stream enc_ie [(1, replicate 255 0), (1, replicate 255 0), (1, replicate 226 0)]"
  have "hostile_body = p @ hostile_tail" "length p = 754"
    by (simp_all add: hostile_body_def p_def)
  then show "rd8 hostile_body (754 + k) = rd8 hostile_tail k" "rd_bytes hostile_body (754 + k) n = rd_bytes hostile_tail k n"
    using rd8_append_at [of p hostile_tail k] rd_bytes_append_at [of p hostile_tail k n] by simp_all
qed

lemma hostile_reads:
  "rd8 hostile_body 754 = Some 0xdd" "rd8 hostile_body 755 = Some 0xff" "rd8 hostile_body 760 = Some 1"
  "rd8 hostile_body 761 = Some 0" "rd8 hostile_body 766 = Some 60" "rd8 hostile_body 767 = Some 0"
  "rd_bytes hostile_body 756 4 = Some wpa_oui_type" "rd_bytes hostile_body 762 4 = Some [0, 0, 0, 0]"
  using hostile_tail_at(1) [of 0] hostile_tail_at(1) [of 1] hostile_tail_at(1) [of 6] hostile_tail_at(1) [of 7]
    hostile_tail_at(1) [of 12] hostile_tail_at(1) [of 13] hostile_tail_at(2) [of 2 4] hostile_tail_at(2) [of 8 4]
  by (simp_all add: hostile_tail_def rd_bytes_def wpa_oui_type_def)

lemma hostile_search: "rtw_get_wpa_ie hostile_body 12 756 = Some (Some 754, 255)"
proof -
  have "length (stream enc_ie [(1, replicate 255 0), (1, replicate 255 0), (1, replicate 226 0)]) = 742"
    by simp
  then have "rtw_get_ie hostile_body 12 221 0 756 = rtw_get_ie hostile_body 754 221 0 14"
    using rtw_get_ie_skip_stream [of "[(1, replicate 255 0), (1, replicate 255 0), (1, replicate 226 0)]" 221
        "replicate 12 0" 768 hostile_tail]
    by (simp add: hostile_body_def [symmetric] good_ie_def del: list.map concat.simps)
  also have "\<dots> = Some (Some 754, 255)"
    by (simp add: rtw_get_ie_def rtw_get_ie_loop.simps [of _ _ _ 754] hostile_reads)
  finally show ?thesis
    by (simp add: rtw_get_wpa_ie_def rtw_get_wpa_ie_loop.simps wpa_ie_candidate_def rtw_memcmp_def hostile_reads
        wpa_oui_type_def le16_def)
qed

lemma hostile_parse: "rtw_parse_wpa_ie hostile_body 754 257 out = None"
proof -
  have "rtw_get_wpa_cipher_suite hostile_body p = None" if "768 < p + 4" for p
    using that hostile_length by (simp add: rtw_get_wpa_cipher_suite_def rd_bytes_def)
  then have "pairwise_loop (rtw_get_wpa_cipher_suite hostile_body) 60 768 acc = None" for acc
    by (rule pairwise_loop_fault [of 768]) simp_all
  then show ?thesis
    by (simp add: rtw_parse_wpa_ie_def wpa_parse_group_def wpa_parse_pairwise_def rtw_get_wpa_cipher_suite_def
        rtw_memcmp_def hostile_reads wpa_oui_type_def RTW_GET_LE16_def le16_def)
qed

text \<open>A beacon body of the maximal size \<open>MAX_IE_SZ\<close> whose last element announces more bytes
  than remain makes \<open>rtw_get_bcn_info\<close> read behind the 768-byte array.\<close>

theorem rtw_get_bcn_info_overread:
  "\<exists>n. length (IEs n) = 768 \<and> IELength n = 768 \<and> rtw_get_bcn_info n = Some None"
proof -
  fix b
  let ?n = "\<lparr>IEs = hostile_body, IELength = 768, Privacy = 0, BcnInfo = bcn_blank\<rparr>"
  have info: "rtw_get_cipher_info n = None" if "IEs n = hostile_body" "IELength n = 768" for n
    using that hostile_search hostile_parse by (simp add: rtw_get_cipher_info_def Let_def)
  have cap: "RTW_GET_LE16 hostile_body 10 = Some 0"
    by (simp add: hostile_body_def RTW_GET_LE16_def rd8_def nth_append le16_def)
  obtain x where x: "rtw_get_sec_ie_loop hostile_body 768 12 (None, 0, None, 0) = Some x"
    "\<forall>y. x = Some y \<longrightarrow> (\<exists>r' w'. y = (None, r', None, w'))"
    using sec_loop_returns [of hostile_body 768 12 0 0] by auto
  have "rtw_get_bcn_info ?n = Some None"
    using x by (cases x) (auto simp: rtw_get_bcn_info_def cap rtw_get_sec_ie_def Let_def info)
  then show ?thesis
    using hostile_length by (intro exI [of _ ?n]) simp
qed

end
