(* ===== verification/Ie_Rates.thy ===== *)
theory Ie_Rates
  imports Ie_Search
begin

text \<open>
  Rate sets, the ad hoc beacon template, and the small decoders of
  \<^verbatim>\<open>core/rtw_ieee80211.c\<close>: \<open>rtw_check_network_type\<close>, \<open>rtw_set_supported_rate\<close>,
  \<open>rtw_generate_ie\<close>, the hexadecimal readers behind \<open>rtw_macaddr_cfg\<close>, the header length,
  the MCS rate table and the action frame parser.
\<close>

section \<open>Rate sets\<close>

definition WIFI_CCKRATES :: mem where
  "WIFI_CCKRATES = [0x02 OR 0x80, 0x04 OR 0x80, 0x0B OR 0x80, 0x16 OR 0x80]"

definition WIFI_OFDMRATES :: mem where
  "WIFI_OFDMRATES = [0x0C, 0x12, 0x18, 0x24, 0x30, 0x48, 0x60, 0x6C]"

definition dot11_rate_table :: mem where
  "dot11_rate_table = [2, 4, 11, 22, 12, 18, 24, 36, 48, 72, 96, 108, 0]"

function bit_value_loop :: "u8 \<Rightarrow> nat \<Rightarrow> u32 option" where
  "bit_value_loop val i = do {
     r \<leftarrow> rd8 dot11_rate_table i;
     if r = 0 then Some 0
     else if r = val then Some (push_bit i 1)
     else bit_value_loop val (i + 1) }"
  by pat_completeness auto
termination
  by (relation "measure (\<lambda>(val, i). length dot11_rate_table - i)") (auto simp: rd8_def split: if_splits)

declare bit_value_loop.simps [simp del]

definition rtw_get_bit_value_from_ieee_value :: "u8 \<Rightarrow> u32 option" where
  "rtw_get_bit_value_from_ieee_value val = bit_value_loop val 0"

definition is_cck_rate :: "u8 \<Rightarrow> bool" where
  "is_cck_rate r \<longleftrightarrow> r AND 0x7f = 2 \<or> r AND 0x7f = 4 \<or> r AND 0x7f = 11 \<or> r AND 0x7f = 22"

text \<open>The two scans run to the zero that ends the rate string: without one they leave the
  object.\<close>

function rtw_is_cckrates_included :: "mem \<Rightarrow> nat \<Rightarrow> bool option" where
  "rtw_is_cckrates_included m i = do {
     r \<leftarrow> rd8 m i;
     if r = 0 then Some False
     else if is_cck_rate r then Some True
     else rtw_is_cckrates_included m (i + 1) }"
  by pat_completeness auto
termination
  by (relation "measure (\<lambda>(m, i). length m - i)") (auto simp: rd8_def split: if_splits)

function rtw_is_cckratesonly_included :: "mem \<Rightarrow> nat \<Rightarrow> bool option" where
  "rtw_is_cckratesonly_included m i = do {
     r \<leftarrow> rd8 m i;
     if r = 0 then Some True
     else if \<not> is_cck_rate r then Some False
     else rtw_is_cckratesonly_included m (i + 1) }"
  by pat_completeness auto
termination
  by (relation "measure (\<lambda>(m, i). length m - i)") (auto simp: rd8_def split: if_splits)

declare rtw_is_cckrates_included.simps [simp del] rtw_is_cckratesonly_included.simps [simp del]

abbreviation (input) WIRELESS_INVALID :: u32 where "WIRELESS_INVALID \<equiv> 0"
abbreviation (input) WIRELESS_11B :: u32 where "WIRELESS_11B \<equiv> 1"
abbreviation (input) WIRELESS_11G :: u32 where "WIRELESS_11G \<equiv> 2"
abbreviation (input) WIRELESS_11A :: u32 where "WIRELESS_11A \<equiv> 4"
abbreviation (input) WIRELESS_11BG :: u32 where "WIRELESS_11BG \<equiv> 3"

definition rtw_check_network_type :: "mem \<Rightarrow> nat \<Rightarrow> int \<Rightarrow> u32 option" where
  "rtw_check_network_type m rate channel =
     (if channel > 14 then do {
        cck \<leftarrow> rtw_is_cckrates_included m rate;
        Some (if cck then WIRELESS_INVALID else WIRELESS_11A) }
      else do {
        only \<leftarrow> rtw_is_cckratesonly_included m rate;
        if only then Some WIRELESS_11B
        else do {
          cck \<leftarrow> rtw_is_cckrates_included m rate;
          Some (if cck then WIRELESS_11BG else WIRELESS_11G) } })"

text \<open>\<open>NDIS_802_11_LENGTH_RATES_EX\<close> is 16. The modes of the two groups are the \<open>case\<close> labels
  of the switch, with the numbers \<open>enum NETWORK_TYPE\<close> gives them.\<close>

definition rtw_set_supported_rate :: "mem \<Rightarrow> u32 \<Rightarrow> mem option" where
  "rtw_set_supported_rate SupportedRates mode = do {
     s \<leftarrow> rtw_memset SupportedRates 0 0 16;
     if mode = WIRELESS_11B then rtw_memcpy s 0 WIFI_CCKRATES 0 4
     else if mode \<in> {WIRELESS_11G, WIRELESS_11A, 16, 20, 68} then rtw_memcpy s 0 WIFI_OFDMRATES 0 8
     else if mode \<in> {WIRELESS_11BG, 10, 8, 11} then do {
       s1 \<leftarrow> rtw_memcpy s 0 WIFI_CCKRATES 0 4;
       rtw_memcpy s1 4 WIFI_OFDMRATES 0 8 }
     else Some s }"

function rateset_len_loop :: "mem \<Rightarrow> nat \<Rightarrow> nat option" where
  "rateset_len_loop rateset i = do {
     r \<leftarrow> rd8 rateset i;
     if r = 0 then Some i
     else if i > 12 then Some i
     else rateset_len_loop rateset (i + 1) }"
  by pat_completeness auto
termination
  by (relation "measure (\<lambda>(rateset, i). 13 - i)") auto

declare rateset_len_loop.simps [simp del]

definition rtw_get_rateset_len :: "mem \<Rightarrow> nat option" where
  "rtw_get_rateset_len rateset = rateset_len_loop rateset 0"

section \<open>The ad hoc beacon template\<close>

text \<open>The fields of \<open>WLAN_BSSID_EX\<close> that \<open>rtw_generate_ie\<close> reads and writes. \<open>IEs\<close> has
  768 bytes, \<open>SupportedRates\<close> 16 and \<open>Ssid\<close> 32.\<close>

record bssid_ex =
  SsidLength :: u32
  Ssid :: mem
  Privacy :: u32
  BeaconPeriod :: u32
  ATIMWindow :: u32
  DSConfig :: u32
  SupportedRates :: mem
  IEs :: mem

record registry_priv =
  preamble :: u8
  wireless_mode :: u8
  dev_network :: bssid_ex

definition cap_info :: "registry_priv \<Rightarrow> u16" where
  "cap_info r = 2 OR (if preamble r = 3 then 0x20 else 0) OR (if Privacy (dev_network r) \<noteq> 0 then 0x10 else 0)"

definition generate_mode :: "registry_priv \<Rightarrow> u8" where
  "generate_mode r =
     (if wireless_mode r = 31
      then (if DSConfig (dev_network r) > 14 then 20 else 11)
      else wireless_mode r)"

definition rtw_generate_ie :: "registry_priv \<Rightarrow> (registry_priv \<times> nat) option" where
  "rtw_generate_ie r = (let n = dev_network r in do {
     m1 \<leftarrow> wr_bytes (IEs n) 8 (RTW_PUT_LE16 (ucast (BeaconPeriod n)));
     m2 \<leftarrow> wr_bytes m1 10 (RTW_PUT_LE16 (cap_info r));
     (m3, ie3, sz3) \<leftarrow> rtw_set_ie m2 12 0 (unat (SsidLength n)) (Ssid n) 12;
     rates \<leftarrow> rtw_set_supported_rate (SupportedRates n) (ucast (generate_mode r));
     rateLen \<leftarrow> rtw_get_rateset_len rates;
     (m4, ie4, sz4) \<leftarrow> rtw_set_ie m3 ie3 1 (if rateLen > 8 then 8 else rateLen) rates sz3;
     (m5, ie5, sz5) \<leftarrow> rtw_set_ie m4 ie4 3 1 (u32_bytes (DSConfig n)) sz4;
     (m6, ie6, sz6) \<leftarrow> rtw_set_ie m5 ie5 6 2 (u32_bytes (ATIMWindow n)) sz5;
     (m7, ie7, sz7) \<leftarrow> (if rateLen > 8 then rtw_set_ie m6 ie6 50 (rateLen - 8) (drop 8 rates) sz6
                      else Some (m6, ie6, sz6));
     Some (r\<lparr>dev_network := n\<lparr>SupportedRates := rates, IEs := m7\<rparr>\<rparr>, sz7) })"

section \<open>Secondary channel offsets\<close>

definition secondary_ch_offset_to_hal_ch_offset :: "u8 \<Rightarrow> u8" where
  "secondary_ch_offset_to_hal_ch_offset ch_offset =
     (if ch_offset = 0 then 0 else if ch_offset = 1 then 2 else if ch_offset = 3 then 1 else 0)"

definition hal_ch_offset_to_secondary_ch_offset :: "u8 \<Rightarrow> u8" where
  "hal_ch_offset_to_secondary_ch_offset ch_offset =
     (if ch_offset = 0 then 0 else if ch_offset = 1 then 3 else if ch_offset = 2 then 1 else 0)"

section \<open>Hexadecimal strings and the MAC address\<close>

definition key_char2num :: "u8 \<Rightarrow> u8" where
  "key_char2num ch =
     (if 48 \<le> ch \<and> ch \<le> 57 then ch - 48
      else if 97 \<le> ch \<and> ch \<le> 102 then ch - 97 + 10
      else if 65 \<le> ch \<and> ch \<le> 70 then ch - 65 + 10
      else 0xff)"

definition str_2char2num :: "u8 \<Rightarrow> u8 \<Rightarrow> u8" where
  "str_2char2num hch lch = key_char2num hch * 10 + key_char2num lch"

definition key_2char2num :: "u8 \<Rightarrow> u8 \<Rightarrow> u8" where
  "key_2char2num hch lch = push_bit 4 (key_char2num hch) OR key_char2num lch"

definition convert_ip_addr :: "u8 \<Rightarrow> u8 \<Rightarrow> u8 \<Rightarrow> u8" where
  "convert_ip_addr hch mch lch = key_char2num hch * 100 + key_char2num mch * 10 + key_char2num lch"

text \<open>The loop of \<open>macstr2num\<close> (and the same loop of \<open>rtw_macaddr_cfg\<close>), \<open>n\<close> rounds from
  \<open>jj\<close> and \<open>kk\<close>.\<close>

fun macstr_loop :: "nat \<Rightarrow> mem \<Rightarrow> mem \<Rightarrow> nat \<Rightarrow> nat \<Rightarrow> mem option" where
  "macstr_loop 0 dst src jj kk = Some dst"
| "macstr_loop (Suc n) dst src jj kk = do {
     h \<leftarrow> rd8 src kk;
     l \<leftarrow> rd8 src (kk + 1);
     dst' \<leftarrow> wr_bytes dst jj [key_2char2num h l];
     macstr_loop n dst' src (jj + 1) (kk + 3) }"

definition macstr2num :: "mem \<Rightarrow> mem \<Rightarrow> mem option" where
  "macstr2num dst src = macstr_loop 6 dst src 0 0"

text \<open>\<open>rtw_initmac\<close> is the module parameter, \<open>None\<close> when it is not given; \<open>mac_addr\<close> the
  address read from the efuse, \<open>None\<close> for a NULL pointer. The local array is uninitialised
  before it is filled.\<close>

definition rtw_macaddr_cfg :: "mem option \<Rightarrow> mem option \<Rightarrow> mem option option" where
  "rtw_macaddr_cfg rtw_initmac mac_addr =
     (case mac_addr of None \<Rightarrow> Some None
      | Some a \<Rightarrow> do {
          (mac, a1) \<leftarrow> (case rtw_initmac of
              Some s \<Rightarrow> do { mac \<leftarrow> macstr_loop 6 (replicate 6 0) s 0 0; a1 \<leftarrow> rtw_memcpy a 0 mac 0 6; Some (mac, a1) }
            | None \<Rightarrow> do { mac \<leftarrow> rtw_memcpy (replicate 6 0) 0 a 0 6; Some (mac, a) });
          if mac = replicate 6 0xff \<or> mac = replicate 6 0
          then do { a2 \<leftarrow> rtw_memcpy a1 0 [0x00, 0xe0, 0x4c, 0x87, 0x00, 0x00] 0 6; Some (Some a2) }
          else Some (Some a1) })"

section \<open>Frame decoders\<close>

fun all_zero_down :: "mem \<Rightarrow> nat \<Rightarrow> bool option" where
  "all_zero_down essid 0 = Some True"
| "all_zero_down essid (Suc n) = do {
     c \<leftarrow> rd8 essid n;
     if c \<noteq> 0 then Some False else all_zero_down essid n }"

definition ieee80211_is_empty_essid :: "mem \<Rightarrow> nat \<Rightarrow> bool option" where
  "ieee80211_is_empty_essid essid essid_len =
     (if essid_len = 1 then do {
        c \<leftarrow> rd8 essid 0;
        if c = 32 then Some True else all_zero_down essid essid_len }
      else all_zero_down essid essid_len)"

definition ieee80211_get_hdrlen :: "u16 \<Rightarrow> nat" where
  "ieee80211_get_hdrlen fc =
     (if fc AND 0x000c = 0x0008 then
        24 + (if fc AND 0x0080 \<noteq> 0 then 2 else 0)
           + (if fc AND 0x0200 \<noteq> 0 \<and> fc AND 0x0100 \<noteq> 0 then 6 else 0)
      else if fc AND 0x000c = 0x0004 then
        (if fc AND 0x00f0 = 0x00C0 \<or> fc AND 0x00f0 = 0x00D0 then 10 else 16)
      else 24)"

definition rate_of :: "bool \<Rightarrow> bool \<Rightarrow> nat \<Rightarrow> nat \<Rightarrow> nat \<Rightarrow> nat \<Rightarrow> u16" where
  "rate_of bw_40MHz short_GI r40s r40 r20s r20 =
     word_of_nat (if bw_40MHz then (if short_GI then r40s else r40) else (if short_GI then r20s else r20))"

text \<open>The cascade over the bits of one \<open>MCS_rate\<close> byte, for one and for two streams.\<close>

definition mcs_rate_1ss :: "bool \<Rightarrow> bool \<Rightarrow> u8 \<Rightarrow> u16" where
  "mcs_rate_1ss bw gi r =
     (if bit r 7 then rate_of bw gi 1500 1350 722 650
      else if bit r 6 then rate_of bw gi 1350 1215 650 585
      else if bit r 5 then rate_of bw gi 1200 1080 578 520
      else if bit r 4 then rate_of bw gi 900 810 433 390
      else if bit r 3 then rate_of bw gi 600 540 289 260
      else if bit r 2 then rate_of bw gi 450 405 217 195
      else if bit r 1 then rate_of bw gi 300 270 144 130
      else if bit r 0 then rate_of bw gi 150 135 72 65
      else 0)"

definition mcs_rate_2ss :: "bool \<Rightarrow> bool \<Rightarrow> u8 \<Rightarrow> u16" where
  "mcs_rate_2ss bw gi r =
     (if bit r 7 then rate_of bw gi 3000 2700 1444 1300
      else if bit r 6 then rate_of bw gi 2700 2430 1300 1170
      else if bit r 5 then rate_of bw gi 2400 2160 1156 1040
      else if bit r 4 then rate_of bw gi 1800 1620 867 780
      else if bit r 3 then rate_of bw gi 1200 1080 578 520
      else if bit r 2 then rate_of bw gi 900 810 433 390
      else if bit r 1 then rate_of bw gi 600 540 289 260
      else if bit r 0 then rate_of bw gi 300 270 144 130
      else 0)"

definition rtw_mcs_rate :: "u8 \<Rightarrow> u8 \<Rightarrow> u8 \<Rightarrow> mem \<Rightarrow> u16 option" where
  "rtw_mcs_rate rf_type bw_40MHz short_GI MCS_rate =
     (if rf_type = 3 then do {
        r0 \<leftarrow> rd8 MCS_rate 0;
        Some (mcs_rate_1ss (bw_40MHz \<noteq> 0) (short_GI \<noteq> 0) r0) }
      else do {
        r1 \<leftarrow> rd8 MCS_rate 1;
        if r1 \<noteq> 0 then Some (mcs_rate_2ss (bw_40MHz \<noteq> 0) (short_GI \<noteq> 0) r1)
        else do {
          r0 \<leftarrow> rd8 MCS_rate 0;
          Some (mcs_rate_1ss (bw_40MHz \<noteq> 0) (short_GI \<noteq> 0) r0) } })"

text \<open>The result is the pair stored in \<open>category\<close> and \<open>action\<close>, \<open>None\<close> for \<open>_FALSE\<close>.
  The frame length is a parameter of the C function that it never reads.\<close>

definition rtw_action_frame_parse :: "mem \<Rightarrow> nat \<Rightarrow> (u8 \<times> u8) option option" where
  "rtw_action_frame_parse frame frame_len = do {
     fc \<leftarrow> RTW_GET_LE16 frame 0;
     if fc AND 0x00fc \<noteq> 0x00D0 then Some None
     else do {
       c \<leftarrow> rd8 frame 24;
       if c = 0x7f then Some (Some (c, 16))
       else do { a \<leftarrow> rd8 frame 25; Some (Some (c, a)) } } }"

definition action_public_names :: "string list" where
  "action_public_names = [''ACT_PUB_BSSCOEXIST'', ''ACT_PUB_DSE_ENABLE'', ''ACT_PUB_DSE_DEENABLE'',
     ''ACT_PUB_DSE_REG_LOCATION'', ''ACT_PUB_EXT_CHL_SWITCH'', ''ACT_PUB_DSE_MSR_REQ'',
     ''ACT_PUB_DSE_MSR_RPRT'', ''ACT_PUB_MP'', ''ACT_PUB_DSE_PWR_CONSTRAINT'', ''ACT_PUB_VENDOR'',
     ''ACT_PUB_GAS_INITIAL_REQ'', ''ACT_PUB_GAS_INITIAL_RSP'', ''ACT_PUB_GAS_COMEBACK_REQ'',
     ''ACT_PUB_GAS_COMEBACK_RSP'', ''ACT_PUB_TDLS_DISCOVERY_RSP'', ''ACT_PUB_LOCATION_TRACK'', ''ACT_PUB_RSVD'']"

definition action_public_str :: "u8 \<Rightarrow> string option" where
  "action_public_str action =
     (let a = (if action \<ge> 16 then 16 else action) in
      if unat a < length action_public_names then Some (action_public_names ! unat a) else None)"

section \<open>Properties of the rate scans\<close>

lemma cckrates_included_at:
  "0 \<notin> set rs \<Longrightarrow> rtw_is_cckrates_included (pre @ rs @ 0 # post) (length pre) = Some (\<exists>r\<in>set rs. is_cck_rate r)"
proof (induction rs arbitrary: pre)
  case Nil
  then show ?case
    by (simp add: rtw_is_cckrates_included.simps [of _ "length pre"])
next
  case (Cons r rs)
  then show ?case
    using Cons.IH [of "pre @ [r]"] by (simp add: rtw_is_cckrates_included.simps [of _ "length pre"])
qed

lemma cckratesonly_included_at:
  "0 \<notin> set rs \<Longrightarrow> rtw_is_cckratesonly_included (pre @ rs @ 0 # post) (length pre) = Some (\<forall>r\<in>set rs. is_cck_rate r)"
proof (induction rs arbitrary: pre)
  case Nil
  then show ?case
    by (simp add: rtw_is_cckratesonly_included.simps [of _ "length pre"])
next
  case (Cons r rs)
  then show ?case
    using Cons.IH [of "pre @ [r]"] by (simp add: rtw_is_cckratesonly_included.simps [of _ "length pre"])
qed

text \<open>\<open>rtw_check_network_type\<close> classifies a zero-terminated rate string by the CCK rates
  in it: above channel 14 a CCK rate is invalid; below, only CCK rates give 11b, none 11g and a
  mixture 11bg.\<close>

theorem rtw_check_network_type_correct:
  assumes "0 \<notin> set rs"
  shows "rtw_check_network_type (pre @ rs @ 0 # post) (length pre) channel =
    Some (if channel > 14 then (if \<exists>r\<in>set rs. is_cck_rate r then WIRELESS_INVALID else WIRELESS_11A)
          else if \<forall>r\<in>set rs. is_cck_rate r then WIRELESS_11B
          else if \<exists>r\<in>set rs. is_cck_rate r then WIRELESS_11BG else WIRELESS_11G)"
  using cckrates_included_at [OF assms, of pre post] cckratesonly_included_at [OF assms, of pre post]
  by (simp add: rtw_check_network_type_def)

theorem rtw_check_network_type_correct_witness:
  "rtw_check_network_type [0x82, 0x84, 0x0c, 0] 0 6 = Some 3"
  using rtw_check_network_type_correct [of "[0x82, 0x84, 0x0c]" "[]" "[]" 6] by (simp add: is_cck_rate_def)

section \<open>Properties of the beacon template\<close>

text \<open>Writing an element at the end of a prefix.\<close>

lemma wr_bytes_rest:
  "length bs \<le> length rest \<Longrightarrow> wr_bytes (pre @ rest) (length pre) bs = Some (pre @ bs @ drop (length bs) rest)"
  by (simp add: wr_bytes_def)

lemma rtw_set_ie_at:
  assumes "len + 2 \<le> length rest" "len \<le> length src" "n = length pre"
  shows "rtw_set_ie (pre @ rest) n idx len src fr =
     Some (pre @ enc_ie (word_of_int idx, take len src) @ drop (len + 2) rest, n + len + 2, fr + (len + 2))"
proof -
  obtain a b rest' where rest: "rest = a # b # rest'"
    using assms(1) by (cases rest; cases "tl rest") auto
  have w1: "wr_bytes (pre @ a # b # rest') (length pre) [i] = Some (pre @ i # b # rest')" for i
    using wr_bytes_rest [of "[i]" "a # b # rest'" pre] by simp
  have w2: "wr_bytes (pre @ i # b # rest') (Suc (length pre)) [l] = Some (pre @ i # l # rest')" for i l
    using wr_bytes_rest [of "[l]" "b # rest'" "pre @ [i]"] by simp
  have w3: "wr_bytes (pre @ i # l # rest') (length pre + 2) (take len src) = Some (pre @ i # l # take len src @ drop len rest')" for i l
    using wr_bytes_rest [of "take len src" rest' "pre @ [i, l]"] assms(1,2) rest by (simp add: min_absorb2)
  have "rd_bytes src 0 len = Some (take len src)"
    using assms(2) by (simp add: rd_bytes_def)
  then show ?thesis
    unfolding rest rtw_set_ie_def rtw_memcpy_def assms(3) using w1 w2 w3 assms(2)
    by (simp add: enc_ie_def min_absorb2)
qed

lemma rtw_set_ie_extend:
  assumes "e = enc_ie (word_of_int idx, take len src)" "length p + length e \<le> length buf" "len \<le> length src"
  shows "rtw_set_ie (p @ drop (length p) buf) (length p) idx len src (length p) =
     Some ((p @ e) @ drop (length (p @ e)) buf, length (p @ e), length (p @ e))"
  using rtw_set_ie_at [of len "drop (length p) buf" src "length p" p idx "length p"] assms
  by (simp add: min_absorb2 add.commute)

lemma rtw_set_supported_rate_cases:
  assumes "length s = 16"
  shows "rtw_set_supported_rate s mode =
    Some (if mode = WIRELESS_11B then WIFI_CCKRATES @ replicate 12 0
          else if mode \<in> {WIRELESS_11G, WIRELESS_11A, 16, 20, 68} then WIFI_OFDMRATES @ replicate 8 0
          else if mode \<in> {WIRELESS_11BG, 10, 8, 11} then WIFI_CCKRATES @ WIFI_OFDMRATES @ replicate 4 0
          else replicate 16 0)"
  using assms by (simp add: rtw_set_supported_rate_def rtw_memset_def rtw_memcpy_def rd_bytes_def wr_bytes_def
      WIFI_CCKRATES_def WIFI_OFDMRATES_def numeral_eq_Suc)

lemma rateset_len_at:
  "0 \<notin> set rs \<Longrightarrow> length pre + length rs \<le> 12 \<Longrightarrow> rateset_len_loop (pre @ rs @ 0 # post) (length pre) = Some (length pre + length rs)"
proof (induction rs arbitrary: pre)
  case Nil
  then show ?case
    by (simp add: rateset_len_loop.simps [of _ "length pre"])
next
  case (Cons r rs)
  then show ?case
    using Cons.IH [of "pre @ [r]"] by (simp add: rateset_len_loop.simps [of _ "length pre"])
qed

text \<open>The rates a mode stands for.\<close>

definition mode_rates :: "u8 \<Rightarrow> mem" where
  "mode_rates mode = (if mode = 1 then WIFI_CCKRATES else if mode \<in> {2, 4, 16, 20, 68} then WIFI_OFDMRATES
     else if mode \<in> {3, 10, 8, 11} then WIFI_CCKRATES @ WIFI_OFDMRATES else [])"

lemma mode_rates_nz: "0 \<notin> set (mode_rates mode)" "length (mode_rates mode) \<le> 12"
  by (auto simp: mode_rates_def WIFI_CCKRATES_def WIFI_OFDMRATES_def)

lemma ucast_u8_inj: "(ucast (a :: u8) :: u32) = ucast b \<longleftrightarrow> a = b"
  by (metis unat_ucast_u8(2) word_unat_eq_iff)

lemma supported_rates_of_mode:
  assumes "length s = 16"
  shows "rtw_set_supported_rate s (ucast (mode :: u8)) = Some (mode_rates mode @ replicate (16 - length (mode_rates mode)) 0)"
proof -
  have eq: "((ucast mode :: u32) = 1) = (mode = 1)" "((ucast mode :: u32) = 2) = (mode = 2)"
    "((ucast mode :: u32) = 4) = (mode = 4)" "((ucast mode :: u32) = 16) = (mode = 16)"
    "((ucast mode :: u32) = 20) = (mode = 20)" "((ucast mode :: u32) = 68) = (mode = 68)"
    "((ucast mode :: u32) = 3) = (mode = 3)" "((ucast mode :: u32) = 10) = (mode = 10)"
    "((ucast mode :: u32) = 8) = (mode = 8)" "((ucast mode :: u32) = 11) = (mode = 11)"
    using ucast_u8_inj [of mode 1] ucast_u8_inj [of mode 2] ucast_u8_inj [of mode 4] ucast_u8_inj [of mode 16]
      ucast_u8_inj [of mode 20] ucast_u8_inj [of mode 68] ucast_u8_inj [of mode 3] ucast_u8_inj [of mode 10]
      ucast_u8_inj [of mode 8] ucast_u8_inj [of mode 11] by simp_all
  show ?thesis
    unfolding rtw_set_supported_rate_cases [OF assms] insert_iff empty_iff eq
    by (auto simp: mode_rates_def WIFI_CCKRATES_def WIFI_OFDMRATES_def)
qed

lemma rateset_len_of_mode:
  "rtw_get_rateset_len (mode_rates mode @ replicate (16 - length (mode_rates mode)) 0) = Some (length (mode_rates mode))"
proof -
  obtain k where "16 - length (mode_rates mode) = Suc k"
    using mode_rates_nz(2) [of mode] by (cases "16 - length (mode_rates mode)") auto
  then show ?thesis
    using rateset_len_at [OF mode_rates_nz(1) [of mode], of "[]" "replicate k 0"] mode_rates_nz(2) [of mode]
    by (simp add: rtw_get_rateset_len_def)
qed

text \<open>The elements the template is meant to hold.\<close>

definition template_ies :: "registry_priv \<Rightarrow> ie list" where
  "template_ies r = (let n = dev_network r; rates = mode_rates (generate_mode r) in
     [(0, take (unat (SsidLength n)) (Ssid n)), (1, take 8 rates), (3, [ucast (DSConfig n)]),
      (6, [ucast (ATIMWindow n), ucast (drop_bit 8 (ATIMWindow n))])] @
     (if length rates > 8 then [(50, drop 8 rates)] else []))"

text \<open>\<open>rtw_generate_ie\<close> lays the beacon template out as meant: the timestamp is left to the
  hardware, then come interval and capabilities, then SSID, rates, DS, IBSS parameters and, for
  more than eight rates, the extended rates; the returned size is where the elements end and the
  bytes behind are untouched.\<close>

theorem rtw_generate_ie_layout:
  assumes "length (IEs (dev_network r)) = 768" "length (SupportedRates (dev_network r)) = 16"
    and "length (Ssid (dev_network r)) = 32" "SsidLength (dev_network r) \<le> 32"
  shows "\<exists>r' sz. rtw_generate_ie r = Some (r', sz) \<and> sz = 12 + length (stream enc_ie (template_ies r)) \<and>
    IEs (dev_network r') = take 8 (IEs (dev_network r)) @ RTW_PUT_LE16 (ucast (BeaconPeriod (dev_network r)))
      @ RTW_PUT_LE16 (cap_info r) @ stream enc_ie (template_ies r) @ drop sz (IEs (dev_network r))"
proof -
  define n where "n = dev_network r"
  define rates where "rates = mode_rates (generate_mode r)"
  define all where "all = rates @ replicate (16 - length rates) 0"
  define h where "h = take 8 (IEs n) @ RTW_PUT_LE16 (ucast (BeaconPeriod n)) @ RTW_PUT_LE16 (cap_info r)"
  let ?sl = "unat (SsidLength n)"
  define e1 e2 e3 e4 e5 where "e1 = enc_ie (0, take ?sl (Ssid n))" and "e2 = enc_ie (1, take 8 rates)"
    and "e3 = enc_ie (3, [ucast (DSConfig n)])"
    and "e4 = enc_ie (6, [ucast (ATIMWindow n), ucast (drop_bit 8 (ATIMWindow n))])"
    and "e5 = enc_ie (50, drop 8 rates)"
  note e = e1_def e2_def e3_def e4_def e5_def
  define p1 p2 p3 p4 p5 where "p1 = h @ e1" and "p2 = p1 @ e2" and "p3 = p2 @ e3" and "p4 = p3 @ e4" and "p5 = p4 @ e5"
  note p = p1_def p2_def p3_def p4_def p5_def
  have sl: "?sl \<le> 32"
    using assms(4) by (simp add: n_def word_le_nat_alt)
  have rl: "length rates \<le> 12"
    unfolding rates_def by (rule mode_rates_nz)
  have len: "length (IEs n) = 768" "length (Ssid n) = 32" "length (SupportedRates n) = 16"
    using assms by (simp_all add: n_def)
  have h: "length h = 12"
    using len by (simp add: h_def RTW_PUT_LE16_def)
  have le: "length e1 = ?sl + 2" "length e2 = min 8 (length rates) + 2" "length e3 = 3" "length e4 = 4"
    "length e5 = length rates - 8 + 2"
    using sl len by (simp_all add: e)
  have m1: "wr_bytes (IEs n) 8 (RTW_PUT_LE16 (ucast (BeaconPeriod n)))
      = Some (take 8 (IEs n) @ RTW_PUT_LE16 (ucast (BeaconPeriod n)) @ drop 10 (IEs n))"
    using len by (simp add: wr_bytes_def RTW_PUT_LE16_def)
  have m2: "wr_bytes (take 8 (IEs n) @ RTW_PUT_LE16 (ucast (BeaconPeriod n)) @ drop 10 (IEs n)) 10 (RTW_PUT_LE16 (cap_info r))
      = Some (h @ drop (length h) (IEs n))"
    using len unfolding h by (simp add: h_def wr_bytes_def RTW_PUT_LE16_def)
  have m3: "rtw_set_ie (h @ drop (length h) (IEs n)) 12 0 ?sl (Ssid n) 12
      = Some (p1 @ drop (length p1) (IEs n), length p1, length p1)"
    using rtw_set_ie_extend [of e1 0 ?sl "Ssid n" h "IEs n"] len sl h le by (simp add: p e)
  have m4: "rtw_set_ie (p1 @ drop (length p1) (IEs n)) (length p1) 1 (min 8 (length rates)) all (length p1)
      = Some (p2 @ drop (length p2) (IEs n), length p2, length p2)"
    using rtw_set_ie_extend [of e2 1 "min 8 (length rates)" all p1 "IEs n"] len sl h le rl by (simp add: p e all_def min_def)
  have m5: "rtw_set_ie (p2 @ drop (length p2) (IEs n)) (length p2) 3 1 (u32_bytes (DSConfig n)) (length p2)
      = Some (p3 @ drop (length p3) (IEs n), length p3, length p3)"
    using rtw_set_ie_extend [of e3 3 1 "u32_bytes (DSConfig n)" p2 "IEs n"] len sl h le rl by (simp add: p e u32_bytes_def)
  have m6: "rtw_set_ie (p3 @ drop (length p3) (IEs n)) (length p3) 6 2 (u32_bytes (ATIMWindow n)) (length p3)
      = Some (p4 @ drop (length p4) (IEs n), length p4, length p4)"
    using rtw_set_ie_extend [of e4 6 2 "u32_bytes (ATIMWindow n)" p3 "IEs n"] len sl h le rl
    by (simp add: p e u32_bytes_def numeral_2_eq_2)
  have m7: "rtw_set_ie (p4 @ drop (length p4) (IEs n)) (length p4) 50 (length rates - 8) (drop 8 all) (length p4)
      = Some (p5 @ drop (length p5) (IEs n), length p5, length p5)"
    if "length rates > 8"
    using rtw_set_ie_extend [of e5 50 "length rates - 8" "drop 8 all" p4 "IEs n"] len sl h le rl that
    by (simp add: p e all_def)
  note step = m1 m2 m3 supported_rates_of_mode [OF len(3), of "generate_mode r", folded rates_def, folded all_def]
    rateset_len_of_mode [of "generate_mode r", folded rates_def, folded all_def]
  have es: "stream enc_ie (template_ies r) = e1 @ e2 @ e3 @ e4 @ (if length rates > 8 then e5 else [])"
    by (simp add: template_ies_def Let_def n_def rates_def e)
  show ?thesis
  proof (cases "length rates > 8")
    case True
    then have "min 8 (length rates) = 8"
      by simp
    note m4' = m4 [unfolded this]
    show ?thesis
      unfolding rtw_generate_ie_def Let_def n_def [symmetric] step bind.bind_lunit prod.case if_P [OF True] m4' m5 m6 m7 [OF True] es
      using h by (simp add: p n_def [symmetric]) (simp add: h_def)
  next
    case False
    then have "min 8 (length rates) = length rates"
      by simp
    note m4' = m4 [unfolded this]
    show ?thesis
      unfolding rtw_generate_ie_def Let_def n_def [symmetric] step bind.bind_lunit prod.case if_not_P [OF False] m4' m5 m6 es
      using h by (simp add: p n_def [symmetric]) (simp add: h_def)
  qed
qed

theorem rtw_generate_ie_layout_witness:
  "\<exists>r' sz. rtw_generate_ie \<lparr>preamble = 3, wireless_mode = 31, dev_network = \<lparr>SsidLength = 3, Ssid = [65, 66, 67] @ replicate 29 0,
       Privacy = 1, BeaconPeriod = 100, ATIMWindow = 0, DSConfig = 6, SupportedRates = replicate 16 0, IEs = replicate 768 0\<rparr>\<rparr>
     = Some (r', sz) \<and> sz = 12 + (5 + 10 + 3 + 4 + 6) \<and>
     take (sz - 8) (drop 8 (IEs (dev_network r'))) =
       [100, 0, 0x32, 0, 0, 3, 65, 66, 67, 1, 8, 0x82, 0x84, 0x8b, 0x96, 0x0c, 0x12, 0x18, 0x24, 3, 1, 6, 6, 2, 0, 0,
        50, 4, 0x30, 0x48, 0x60, 0x6c]"
  using rtw_generate_ie_layout [of "\<lparr>preamble = 3, wireless_mode = 31, dev_network = \<lparr>SsidLength = 3, Ssid = [65, 66, 67] @ replicate 29 0,
       Privacy = 1, BeaconPeriod = 100, ATIMWindow = 0, DSConfig = 6, SupportedRates = replicate 16 0, IEs = replicate 768 0\<rparr>\<rparr>"]
  by (auto simp: template_ies_def generate_mode_def mode_rates_def WIFI_CCKRATES_def WIFI_OFDMRATES_def enc_ie_def
      cap_info_def RTW_PUT_LE16_def)

section \<open>Properties of the decoders\<close>

text \<open>The two secondary channel encodings convert into each other without loss.\<close>

lemma ch_offset_roundtrip:
  "o3 \<in> {0, 1, 3} \<Longrightarrow> hal_ch_offset_to_secondary_ch_offset (secondary_ch_offset_to_hal_ch_offset o3) = o3"
  by (auto simp: hal_ch_offset_to_secondary_ch_offset_def secondary_ch_offset_to_hal_ch_offset_def)

text \<open>A hexadecimal digit and the colon-separated form of an address.\<close>

definition hex_digit :: "u8 \<Rightarrow> u8" where
  "hex_digit d = (if d < 10 then 48 + d else 97 + (d - 10))"

fun mac_str :: "mem \<Rightarrow> mem" where
  "mac_str [] = []"
| "mac_str (b # bs) = [hex_digit (drop_bit 4 b), hex_digit (b AND 0xf)] @ (if bs = [] then [] else 58 # mac_str bs)"

lemma key_char2num_hex_digit: "d < 16 \<Longrightarrow> key_char2num (hex_digit d) = d"
  by (simp add: key_char2num_def hex_digit_def) (auto simp: word_less_nat_alt word_le_nat_alt unat_word_ariths)

lemma nibbles_less: "drop_bit 4 (b :: u8) < 16" "b AND 0xf < 16"
proof -
  have "unat (drop_bit 4 b) < 16"
    unfolding unat_drop_bit_eq using unat_u8_lt [of b] by (simp add: drop_bit_eq_div)
  then show "drop_bit 4 b < 16"
    by (simp add: word_less_nat_alt)
  have "b AND 0xf \<le> 0xf"
    by (rule word_and_le1)
  then show "b AND 0xf < 16"
    by (simp add: word_le_nat_alt word_less_nat_alt)
qed

lemma nibbles_join: "push_bit 4 (drop_bit 4 b) OR (b AND 0xf) = (b :: u8)"
proof (rule bit_word_eqI)
  fix n
  assume "n < LENGTH(8)"
  have f: "(0xf :: u8) = mask 4"
    by (simp add: mask_eq_exp_minus_1)
  show "bit (push_bit 4 (drop_bit 4 b) OR (b AND 0xf)) n = bit b n"
    unfolding f using \<open>n < LENGTH(8)\<close> by (auto simp: bit_simps)
qed

lemma macstr_loop_at:
  "bs \<noteq> [] \<Longrightarrow> length old = length bs \<Longrightarrow>
     macstr_loop (length bs) (done @ old) (pre @ mac_str bs) (length done) (length pre) = Some (done @ bs)"
proof (induction bs arbitrary: "done" old pre)
  case (Cons b bs)
  obtain x old' where old: "old = x # old'" "length old' = length bs"
    using Cons.prems by (cases old) auto
  have w: "wr_bytes (done @ x # old') (length done) [b] = Some (done @ b # old')"
    by (simp add: wr_bytes_def)
  have k: "key_2char2num (hex_digit (drop_bit 4 b)) (hex_digit (b AND 0xf)) = b"
    by (simp add: key_2char2num_def key_char2num_hex_digit nibbles_less nibbles_join)
  show ?case
  proof (cases "bs = []")
    case True
    then show ?thesis
      using old w k by simp
  next
    case False
    let ?h = "hex_digit (drop_bit 4 b)" and ?l = "hex_digit (b AND 0xf)"
    show ?thesis
      using Cons.IH [OF False old(2), of "done @ [b]" "pre @ [?h, ?l, 58]"] False old w k
      by (simp add: add.commute numeral_3_eq_3)
  qed
qed simp

text \<open>Printing a MAC address with colons and reading it back with \<open>macstr2num\<close> is the
  identity.\<close>

theorem macstr2num_roundtrip:
  "length mac = 6 \<Longrightarrow> length dst = 6 \<Longrightarrow> macstr2num dst (mac_str mac) = Some mac"
  using macstr_loop_at [of mac dst "[]" "[]"] unfolding macstr2num_def by force

theorem macstr2num_roundtrip_witness:
  "macstr2num (replicate 6 0) (mac_str [0x00, 0xe0, 0x4c, 0x87, 0x1a, 0xff]) = Some [0x00, 0xe0, 0x4c, 0x87, 0x1a, 0xff]"
  using macstr2num_roundtrip [of "[0x00, 0xe0, 0x4c, 0x87, 0x1a, 0xff]" "replicate 6 0"] by simp

lemma macstr_loop_length: "macstr_loop n d s j k = Some x \<Longrightarrow> length x = length d"
  by (induction n d s j k rule: macstr_loop.induct) (auto simp: bind_eq_Some_conv dest: wr_bytes_length)

text \<open>\<open>rtw_macaddr_cfg\<close> never leaves the interface with the broadcast or the all-zero
  address, wherever the address came from.\<close>

theorem rtw_macaddr_cfg_valid:
  assumes "rtw_macaddr_cfg ini (Some a) = Some r" "length a = 6"
  shows "\<exists>a'. r = Some a' \<and> length a' = 6 \<and> a' \<noteq> replicate 6 0xff \<and> a' \<noteq> replicate 6 0"
proof -
  let ?d = "[0x00, 0xe0, 0x4c, 0x87, 0x00, 0x00] :: mem"
  have cpy: "rtw_memcpy d 0 s 0 6 = (if 6 \<le> length s then Some (take 6 s) else None)" if "length d = 6" for d s
    using that by (simp add: rtw_memcpy_def rd_bytes_def wr_bytes_def)
  have src: "\<exists>mac. length mac = 6 \<and> (if mac = replicate 6 0xff \<or> mac = replicate 6 0
      then do { a2 \<leftarrow> rtw_memcpy mac 0 ?d 0 6; Some (Some a2) } else Some (Some mac)) = Some r"
  proof (cases ini)
    case None
    then show ?thesis
      using assms by (intro exI [of _ a]) (simp add: rtw_macaddr_cfg_def cpy)
  next
    case (Some s)
    then obtain mac where m: "macstr_loop 6 (replicate 6 0) s 0 0 = Some mac"
      using assms by (cases "macstr_loop 6 (replicate 6 0) s 0 0") (simp_all add: rtw_macaddr_cfg_def)
    then have "length mac = 6"
      using macstr_loop_length [OF m] by simp
    then show ?thesis
      using assms Some m by (intro exI [of _ mac]) (simp add: rtw_macaddr_cfg_def cpy)
  qed
  have "?d \<noteq> replicate 6 0xff" "?d \<noteq> replicate 6 0"
    by (auto dest: arg_cong [where f = "\<lambda>x. x ! 1"])
  with src show ?thesis
    by (auto simp: cpy split: if_splits)
qed

theorem rtw_macaddr_cfg_valid_witness:
  "rtw_macaddr_cfg None (Some (replicate 6 0xff)) = Some (Some [0x00, 0xe0, 0x4c, 0x87, 0x00, 0x00])
   \<and> (\<exists>a'. Some [0x00, 0xe0, 0x4c, 0x87, 0x00, 0x00] = Some a' \<and> length a' = 6 \<and> a' \<noteq> replicate 6 (0xff :: u8) \<and> a' \<noteq> replicate 6 0)"
proof -
  have r: "rtw_macaddr_cfg None (Some (replicate 6 0xff)) = Some (Some [0x00, 0xe0, 0x4c, 0x87, 0x00, 0x00])"
    by (simp add: rtw_macaddr_cfg_def rtw_memcpy_def rd_bytes_def wr_bytes_def)
  show ?thesis
    using rtw_macaddr_cfg_valid [OF r] r by simp
qed

end
