(* ===== verification/Sec_Crc.thy ===== *)
theory Sec_Crc
  imports Rtw_Prelude
begin

text \<open>
  The CRC-32 of \<^verbatim>\<open>core/rtw_security.c\<close> (\<open>crc32_reverseBit\<close>, \<open>crc32_init\<close>,
  \<open>getcrc32\<close>): a table built on first use and a byte-wise loop over it. The theorems show that
  the table-driven routine computes the bit-serial CRC-32 with the reflected polynomial, and that
  the static table is initialised exactly once.
\<close>

section \<open>The code\<close>

definition crc32_reverseBit :: "u8 \<Rightarrow> u8" where
  "crc32_reverseBit data =
     (push_bit 7 data AND 0x80) OR (push_bit 5 data AND 0x40) OR (push_bit 3 data AND 0x20) OR
     (push_bit 1 data AND 0x10) OR (drop_bit 1 data AND 0x08) OR (drop_bit 3 data AND 0x04) OR
     (drop_bit 5 data AND 0x02) OR (drop_bit 7 data AND 0x01)"

definition CRC32_POLY :: u32 where "CRC32_POLY = 0x04c11db7"

text \<open>The static variables \<open>bcrc32initialized\<close> and \<open>crc32_table\<close>.\<close>

record crc_static =
  bcrc32initialized :: int
  crc32_table :: "u32 list"

definition crc32_shift :: "u32 \<Rightarrow> u32" where
  "crc32_shift c = (if c AND 0x80000000 \<noteq> 0 then push_bit 1 c XOR CRC32_POLY else push_bit 1 c)"

definition crc32_entry :: "nat \<Rightarrow> u32" where
  "crc32_entry i =
     (let k = crc32_reverseBit (word_of_nat i);
          c = (crc32_shift ^^ 8) (push_bit 24 (ucast k));
          p = u32_bytes c
      in le32 (crc32_reverseBit (p ! 3)) (crc32_reverseBit (p ! 2)) (crc32_reverseBit (p ! 1)) (crc32_reverseBit (p ! 0)))"

definition crc32_init :: "crc_static \<Rightarrow> crc_static" where
  "crc32_init s =
     (if bcrc32initialized s = 1 then s
      else s\<lparr>crc32_table := map crc32_entry [0..<256], bcrc32initialized := 1\<rparr>)"

fun crc32_loop :: "u32 list \<Rightarrow> mem \<Rightarrow> nat \<Rightarrow> nat \<Rightarrow> u32 \<Rightarrow> u32 option" where
  "crc32_loop tab m p 0 crc = Some crc"
| "crc32_loop tab m p (Suc len) crc = do {
     b \<leftarrow> rd8 m p;
     let i = unat ((crc XOR ucast b) AND 0xff);
     if i < length tab then crc32_loop tab m (p + 1) len (tab ! i XOR drop_bit 8 crc) else None }"

text \<open>\<open>len\<close> is a signed integer: nothing is read when it is not positive.\<close>

definition getcrc32 :: "crc_static \<Rightarrow> mem \<Rightarrow> nat \<Rightarrow> int \<Rightarrow> (u32 \<times> crc_static) option" where
  "getcrc32 s m buf len = (let s' = (if bcrc32initialized s = 0 then crc32_init s else s) in do {
     crc \<leftarrow> crc32_loop (crc32_table s') m buf (nat len) 0xffffffff;
     Some (NOT crc, s') })"

text \<open>The static state: not yet initialised, or initialised with the table.\<close>

definition crc_ok :: "crc_static \<Rightarrow> bool" where
  "crc_ok s \<longleftrightarrow> bcrc32initialized s = 0 \<or> bcrc32initialized s = 1 \<and> crc32_table s = map crc32_entry [0..<256]"

section \<open>The bit-serial CRC\<close>

definition crc_step :: "u32 \<Rightarrow> u32" where
  "crc_step c = drop_bit 1 c XOR (if bit c 0 then 0xEDB88320 else 0)"

definition crc_byte :: "u32 \<Rightarrow> u8 \<Rightarrow> u32" where
  "crc_byte c b = (crc_step ^^ 8) (c XOR ucast b)"

definition crc32_ref :: "u8 list \<Rightarrow> u32" where
  "crc32_ref bs = NOT (foldl crc_byte 0xffffffff bs)"

lemma crc_step_xor: "crc_step (a XOR b) = crc_step a XOR crc_step b"
proof (rule bit_word_eqI)
  fix n
  assume "n < LENGTH(32)"
  then show "bit (crc_step (a XOR b)) n = bit (crc_step a XOR crc_step b) n"
    by (cases "bit a 0"; cases "bit b 0") (auto simp: crc_step_def bit_simps)
qed

lemma crc_steps_xor: "(crc_step ^^ k) (a XOR b) = (crc_step ^^ k) a XOR (crc_step ^^ k) b"
  by (induction k) (simp_all add: crc_step_xor)

lemma crc_steps_shift: "(\<And>j. j < k \<Longrightarrow> \<not> bit c j) \<Longrightarrow> (crc_step ^^ k) c = drop_bit k c"
proof (induction k)
  case (Suc k)
  have "\<not> bit (drop_bit k c) 0"
    using Suc.prems [of k] by (simp add: bit_simps)
  then show ?case
    using Suc by (simp add: crc_step_def drop_bit_drop_bit)
qed simp

lemma bit_and_exp: "bit (x AND 2 ^ k) n \<longleftrightarrow> n = k \<and> bit x k" for x :: u8
  by (auto simp: bit_and_iff bit_exp_iff dest: bit_imp_le_length)

lemma bit_and_masks:
  fixes x :: u8
  shows "bit (x AND 0x80) n \<longleftrightarrow> n = 7 \<and> bit x 7" "bit (x AND 0x40) n \<longleftrightarrow> n = 6 \<and> bit x 6"
    "bit (x AND 0x20) n \<longleftrightarrow> n = 5 \<and> bit x 5" "bit (x AND 0x10) n \<longleftrightarrow> n = 4 \<and> bit x 4"
    "bit (x AND 0x08) n \<longleftrightarrow> n = 3 \<and> bit x 3" "bit (x AND 0x04) n \<longleftrightarrow> n = 2 \<and> bit x 2"
    "bit (x AND 0x02) n \<longleftrightarrow> n = 1 \<and> bit x 1" "bit (x AND 0x01) n \<longleftrightarrow> n = 0 \<and> bit x 0"
  using bit_and_exp [of x 7 n] bit_and_exp [of x 6 n] bit_and_exp [of x 5 n] bit_and_exp [of x 4 n]
    bit_and_exp [of x 3 n] bit_and_exp [of x 2 n] bit_and_exp [of x 1 n] bit_and_exp [of x 0 n] by simp_all

lemma bit_reverseBit: "bit (crc32_reverseBit b) n \<longleftrightarrow> n < 8 \<and> bit b (7 - n)"
proof -
  have eq: "bit (crc32_reverseBit b) n \<longleftrightarrow> n = 7 \<and> bit b 0 \<or> n = 6 \<and> bit b 1 \<or> n = 5 \<and> bit b 2 \<or> n = 4 \<and> bit b 3
      \<or> n = 3 \<and> bit b 4 \<or> n = 2 \<and> bit b 5 \<or> n = 1 \<and> bit b 6 \<or> n = 0 \<and> bit b 7"
    unfolding crc32_reverseBit_def bit_or_iff bit_and_masks
    by (simp add: bit_push_bit_iff bit_drop_bit_eq del: push_bit_Suc)
  consider "n = 0" | "n = 1" | "n = 2" | "n = 3" | "n = 4" | "n = 5" | "n = 6" | "n = 7" | "8 \<le> n"
    by linarith
  then show ?thesis
    unfolding eq by cases simp_all
qed

text \<open>The byte-wise reversal of \<open>crc32_init\<close> reverses the 32 bits.\<close>

definition rev32 :: "u32 \<Rightarrow> u32" where
  "rev32 c = le32 (crc32_reverseBit (u32_bytes c ! 3)) (crc32_reverseBit (u32_bytes c ! 2))
                  (crc32_reverseBit (u32_bytes c ! 1)) (crc32_reverseBit (u32_bytes c ! 0))"

lemma bit_rev32: "bit (rev32 c) n \<longleftrightarrow> n < 32 \<and> bit c (31 - n)"
proof (cases "n < 32")
  case True
  then consider "n < 8" | "8 \<le> n \<and> n < 16" | "16 \<le> n \<and> n < 24" | "24 \<le> n"
    by linarith
  then show ?thesis
    using True unfolding rev32_def le32_def
    by cases (auto simp: bit_simps bit_reverseBit u32_bytes_def)
next
  case False
  then show ?thesis
    using bit_imp_le_length [of "rev32 c" n] by auto
qed

lemma rev32_poly: "rev32 CRC32_POLY = 0xEDB88320"
  by (simp add: rev32_def u32_bytes_def CRC32_POLY_def crc32_reverseBit_def le32_def)

lemma rev32_xor: "rev32 (a XOR b) = rev32 a XOR rev32 b"
  by (rule bit_word_eqI) (auto simp: bit_rev32 bit_xor_iff)

lemma rev32_push: "rev32 (push_bit 1 c) = drop_bit 1 (rev32 c)"
  by (rule bit_word_eqI) (auto simp: bit_rev32 bit_simps simp del: push_bit_Suc One_nat_def)

lemma rev32_shift: "rev32 (crc32_shift c) = crc_step (rev32 c)"
proof -
  have "c AND 0x80000000 \<noteq> 0 \<longleftrightarrow> bit c 31"
    using and_exp_eq_0_iff_not_bit [of c 31] by simp
  then show ?thesis
    by (simp add: crc32_shift_def crc_step_def rev32_xor rev32_push rev32_poly bit_rev32 del: push_bit_Suc One_nat_def)
qed

lemma rev32_shifts: "rev32 ((crc32_shift ^^ k) c) = (crc_step ^^ k) (rev32 c)"
  by (induction k) (simp_all add: rev32_shift)

lemma crc32_entry_steps: "i < 256 \<Longrightarrow> crc32_entry i = (crc_step ^^ 8) (word_of_nat i)"
proof -
  assume i: "i < 256"
  let ?b = "word_of_nat i :: u8"
  have "rev32 (push_bit 24 (ucast (crc32_reverseBit ?b))) = ucast ?b"
    by (rule bit_word_eqI) (auto simp: bit_rev32 bit_simps bit_reverseBit dest: bit_imp_le_length)
  also have "ucast ?b = (word_of_nat i :: u32)"
    using i by (simp add: word_unat_eq_iff unat_ucast_u8 unat_of_nat take_bit_nat_eq_self)
  finally show ?thesis
    unfolding crc32_entry_def Let_def rev32_def [symmetric] rev32_shifts by simp
qed

text \<open>One step of the loop is eight bit-serial steps.\<close>

lemma crc_byte_table: "crc32_entry (unat ((c XOR ucast b) AND 0xff)) XOR drop_bit 8 c = crc_byte c b"
proof -
  let ?v = "c XOR ucast b :: u32"
  have ff: "(0xff :: u32) = mask 8"
    by (simp add: mask_eq_exp_minus_1)
  have "?v AND 0xff \<le> 0xff"
    by (rule word_and_le1)
  then have lt: "unat (?v AND 0xff) < 256"
    by (simp add: word_le_nat_alt)
  have split: "?v = (?v AND 0xff) XOR (?v AND NOT 0xff)"
    by (rule bit_word_eqI) (auto simp: bit_simps)
  have "(crc_step ^^ 8) (?v AND NOT 0xff) = drop_bit 8 (?v AND NOT 0xff)"
    by (rule crc_steps_shift) (simp add: ff bit_simps)
  also have "\<dots> = drop_bit 8 c"
    by (rule bit_word_eqI) (auto simp: ff bit_simps dest: bit_imp_le_length)
  finally have "crc_byte c b = (crc_step ^^ 8) (?v AND 0xff) XOR drop_bit 8 c"
    unfolding crc_byte_def by (subst split) (simp only: crc_steps_xor)
  then show ?thesis
    using crc32_entry_steps [OF lt] by simp
qed

lemma crc32_loop_ref:
  assumes "tab = map crc32_entry [0..<256]"
  shows "crc32_loop tab (pre @ bs @ post) (length pre) (length bs) c = Some (foldl crc_byte c bs)"
proof (induction bs arbitrary: pre c)
  case (Cons b bs)
  have "(c XOR ucast b) AND 0xff \<le> 0xff"
    by (rule word_and_le1)
  then have "unat ((c XOR ucast b) AND 0xff) < 256"
    by (simp add: word_le_nat_alt)
  then show ?case
    using Cons.IH [of "pre @ [b]" "crc_byte c b"] crc_byte_table [of c b] by (simp add: assms Let_def)
qed simp

lemma getcrc32_ref:
  assumes "crc_ok s" "len = int (length bs)"
  shows "\<exists>s'. getcrc32 s (pre @ bs @ post) (length pre) len = Some (crc32_ref bs, s') \<and> crc_ok s' \<and> bcrc32initialized s' = 1"
  using assms crc32_loop_ref [OF refl, of pre bs post "0xffffffff"]
  by (auto simp: getcrc32_def crc_ok_def crc32_init_def crc32_ref_def Let_def)

text \<open>C33. The table-driven \<open>getcrc32\<close> computes the bit-serial CRC-32 of its buffer, and leaves the
  static table initialised, whether or not it was before.\<close>

theorem getcrc32_correct:
  assumes "crc_ok s"
  shows "\<exists>s'. getcrc32 s (pre @ bs @ post) (length pre) (int (length bs)) = Some (crc32_ref bs, s') \<and>
    crc_ok s' \<and> bcrc32initialized s' = 1"
  using getcrc32_ref [OF assms refl] .

lemma crc_byte_unroll:
  "crc_byte c b = crc_step (crc_step (crc_step (crc_step (crc_step (crc_step (crc_step (crc_step (c XOR ucast b))))))))"
  by (simp add: crc_byte_def eval_nat_numeral)

lemma crc32_ref_check: "crc32_ref [0x31, 0x32, 0x33, 0x34, 0x35, 0x36, 0x37, 0x38, 0x39] = 0xCBF43926"
  by (simp add: crc32_ref_def crc_byte_unroll crc_step_def)

theorem getcrc32_correct_witness:
  "\<exists>s'. getcrc32 \<lparr>bcrc32initialized = 0, crc32_table = replicate 256 0\<rparr>
      [0x31, 0x32, 0x33, 0x34, 0x35, 0x36, 0x37, 0x38, 0x39] 0 9 = Some (0xCBF43926, s') \<and> crc_ok s' \<and> bcrc32initialized s' = 1"
  using getcrc32_correct [of "\<lparr>bcrc32initialized = 0, crc32_table = replicate 256 0\<rparr>" "[]"
      "[0x31, 0x32, 0x33, 0x34, 0x35, 0x36, 0x37, 0x38, 0x39]" "[]"]
  by (simp add: crc_ok_def crc32_ref_check)

end
