(* ===== verification/Sec_Arc4.thy ===== *)
theory Sec_Arc4
  imports Sec_Crc
begin

text \<open>
  ARC4 of \<^verbatim>\<open>core/rtw_security.c\<close> (\<open>arcfour_init\<close>, \<open>arcfour_byte\<close>,
  \<open>arcfour_encrypt\<close>) and the step WEP and TKIP share: checksum, key schedule, encryption of the
  payload in place and of the checksum behind it. The theorems show that the cipher never leaves
  its 256-byte state, that the state stays a permutation, and that opening a sealed payload
  returns it with a matching checksum.
\<close>

section \<open>The cipher\<close>

record arc4context =
  arc_x :: u32
  arc_y :: u32
  arc_state :: mem

fun arcfour_mix :: "nat \<Rightarrow> mem \<Rightarrow> nat \<Rightarrow> mem \<Rightarrow> nat \<Rightarrow> nat \<Rightarrow> u32 \<Rightarrow> mem option" where
  "arcfour_mix 0 key key_len state counter keyindex stateindex = Some state"
| "arcfour_mix (Suc n) key key_len state counter keyindex stateindex = do {
     t \<leftarrow> rd8 state counter;
     k \<leftarrow> rd8 key keyindex;
     let stateindex' = (stateindex + ucast k + ucast t) AND 0xff;
     u \<leftarrow> rd8 state (unat stateindex');
     s1 \<leftarrow> wr_bytes state (unat stateindex') [t];
     s2 \<leftarrow> wr_bytes s1 counter [u];
     arcfour_mix n key key_len s2 (counter + 1) (if keyindex + 1 \<ge> key_len then 0 else keyindex + 1) stateindex' }"

definition arcfour_init :: "mem \<Rightarrow> nat \<Rightarrow> arc4context option" where
  "arcfour_init key key_len = do {
     s \<leftarrow> arcfour_mix 256 key key_len (map word_of_nat [0..<256]) 0 0 0;
     Some \<lparr>arc_x = 0, arc_y = 0, arc_state = s\<rparr> }"

definition arcfour_byte :: "arc4context \<Rightarrow> (u32 \<times> arc4context) option" where
  "arcfour_byte c = do {
     let x = (arc_x c + 1) AND 0xff;
     sx \<leftarrow> rd8 (arc_state c) (unat x);
     let y = (ucast sx + arc_y c) AND 0xff;
     sy \<leftarrow> rd8 (arc_state c) (unat y);
     s1 \<leftarrow> wr_bytes (arc_state c) (unat y) [sx];
     s2 \<leftarrow> wr_bytes s1 (unat x) [sy];
     r \<leftarrow> rd8 s2 (unat ((ucast sx + ucast sy :: u32) AND 0xff));
     Some (ucast r, \<lparr>arc_x = x, arc_y = y, arc_state = s2\<rparr>) }"

text \<open>\<open>arcfour_encrypt\<close>; the source is the destination object itself (\<open>None\<close>, the in-place
  call) or another object.\<close>

fun arcfour_encrypt_loop ::
  "nat \<Rightarrow> arc4context \<Rightarrow> mem \<Rightarrow> nat \<Rightarrow> mem option \<Rightarrow> nat \<Rightarrow> (mem \<times> arc4context) option" where
  "arcfour_encrypt_loop 0 c m dest other src = Some (m, c)"
| "arcfour_encrypt_loop (Suc n) c m dest other src = do {
     b \<leftarrow> rd8 (case other of None \<Rightarrow> m | Some d \<Rightarrow> d) src;
     (k, c') \<leftarrow> arcfour_byte c;
     m' \<leftarrow> wr_bytes m dest [b XOR ucast k];
     arcfour_encrypt_loop n c' m' (dest + 1) other (src + 1) }"

definition arcfour_encrypt ::
  "arc4context \<Rightarrow> mem \<Rightarrow> nat \<Rightarrow> mem option \<Rightarrow> nat \<Rightarrow> u32 \<Rightarrow> (mem \<times> arc4context) option" where
  "arcfour_encrypt c m dest other src len = arcfour_encrypt_loop (unat len) c m dest other src"

section \<open>Sealing and opening a payload\<close>

text \<open>What \<open>rtw_wep_encrypt\<close> and \<open>rtw_tkip_encrypt\<close> do with one fragment once the key is made:
  the checksum of the payload, then payload and checksum encrypted in one stream. A negative
  \<open>length\<close> becomes a huge unsigned count.\<close>

definition arc4_seal :: "crc_static \<Rightarrow> mem \<Rightarrow> nat \<Rightarrow> int \<Rightarrow> mem \<Rightarrow> nat \<Rightarrow> (mem \<times> crc_static) option" where
  "arc4_seal s m payload len key keylen = do {
     (crc, s') \<leftarrow> getcrc32 s m payload len;
     ctx \<leftarrow> arcfour_init key keylen;
     (m1, ctx1) \<leftarrow> arcfour_encrypt ctx m payload None payload (word_of_int len);
     (m2, _) \<leftarrow> arcfour_encrypt ctx1 m1 (nat (int payload + len)) (Some (u32_bytes crc)) 0 4;
     Some (m2, s') }"

text \<open>The comparison of the received checksum, byte by byte from the last, stopping at the first
  difference.\<close>

definition icv_differs :: "mem \<Rightarrow> nat \<Rightarrow> int \<Rightarrow> mem \<Rightarrow> bool option" where
  "icv_differs m payload len crc = do {
     p1 \<leftarrow> rd8i m (int payload + len - 1);
     if crc ! 3 \<noteq> p1 then Some True else do {
     p2 \<leftarrow> rd8i m (int payload + len - 2);
     if crc ! 2 \<noteq> p2 then Some True else do {
     p3 \<leftarrow> rd8i m (int payload + len - 3);
     if crc ! 1 \<noteq> p3 then Some True else do {
     p4 \<leftarrow> rd8i m (int payload + len - 4);
     Some (crc ! 0 \<noteq> p4) } } } }"

text \<open>The receiving side: decrypt payload and checksum, compute the checksum of the payload and
  compare. The flag says that the checksums differ.\<close>

definition arc4_open :: "crc_static \<Rightarrow> mem \<Rightarrow> nat \<Rightarrow> int \<Rightarrow> mem \<Rightarrow> nat \<Rightarrow> (bool \<times> mem \<times> crc_static) option" where
  "arc4_open s m payload len key keylen = do {
     ctx \<leftarrow> arcfour_init key keylen;
     (m1, _) \<leftarrow> arcfour_encrypt ctx m payload None payload (word_of_int len);
     (crc, s') \<leftarrow> getcrc32 s m1 payload (len - 4);
     bad \<leftarrow> icv_differs m1 payload len (u32_bytes crc);
     Some (bad, m1, s') }"

section \<open>The state stays a permutation\<close>

definition arc_ok :: "mem \<Rightarrow> bool" where
  "arc_ok s \<longleftrightarrow> length s = 256 \<and> distinct s"

lemma and_ff_lt: "unat (w AND 0xff :: u32) < 256"
proof -
  have "w AND 0xff \<le> 0xff"
    by (rule word_and_le1)
  then show ?thesis
    by (simp add: word_le_nat_alt)
qed

text \<open>The two stores of a round exchange two entries.\<close>

lemma wr_bytes_single: "i < length s \<Longrightarrow> wr_bytes s i [b] = Some (s[i := b])"
  by (simp add: wr_bytes_def upd_conv_take_nth_drop)

lemma swap_distinct: "distinct s \<Longrightarrow> i < length s \<Longrightarrow> j < length s \<Longrightarrow> distinct (s[i := s ! j, j := s ! i])"
  by (metis distinct_swap list_update_swap)

lemma arcfour_mix_ok:
  "arc_ok s \<Longrightarrow> counter + n \<le> 256 \<Longrightarrow> keyindex < key_len \<Longrightarrow> key_len \<le> length key \<Longrightarrow>
     \<exists>s'. arcfour_mix n key key_len s counter keyindex si = Some s' \<and> arc_ok s'"
proof (induction n arbitrary: s counter keyindex si)
  case (Suc n)
  let ?t = "s ! counter" and ?k = "key ! keyindex"
  let ?si = "(si + ucast ?k + ucast ?t) AND 0xff"
  let ?s' = "s[unat ?si := ?t, counter := s ! unat ?si]"
  have len: "length s = 256" "distinct s"
    using Suc.prems(1) by (simp_all add: arc_ok_def)
  have "arc_ok ?s'"
    using swap_distinct [of s "unat ?si" counter] len Suc.prems(2) and_ff_lt [of "si + ucast ?k + ucast ?t"]
    by (simp add: arc_ok_def)
  moreover define ki where "ki = (if keyindex + 1 \<ge> key_len then 0 else keyindex + 1)"
  moreover have "ki < key_len"
    using Suc.prems(3) by (simp add: ki_def)
  ultimately obtain r where "arcfour_mix n key key_len ?s' (counter + 1) ki ?si = Some r" "arc_ok r"
    using Suc.IH [of ?s' "counter + 1" ki ?si] Suc.prems by auto
  then show ?case
    using Suc.prems len and_ff_lt [of "si + ucast ?k + ucast ?t"]
    by (simp add: rd8_in wr_bytes_single Let_def ki_def)
qed simp

lemma arcfour_init_ok:
  assumes "0 < key_len" "key_len \<le> length key"
  shows "\<exists>c. arcfour_init key key_len = Some c \<and> arc_ok (arc_state c)"
proof -
  have "inj_on (word_of_nat :: nat \<Rightarrow> u8) {0..<256}"
    by (rule inj_on_inverseI [where g = unat]) (simp add: unat_of_nat_u8)
  then have "arc_ok (map word_of_nat [0..<256])"
    by (simp add: arc_ok_def distinct_map)
  then show ?thesis
    using arcfour_mix_ok [of "map word_of_nat [0..<256]" 0 256 0 key_len key 0] assms by (auto simp: arcfour_init_def)
qed

lemma arcfour_byte_ok:
  assumes "arc_ok (arc_state c)"
  shows "\<exists>k c'. arcfour_byte c = Some (k, c') \<and> arc_ok (arc_state c')"
proof -
  let ?s = "arc_state c" and ?x = "(arc_x c + 1) AND 0xff"
  let ?y = "(ucast (?s ! unat ?x) + arc_y c) AND 0xff"
  let ?s2 = "?s[unat ?y := ?s ! unat ?x, unat ?x := ?s ! unat ?y]"
  have len: "length ?s = 256"
    using assms by (simp add: arc_ok_def)
  have "arc_ok ?s2"
    using assms swap_distinct [of ?s "unat ?y" "unat ?x"] and_ff_lt [of "arc_x c + 1"] and_ff_lt [of "ucast (?s ! unat ?x) + arc_y c"]
    by (simp add: arc_ok_def)
  then show ?thesis
    using and_ff_lt [of "arc_x c + 1"] and_ff_lt [of "ucast (?s ! unat ?x) + arc_y c"]
      and_ff_lt [of "ucast (?s ! unat ?x) + ucast (?s ! unat ?y)"] len
    by (simp add: arcfour_byte_def Let_def rd8_in wr_bytes_single)
qed

text \<open>The key stream of a context.\<close>

fun arc_stream :: "nat \<Rightarrow> arc4context \<Rightarrow> u8 list \<times> arc4context" where
  "arc_stream 0 c = ([], c)"
| "arc_stream (Suc n) c =
     (case arcfour_byte c of None \<Rightarrow> ([], c)
      | Some (k, c') \<Rightarrow> (ucast k # fst (arc_stream n c'), snd (arc_stream n c')))"

lemma arc_stream_ok: "arc_ok (arc_state c) \<Longrightarrow> length (fst (arc_stream n c)) = n \<and> arc_ok (arc_state (snd (arc_stream n c)))"
proof (induction n arbitrary: c)
  case (Suc n)
  obtain k c' where "arcfour_byte c = Some (k, c')" "arc_ok (arc_state c')"
    using arcfour_byte_ok [OF Suc.prems] by blast
  then show ?case
    using Suc.IH by simp
qed simp

lemma arc_stream_add:
  "arc_ok (arc_state c) \<Longrightarrow>
     fst (arc_stream (m + n) c) = fst (arc_stream m c) @ fst (arc_stream n (snd (arc_stream m c)))"
proof (induction m arbitrary: c)
  case (Suc m)
  obtain k c' where "arcfour_byte c = Some (k, c')" "arc_ok (arc_state c')"
    using arcfour_byte_ok [OF Suc.prems] by blast
  then show ?case
    using Suc.IH by simp
qed simp

definition xor_bytes :: "u8 list \<Rightarrow> u8 list \<Rightarrow> u8 list" where
  "xor_bytes a b = map2 (XOR) a b"

lemma xor_bytes_Cons [simp]: "xor_bytes (x # xs) (k # ks) = (x XOR k) # xor_bytes xs ks"
  by (simp add: xor_bytes_def)

lemma xor_bytes_Nil [simp]: "xor_bytes [] ks = []"
  by (simp add: xor_bytes_def)

lemma length_xor_bytes [simp]: "length (xor_bytes a b) = min (length a) (length b)"
  by (simp add: xor_bytes_def)

lemma xor_bytes_append: "length a = length k \<Longrightarrow> xor_bytes (a @ b) (k @ l) = xor_bytes a k @ xor_bytes b l"
  by (simp add: xor_bytes_def)

lemma xor_bytes_twice: "length a \<le> length k \<Longrightarrow> xor_bytes (xor_bytes a k) k = a"
proof (induction a arbitrary: k)
  case (Cons x a)
  then obtain y l where "k = y # l"
    by (cases k) auto
  then show ?case
    using Cons by (simp add: xor.assoc)
qed simp

lemma encrypt_in_place:
  "arc_ok (arc_state c) \<Longrightarrow>
     arcfour_encrypt_loop (length bs) c (pre @ bs @ post) (length pre) None (length pre) =
       Some (pre @ xor_bytes bs (fst (arc_stream (length bs) c)) @ post, snd (arc_stream (length bs) c))"
proof (induction bs arbitrary: c pre)
  case (Cons b bs)
  obtain k c' where kc: "arcfour_byte c = Some (k, c')" "arc_ok (arc_state c')"
    using arcfour_byte_ok [OF Cons.prems] by blast
  have "wr_bytes (pre @ b # bs @ post) (length pre) [b XOR ucast k] = Some (pre @ (b XOR ucast k) # bs @ post)"
    by (simp add: wr_bytes_def)
  then show ?case
    using Cons.IH [OF kc(2), of "pre @ [b XOR ucast k]"] kc(1) by simp
qed simp

lemma encrypt_from:
  "arc_ok (arc_state c) \<Longrightarrow> length old = length bs \<Longrightarrow>
     arcfour_encrypt_loop (length bs) c (pre @ old @ post) (length pre) (Some (dpre @ bs)) (length dpre) =
       Some (pre @ xor_bytes bs (fst (arc_stream (length bs) c)) @ post, snd (arc_stream (length bs) c))"
proof (induction bs arbitrary: c pre old dpre)
  case (Cons b bs)
  obtain o1 old' where old: "old = o1 # old'" "length old' = length bs"
    using Cons.prems(2) by (cases old) auto
  obtain k c' where kc: "arcfour_byte c = Some (k, c')" "arc_ok (arc_state c')"
    using arcfour_byte_ok [OF Cons.prems(1)] by blast
  have "wr_bytes (pre @ o1 # old' @ post) (length pre) [b XOR ucast k] = Some (pre @ (b XOR ucast k) # old' @ post)"
    by (simp add: wr_bytes_def)
  then show ?case
    using Cons.IH [OF kc(2) old(2), of "pre @ [b XOR ucast k]" "dpre @ [b]"] kc(1) old(1) by simp
qed simp

section \<open>Sealing and opening are inverse\<close>

lemma unat_len: "n < 2 ^ 31 \<Longrightarrow> unat (word_of_int (int n) :: u32) = n"
  by (simp add: unat_of_nat take_bit_nat_eq_self)

lemma arc4_seal_spec:
  assumes "crc_ok s" "arcfour_init key keylen = Some c" "arc_ok (arc_state c)" "length old = 4" "length bs < 2 ^ 31"
  shows "\<exists>s'. arc4_seal s (pre @ bs @ old @ post) (length pre) (int (length bs)) key keylen =
      Some (pre @ xor_bytes (bs @ u32_bytes (crc32_ref bs)) (fst (arc_stream (length bs + 4) c)) @ post, s') \<and> crc_ok s'"
proof -
  let ?c1 = "snd (arc_stream (length bs) c)" and ?k = "fst (arc_stream (length bs) c)"
  obtain s' where s': "getcrc32 s (pre @ bs @ old @ post) (length pre) (int (length bs)) = Some (crc32_ref bs, s')" "crc_ok s'"
    using getcrc32_ref [OF assms(1) refl, of pre bs "old @ post"] by auto
  have k: "length ?k = length bs" "arc_ok (arc_state ?c1)"
    using arc_stream_ok [OF assms(3)] by auto
  have e1: "arcfour_encrypt c (pre @ bs @ old @ post) (length pre) None (length pre) (word_of_int (int (length bs)))
      = Some (pre @ xor_bytes bs ?k @ old @ post, ?c1)"
    using encrypt_in_place [OF assms(3), of bs pre "old @ post"] unat_len [OF assms(5)] by (simp add: arcfour_encrypt_def)
  have e2: "arcfour_encrypt ?c1 (pre @ xor_bytes bs ?k @ old @ post) (length pre + length bs) (Some (u32_bytes (crc32_ref bs))) 0 4
      = Some (pre @ xor_bytes bs ?k @ xor_bytes (u32_bytes (crc32_ref bs)) (fst (arc_stream 4 ?c1)) @ post, snd (arc_stream 4 ?c1))"
    using encrypt_from [OF k(2), of old "u32_bytes (crc32_ref bs)" "pre @ xor_bytes bs ?k" post "[]"] assms(4) k(1)
    by (simp add: arcfour_encrypt_def)
  have "xor_bytes (bs @ u32_bytes (crc32_ref bs)) (fst (arc_stream (length bs + 4) c))
      = xor_bytes bs ?k @ xor_bytes (u32_bytes (crc32_ref bs)) (fst (arc_stream 4 ?c1))"
    using arc_stream_add [OF assms(3), of "length bs" 4] k(1) by (simp add: xor_bytes_append)
  then show ?thesis
    using s' e1 e2 assms(2) by (simp add: arc4_seal_def nat_int_add)
qed

lemma rd8i_at: "i < length bs \<Longrightarrow> a = int (length pre) + int i \<Longrightarrow> rd8i (pre @ bs @ post) a = Some (bs ! i)"
proof -
  assume "i < length bs" "a = int (length pre) + int i"
  moreover have "nat (int (length pre) + int i) = length pre + i"
    by simp
  ultimately show ?thesis
    by (simp add: rd8i_def rd8_def nth_append)
qed

lemma list_last4: "length d = n + 4 \<Longrightarrow> drop n d = [d ! n, d ! (n + 1), d ! (n + 2), d ! (n + 3)]"
  by (rule nth_equalityI) (auto simp: nth_Cons numeral_eq_Suc less_Suc_eq split: nat.splits)

lemma icv_differs_spec:
  assumes "length d = n + 4" "length crc = 4"
  shows "icv_differs (pre @ d @ post) (length pre) (int (length d)) crc = Some (crc \<noteq> drop n d)"
proof -
  have "rd8i (pre @ d @ post) (int (length pre) + int (length d) - 1) = Some (d ! (n + 3))"
    "rd8i (pre @ d @ post) (int (length pre) + int (length d) - 2) = Some (d ! (n + 2))"
    "rd8i (pre @ d @ post) (int (length pre) + int (length d) - 3) = Some (d ! (n + 1))"
    "rd8i (pre @ d @ post) (int (length pre) + int (length d) - 4) = Some (d ! n)"
    using assms(1) by (auto intro!: rd8i_at)
  moreover obtain a b c e where "crc = [a, b, c, e]"
    using assms(2) by (auto simp: length_Suc_conv eval_nat_numeral)
  ultimately show ?thesis
    unfolding icv_differs_def list_last4 [OF assms(1)] by (auto simp: numeral_eq_Suc)
qed

lemma arc4_open_spec:
  assumes "crc_ok s" "arcfour_init key keylen = Some c" "arc_ok (arc_state c)" "length bs = n + 4" "length bs < 2 ^ 31"
    and d: "d = xor_bytes bs (fst (arc_stream (length bs) c))"
  shows "\<exists>s'. arc4_open s (pre @ bs @ post) (length pre) (int (length bs)) key keylen =
      Some (u32_bytes (crc32_ref (take n d)) \<noteq> drop n d, pre @ d @ post, s') \<and> crc_ok s'"
proof -
  have len: "length d = n + 4"
    using arc_stream_ok [OF assms(3), of "length bs"] assms(4) by (simp add: d)
  have e: "arcfour_encrypt c (pre @ bs @ post) (length pre) None (length pre) (word_of_int (int (length bs)))
      = Some (pre @ d @ post, snd (arc_stream (length bs) c))"
    using encrypt_in_place [OF assms(3), of bs pre post] unat_len [OF assms(5)] by (simp add: arcfour_encrypt_def d)
  obtain s' where s': "getcrc32 s (pre @ take n d @ drop n d @ post) (length pre) (int (length bs) - 4) = Some (crc32_ref (take n d), s')" "crc_ok s'"
    using getcrc32_ref [OF assms(1), of "int (length bs) - 4" "take n d" pre "drop n d @ post"] assms(4) len by auto
  have m: "pre @ take n d @ drop n d @ post = pre @ d @ post"
    by (metis append_assoc append_take_drop_id)
  have "icv_differs (pre @ d @ post) (length pre) (int (length bs)) (u32_bytes (crc32_ref (take n d)))
      = Some (u32_bytes (crc32_ref (take n d)) \<noteq> drop n d)"
    using icv_differs_spec [OF len, of "u32_bytes (crc32_ref (take n d))" pre post] assms(4) len by simp
  then show ?thesis
    using e s' assms(2) m by (simp add: arc4_open_def)
qed

lemma arc4_roundtrip:
  assumes "crc_ok s" "crc_ok t" "0 < keylen" "keylen \<le> length key" "length old = 4" "length bs + 4 < 2 ^ 31"
  shows "\<exists>cipher s' t'. length cipher = length bs + 4 \<and>
     arc4_seal s (pre @ bs @ old @ post) (length pre) (int (length bs)) key keylen = Some (pre @ cipher @ post, s') \<and>
     arc4_open t (pre2 @ cipher @ post2) (length pre2) (int (length bs) + 4) key keylen
       = Some (False, pre2 @ bs @ u32_bytes (crc32_ref bs) @ post2, t') \<and> crc_ok s' \<and> crc_ok t'"
proof -
  obtain c where c: "arcfour_init key keylen = Some c" "arc_ok (arc_state c)"
    using arcfour_init_ok [OF assms(3,4)] by blast
  let ?k = "fst (arc_stream (length bs + 4) c)" and ?p = "bs @ u32_bytes (crc32_ref bs)"
  let ?x = "xor_bytes ?p ?k"
  have k: "length ?k = length bs + 4"
    using arc_stream_ok [OF c(2)] by simp
  have x: "length ?x = length bs + 4"
    using k by simp
  have d: "?p = xor_bytes ?x (fst (arc_stream (length ?x) c))"
    unfolding x using xor_bytes_twice [of ?p ?k] k by simp
  obtain s' where "arc4_seal s (pre @ bs @ old @ post) (length pre) (int (length bs)) key keylen = Some (pre @ ?x @ post, s')" "crc_ok s'"
    using arc4_seal_spec [OF assms(1) c assms(5), of bs pre post] assms(6) by auto
  moreover obtain t' where "arc4_open t (pre2 @ ?x @ post2) (length pre2) (int (length ?x)) key keylen
       = Some (False, pre2 @ ?p @ post2, t')" "crc_ok t'"
    using arc4_open_spec [OF assms(2) c x _ d, of pre2 post2] assms(6) x by auto
  ultimately show ?thesis
    using x by (intro exI [of _ ?x]) auto
qed

end
