(* ===== verification/Sec_Wep.thy ===== *)
theory Sec_Wep
  imports Sec_Arc4
begin

text \<open>
  The state the security code works on (\<open>pkt_attrib\<close>, \<open>xmit_frame\<close>, \<open>rx_pkt_attrib\<close>,
  \<open>recv_frame\<close>, the key part of \<open>security_priv\<close>) and \<open>rtw_wep_encrypt\<close> and
  \<open>rtw_wep_decrypt\<close> of \<^verbatim>\<open>core/rtw_security.c\<close>, with the theorem that a frame sealed by
  the one is opened by the other.
\<close>

section \<open>Frames and keys\<close>

record pkt_attrib =
  tx_hdrlen :: u16
  last_txcmdsz :: u32
  nr_frags :: u8
  encrypt :: u8
  tx_iv_len :: u8
  tx_icv_len :: u8
  tx_ra :: mem
  tx_ta :: mem
  UncstKey :: mem

text \<open>\<open>buf_addr\<close> is the machine address of the first byte of the buffer, \<open>None\<close> for NULL;
  \<open>buf\<close> its contents. Fragments start at 4-aligned machine addresses.\<close>

record xmit_frame =
  attrib :: pkt_attrib
  buf_addr :: "nat option"
  buf :: mem
  pkt_offset :: u8

record rx_pkt_attrib =
  rx_hdrlen :: u8
  rx_encrypt :: u8
  rx_iv_len :: u8
  rx_key_index :: u8
  rx_ra :: mem
  rx_ta :: mem

record recv_frame =
  rx_attrib :: rx_pkt_attrib
  rx_len :: u32
  rx_buf :: mem

record security_priv =
  dot11PrivacyKeyIndex :: u32
  dot11DefKey :: "mem list"
  dot11DefKeylen :: "u32 list"
  dot118021XGrpKeyid :: u32
  dot118021XGrpKey :: "mem list"
  binstallGrpkey :: u8

abbreviation (input) WEP40 :: u8 where "WEP40 \<equiv> 1"
abbreviation (input) TKIP :: u8 where "TKIP \<equiv> 2"
abbreviation (input) AES :: u8 where "AES \<equiv> 4"
abbreviation (input) WEP104 :: u8 where "WEP104 \<equiv> 5"

definition RND4 :: "nat \<Rightarrow> nat" where
  "RND4 x = (x div 4 + (if x mod 4 = 0 then 0 else 1)) * 4"

text \<open>The transmit descriptor has 40 bytes and a packet offset is eight; the sum is kept in
  eight bits.\<close>

definition hw_hdr_offset :: "xmit_frame \<Rightarrow> u8" where
  "hw_hdr_offset xf = 40 + pkt_offset xf * 8"

text \<open>The payload length of the last fragment and of the others: unsigned arithmetic, stored in
  a signed integer.\<close>

definition frag_length :: "pkt_attrib \<Rightarrow> u32 \<Rightarrow> bool \<Rightarrow> int" where
  "frag_length a frag_len is_last =
     sint ((if is_last then last_txcmdsz a else frag_len) - ucast (tx_hdrlen a) - ucast (tx_iv_len a) - ucast (tx_icv_len a))"

text \<open>The fragment loop of \<open>rtw_wep_encrypt\<close> and \<open>rtw_tkip_encrypt\<close>; \<open>mk\<close> makes the ARC4 key
  from the IV at the given address.\<close>

fun arc4_frags ::
  "nat \<Rightarrow> (mem \<Rightarrow> nat \<Rightarrow> (mem \<times> nat) option) \<Rightarrow> pkt_attrib \<Rightarrow> u32 \<Rightarrow> nat \<Rightarrow> nat \<Rightarrow> crc_static \<Rightarrow> mem \<Rightarrow> nat
     \<Rightarrow> (mem \<times> crc_static) option" where
  "arc4_frags 0 mk a frag_len base curfragnum s m pframe = Some (m, s)"
| "arc4_frags (Suc n) mk a frag_len base curfragnum s m pframe = do {
     (key, keylen) \<leftarrow> mk m (pframe + unat (tx_hdrlen a));
     let payload = pframe + unat (tx_iv_len a) + unat (tx_hdrlen a);
     if curfragnum + 1 = unat (nr_frags a) then do {
       (m', s') \<leftarrow> arc4_seal s m payload (frag_length a frag_len True) key keylen;
       arc4_frags n mk a frag_len base (curfragnum + 1) s' m' pframe }
     else do {
       (m', s') \<leftarrow> arc4_seal s m payload (frag_length a frag_len False) key keylen;
       arc4_frags n mk a frag_len base (curfragnum + 1) s' m' (RND4 (base + pframe + unat frag_len) - base) } }"

section \<open>WEP\<close>

text \<open>The 16-byte local array starts uninitialised; the bytes the cipher reads are the ones
  written here.\<close>

definition wep_key :: "mem \<Rightarrow> nat \<Rightarrow> mem \<Rightarrow> nat \<Rightarrow> (mem \<times> nat) option" where
  "wep_key m iv skey keylength = do {
     w1 \<leftarrow> rtw_memcpy (replicate 16 0) 0 m iv 3;
     w2 \<leftarrow> rtw_memcpy w1 3 skey 0 keylength;
     Some (w2, 3 + keylength) }"

definition rtw_wep_encrypt :: "security_priv \<Rightarrow> u32 \<Rightarrow> crc_static \<Rightarrow> xmit_frame \<Rightarrow> (xmit_frame \<times> crc_static) option" where
  "rtw_wep_encrypt sec frag_len s xf =
     (case buf_addr xf of None \<Rightarrow> Some (xf, s)
      | Some base \<Rightarrow>
         if encrypt (attrib xf) = WEP40 \<or> encrypt (attrib xf) = WEP104 then do {
           keylength \<leftarrow> arr (dot11DefKeylen sec) (unat (dot11PrivacyKeyIndex sec));
           (m, s') \<leftarrow> arc4_frags (unat (nr_frags (attrib xf)))
             (\<lambda>m iv. do { skey \<leftarrow> arr (dot11DefKey sec) (unat (dot11PrivacyKeyIndex sec)); wep_key m iv skey (unat keylength) })
             (attrib xf) frag_len base 0 s (buf xf) (unat (hw_hdr_offset xf));
           Some (xf\<lparr>buf := m\<rparr>, s') }
         else Some (xf, s))"

text \<open>The result of the checksum comparison only goes into a trace message: the frame is
  delivered either way. The flag is kept here to state what the comparison finds.\<close>

definition rtw_wep_decrypt :: "security_priv \<Rightarrow> crc_static \<Rightarrow> recv_frame \<Rightarrow> (bool \<times> recv_frame \<times> crc_static) option" where
  "rtw_wep_decrypt sec s rf = (let a = rx_attrib rf in
     if rx_encrypt a = WEP40 \<or> rx_encrypt a = WEP104 then do {
       keylength \<leftarrow> arr (dot11DefKeylen sec) (unat (rx_key_index a));
       skey \<leftarrow> arr (dot11DefKey sec) (unat (rx_key_index a));
       (key, keylen) \<leftarrow> wep_key (rx_buf rf) (unat (rx_hdrlen a)) skey (unat keylength);
       (bad, m, s') \<leftarrow> arc4_open s (rx_buf rf) (unat (rx_iv_len a) + unat (rx_hdrlen a))
          (sint (rx_len rf - ucast (rx_hdrlen a) - ucast (rx_iv_len a))) key keylen;
       Some (bad, rf\<lparr>rx_buf := m\<rparr>, s') }
     else Some (False, rf, s))"

section \<open>Correctness\<close>

text \<open>A non-negative length below \<open>2 ^ 31\<close> survives the detour over unsigned arithmetic.\<close>

lemma sint_small: "n < 2 ^ 31 \<Longrightarrow> sint (word_of_nat n :: u32) = int n"
  by (simp add: sint_uint signed_take_bit_eq_if_positive uint_nat unat_of_nat take_bit_nat_eq_self bit_iff_odd take_bit_int_eq_self
      zdiv_int [symmetric])

lemma ucast_u8_u32: "(ucast (b :: u8) :: u32) = word_of_nat (unat b)" "(ucast (h :: u16) :: u32) = word_of_nat (unat h)"
  by (simp_all add: word_unat_eq_iff unat_ucast_u8 unat_of_nat take_bit_nat_eq_self unsigned_ucast_eq
      unat_u8_lt [THEN less_le_trans] unat_u16_lt [THEN less_le_trans])

text \<open>An unfragmented frame in the transmit buffer: descriptor, header, IV, payload, room for the
  checksum; and a received frame with the same parts.\<close>

definition tx_frame :: "xmit_frame \<Rightarrow> mem \<Rightarrow> mem \<Rightarrow> mem \<Rightarrow> mem \<Rightarrow> mem \<Rightarrow> mem \<Rightarrow> bool" where
  "tx_frame xf pre hdr iv bs icv post \<longleftrightarrow>
     (let a = attrib xf in
      buf_addr xf \<noteq> None \<and> buf xf = pre @ hdr @ iv @ bs @ icv @ post \<and> length pre = unat (hw_hdr_offset xf) \<and>
      length hdr = unat (tx_hdrlen a) \<and> length iv = unat (tx_iv_len a) \<and> length icv = 4 \<and> tx_icv_len a = 4 \<and> nr_frags a = 1 \<and>
      last_txcmdsz a = word_of_nat (length hdr + length iv + length bs + 4) \<and>
      length hdr + length iv + length bs + 4 < 2 ^ 31)"

definition rx_frame :: "recv_frame \<Rightarrow> mem \<Rightarrow> mem \<Rightarrow> mem \<Rightarrow> mem \<Rightarrow> bool" where
  "rx_frame rf hdr iv cipher post \<longleftrightarrow>
     (let a = rx_attrib rf in
      rx_buf rf = hdr @ iv @ cipher @ post \<and> length hdr = unat (rx_hdrlen a) \<and> length iv = unat (rx_iv_len a) \<and>
      rx_len rf = word_of_nat (length hdr + length iv + length cipher) \<and>
      length hdr + length iv + length cipher < 2 ^ 31)"

lemma word_len_diff:
  "(word_of_nat (a + b + c + 4) :: u32) - word_of_nat a - word_of_nat b - 4 = word_of_nat c"
  "(word_of_nat (a + b + c) :: u32) - word_of_nat a - word_of_nat b = word_of_nat c"
  by simp_all

lemma frag_length_last:
  assumes "tx_frame xf pre hdr iv bs icv post"
  shows "frag_length (attrib xf) frag_len True = int (length bs)"
proof -
  have a: "unat (tx_hdrlen (attrib xf)) = length hdr" "unat (tx_iv_len (attrib xf)) = length iv" "tx_icv_len (attrib xf) = 4"
    "last_txcmdsz (attrib xf) = word_of_nat (length hdr + length iv + length bs + 4)" "length bs < 2 ^ 31"
    using assms unfolding tx_frame_def Let_def by simp_all
  have four: "(word_of_nat (unat (4 :: u8)) :: u32) = 4"
    by simp
  show ?thesis
    unfolding frag_length_def if_True a(3,4) ucast_u8_u32 four a(1,2) word_len_diff by (rule sint_small [OF a(5)])
qed

lemma rx_length:
  assumes "rx_frame rf hdr iv cipher post"
  shows "sint (rx_len rf - ucast (rx_hdrlen (rx_attrib rf)) - ucast (rx_iv_len (rx_attrib rf))) = int (length cipher)"
proof -
  have a: "unat (rx_hdrlen (rx_attrib rf)) = length hdr" "unat (rx_iv_len (rx_attrib rf)) = length iv"
    "rx_len rf = word_of_nat (length hdr + length iv + length cipher)" "length cipher < 2 ^ 31"
    using assms unfolding rx_frame_def Let_def by simp_all
  show ?thesis
    unfolding a(3) ucast_u8_u32 a(1,2) word_len_diff by (rule sint_small [OF a(4)])
qed

lemma arc4_frags_single:
  assumes "tx_frame xf pre hdr iv bs icv post"
    and "mk (buf xf) (length pre + length hdr) = Some (key, keylen)"
    and "arc4_seal s (buf xf) (length (pre @ hdr @ iv)) (int (length bs)) key keylen = Some (m', s')"
  shows "arc4_frags (unat (nr_frags (attrib xf))) mk (attrib xf) frag_len base 0 s (buf xf) (unat (hw_hdr_offset xf)) = Some (m', s')"
  using assms frag_length_last [OF assms(1), of frag_len] by (simp add: tx_frame_def Let_def ac_simps)

text \<open>What the fragment loop and the receivers need of a key derivation: it reads the IV of the
  frame and nothing else, and gives a key the cipher can use.\<close>

locale arc4_scheme =
  fixes mk :: "mem \<Rightarrow> nat \<Rightarrow> (mem \<times> nat) option"
    and kd :: "mem \<Rightarrow> mem \<times> nat"
    and ok :: "mem \<Rightarrow> bool"
  assumes mk_at: "ok iv \<Longrightarrow> mk (pre @ iv @ post) (length pre) = Some (kd iv)"
    and kd_len: "ok iv \<Longrightarrow> 0 < snd (kd iv) \<and> snd (kd iv) \<le> length (fst (kd iv))"
begin

definition stream_of :: "mem \<Rightarrow> nat \<Rightarrow> u8 list" where
  "stream_of iv n = (case arcfour_init (fst (kd iv)) (snd (kd iv)) of Some c \<Rightarrow> fst (arc_stream n c) | None \<Rightarrow> [])"

definition sealed :: "mem \<Rightarrow> mem \<Rightarrow> mem" where
  "sealed iv bs = xor_bytes (bs @ u32_bytes (crc32_ref bs)) (stream_of iv (length bs + 4))"

definition opened :: "mem \<Rightarrow> mem \<Rightarrow> mem" where
  "opened iv cipher = xor_bytes cipher (stream_of iv (length cipher))"

lemma init_at:
  assumes "ok iv"
  obtains c where "arcfour_init (fst (kd iv)) (snd (kd iv)) = Some c" "arc_ok (arc_state c)" "stream_of iv n = fst (arc_stream n c)"
  using arcfour_init_ok [of "snd (kd iv)" "fst (kd iv)"] kd_len [OF assms] by (force simp: stream_of_def)

lemma length_stream_of: "ok iv \<Longrightarrow> length (stream_of iv n) = n"
  using init_at [of iv n] arc_stream_ok by metis

lemma length_sealed: "ok iv \<Longrightarrow> length (sealed iv bs) = length bs + 4"
  by (simp add: sealed_def length_stream_of)

lemma opened_sealed: "ok iv \<Longrightarrow> opened iv (sealed iv bs) = bs @ u32_bytes (crc32_ref bs)"
  using xor_bytes_twice [of "bs @ u32_bytes (crc32_ref bs)" "stream_of iv (length bs + 4)"]
  by (simp add: opened_def length_sealed length_stream_of) (simp add: sealed_def)

lemma seal_frame:
  assumes "tx_frame xf pre hdr iv bs icv post" "ok iv" "crc_ok s"
  shows "\<exists>s'. arc4_frags (unat (nr_frags (attrib xf))) mk (attrib xf) frag_len base 0 s (buf xf) (unat (hw_hdr_offset xf))
      = Some (pre @ hdr @ iv @ sealed iv bs @ post, s') \<and> crc_ok s'"
proof -
  have tx: "buf xf = (pre @ hdr @ iv) @ bs @ icv @ post" "length icv = 4" "length bs < 2 ^ 31"
    using assms(1) by (auto simp: tx_frame_def Let_def)
  obtain c where c: "arcfour_init (fst (kd iv)) (snd (kd iv)) = Some c" "arc_ok (arc_state c)"
    "stream_of iv (length bs + 4) = fst (arc_stream (length bs + 4) c)"
    using init_at [OF assms(2)] .
  obtain s' where s': "arc4_seal s (buf xf) (length (pre @ hdr @ iv)) (int (length bs)) (fst (kd iv)) (snd (kd iv))
      = Some ((pre @ hdr @ iv) @ sealed iv bs @ post, s')" "crc_ok s'"
    using arc4_seal_spec [OF assms(3) c(1,2) tx(2,3), of "pre @ hdr @ iv" post] tx(1)
    unfolding sealed_def c(3) by auto
  have "mk (buf xf) (length pre + length hdr) = Some (fst (kd iv), snd (kd iv))"
    using mk_at [OF assms(2), of "pre @ hdr" "bs @ icv @ post"] tx(1) by simp
  then show ?thesis
    using arc4_frags_single [OF assms(1) _ s'(1), of mk] s'(2) by auto
qed

lemma open_frame:
  assumes "rx_frame rf hdr iv cipher rest" "ok iv" "length cipher = n + 4" "crc_ok t"
  shows "\<exists>t'. arc4_open t (rx_buf rf) (unat (rx_iv_len (rx_attrib rf)) + unat (rx_hdrlen (rx_attrib rf)))
     (sint (rx_len rf - ucast (rx_hdrlen (rx_attrib rf)) - ucast (rx_iv_len (rx_attrib rf)))) (fst (kd iv)) (snd (kd iv))
    = Some (u32_bytes (crc32_ref (take n (opened iv cipher))) \<noteq> drop n (opened iv cipher), hdr @ iv @ opened iv cipher @ rest, t')
    \<and> crc_ok t'"
proof -
  obtain c where c: "arcfour_init (fst (kd iv)) (snd (kd iv)) = Some c" "arc_ok (arc_state c)"
    "stream_of iv (length cipher) = fst (arc_stream (length cipher) c)"
    using init_at [OF assms(2)] .
  have rx: "rx_buf rf = (hdr @ iv) @ cipher @ rest" "length cipher < 2 ^ 31"
    "unat (rx_iv_len (rx_attrib rf)) + unat (rx_hdrlen (rx_attrib rf)) = length (hdr @ iv)"
    using assms(1) by (auto simp: rx_frame_def Let_def)
  show ?thesis
    unfolding rx(1,3) rx_length [OF assms(1)]
    using arc4_open_spec [OF assms(4) c(1,2) assms(3) rx(2), of "opened iv cipher" "hdr @ iv" rest]
    by (simp add: opened_def c(3))
qed

lemma open_key: "rx_frame rf hdr iv cipher rest \<Longrightarrow> ok iv \<Longrightarrow> mk (rx_buf rf) (unat (rx_hdrlen (rx_attrib rf))) = Some (fst (kd iv), snd (kd iv))"
  using mk_at [of iv hdr "cipher @ rest"] by (simp add: rx_frame_def Let_def)

end

definition wep_kd :: "mem \<Rightarrow> nat \<Rightarrow> mem \<Rightarrow> mem \<times> nat" where
  "wep_kd skey kl iv = (take 3 iv @ take kl skey @ replicate (13 - kl) 0, 3 + kl)"

definition wep_ok :: "mem \<Rightarrow> nat \<Rightarrow> mem \<Rightarrow> bool" where
  "wep_ok skey kl iv \<longleftrightarrow> 3 \<le> length iv \<and> kl \<le> 13 \<and> kl \<le> length skey"

interpretation wep: arc4_scheme "\<lambda>m iv. wep_key m iv skey kl" "wep_kd skey kl" "wep_ok skey kl" for skey :: mem and kl :: nat
proof
  fix iv p q :: mem
  assume ok: "wep_ok skey kl iv"
  then have "rd_bytes (p @ iv @ q) (length p) 3 = Some (take 3 iv)"
    by (simp add: wep_ok_def rd_bytes_def)
  moreover have "wr_bytes (replicate 16 0) 0 (take 3 iv) = Some (take 3 iv @ replicate 13 0)"
    using ok by (simp add: wep_ok_def wr_bytes_def)
  moreover have "rtw_memcpy (take 3 iv @ replicate 13 0) 3 skey 0 kl = Some (take 3 iv @ take kl skey @ replicate (13 - kl) 0)"
    using ok by (simp add: wep_ok_def rtw_memcpy_def rd_bytes_def wr_bytes_def min_absorb2)
  ultimately show "wep_key (p @ iv @ q) (length p) skey kl = Some (wep_kd skey kl iv)"
    unfolding wep_key_def wep_kd_def rtw_memcpy_def [of "replicate 16 0"] by simp
  show "0 < snd (wep_kd skey kl iv) \<and> snd (wep_kd skey kl iv) \<le> length (fst (wep_kd skey kl iv))"
    using ok by (simp add: wep_ok_def wep_kd_def)
qed

text \<open>C34. WEP round trip: a frame that \<open>rtw_wep_encrypt\<close> seals is opened by \<open>rtw_wep_decrypt\<close>
  under the same default key with a matching checksum and the payload restored; header, IV and
  everything around the frame are untouched.\<close>

theorem rtw_wep_roundtrip:
  assumes "tx_frame xf pre hdr iv bs icv post" "wep_ok skey (unat kl) iv" "crc_ok s"
    and "encrypt (attrib xf) = WEP40 \<or> encrypt (attrib xf) = WEP104"
    and "arr (dot11DefKey sec) (unat (dot11PrivacyKeyIndex sec)) = Some skey"
    and "arr (dot11DefKeylen sec) (unat (dot11PrivacyKeyIndex sec)) = Some kl"
  shows "\<exists>cipher s'. rtw_wep_encrypt sec frag_len s xf = Some (xf\<lparr>buf := pre @ hdr @ iv @ cipher @ post\<rparr>, s') \<and> crc_ok s' \<and>
    length cipher = length bs + 4 \<and>
    (\<forall>rf rest t. rx_frame rf hdr iv cipher rest \<longrightarrow> crc_ok t \<longrightarrow> rx_encrypt (rx_attrib rf) = encrypt (attrib xf) \<longrightarrow>
       unat (rx_key_index (rx_attrib rf)) = unat (dot11PrivacyKeyIndex sec) \<longrightarrow>
       (\<exists>t'. rtw_wep_decrypt sec t rf = Some (False, rf\<lparr>rx_buf := hdr @ iv @ bs @ u32_bytes (crc32_ref bs) @ rest\<rparr>, t')))"
proof -
  let ?cipher = "wep.sealed skey (unat kl) iv bs"
  have len: "length ?cipher = length bs + 4"
    by (rule wep.length_sealed [OF assms(2)])
  obtain base where base: "buf_addr xf = Some base"
    using assms(1) by (auto simp: tx_frame_def Let_def)
  obtain s' where s': "arc4_frags (unat (nr_frags (attrib xf))) (\<lambda>m iv. wep_key m iv skey (unat kl)) (attrib xf) frag_len base 0 s (buf xf)
      (unat (hw_hdr_offset xf)) = Some (pre @ hdr @ iv @ ?cipher @ post, s')" "crc_ok s'"
    using wep.seal_frame [OF assms(1-3), of frag_len base] by blast
  have enc: "rtw_wep_encrypt sec frag_len s xf = Some (xf\<lparr>buf := pre @ hdr @ iv @ ?cipher @ post\<rparr>, s')"
    using s' base assms(4-6) by (auto simp: rtw_wep_encrypt_def)
  have dec: "\<exists>t'. rtw_wep_decrypt sec t rf = Some (False, rf\<lparr>rx_buf := hdr @ iv @ bs @ u32_bytes (crc32_ref bs) @ rest\<rparr>, t')"
    if rf: "rx_frame rf hdr iv ?cipher rest" "crc_ok t" "rx_encrypt (rx_attrib rf) = encrypt (attrib xf)"
      "unat (rx_key_index (rx_attrib rf)) = unat (dot11PrivacyKeyIndex sec)" for rf rest t
    using wep.open_frame [OF rf(1) assms(2) len rf(2)] wep.open_key [OF rf(1) assms(2)] wep.opened_sealed [OF assms(2), of bs] rf(3,4) assms(4-6)
    by (auto simp: rtw_wep_decrypt_def Let_def case_prod_beta)
  show ?thesis
    using enc s'(2) len dec by blast
qed

definition wep_demo_tx :: xmit_frame where
  "wep_demo_tx = \<lparr>attrib = \<lparr>tx_hdrlen = 24, last_txcmdsz = 35, nr_frags = 1, encrypt = 1, tx_iv_len = 4, tx_icv_len = 4,
      tx_ra = replicate 6 0, tx_ta = replicate 6 0, UncstKey = replicate 16 0\<rparr>,
    buf_addr = Some 4096, buf = replicate 40 0 @ replicate 24 8 @ [1, 2, 3, 0] @ [65, 66, 67] @ [0, 0, 0, 0] @ [], pkt_offset = 0\<rparr>"

definition wep_demo_sec :: security_priv where
  "wep_demo_sec = \<lparr>dot11PrivacyKeyIndex = 0, dot11DefKey = [[1, 2, 3, 4, 5, 0, 0, 0, 0, 0, 0, 0, 0, 0, 0, 0]], dot11DefKeylen = [5],
     dot118021XGrpKeyid = 0, dot118021XGrpKey = [], binstallGrpkey = 0\<rparr>"

definition crc_fresh :: crc_static where
  "crc_fresh = \<lparr>bcrc32initialized = 0, crc32_table = replicate 256 0\<rparr>"

lemma wep_demo_frame: "tx_frame wep_demo_tx (replicate 40 0) (replicate 24 8) [1, 2, 3, 0] [65, 66, 67] [0, 0, 0, 0] []"
  by (simp add: tx_frame_def wep_demo_tx_def hw_hdr_offset_def)

definition wep_demo_rx :: "mem \<Rightarrow> recv_frame" where
  "wep_demo_rx cipher = \<lparr>rx_attrib = \<lparr>rx_hdrlen = 24, rx_encrypt = 1, rx_iv_len = 4, rx_key_index = 0,
      rx_ra = replicate 6 0, rx_ta = replicate 6 0\<rparr>, rx_len = 35, rx_buf = replicate 24 8 @ [1, 2, 3, 0] @ cipher @ []\<rparr>"

theorem rtw_wep_roundtrip_witness:
  "\<exists>cipher s' t'. rtw_wep_encrypt wep_demo_sec 2346 crc_fresh wep_demo_tx
       = Some (wep_demo_tx\<lparr>buf := replicate 40 0 @ replicate 24 8 @ [1, 2, 3, 0] @ cipher @ []\<rparr>, s') \<and>
    rtw_wep_decrypt wep_demo_sec s' (wep_demo_rx cipher) = Some (False,
      (wep_demo_rx cipher)\<lparr>rx_buf := replicate 24 8 @ [1, 2, 3, 0] @ [65, 66, 67] @ u32_bytes (crc32_ref [65, 66, 67]) @ []\<rparr>, t')"
proof -
  have sec: "arr (dot11DefKey wep_demo_sec) (unat (dot11PrivacyKeyIndex wep_demo_sec)) = Some [1, 2, 3, 4, 5, 0, 0, 0, 0, 0, 0, 0, 0, 0, 0, 0]"
    "arr (dot11DefKeylen wep_demo_sec) (unat (dot11PrivacyKeyIndex wep_demo_sec)) = Some 5"
    "unat (dot11PrivacyKeyIndex wep_demo_sec) = 0" "encrypt (attrib wep_demo_tx) = 1" "crc_ok crc_fresh"
    "wep_ok [1, 2, 3, 4, 5, 0, 0, 0, 0, 0, 0, 0, 0, 0, 0, 0] (unat (5 :: u32)) [1, 2, 3, 0]"
    by (simp_all add: wep_demo_sec_def wep_demo_tx_def arr_def crc_ok_def crc_fresh_def wep_ok_def)
  obtain cipher s' where c: "rtw_wep_encrypt wep_demo_sec 2346 crc_fresh wep_demo_tx
       = Some (wep_demo_tx\<lparr>buf := replicate 40 0 @ replicate 24 8 @ [1, 2, 3, 0] @ cipher @ []\<rparr>, s')" "crc_ok s'" "length cipher = 7"
    and dec: "\<And>rf rest t. rx_frame rf (replicate 24 8) [1, 2, 3, 0] cipher rest \<Longrightarrow> crc_ok t \<Longrightarrow> rx_encrypt (rx_attrib rf) = 1 \<Longrightarrow>
       unat (rx_key_index (rx_attrib rf)) = 0 \<Longrightarrow>
       (\<exists>t'. rtw_wep_decrypt wep_demo_sec t rf
          = Some (False, rf\<lparr>rx_buf := replicate 24 8 @ [1, 2, 3, 0] @ [65, 66, 67] @ u32_bytes (crc32_ref [65, 66, 67]) @ rest\<rparr>, t'))"
    using rtw_wep_roundtrip [OF wep_demo_frame sec(6,5) _ sec(1,2), of 2346] sec(3,4) by auto
  have "rx_frame (wep_demo_rx cipher) (replicate 24 8) [1, 2, 3, 0] cipher []"
    using c(3) by (simp add: rx_frame_def wep_demo_rx_def)
  then show ?thesis
    using c(1) dec [OF _ c(2), of "wep_demo_rx cipher" "[]"] by (auto simp: wep_demo_rx_def)
qed

end
