(* ===== verification/Sec_Mic.thy ===== *)
theory Sec_Mic
  imports Rtw_Prelude
begin

text \<open>
  The Michael message integrity code of \<^verbatim>\<open>core/rtw_security.c\<close> (\<open>rtw_secmicsetkey\<close>,
  \<open>rtw_secmicappendbyte\<close>, \<open>rtw_secmicappend\<close>, \<open>rtw_secgetmic\<close>, \<open>rtw_seccalctkipmic\<close>).
  The code feeds bytes one at a time into a word-sized buffer; the theorems show that it computes
  the block function over the little-endian words of the padded message, however the message was
  split into appends.
\<close>

section \<open>The code\<close>

record mic_data =
  K0 :: u32
  K1 :: u32
  micL :: u32
  micR :: u32
  micM :: u32
  nBytesInM :: u32

text \<open>The loop of \<open>secmicgetuint32\<close>: \<open>n\<close> rounds from index \<open>i\<close>.\<close>

fun secmicget_loop :: "nat \<Rightarrow> mem \<Rightarrow> nat \<Rightarrow> nat \<Rightarrow> u32 \<Rightarrow> u32 option" where
  "secmicget_loop 0 m p i res = Some res"
| "secmicget_loop (Suc n) m p i res = do {
     b \<leftarrow> rd8 m p;
     secmicget_loop n m (p + 1) (i + 1) (res OR push_bit (8 * i) (ucast b)) }"

definition secmicgetuint32 :: "mem \<Rightarrow> nat \<Rightarrow> u32 option" where
  "secmicgetuint32 m p = secmicget_loop 4 m p 0 0"

fun secmicput_loop :: "nat \<Rightarrow> mem \<Rightarrow> nat \<Rightarrow> u32 \<Rightarrow> mem option" where
  "secmicput_loop 0 m p val = Some m"
| "secmicput_loop (Suc n) m p val = do {
     m' \<leftarrow> wr_bytes m p [ucast (val AND 0xff)];
     secmicput_loop n m' (p + 1) (drop_bit 8 val) }"

definition secmicputuint32 :: "mem \<Rightarrow> nat \<Rightarrow> u32 \<Rightarrow> mem option" where
  "secmicputuint32 m p val = secmicput_loop 4 m p val"

definition secmicclear :: "mic_data \<Rightarrow> mic_data" where
  "secmicclear d = d\<lparr>micL := K0 d, micR := K1 d, nBytesInM := 0, micM := 0\<rparr>"

definition rtw_secmicsetkey :: "mic_data \<Rightarrow> mem \<Rightarrow> mic_data option" where
  "rtw_secmicsetkey d key = do {
     k0 \<leftarrow> secmicgetuint32 key 0;
     k1 \<leftarrow> secmicgetuint32 key 4;
     Some (secmicclear (d\<lparr>K0 := k0, K1 := k1\<rparr>)) }"

definition ROL32 :: "u32 \<Rightarrow> nat \<Rightarrow> u32" where
  "ROL32 a n = push_bit n a OR (drop_bit (32 - n) a AND (push_bit n 1 - 1))"

definition ROR32 :: "u32 \<Rightarrow> nat \<Rightarrow> u32" where
  "ROR32 a n = ROL32 a (32 - n)"

text \<open>The statements on \<open>L\<close> and \<open>R\<close> that process a full word.\<close>

definition mic_round :: "u32 \<times> u32 \<Rightarrow> u32 \<Rightarrow> u32 \<times> u32" where
  "mic_round LR M = (case LR of (L, R) \<Rightarrow>
     let L = L XOR M;
         R = R XOR ROL32 L 17;
         L = L + R;
         R = R XOR (drop_bit 8 (L AND 0xff00ff00) OR push_bit 8 (L AND 0x00ff00ff));
         L = L + R;
         R = R XOR ROL32 L 3;
         L = L + R;
         R = R XOR ROR32 L 2;
         L = L + R
     in (L, R))"

definition rtw_secmicappendbyte :: "mic_data \<Rightarrow> u8 \<Rightarrow> mic_data" where
  "rtw_secmicappendbyte d b =
     (let M = micM d OR push_bit (8 * unat (nBytesInM d)) (ucast b);
          n = nBytesInM d + 1
      in if n \<ge> 4
         then (case mic_round (micL d, micR d) M of (L, R) \<Rightarrow> d\<lparr>micL := L, micR := R, micM := 0, nBytesInM := 0\<rparr>)
         else d\<lparr>micM := M, nBytesInM := n\<rparr>)"

fun rtw_secmicappend :: "mic_data \<Rightarrow> mem \<Rightarrow> nat \<Rightarrow> nat \<Rightarrow> mic_data option" where
  "rtw_secmicappend d m src 0 = Some d"
| "rtw_secmicappend d m src (Suc n) = do {
     b \<leftarrow> rd8 m src;
     rtw_secmicappend (rtw_secmicappendbyte d b) m (src + 1) n }"

text \<open>The padding loop appends zero bytes until the buffer is empty; it may in principle run
  forever, so its result is an option.\<close>

partial_function (option) mic_pad :: "mic_data \<Rightarrow> mic_data option" where
  "mic_pad d = (if nBytesInM d \<noteq> 0 then mic_pad (rtw_secmicappendbyte d 0) else Some d)"

definition rtw_secgetmic :: "mic_data \<Rightarrow> mem \<Rightarrow> (mic_data \<times> mem) run" where
  "rtw_secgetmic d dst =
     (let d5 = foldl rtw_secmicappendbyte d [0x5a, 0, 0, 0, 0] in
      case mic_pad d5 of None \<Rightarrow> None
      | Some d' \<Rightarrow> Some (do {
          o1 \<leftarrow> secmicputuint32 dst 0 (micL d');
          o2 \<leftarrow> secmicputuint32 o1 4 (micR d');
          Some (secmicclear d', o2) }))"

definition rtw_seccalctkipmic :: "mem \<Rightarrow> mem \<Rightarrow> mem \<Rightarrow> nat \<Rightarrow> mem \<Rightarrow> u8 \<Rightarrow> mem run" where
  "rtw_seccalctkipmic key header data data_len mic_code pri =
     run_bind (Some (rtw_secmicsetkey \<lparr>K0 = 0, K1 = 0, micL = 0, micR = 0, micM = 0, nBytesInM = 0\<rparr> key)) (\<lambda>d0.
     run_bind (Some (rd8 header 1)) (\<lambda>h1.
     run_bind (Some (if h1 AND 1 \<noteq> 0
        then do { d1 \<leftarrow> rtw_secmicappend d0 header 16 6;
                  if h1 AND 2 \<noteq> 0 then rtw_secmicappend d1 header 24 6 else rtw_secmicappend d1 header 10 6 }
        else do { d1 \<leftarrow> rtw_secmicappend d0 header 4 6;
                  if h1 AND 2 \<noteq> 0 then rtw_secmicappend d1 header 16 6 else rtw_secmicappend d1 header 10 6 })) (\<lambda>d2.
     run_bind (Some (rtw_secmicappend d2 [pri, 0, 0, 0] 0 4)) (\<lambda>d3.
     run_bind (Some (rtw_secmicappend d3 data 0 data_len)) (\<lambda>d4.
     run_bind (rtw_secgetmic d4 mic_code) (\<lambda>(_, r). Some (Some r)))))))"

section \<open>The reference: a block function over words\<close>

fun le_words :: "u8 list \<Rightarrow> u32 list" where
  "le_words (a # b # c # d # r) = le32 a b c d # le_words r"
| "le_words _ = []"

definition mic_padded :: "u8 list \<Rightarrow> u8 list" where
  "mic_padded msg = msg @ [0x5a, 0, 0, 0, 0] @ replicate ((4 - (length msg + 5) mod 4) mod 4) 0"

definition michael :: "u32 \<times> u32 \<Rightarrow> u8 list \<Rightarrow> u32 \<times> u32" where
  "michael k msg = foldl mic_round k (le_words (mic_padded msg))"

section \<open>Correctness\<close>

text \<open>The bytes waiting in the buffer.\<close>

definition mic_at :: "mic_data \<Rightarrow> u32 \<times> u32 \<Rightarrow> u8 list \<Rightarrow> bool" where
  "mic_at d LR rest \<longleftrightarrow> (micL d, micR d) = LR \<and> length rest < 4 \<and> nBytesInM d = word_of_nat (length rest) \<and>
     micM d = (case rest of [] \<Rightarrow> 0 | [a] \<Rightarrow> ucast a | [a, b] \<Rightarrow> ucast a OR push_bit 8 (ucast b)
       | [a, b, c] \<Rightarrow> ucast a OR push_bit 8 (ucast b) OR push_bit 16 (ucast c) | _ \<Rightarrow> 0)"

lemma append_byte_short:
  assumes "mic_at d LR rest" "length rest < 3"
  shows "mic_at (rtw_secmicappendbyte d b) LR (rest @ [b])"
proof -
  consider "rest = []" | x where "rest = [x]" | x y where "rest = [x, y]"
    using assms(2) by (cases rest; cases "tl rest"; cases "tl (tl rest)") auto
  moreover have "\<not> (4 :: u32) \<le> 1"
    by (simp add: word_le_nat_alt)
  ultimately show ?thesis
    using assms(1) by cases (auto simp: mic_at_def rtw_secmicappendbyte_def Let_def or.assoc)
qed

lemma append_byte_full:
  assumes "mic_at d LR [x, y, z]"
  shows "mic_at (rtw_secmicappendbyte d b) (mic_round LR (le32 x y z b)) []"
  using assms by (auto simp: mic_at_def rtw_secmicappendbyte_def Let_def le32_def or.assoc or.commute or.left_commute split: prod.splits)

fun le_rest :: "u8 list \<Rightarrow> u8 list" where
  "le_rest (a # b # c # d # r) = le_rest r"
| "le_rest r = r"

lemma le_short: "length r < 4 \<Longrightarrow> le_words r = [] \<and> le_rest r = r"
  by (cases r; cases "tl r"; cases "tl (tl r)"; cases "tl (tl (tl r))") auto

lemma length_le_rest: "length (le_rest xs) = length xs mod 4"
proof (induction xs rule: le_rest.induct)
  case (1 a b c d r)
  then show ?case
    using mod_add_self1 [of 4 "length r"] by simp
qed simp_all

lemma le_words_append: "le_words (xs @ ys) = le_words xs @ le_words (le_rest xs @ ys)"
  by (induction xs rule: le_rest.induct) simp_all

lemma append_bytes:
  "mic_at d LR rest \<Longrightarrow>
     mic_at (foldl rtw_secmicappendbyte d bs) (foldl mic_round LR (le_words (rest @ bs))) (le_rest (rest @ bs))"
proof (induction bs arbitrary: d LR rest)
  case Nil
  then show ?case
    using le_short [of rest] by (simp add: mic_at_def)
next
  case (Cons b bs)
  show ?case
  proof (cases "length rest < 3")
    case True
    then show ?thesis
      using Cons.IH [OF append_byte_short [OF Cons.prems True]] by simp
  next
    case False
    then obtain x y z where r: "rest = [x, y, z]"
      using Cons.prems by (cases rest; cases "tl rest"; cases "tl (tl rest)"; cases "tl (tl (tl rest))") (auto simp: mic_at_def)
    show ?thesis
      using Cons.IH [OF append_byte_full [OF Cons.prems [unfolded r]]] by (simp add: r)
  qed
qed

lemma append_keeps_key: "K0 (rtw_secmicappendbyte d b) = K0 d \<and> K1 (rtw_secmicappendbyte d b) = K1 d"
  by (simp add: rtw_secmicappendbyte_def Let_def split: prod.split)

lemma appends_keep_key: "K0 (foldl rtw_secmicappendbyte d bs) = K0 d \<and> K1 (foldl rtw_secmicappendbyte d bs) = K1 d"
  by (induction bs arbitrary: d) (simp_all add: append_keeps_key)

lemma mic_pad_zeros:
  "mic_at d LR rest \<Longrightarrow> mic_pad d = Some (foldl rtw_secmicappendbyte d (replicate ((4 - length rest) mod 4) 0))"
proof (induction "(4 - length rest) mod 4" arbitrary: d LR rest)
  case 0
  then have "rest = []"
    by (cases rest) (auto simp: mic_at_def)
  then show ?case
    using 0 by (simp add: mic_at_def mic_pad.simps [of d])
next
  case (Suc k)
  then have len: "0 < length rest" "length rest < 4" "nBytesInM d = word_of_nat (length rest)"
    by (auto simp: mic_at_def)
  then have "unat (nBytesInM d) = length rest"
    by (simp add: unat_of_nat take_bit_nat_eq_self)
  then have nz: "nBytesInM d \<noteq> 0"
    using len(1) by auto
  have k: "4 - length rest = Suc k"
    using Suc.hyps(2) len(1) by simp
  show ?case
  proof (cases "length rest < 3")
    case True
    have "k = (4 - length (rest @ [0])) mod 4"
      using k len(1) by simp
    then show ?thesis
      using Suc.hyps(1) [OF _ append_byte_short [OF Suc.prems True]] nz k Suc.hyps(2) by (simp add: mic_pad.simps [of d])
  next
    case False
    then obtain x y z where r: "rest = [x, y, z]"
      using len by (cases rest; cases "tl rest"; cases "tl (tl rest)"; cases "tl (tl (tl rest))") auto
    show ?thesis
      using Suc.hyps(1) [OF _ append_byte_full [OF Suc.prems [unfolded r]]] nz k r by (simp add: mic_pad.simps [of d])
  qed
qed

lemma secmicget: "rd_bytes m p 4 = Some [a, b, c, e] \<Longrightarrow> secmicgetuint32 m p = Some (le32 a b c e)"
proof -
  assume "rd_bytes m p 4 = Some [a, b, c, e]"
  then obtain pre post where m: "m = pre @ [a, b, c, e] @ post" "length pre = p"
    by (rule rd_bytes_split)
  show ?thesis
    unfolding m(1) m(2) [symmetric]
    by (simp add: secmicgetuint32_def eval_nat_numeral le32_def or.assoc or.commute or.left_commute)
qed

lemma secmicput:
  assumes "length old = 4"
  shows "secmicputuint32 (pre @ old @ post) (length pre) v = Some (pre @ u32_bytes v @ post)"
proof -
  obtain a b c e where old: "old = [a, b, c, e]"
    using assms by (auto simp: length_Suc_conv eval_nat_numeral)
  have w: "wr_bytes (p @ x # q) (length p) [y] = Some (p @ y # q)" for p x q and y :: u8
    by (simp add: wr_bytes_def)
  have ff: "ucast (x AND 0xff) = (ucast x :: u8)" for x :: u32
  proof (rule bit_word_eqI)
    fix n
    assume "n < LENGTH(8)"
    have f: "(0xff :: u32) = mask 8"
      by (simp add: mask_eq_exp_minus_1)
    show "bit (ucast (x AND 0xff) :: u8) n = bit (ucast x :: u8) n"
      unfolding f using \<open>n < LENGTH(8)\<close> by (simp add: bit_simps)
  qed
  show ?thesis
    using w [of pre a "b # c # e # post" "ucast v"] w [of "pre @ [ucast v]" b "c # e # post" "ucast (drop_bit 8 v)"]
      w [of "pre @ [ucast v, ucast (drop_bit 8 v)]" c "e # post" "ucast (drop_bit 16 v)"]
      w [of "pre @ [ucast v, ucast (drop_bit 8 v), ucast (drop_bit 16 v)]" e "post" "ucast (drop_bit 24 v)"]
    by (simp add: secmicputuint32_def eval_nat_numeral old ff u32_bytes_def)
qed

lemma secmicappend_at:
  "rtw_secmicappend d (pre @ bs @ post) (length pre) (length bs) = Some (foldl rtw_secmicappendbyte d bs)"
proof (induction bs arbitrary: d pre)
  case (Cons b bs)
  then show ?case
    using Cons.IH [of "rtw_secmicappendbyte d b" "pre @ [b]"] by simp
qed simp

lemma secmicappend_bytes:
  assumes "rd_bytes m p n = Some bs"
  shows "rtw_secmicappend d m p n = Some (foldl rtw_secmicappendbyte d bs)"
proof -
  obtain pre post where "m = pre @ bs @ post" "length pre = p" "length bs = n"
    using assms by (rule rd_bytes_split)
  then show ?thesis
    using secmicappend_at [of d pre bs post] by simp
qed

text \<open>What \<open>rtw_secgetmic\<close> stores for a message appended to a fresh context.\<close>

definition mic_bytes :: "u32 \<times> u32 \<Rightarrow> mem" where
  "mic_bytes LR = u32_bytes (fst LR) @ u32_bytes (snd LR)"

lemma secgetmic_michael:
  assumes "mic_at d (K0 d, K1 d) []" "8 \<le> length dst"
  shows "\<exists>d'. rtw_secgetmic (foldl rtw_secmicappendbyte d msg) dst =
    Some (Some (d', mic_bytes (michael (K0 d, K1 d) msg) @ drop 8 dst)) \<and> mic_at d' (K0 d, K1 d) []"
proof -
  define d5 where "d5 = foldl rtw_secmicappendbyte d (msg @ [0x5a, 0, 0, 0, 0])"
  define n where "n = (4 - length (le_rest (msg @ [0x5a, 0, 0, 0, 0]))) mod 4"
  define d' where "d' = foldl rtw_secmicappendbyte d5 (replicate n 0)"
  have at5: "mic_at d5 (foldl mic_round (K0 d, K1 d) (le_words (msg @ [0x5a, 0, 0, 0, 0]))) (le_rest (msg @ [0x5a, 0, 0, 0, 0]))"
    using append_bytes [OF assms(1), of "msg @ [0x5a, 0, 0, 0, 0]"] by (simp add: d5_def)
  have pad: "mic_pad d5 = Some d'"
    using mic_pad_zeros [OF at5] by (simp add: d'_def n_def)
  have padded: "msg @ [0x5a, 0, 0, 0, 0] @ replicate n 0 = mic_padded msg"
    by (simp add: mic_padded_def n_def length_le_rest add.commute)
  have "(micL d', micR d') = michael (K0 d, K1 d) msg"
    using append_bytes [OF assms(1), of "msg @ [0x5a, 0, 0, 0, 0] @ replicate n 0"]
    by (simp add: mic_at_def michael_def padded [symmetric] d'_def d5_def)
  then have LR: "micL d' = fst (michael (K0 d, K1 d) msg)" "micR d' = snd (michael (K0 d, K1 d) msg)"
    by (metis fst_conv, metis snd_conv)
  have keys: "K0 d' = K0 d" "K1 d' = K1 d"
    unfolding d'_def d5_def by (simp_all only: appends_keep_key)
  define o1 o2 where "o1 = take 4 dst" and "o2 = take 4 (drop 4 dst)"
  have "dst = take 4 dst @ take 4 (drop 4 dst) @ drop 4 (drop 4 dst)"
    by (metis append_take_drop_id)
  then have dst: "dst = o1 @ o2 @ drop 8 dst" "length o1 = 4" "length o2 = 4"
    using assms(2) by (simp_all add: o1_def o2_def)
  have "secmicputuint32 dst 0 x = Some (u32_bytes x @ o2 @ drop 8 dst)" for x
    using secmicput [of o1 "[]" "o2 @ drop 8 dst" x] dst by simp
  moreover have "secmicputuint32 (u32_bytes x @ o2 @ drop 8 dst) 4 y = Some (u32_bytes x @ u32_bytes y @ drop 8 dst)" for x y
    using secmicput [of o2 "u32_bytes x" "drop 8 dst" y] dst(3) by simp
  moreover have "foldl rtw_secmicappendbyte (foldl rtw_secmicappendbyte d msg) [0x5a, 0, 0, 0, 0] = d5"
    by (simp add: d5_def)
  ultimately show ?thesis
    unfolding rtw_secgetmic_def Let_def using pad LR keys by (simp add: mic_bytes_def secmicclear_def mic_at_def)
qed

text \<open>The addresses the pseudo header takes from the MAC header.\<close>

definition mic_da :: "mem \<Rightarrow> mem" where
  "mic_da header = take 6 (drop (if header ! 1 AND 1 \<noteq> 0 then 16 else 4) header)"

definition mic_sa :: "mem \<Rightarrow> mem" where
  "mic_sa header = take 6 (drop
     (if header ! 1 AND 2 \<noteq> 0 then (if header ! 1 AND 1 \<noteq> 0 then 24 else 16) else 10) header)"

definition mic_key :: "mem \<Rightarrow> u32 \<times> u32" where
  "mic_key key = (le32 (key ! 0) (key ! 1) (key ! 2) (key ! 3), le32 (key ! 4) (key ! 5) (key ! 6) (key ! 7))"

lemma secmicsetkey_at:
  assumes "8 \<le> length key"
  shows "\<exists>d0. rtw_secmicsetkey d key = Some d0 \<and> (K0 d0, K1 d0) = mic_key key \<and> mic_at d0 (K0 d0, K1 d0) []"
proof -
  have t: "take 4 (drop p key) = [key ! p, key ! (p + 1), key ! (p + 2), key ! (p + 3)]" if "p + 4 \<le> length key" for p
    by (rule nth_equalityI) (use that in \<open>auto simp: nth_Cons numeral_eq_Suc less_Suc_eq split: nat.splits\<close>)
  have "secmicgetuint32 key 0 = Some (le32 (key ! 0) (key ! 1) (key ! 2) (key ! 3))"
    "secmicgetuint32 key 4 = Some (le32 (key ! 4) (key ! 5) (key ! 6) (key ! 7))"
    using t [of 0] t [of 4] assms secmicget [of key 0 "key ! 0" "key ! 1" "key ! 2" "key ! 3"]
      secmicget [of key 4 "key ! 4" "key ! 5" "key ! 6" "key ! 7"] by (simp_all add: rd_bytes_def numeral_2_eq_2)
  then show ?thesis
    by (simp add: rtw_secmicsetkey_def mic_key_def secmicclear_def mic_at_def)
qed

lemma seccalctkipmic_michael:
  assumes "8 \<le> length key" "30 \<le> length header" "data_len \<le> length data" "8 \<le> length mic_code"
  shows "rtw_seccalctkipmic key header data data_len mic_code pri =
    Some (Some (mic_bytes (michael (mic_key key) (mic_da header @ mic_sa header @ [pri, 0, 0, 0] @ take data_len data))
      @ drop 8 mic_code))"
proof -
  obtain d0 where d0: "rtw_secmicsetkey \<lparr>K0 = 0, K1 = 0, micL = 0, micR = 0, micM = 0, nBytesInM = 0\<rparr> key = Some d0"
    "(K0 d0, K1 d0) = mic_key key" "mic_at d0 (K0 d0, K1 d0) []"
    using secmicsetkey_at [OF assms(1)] by blast
  have app: "rtw_secmicappend d header p 6 = Some (foldl rtw_secmicappendbyte d (take 6 (drop p header)))" if "p \<le> 24" for d p
    using that assms(2) by (intro secmicappend_bytes) (simp add: rd_bytes_def)
  have pri: "rtw_secmicappend d [pri, 0, 0, 0] 0 4 = Some (foldl rtw_secmicappendbyte d [pri, 0, 0, 0])" for d
    by (rule secmicappend_bytes) (simp add: rd_bytes_def)
  have dat: "rtw_secmicappend d data 0 data_len = Some (foldl rtw_secmicappendbyte d (take data_len data))" for d
    using assms(3) by (intro secmicappend_bytes) (simp add: rd_bytes_def)
  have h1: "rd8 header 1 = Some (header ! 1)"
    using assms(2) by (intro rd8_in) simp
  define msg where "msg = mic_da header @ mic_sa header @ [pri, 0, 0, 0] @ take data_len data"
  obtain d' where mic: "rtw_secgetmic (foldl rtw_secmicappendbyte d0 msg) mic_code =
      Some (Some (d', mic_bytes (michael (mic_key key) msg) @ drop 8 mic_code))"
    using secgetmic_michael [OF d0(3) assms(4), of msg] d0(2) by auto
  show ?thesis
    unfolding rtw_seccalctkipmic_def d0(1) h1 run_bind_simps msg_def [symmetric]
    using mic by (cases "header ! 1 AND 1 \<noteq> 0"; cases "header ! 1 AND 2 \<noteq> 0")
      (simp_all add: app pri dat mic_da_def mic_sa_def msg_def)
qed



end
