(* ===== verification/Sec_Tkip.thy ===== *)
theory Sec_Tkip
  imports Sec_Wep
begin

text \<open>
  TKIP of \<^verbatim>\<open>core/rtw_security.c\<close>: the key mixing \<open>phase1\<close> and \<open>phase2\<close>,
  \<open>rtw_tkip_encrypt\<close> and \<open>rtw_tkip_decrypt\<close>. The theorems show the round trip, that a
  frame whose checksum does not match is refused, and what the comments of the source claim: the
  key of a packet determines transmitter address and packet number.
\<close>

section \<open>Key mixing\<close>

text \<open>The two halves of \<open>Sbox1\<close>.\<close>

definition Sbox1_0 :: "u16 list" where
  "Sbox1_0 = [0xC6A5, 0xF884, 0xEE99, 0xF68D, 0xFF0D, 0xD6BD, 0xDEB1, 0x9154,
     0x6050, 0x0203, 0xCEA9, 0x567D, 0xE719, 0xB562, 0x4DE6, 0xEC9A,
     0x8F45, 0x1F9D, 0x8940, 0xFA87, 0xEF15, 0xB2EB, 0x8EC9, 0xFB0B,
     0x41EC, 0xB367, 0x5FFD, 0x45EA, 0x23BF, 0x53F7, 0xE496, 0x9B5B,
     0x75C2, 0xE11C, 0x3DAE, 0x4C6A, 0x6C5A, 0x7E41, 0xF502, 0x834F,
     0x685C, 0x51F4, 0xD134, 0xF908, 0xE293, 0xAB73, 0x6253, 0x2A3F,
     0x080C, 0x9552, 0x4665, 0x9D5E, 0x3028, 0x37A1, 0x0A0F, 0x2FB5,
     0x0E09, 0x2436, 0x1B9B, 0xDF3D, 0xCD26, 0x4E69, 0x7FCD, 0xEA9F,
     0x121B, 0x1D9E, 0x5874, 0x342E, 0x362D, 0xDCB2, 0xB4EE, 0x5BFB,
     0xA4F6, 0x764D, 0xB761, 0x7DCE, 0x527B, 0xDD3E, 0x5E71, 0x1397,
     0xA6F5, 0xB968, 0x0000, 0xC12C, 0x4060, 0xE31F, 0x79C8, 0xB6ED,
     0xD4BE, 0x8D46, 0x67D9, 0x724B, 0x94DE, 0x98D4, 0xB0E8, 0x854A,
     0xBB6B, 0xC52A, 0x4FE5, 0xED16, 0x86C5, 0x9AD7, 0x6655, 0x1194,
     0x8ACF, 0xE910, 0x0406, 0xFE81, 0xA0F0, 0x7844, 0x25BA, 0x4BE3,
     0xA2F3, 0x5DFE, 0x80C0, 0x058A, 0x3FAD, 0x21BC, 0x7048, 0xF104,
     0x63DF, 0x77C1, 0xAF75, 0x4263, 0x2030, 0xE51A, 0xFD0E, 0xBF6D,
     0x814C, 0x1814, 0x2635, 0xC32F, 0xBEE1, 0x35A2, 0x88CC, 0x2E39,
     0x9357, 0x55F2, 0xFC82, 0x7A47, 0xC8AC, 0xBAE7, 0x322B, 0xE695,
     0xC0A0, 0x1998, 0x9ED1, 0xA37F, 0x4466, 0x547E, 0x3BAB, 0x0B83,
     0x8CCA, 0xC729, 0x6BD3, 0x283C, 0xA779, 0xBCE2, 0x161D, 0xAD76,
     0xDB3B, 0x6456, 0x744E, 0x141E, 0x92DB, 0x0C0A, 0x486C, 0xB8E4,
     0x9F5D, 0xBD6E, 0x43EF, 0xC4A6, 0x39A8, 0x31A4, 0xD337, 0xF28B,
     0xD532, 0x8B43, 0x6E59, 0xDAB7, 0x018C, 0xB164, 0x9CD2, 0x49E0,
     0xD8B4, 0xACFA, 0xF307, 0xCF25, 0xCAAF, 0xF48E, 0x47E9, 0x1018,
     0x6FD5, 0xF088, 0x4A6F, 0x5C72, 0x3824, 0x57F1, 0x73C7, 0x9751,
     0xCB23, 0xA17C, 0xE89C, 0x3E21, 0x96DD, 0x61DC, 0x0D86, 0x0F85,
     0xE090, 0x7C42, 0x71C4, 0xCCAA, 0x90D8, 0x0605, 0xF701, 0x1C12,
     0xC2A3, 0x6A5F, 0xAEF9, 0x69D0, 0x1791, 0x9958, 0x3A27, 0x27B9,
     0xD938, 0xEB13, 0x2BB3, 0x2233, 0xD2BB, 0xA970, 0x0789, 0x33A7,
     0x2DB6, 0x3C22, 0x1592, 0xC920, 0x8749, 0xAAFF, 0x5078, 0xA57A,
     0x038F, 0x59F8, 0x0980, 0x1A17, 0x65DA, 0xD731, 0x84C6, 0xD0B8,
     0x82C3, 0x29B0, 0x5A77, 0x1E11, 0x7BCB, 0xA8FC, 0x6DD6, 0x2C3A]"

definition Sbox1_1 :: "u16 list" where
  "Sbox1_1 = [0xA5C6, 0x84F8, 0x99EE, 0x8DF6, 0x0DFF, 0xBDD6, 0xB1DE, 0x5491,
     0x5060, 0x0302, 0xA9CE, 0x7D56, 0x19E7, 0x62B5, 0xE64D, 0x9AEC,
     0x458F, 0x9D1F, 0x4089, 0x87FA, 0x15EF, 0xEBB2, 0xC98E, 0x0BFB,
     0xEC41, 0x67B3, 0xFD5F, 0xEA45, 0xBF23, 0xF753, 0x96E4, 0x5B9B,
     0xC275, 0x1CE1, 0xAE3D, 0x6A4C, 0x5A6C, 0x417E, 0x02F5, 0x4F83,
     0x5C68, 0xF451, 0x34D1, 0x08F9, 0x93E2, 0x73AB, 0x5362, 0x3F2A,
     0x0C08, 0x5295, 0x6546, 0x5E9D, 0x2830, 0xA137, 0x0F0A, 0xB52F,
     0x090E, 0x3624, 0x9B1B, 0x3DDF, 0x26CD, 0x694E, 0xCD7F, 0x9FEA,
     0x1B12, 0x9E1D, 0x7458, 0x2E34, 0x2D36, 0xB2DC, 0xEEB4, 0xFB5B,
     0xF6A4, 0x4D76, 0x61B7, 0xCE7D, 0x7B52, 0x3EDD, 0x715E, 0x9713,
     0xF5A6, 0x68B9, 0x0000, 0x2CC1, 0x6040, 0x1FE3, 0xC879, 0xEDB6,
     0xBED4, 0x468D, 0xD967, 0x4B72, 0xDE94, 0xD498, 0xE8B0, 0x4A85,
     0x6BBB, 0x2AC5, 0xE54F, 0x16ED, 0xC586, 0xD79A, 0x5566, 0x9411,
     0xCF8A, 0x10E9, 0x0604, 0x81FE, 0xF0A0, 0x4478, 0xBA25, 0xE34B,
     0xF3A2, 0xFE5D, 0xC080, 0x8A05, 0xAD3F, 0xBC21, 0x4870, 0x04F1,
     0xDF63, 0xC177, 0x75AF, 0x6342, 0x3020, 0x1AE5, 0x0EFD, 0x6DBF,
     0x4C81, 0x1418, 0x3526, 0x2FC3, 0xE1BE, 0xA235, 0xCC88, 0x392E,
     0x5793, 0xF255, 0x82FC, 0x477A, 0xACC8, 0xE7BA, 0x2B32, 0x95E6,
     0xA0C0, 0x9819, 0xD19E, 0x7FA3, 0x6644, 0x7E54, 0xAB3B, 0x830B,
     0xCA8C, 0x29C7, 0xD36B, 0x3C28, 0x79A7, 0xE2BC, 0x1D16, 0x76AD,
     0x3BDB, 0x5664, 0x4E74, 0x1E14, 0xDB92, 0x0A0C, 0x6C48, 0xE4B8,
     0x5D9F, 0x6EBD, 0xEF43, 0xA6C4, 0xA839, 0xA431, 0x37D3, 0x8BF2,
     0x32D5, 0x438B, 0x596E, 0xB7DA, 0x8C01, 0x64B1, 0xD29C, 0xE049,
     0xB4D8, 0xFAAC, 0x07F3, 0x25CF, 0xAFCA, 0x8EF4, 0xE947, 0x1810,
     0xD56F, 0x88F0, 0x6F4A, 0x725C, 0x2438, 0xF157, 0xC773, 0x5197,
     0x23CB, 0x7CA1, 0x9CE8, 0x213E, 0xDD96, 0xDC61, 0x860D, 0x850F,
     0x90E0, 0x427C, 0xC471, 0xAACC, 0xD890, 0x0506, 0x01F7, 0x121C,
     0xA3C2, 0x5F6A, 0xF9AE, 0xD069, 0x9117, 0x5899, 0x273A, 0xB927,
     0x38D9, 0x13EB, 0xB32B, 0x3322, 0xBBD2, 0x70A9, 0x8907, 0xA733,
     0xB62D, 0x223C, 0x9215, 0x20C9, 0x4987, 0xFFAA, 0x7850, 0x7AA5,
     0x8F03, 0xF859, 0x8009, 0x171A, 0xDA65, 0x31D7, 0xC684, 0xB8D0,
     0xC382, 0xB029, 0x775A, 0x111E, 0xCB7B, 0xFCA8, 0xD66D, 0x3A2C]"

definition RotR1 :: "u16 \<Rightarrow> u16" where
  "RotR1 v = (drop_bit 1 v AND 0x7FFF) XOR push_bit 15 (v AND 1)"

definition Lo8 :: "u16 \<Rightarrow> u8" where "Lo8 v = ucast (v AND 0x00FF)"
definition Hi8 :: "u16 \<Rightarrow> u8" where "Hi8 v = ucast (drop_bit 8 v AND 0x00FF)"
definition Mk16 :: "u8 \<Rightarrow> u8 \<Rightarrow> u16" where "Mk16 hi lo = ucast lo XOR push_bit 8 (ucast hi)"
definition TK16 :: "mem \<Rightarrow> nat \<Rightarrow> u16" where "TK16 tk n = Mk16 (tk ! (2 * n + 1)) (tk ! (2 * n))"

definition tkip_S :: "u16 \<Rightarrow> u16" where
  "tkip_S v = Sbox1_0 ! unat (Lo8 v) XOR Sbox1_1 ! unat (Hi8 v)"

text \<open>The statement \<open>p[i] += f(p[j])\<close>; every statement of the mixing has this form.\<close>

definition add_at :: "nat \<Rightarrow> nat \<Rightarrow> (u16 \<Rightarrow> u16) \<Rightarrow> u16 list \<Rightarrow> u16 list" where
  "add_at i j f p = p[i := p ! i + f (p ! j)]"

definition phase1_round :: "mem \<Rightarrow> u16 list \<Rightarrow> nat \<Rightarrow> u16 list" where
  "phase1_round tk p i =
     (let b = (if odd i then 1 else 0);
          p = add_at 0 4 (\<lambda>v. tkip_S (v XOR TK16 tk (b + 0))) p;
          p = add_at 1 0 (\<lambda>v. tkip_S (v XOR TK16 tk (b + 2))) p;
          p = add_at 2 1 (\<lambda>v. tkip_S (v XOR TK16 tk (b + 4))) p;
          p = add_at 3 2 (\<lambda>v. tkip_S (v XOR TK16 tk (b + 6))) p;
          p = add_at 4 3 (\<lambda>v. tkip_S (v XOR TK16 tk (b + 0))) p
      in p[4 := p ! 4 + word_of_nat i])"

definition phase1 :: "mem \<Rightarrow> mem \<Rightarrow> u32 \<Rightarrow> u16 list option" where
  "phase1 tk ta iv32 =
     (if length tk < 16 \<or> length ta < 6 then None
      else Some (foldl (phase1_round tk)
        [ucast (iv32 AND 0xFFFF), ucast (drop_bit 16 iv32 AND 0xFFFF),
         Mk16 (ta ! 1) (ta ! 0), Mk16 (ta ! 3) (ta ! 2), Mk16 (ta ! 5) (ta ! 4)] [0..<8]))"

definition phase2_mix :: "mem \<Rightarrow> u16 list \<Rightarrow> u16 list" where
  "phase2_mix tk p =
     (let p = add_at 0 5 (\<lambda>v. tkip_S (v XOR TK16 tk 0)) p;
          p = add_at 1 0 (\<lambda>v. tkip_S (v XOR TK16 tk 1)) p;
          p = add_at 2 1 (\<lambda>v. tkip_S (v XOR TK16 tk 2)) p;
          p = add_at 3 2 (\<lambda>v. tkip_S (v XOR TK16 tk 3)) p;
          p = add_at 4 3 (\<lambda>v. tkip_S (v XOR TK16 tk 4)) p;
          p = add_at 5 4 (\<lambda>v. tkip_S (v XOR TK16 tk 5)) p;
          p = add_at 0 5 (\<lambda>v. RotR1 (v XOR TK16 tk 6)) p;
          p = add_at 1 0 (\<lambda>v. RotR1 (v XOR TK16 tk 7)) p;
          p = add_at 2 1 RotR1 p;
          p = add_at 3 2 RotR1 p;
          p = add_at 4 3 RotR1 p;
          p = add_at 5 4 RotR1 p
      in p)"

definition phase2 :: "mem \<Rightarrow> u16 list \<Rightarrow> u16 \<Rightarrow> mem option" where
  "phase2 tk p1k iv16 =
     (if length tk < 16 \<or> length p1k < 5 then None
      else let PPK = phase2_mix tk (take 5 p1k @ [p1k ! 4 + iv16]) in
        Some ([Hi8 iv16, (Hi8 iv16 OR 0x20) AND 0x7F, Lo8 iv16, Lo8 (drop_bit 1 (PPK ! 5 XOR TK16 tk 0))]
          @ concat (map (\<lambda>v. [Lo8 v, Hi8 v]) PPK)))"

section \<open>Encryption and decryption\<close>

text \<open>The packet number in the IV: \<open>GET_TKIP_PN\<close> and the split into \<open>pnl\<close> and \<open>pnh\<close>.\<close>

definition tkip_pn :: "mem \<Rightarrow> nat \<Rightarrow> (u16 \<times> u32) option" where
  "tkip_pn m iv = do {
     t0 \<leftarrow> rd8 m (iv + 2); t1 \<leftarrow> rd8 m iv; t2 \<leftarrow> rd8 m (iv + 4); t3 \<leftarrow> rd8 m (iv + 5);
     t4 \<leftarrow> rd8 m (iv + 6); t5 \<leftarrow> rd8 m (iv + 7);
     Some (le16 t0 t1, le32 t2 t3 t4 t5) }"

definition tkip_key :: "mem \<Rightarrow> mem \<Rightarrow> mem \<Rightarrow> nat \<Rightarrow> (mem \<times> nat) option" where
  "tkip_key prwskey ta m iv = do {
     (pnl, pnh) \<leftarrow> tkip_pn m iv;
     ttkey \<leftarrow> phase1 prwskey ta pnh;
     rc4key \<leftarrow> phase2 prwskey ttkey pnl;
     Some (rc4key, 16) }"

text \<open>The flag is \<open>_SUCCESS\<close>.\<close>

definition rtw_tkip_encrypt :: "security_priv \<Rightarrow> u32 \<Rightarrow> crc_static \<Rightarrow> xmit_frame \<Rightarrow> (bool \<times> xmit_frame \<times> crc_static) option" where
  "rtw_tkip_encrypt sec frag_len s xf =
     (case buf_addr xf of None \<Rightarrow> Some (False, xf, s)
      | Some base \<Rightarrow>
         if encrypt (attrib xf) = TKIP then do {
           mc \<leftarrow> IS_MCAST (tx_ra (attrib xf));
           prwskey \<leftarrow> (if mc then arr (dot118021XGrpKey sec) (unat (dot118021XGrpKeyid sec)) else Some (UncstKey (attrib xf)));
           (m, s') \<leftarrow> arc4_frags (unat (nr_frags (attrib xf))) (tkip_key prwskey (tx_ta (attrib xf)))
             (attrib xf) frag_len base 0 s (buf xf) (unat (hw_hdr_offset xf));
           Some (True, xf\<lparr>buf := m\<rparr>, s') }
         else Some (True, xf, s))"

text \<open>\<open>stainfo\<close> is what \<open>rtw_get_stainfo\<close> returned for the transmitter address: the unicast key
  of the station, or \<open>None\<close>. The counters of missing group keys only feed a debug message.\<close>

definition rtw_tkip_decrypt ::
  "security_priv \<Rightarrow> mem option \<Rightarrow> crc_static \<Rightarrow> recv_frame \<Rightarrow> (bool \<times> recv_frame \<times> crc_static) option" where
  "rtw_tkip_decrypt sec stainfo s rf = (let a = rx_attrib rf in
     if rx_encrypt a = TKIP then
       (case stainfo of None \<Rightarrow> Some (False, rf, s)
        | Some uncst \<Rightarrow> do {
            mc \<leftarrow> IS_MCAST (rx_ra a);
            if mc \<and> binstallGrpkey sec = 0 then Some (False, rf, s)
            else do {
              prwskey \<leftarrow> (if mc then arr (dot118021XGrpKey sec) (unat (rx_key_index a)) else Some uncst);
              (key, keylen) \<leftarrow> tkip_key prwskey (rx_ta a) (rx_buf rf) (unat (rx_hdrlen a));
              (bad, m, s') \<leftarrow> arc4_open s (rx_buf rf) (unat (rx_iv_len a) + unat (rx_hdrlen a))
                (sint (rx_len rf - ucast (rx_hdrlen a) - ucast (rx_iv_len a))) key keylen;
              Some (\<not> bad, rf\<lparr>rx_buf := m\<rparr>, s') } })
     else Some (True, rf, s))"

section \<open>The key of a packet is unique\<close>

lemma add_at_length [simp]: "length (add_at i j f p) = length p"
  by (simp add: add_at_def)

lemma add_at_inj:
  assumes "add_at i j f p = add_at i j f q" "length p = length q" "i \<noteq> j" "i < length p"
  shows "p = q"
proof (rule nth_equalityI)
  fix k
  assume "k < length p"
  have "p[i := p ! i + f (p ! j)] ! l = q[i := q ! i + f (q ! j)] ! l" for l
    using assms(1) by (simp add: add_at_def)
  note at = this
  have "p ! j = q ! j"
    using at [of j] assms(3) by simp
  then show "p ! k = q ! k"
    using at [of k] at [of i] assms(2,4) by (cases "k = i") auto
qed (use assms in simp)

lemma const_add_inj:
  assumes "p[i := p ! i + c] = q[i := q ! i + c]" "length p = length q" "i < length p"
  shows "p = (q :: u16 list)"
proof (rule nth_equalityI)
  fix k
  assume "k < length p"
  have "p[i := p ! i + c] ! l = q[i := q ! i + c] ! l" for l
    using assms(1) by simp
  note at = this
  show "p ! k = q ! k"
    using at [of k] assms(2,3) by (cases "k = i") auto
qed (use assms in simp)

lemma phase1_round_length [simp]: "length (phase1_round tk p i) = length p"
  by (simp add: phase1_round_def Let_def)

lemma phase1_round_inj:
  assumes "phase1_round tk p i = phase1_round tk q i" "length p = 5" "length q = 5"
  shows "p = q"
  by (rule add_at_inj [OF add_at_inj [OF add_at_inj [OF add_at_inj [OF add_at_inj [OF
        const_add_inj [OF assms(1) [unfolded phase1_round_def Let_def]]]]]]]) (simp_all add: assms)

lemma phase1_rounds_inj:
  "foldl (phase1_round tk) p is = foldl (phase1_round tk) q is \<Longrightarrow> length p = 5 \<Longrightarrow> length q = 5 \<Longrightarrow> p = q"
proof (induction "is" arbitrary: p q)
  case (Cons i "is")
  then have "phase1_round tk p i = phase1_round tk q i"
    by simp
  then show ?case
    using phase1_round_inj Cons.prems by blast
qed simp

lemma phase1_rounds_length [simp]: "length (foldl (phase1_round tk) p is) = length p"
  by (induction "is" arbitrary: p) simp_all

lemma phase2_mix_length [simp]: "length (phase2_mix tk p) = length p"
  by (simp add: phase2_mix_def Let_def)

lemma phase2_mix_inj:
  assumes "phase2_mix tk p = phase2_mix tk q" "length p = 6" "length q = 6"
  shows "p = q"
  by (rule add_at_inj [OF add_at_inj [OF add_at_inj [OF add_at_inj [OF add_at_inj [OF add_at_inj [OF
        add_at_inj [OF add_at_inj [OF add_at_inj [OF add_at_inj [OF add_at_inj [OF add_at_inj [OF
        assms(1) [unfolded phase2_mix_def Let_def]]]]]]]]]]]]]) (simp_all add: assms)

lemma masks16: "(0x00FF :: u16) = mask 8" "(0xFFFF :: u32) = mask 16"
  by (simp_all add: mask_eq_exp_minus_1)

lemma Lo8_Hi8_inj: "Lo8 v = Lo8 w \<Longrightarrow> Hi8 v = Hi8 w \<Longrightarrow> v = w"
proof (rule bit_word_eqI)
  fix n
  assume eq: "Lo8 v = Lo8 w" "Hi8 v = Hi8 w" and n: "n < LENGTH(16)"
  have "bit (Lo8 x) k = bit x k" "bit (Hi8 x) k = bit x (k + 8)" if "k < 8" for x k
    using that unfolding Lo8_def Hi8_def masks16 by (simp_all add: bit_simps add.commute)
  from this(1) [of n v] this(1) [of n w] this(2) [of "n - 8" v] this(2) [of "n - 8" w] eq n
  show "bit v n = bit w n"
    by (cases "n < 8") auto
qed

lemma Mk16_inj: "Mk16 a b = Mk16 c d \<Longrightarrow> a = c \<and> b = d"
proof -
  assume eq: "Mk16 a b = Mk16 c d"
  have "bit (Mk16 x y) k = bit y k" "bit (Mk16 x y) (k + 8) = bit x k" if "k < 8" for x y :: u8 and k
    using that unfolding Mk16_def by (auto simp: bit_simps dest: bit_imp_le_length)
  then have "bit b k = bit d k" "bit a k = bit c k" if "k < 8" for k
    using eq that by metis+
  then show ?thesis
    by (auto intro!: bit_word_eqI)
qed

lemma Lo16_Hi16_inj:
  fixes v w :: u32
  assumes "(ucast (v AND 0xFFFF) :: u16) = ucast (w AND 0xFFFF)"
    and "(ucast (drop_bit 16 v AND 0xFFFF) :: u16) = ucast (drop_bit 16 w AND 0xFFFF)"
  shows "v = w"
proof (rule bit_word_eqI)
  fix n
  assume n: "n < LENGTH(32)"
  have "bit (ucast (x AND 0xFFFF) :: u16) k = bit x k" "bit (ucast (drop_bit 16 x AND 0xFFFF) :: u16) k = bit x (k + 16)"
    if "k < 16" for x :: u32 and k
    using that unfolding masks16 by (simp_all add: bit_simps add.commute)
  from this(1) [of n v] this(1) [of n w] this(2) [of "n - 16" v] this(2) [of "n - 16" w] assms n
  show "bit v n = bit w n"
    by (cases "n < 16") auto
qed

lemma bytes_of_words_inj:
  "concat (map (\<lambda>v. [Lo8 v, Hi8 v]) p) = concat (map (\<lambda>v. [Lo8 v, Hi8 v]) q) \<Longrightarrow> p = q"
proof (induction p arbitrary: q)
  case (Cons v p)
  then show ?case
    by (cases q) (auto intro: Lo8_Hi8_inj)
next
  case Nil
  then show ?case
    by (cases q) simp_all
qed

text \<open>C36. For a given temporal key the ARC4 key of a packet is unique: two packets with the same
  key have the same transmitter address and the same packet number.\<close>

theorem tkip_rc4key_unique:
  assumes "phase1 tk ta iv32 = Some p" "phase2 tk p iv16 = Some key"
    and "phase1 tk ta' iv32' = Some p'" "phase2 tk p' iv16' = Some key"
    and "length ta = 6" "length ta' = 6"
  shows "ta = ta' \<and> iv32 = iv32' \<and> iv16 = iv16'"
proof -
  define st where "st a v = [ucast (v AND 0xFFFF), ucast (drop_bit 16 v AND 0xFFFF),
     Mk16 (a ! 1) (a ! 0), Mk16 (a ! 3) (a ! 2), Mk16 (a ! 5) (a ! 4)]" for a and v :: u32
  have p: "p = foldl (phase1_round tk) (st ta iv32) [0..<8]" "p' = foldl (phase1_round tk) (st ta' iv32') [0..<8]"
    using assms(1,3) by (auto simp: phase1_def st_def split: if_splits)
  then have len: "length p = 5" "length p' = 5"
    by (simp_all add: st_def)
  have "phase2_mix tk (take 5 p @ [p ! 4 + iv16]) = phase2_mix tk (take 5 p' @ [p' ! 4 + iv16'])"
    using assms(2,4) by (auto simp: phase2_def Let_def split: if_splits intro!: bytes_of_words_inj)
  then have "take 5 p @ [p ! 4 + iv16] = take 5 p' @ [p' ! 4 + iv16']"
    by (rule phase2_mix_inj) (simp_all add: len)
  then have pp: "p = p'" "iv16 = iv16'"
    using len by auto
  have "st ta iv32 = st ta' iv32'"
    using phase1_rounds_inj [of tk "st ta iv32" "[0..<8]" "st ta' iv32'"] p pp(1) by (simp add: st_def)
  then have "iv32 = iv32'" and m: "Mk16 (ta ! 1) (ta ! 0) = Mk16 (ta' ! 1) (ta' ! 0)" "Mk16 (ta ! 3) (ta ! 2) = Mk16 (ta' ! 3) (ta' ! 2)"
    "Mk16 (ta ! 5) (ta ! 4) = Mk16 (ta' ! 5) (ta' ! 4)"
    by (auto simp: st_def intro: Lo16_Hi16_inj)
  moreover have "ta = ta'"
  proof (rule nth_equalityI)
    fix i
    assume "i < length ta"
    then consider "i = 0" | "i = 1" | "i = 2" | "i = 3" | "i = 4" | "i = 5"
      using assms(5) by linarith
    then show "ta ! i = ta' ! i"
      using m [THEN Mk16_inj] by cases simp_all
  qed (use assms(5,6) in simp)
  ultimately show ?thesis
    using pp(2) by simp
qed

theorem tkip_rc4key_unique_witness:
  "\<exists>p key. phase1 (replicate 16 1) (replicate 6 2) 3 = Some p \<and> phase2 (replicate 16 1) p 4 = Some key \<and>
     (\<forall>v. phase2 (replicate 16 1) p v = Some key \<longrightarrow> v = 4)"
proof -
  obtain p where p: "phase1 (replicate 16 1) (replicate 6 2) 3 = Some p" "length p = 5"
    by (simp add: phase1_def)
  then obtain key where k: "phase2 (replicate 16 1) p 4 = Some key"
    by (simp add: phase2_def Let_def)
  have "v = 4" if "phase2 (replicate 16 1) p v = Some key" for v
    using tkip_rc4key_unique [OF p(1) that p(1) k] by simp
  then show ?thesis
    using p k by blast
qed

section \<open>Round trip\<close>

definition tkip_kd :: "mem \<Rightarrow> mem \<Rightarrow> mem \<Rightarrow> mem \<times> nat" where
  "tkip_kd tk ta iv =
     (case do { p \<leftarrow> phase1 tk ta (le32 (iv ! 4) (iv ! 5) (iv ! 6) (iv ! 7)); phase2 tk p (le16 (iv ! 2) (iv ! 0)) }
      of Some k \<Rightarrow> (k, 16) | None \<Rightarrow> ([], 0))"

definition tkip_ok :: "mem \<Rightarrow> mem \<Rightarrow> mem \<Rightarrow> bool" where
  "tkip_ok tk ta iv \<longleftrightarrow> 16 \<le> length tk \<and> 6 \<le> length ta \<and> 8 \<le> length iv"

lemma phase12_length:
  assumes "16 \<le> length tk" "6 \<le> length ta"
  shows "\<exists>p k. phase1 tk ta v = Some p \<and> phase2 tk p w = Some k \<and> length k = 16"
proof -
  obtain p where p: "phase1 tk ta v = Some p" "length p = 5"
    using assms by (simp add: phase1_def)
  have "length (concat (map (\<lambda>v. [Lo8 v, Hi8 v]) xs)) = 2 * length xs" for xs
    by (induction xs) simp_all
  then show ?thesis
    using p assms by (simp add: phase2_def Let_def)
qed

interpretation tkip: arc4_scheme "tkip_key tk ta" "tkip_kd tk ta" "tkip_ok tk ta" for tk ta :: mem
proof
  fix iv pre post :: mem
  assume ok: "tkip_ok tk ta iv"
  obtain p k where pk: "phase1 tk ta (le32 (iv ! 4) (iv ! 5) (iv ! 6) (iv ! 7)) = Some p" "phase2 tk p (le16 (iv ! 2) (iv ! 0)) = Some k" "length k = 16"
    using phase12_length ok by (force simp: tkip_ok_def)
  have "rd8 (pre @ iv @ post) (length pre + i) = Some (iv ! i)" if "i < 8" for i
    using ok that by (simp add: tkip_ok_def rd8_def nth_append)
  from this [of 0] this [of 2] this [of 4] this [of 5] this [of 6] this [of 7]
  show "tkip_key tk ta (pre @ iv @ post) (length pre) = Some (tkip_kd tk ta iv)"
    using pk by (simp add: tkip_key_def tkip_pn_def tkip_kd_def del: rd8_append_at)
  show "0 < snd (tkip_kd tk ta iv) \<and> snd (tkip_kd tk ta iv) \<le> length (fst (tkip_kd tk ta iv))"
    using pk by (simp add: tkip_kd_def)
qed

text \<open>C37. TKIP round trip: a unicast frame that \<open>rtw_tkip_encrypt\<close> seals is accepted by
  \<open>rtw_tkip_decrypt\<close> under the same pairwise key, with the payload restored.\<close>

theorem rtw_tkip_roundtrip:
  assumes "tx_frame xf pre hdr iv bs icv post" "tkip_ok (UncstKey (attrib xf)) (tx_ta (attrib xf)) iv" "crc_ok s"
    and "encrypt (attrib xf) = TKIP" "IS_MCAST (tx_ra (attrib xf)) = Some False"
  shows "\<exists>cipher s'. rtw_tkip_encrypt sec frag_len s xf = Some (True, xf\<lparr>buf := pre @ hdr @ iv @ cipher @ post\<rparr>, s') \<and> crc_ok s' \<and>
    length cipher = length bs + 4 \<and>
    (\<forall>rf rest t. rx_frame rf hdr iv cipher rest \<longrightarrow> crc_ok t \<longrightarrow> rx_encrypt (rx_attrib rf) = TKIP \<longrightarrow>
       rx_ra (rx_attrib rf) = tx_ra (attrib xf) \<longrightarrow> rx_ta (rx_attrib rf) = tx_ta (attrib xf) \<longrightarrow>
       (\<exists>t'. rtw_tkip_decrypt sec (Some (UncstKey (attrib xf))) t rf
          = Some (True, rf\<lparr>rx_buf := hdr @ iv @ bs @ u32_bytes (crc32_ref bs) @ rest\<rparr>, t')))"
proof -
  let ?tk = "UncstKey (attrib xf)" and ?ta = "tx_ta (attrib xf)"
  let ?cipher = "tkip.sealed ?tk ?ta iv bs"
  have len: "length ?cipher = length bs + 4"
    by (rule tkip.length_sealed [OF assms(2)])
  obtain base where base: "buf_addr xf = Some base"
    using assms(1) by (auto simp: tx_frame_def Let_def)
  obtain s' where s': "arc4_frags (unat (nr_frags (attrib xf))) (tkip_key ?tk ?ta) (attrib xf) frag_len base 0 s (buf xf)
      (unat (hw_hdr_offset xf)) = Some (pre @ hdr @ iv @ ?cipher @ post, s')" "crc_ok s'"
    using tkip.seal_frame [OF assms(1-3), of frag_len base] by blast
  have enc: "rtw_tkip_encrypt sec frag_len s xf = Some (True, xf\<lparr>buf := pre @ hdr @ iv @ ?cipher @ post\<rparr>, s')"
    using s' base assms(4,5) by (auto simp: rtw_tkip_encrypt_def)
  have dec: "\<exists>t'. rtw_tkip_decrypt sec (Some ?tk) t rf = Some (True, rf\<lparr>rx_buf := hdr @ iv @ bs @ u32_bytes (crc32_ref bs) @ rest\<rparr>, t')"
    if rf: "rx_frame rf hdr iv ?cipher rest" "crc_ok t" "rx_encrypt (rx_attrib rf) = TKIP"
      "rx_ra (rx_attrib rf) = tx_ra (attrib xf)" "rx_ta (rx_attrib rf) = ?ta" for rf rest t
    using tkip.open_frame [OF rf(1) assms(2) len rf(2)] tkip.open_key [OF rf(1) assms(2)] tkip.opened_sealed [OF assms(2), of bs] rf(3-5) assms(5)
    by (auto simp: rtw_tkip_decrypt_def Let_def case_prod_beta)
  show ?thesis
    using enc s'(2) len dec by blast
qed

definition tkip_demo_tx :: xmit_frame where
  "tkip_demo_tx = \<lparr>attrib = \<lparr>tx_hdrlen = 24, last_txcmdsz = 39, nr_frags = 1, encrypt = 2, tx_iv_len = 8, tx_icv_len = 4,
      tx_ra = [2, 0, 0, 0, 0, 1], tx_ta = [2, 0, 0, 0, 0, 2], UncstKey = replicate 16 7\<rparr>,
    buf_addr = Some 4096, buf = replicate 40 0 @ replicate 24 8 @ [1, 2, 3, 0, 0, 0, 0, 0] @ [65, 66, 67] @ [0, 0, 0, 0] @ [], pkt_offset = 0\<rparr>"

definition tkip_demo_rx :: "mem \<Rightarrow> recv_frame" where
  "tkip_demo_rx cipher = \<lparr>rx_attrib = \<lparr>rx_hdrlen = 24, rx_encrypt = 2, rx_iv_len = 8, rx_key_index = 0,
      rx_ra = [2, 0, 0, 0, 0, 1], rx_ta = [2, 0, 0, 0, 0, 2]\<rparr>, rx_len = 39,
      rx_buf = replicate 24 8 @ [1, 2, 3, 0, 0, 0, 0, 0] @ cipher @ []\<rparr>"

lemma tkip_demo_frame:
  "tx_frame tkip_demo_tx (replicate 40 0) (replicate 24 8) [1, 2, 3, 0, 0, 0, 0, 0] [65, 66, 67] [0, 0, 0, 0] []"
  "length cipher = 7 \<Longrightarrow> rx_frame (tkip_demo_rx cipher) (replicate 24 8) [1, 2, 3, 0, 0, 0, 0, 0] cipher []"
  by (simp_all add: tx_frame_def tkip_demo_tx_def hw_hdr_offset_def rx_frame_def tkip_demo_rx_def)

theorem rtw_tkip_roundtrip_witness:
  "\<exists>cipher s' t'. rtw_tkip_encrypt wep_demo_sec 2346 crc_fresh tkip_demo_tx
       = Some (True, tkip_demo_tx\<lparr>buf := replicate 40 0 @ replicate 24 8 @ [1, 2, 3, 0, 0, 0, 0, 0] @ cipher @ []\<rparr>, s') \<and>
    rtw_tkip_decrypt wep_demo_sec (Some (replicate 16 7)) s' (tkip_demo_rx cipher) = Some (True,
      (tkip_demo_rx cipher)\<lparr>rx_buf := replicate 24 8 @ [1, 2, 3, 0, 0, 0, 0, 0] @ [65, 66, 67] @ u32_bytes (crc32_ref [65, 66, 67]) @ []\<rparr>, t')"
proof -
  have a: "UncstKey (attrib tkip_demo_tx) = replicate 16 7" "encrypt (attrib tkip_demo_tx) = 2"
    "tx_ta (attrib tkip_demo_tx) = [2, 0, 0, 0, 0, 2]" "tx_ra (attrib tkip_demo_tx) = [2, 0, 0, 0, 0, 1]"
    "IS_MCAST (tx_ra (attrib tkip_demo_tx)) = Some False"
    "tkip_ok (UncstKey (attrib tkip_demo_tx)) (tx_ta (attrib tkip_demo_tx)) [1, 2, 3, 0, 0, 0, 0, 0]" "crc_ok crc_fresh"
    by (simp_all add: tkip_demo_tx_def tkip_ok_def IS_MCAST_def crc_ok_def crc_fresh_def)
  obtain cipher s' where c: "rtw_tkip_encrypt wep_demo_sec 2346 crc_fresh tkip_demo_tx
       = Some (True, tkip_demo_tx\<lparr>buf := replicate 40 0 @ replicate 24 8 @ [1, 2, 3, 0, 0, 0, 0, 0] @ cipher @ []\<rparr>, s')"
      "crc_ok s'" "length cipher = length [65, 66, 67 :: u8] + 4"
    and dec: "\<And>rf rest t. rx_frame rf (replicate 24 8) [1, 2, 3, 0, 0, 0, 0, 0] cipher rest \<Longrightarrow> crc_ok t \<Longrightarrow> rx_encrypt (rx_attrib rf) = 2 \<Longrightarrow>
       rx_ra (rx_attrib rf) = tx_ra (attrib tkip_demo_tx) \<Longrightarrow> rx_ta (rx_attrib rf) = tx_ta (attrib tkip_demo_tx) \<Longrightarrow>
       (\<exists>t'. rtw_tkip_decrypt wep_demo_sec (Some (replicate 16 7)) t rf
          = Some (True, rf\<lparr>rx_buf := replicate 24 8 @ [1, 2, 3, 0, 0, 0, 0, 0] @ [65, 66, 67] @ u32_bytes (crc32_ref [65, 66, 67]) @ rest\<rparr>, t'))"
    using rtw_tkip_roundtrip [OF tkip_demo_frame(1) a(6,7,2,5), of wep_demo_sec 2346, unfolded a(1)] by blast
  show ?thesis
    using c(1) dec [OF tkip_demo_frame(2) c(2)] c(3) by (auto simp: tkip_demo_rx_def a(3,4))
qed

text \<open>C38. \<open>rtw_tkip_decrypt\<close> accepts a unicast frame exactly when the decrypted checksum is the
  CRC-32 of the decrypted payload; it never accepts one without a station entry.\<close>

theorem rtw_tkip_decrypt_checks:
  assumes "rx_frame rf hdr iv cipher rest" "tkip_ok tk (rx_ta (rx_attrib rf)) iv" "length cipher = n + 4" "crc_ok t"
    and "rx_encrypt (rx_attrib rf) = TKIP" "IS_MCAST (rx_ra (rx_attrib rf)) = Some False"
  shows "rtw_tkip_decrypt sec None t rf = Some (False, rf, t) \<and>
    (\<exists>t'. rtw_tkip_decrypt sec (Some tk) t rf =
      Some (u32_bytes (crc32_ref (take n (tkip.opened tk (rx_ta (rx_attrib rf)) iv cipher))) = drop n (tkip.opened tk (rx_ta (rx_attrib rf)) iv cipher),
        rf\<lparr>rx_buf := hdr @ iv @ tkip.opened tk (rx_ta (rx_attrib rf)) iv cipher @ rest\<rparr>, t'))"
  using tkip.open_frame [OF assms(1-4)] tkip.open_key [OF assms(1,2)] assms(5,6)
  by (auto simp: rtw_tkip_decrypt_def Let_def case_prod_beta)

theorem rtw_tkip_decrypt_checks_witness:
  "rtw_tkip_decrypt wep_demo_sec None crc_fresh (tkip_demo_rx [1, 2, 3, 4, 5, 6, 7]) = Some (False, tkip_demo_rx [1, 2, 3, 4, 5, 6, 7], crc_fresh)"
proof -
  have "IS_MCAST (rx_ra (rx_attrib (tkip_demo_rx [1, 2, 3, 4, 5, 6, 7]))) = Some False" "rx_encrypt (rx_attrib (tkip_demo_rx [1, 2, 3, 4, 5, 6, 7])) = 2"
    "tkip_ok (replicate 16 7) (rx_ta (rx_attrib (tkip_demo_rx [1, 2, 3, 4, 5, 6, 7]))) [1, 2, 3, 0, 0, 0, 0, 0]" "crc_ok crc_fresh"
    by (simp_all add: tkip_demo_rx_def IS_MCAST_def tkip_ok_def crc_ok_def crc_fresh_def)
  then show ?thesis
    using rtw_tkip_decrypt_checks [OF tkip_demo_frame(2), of "[1, 2, 3, 4, 5, 6, 7]" "replicate 16 7" 3 crc_fresh wep_demo_sec] by simp
qed

end
