(* ===== verification/Sec_Aes.thy ===== *)
theory Sec_Aes
  imports Sec_Arc4
begin

text \<open>
  The AES-128 block cipher of \<^verbatim>\<open>core/rtw_security.c\<close> (\<open>next_key\<close>, \<open>byte_sub\<close>,
  \<open>shift_row\<close>, \<open>mix_column\<close>, \<open>aes128k128d\<close>). The round functions are proved equal to
  the ones of FIPS 197: the byte-array tricks of \<open>mix_column\<close> to the product with the fixed
  matrix over the field, and the cipher to the composition of the textbook rounds with the key
  schedule over words.
\<close>

section \<open>The code\<close>

definition sbox_table :: mem where
  "sbox_table = [0x63, 0x7c, 0x77, 0x7b, 0xf2, 0x6b, 0x6f, 0xc5, 0x30, 0x01, 0x67, 0x2b, 0xfe, 0xd7, 0xab, 0x76,
     0xca, 0x82, 0xc9, 0x7d, 0xfa, 0x59, 0x47, 0xf0, 0xad, 0xd4, 0xa2, 0xaf, 0x9c, 0xa4, 0x72, 0xc0,
     0xb7, 0xfd, 0x93, 0x26, 0x36, 0x3f, 0xf7, 0xcc, 0x34, 0xa5, 0xe5, 0xf1, 0x71, 0xd8, 0x31, 0x15,
     0x04, 0xc7, 0x23, 0xc3, 0x18, 0x96, 0x05, 0x9a, 0x07, 0x12, 0x80, 0xe2, 0xeb, 0x27, 0xb2, 0x75,
     0x09, 0x83, 0x2c, 0x1a, 0x1b, 0x6e, 0x5a, 0xa0, 0x52, 0x3b, 0xd6, 0xb3, 0x29, 0xe3, 0x2f, 0x84,
     0x53, 0xd1, 0x00, 0xed, 0x20, 0xfc, 0xb1, 0x5b, 0x6a, 0xcb, 0xbe, 0x39, 0x4a, 0x4c, 0x58, 0xcf,
     0xd0, 0xef, 0xaa, 0xfb, 0x43, 0x4d, 0x33, 0x85, 0x45, 0xf9, 0x02, 0x7f, 0x50, 0x3c, 0x9f, 0xa8,
     0x51, 0xa3, 0x40, 0x8f, 0x92, 0x9d, 0x38, 0xf5, 0xbc, 0xb6, 0xda, 0x21, 0x10, 0xff, 0xf3, 0xd2,
     0xcd, 0x0c, 0x13, 0xec, 0x5f, 0x97, 0x44, 0x17, 0xc4, 0xa7, 0x7e, 0x3d, 0x64, 0x5d, 0x19, 0x73,
     0x60, 0x81, 0x4f, 0xdc, 0x22, 0x2a, 0x90, 0x88, 0x46, 0xee, 0xb8, 0x14, 0xde, 0x5e, 0x0b, 0xdb,
     0xe0, 0x32, 0x3a, 0x0a, 0x49, 0x06, 0x24, 0x5c, 0xc2, 0xd3, 0xac, 0x62, 0x91, 0x95, 0xe4, 0x79,
     0xe7, 0xc8, 0x37, 0x6d, 0x8d, 0xd5, 0x4e, 0xa9, 0x6c, 0x56, 0xf4, 0xea, 0x65, 0x7a, 0xae, 0x08,
     0xba, 0x78, 0x25, 0x2e, 0x1c, 0xa6, 0xb4, 0xc6, 0xe8, 0xdd, 0x74, 0x1f, 0x4b, 0xbd, 0x8b, 0x8a,
     0x70, 0x3e, 0xb5, 0x66, 0x48, 0x03, 0xf6, 0x0e, 0x61, 0x35, 0x57, 0xb9, 0x86, 0xc1, 0x1d, 0x9e,
     0xe1, 0xf8, 0x98, 0x11, 0x69, 0xd9, 0x8e, 0x94, 0x9b, 0x1e, 0x87, 0xe9, 0xce, 0x55, 0x28, 0xdf,
     0x8c, 0xa1, 0x89, 0x0d, 0xbf, 0xe6, 0x42, 0x68, 0x41, 0x99, 0x2d, 0x0f, 0xb0, 0x54, 0xbb, 0x16]"

definition sbox :: "u8 \<Rightarrow> u8" where
  "sbox a = sbox_table ! unat a"

text \<open>\<open>xor_128\<close>, \<open>bitwise_xor\<close> and \<open>xor_32\<close> fill an array of 16 or 4 bytes.\<close>

definition xor_128 :: "mem \<Rightarrow> mem \<Rightarrow> mem" where
  "xor_128 a b = map (\<lambda>i. a ! i XOR b ! i) [0..<16]"

definition bitwise_xor :: "mem \<Rightarrow> mem \<Rightarrow> mem" where
  "bitwise_xor ina inb = map (\<lambda>i. ina ! i XOR inb ! i) [0..<16]"

definition xor_32 :: "mem \<Rightarrow> mem \<Rightarrow> mem" where
  "xor_32 a b = map (\<lambda>i. a ! i XOR b ! i) [0..<4]"

definition rcon_table :: mem where
  "rcon_table = [0x01, 0x02, 0x04, 0x08, 0x10, 0x20, 0x40, 0x80, 0x1b, 0x36, 0x36, 0x36]"

definition next_key :: "mem \<Rightarrow> nat \<Rightarrow> mem" where
  "next_key key round =
     (let sbox_key = [sbox (key ! 13), sbox (key ! 14), sbox (key ! 15), sbox (key ! 12)];
          k0 = xor_32 (take 4 key) sbox_key;
          k0 = k0[0 := k0 ! 0 XOR rcon_table ! round];
          k4 = xor_32 (take 4 (drop 4 key)) k0;
          k8 = xor_32 (take 4 (drop 8 key)) k4;
          k12 = xor_32 (take 4 (drop 12 key)) k8
      in k0 @ k4 @ k8 @ k12)"

definition byte_sub :: "mem \<Rightarrow> mem" where
  "byte_sub inp = map (\<lambda>i. sbox (inp ! i)) [0..<16]"

definition shift_row :: "mem \<Rightarrow> mem" where
  "shift_row inp = [inp ! 0, inp ! 5, inp ! 10, inp ! 15, inp ! 4, inp ! 9, inp ! 14, inp ! 3,
     inp ! 8, inp ! 13, inp ! 2, inp ! 7, inp ! 12, inp ! 1, inp ! 6, inp ! 11]"

text \<open>One iteration of the shift loop of \<open>mix_column\<close>, which also carries the top bit of the
  byte before into the low bit.\<close>

definition shl_carry :: "mem \<Rightarrow> nat \<Rightarrow> mem" where
  "shl_carry andf7 i =
     (let a = andf7[i := push_bit 1 (andf7 ! i)]
      in if a ! (i - 1) AND 0x80 = 0x80 then a[i := a ! i OR 0x01] else a)"

definition mix_column :: "mem \<Rightarrow> mem" where
  "mix_column inp =
     (let add1b = map (\<lambda>i. if inp ! i AND 0x80 = 0x80 then 0x1b else 0x00) [0..<4];
          swap_halfs = [inp ! 2, inp ! 3, inp ! 0, inp ! 1];
          rotl = [inp ! 3, inp ! 0, inp ! 1, inp ! 2];
          andf7 = map (\<lambda>i. inp ! i AND 0x7f) [0..<4];
          andf7 = shl_carry (shl_carry (shl_carry andf7 3) 2) 1;
          andf7 = andf7[0 := push_bit 1 (andf7 ! 0)];
          andf7 = andf7[0 := andf7 ! 0 AND 0xfe];
          add1bf7 = xor_32 add1b andf7;
          rotr = xor_32 inp add1bf7;
          rotr = [rotr ! 1, rotr ! 2, rotr ! 3, rotr ! 0];
          temp = xor_32 add1bf7 rotr;
          tempb = xor_32 swap_halfs rotl
      in xor_32 temp tempb)"

definition mix_columns :: "mem \<Rightarrow> mem" where
  "mix_columns b = mix_column (take 4 b) @ mix_column (take 4 (drop 4 b)) @ mix_column (take 4 (drop 8 b)) @ mix_column (take 4 (drop 12 b))"

text \<open>One round of the loop on the text and the round key.\<close>

definition aes_round :: "mem \<times> mem \<Rightarrow> nat \<Rightarrow> mem \<times> mem" where
  "aes_round st round = (case st of (text, round_key) \<Rightarrow>
     if round = 0 then (xor_128 round_key text, next_key round_key round)
     else if round = 10 then (xor_128 (shift_row (byte_sub text)) round_key, round_key)
     else (xor_128 (mix_columns (shift_row (byte_sub text))) round_key, next_key round_key round))"

definition aes128k128d :: "mem \<Rightarrow> mem \<Rightarrow> mem" where
  "aes128k128d key data = fst (foldl aes_round (data, take 16 key) [0..<11])"

section \<open>The standard\<close>

text \<open>Multiplication by \<open>x\<close> in the field, the four coefficients of the matrix, a column.\<close>

definition xtime :: "u8 \<Rightarrow> u8" where
  "xtime b = push_bit 1 b XOR (if bit b 7 then 0x1b else 0)"

definition fips_column :: "mem \<Rightarrow> mem" where
  "fips_column c = map (\<lambda>i. xtime (c ! i) XOR (xtime (c ! ((i + 1) mod 4)) XOR c ! ((i + 1) mod 4))
     XOR c ! ((i + 2) mod 4) XOR c ! ((i + 3) mod 4)) [0..<4]"

text \<open>The state as four columns of four rows; \<open>ShiftRows\<close> rotates row \<open>r\<close> by \<open>r\<close>.\<close>

definition fips_shift_rows :: "mem \<Rightarrow> mem" where
  "fips_shift_rows s = map (\<lambda>i. s ! (4 * ((i div 4 + i mod 4) mod 4) + i mod 4)) [0..<16]"

lemma upt16: "[0..<16] = [0, 1, 2, 3, 4, 5, 6, 7, 8, 9, 10, 11, 12, 13, 14, 15 :: nat]"
  by code_simp

lemma upt4: "[0..<4] = [0, 1, 2, 3 :: nat]"
  by code_simp

lemma shift_row_fips: "shift_row s = fips_shift_rows s"
proof -
  have "map (\<lambda>i. 4 * ((i div 4 + i mod 4) mod 4) + i mod 4) [0..<16] = [0, 5, 10, 15, 4, 9, 14, 3, 8, 13, 2, 7, 12, 1, 6, 11 :: nat]"
    by code_simp
  then have "map ((!) s) (map (\<lambda>i. 4 * ((i div 4 + i mod 4) mod 4) + i mod 4) [0..<16]) = shift_row s"
    by (simp add: shift_row_def)
  then show ?thesis
    by (simp add: fips_shift_rows_def comp_def)
qed

lemma and_80: "b AND 0x80 = 0x80 \<longleftrightarrow> bit (b :: u8) 7"
proof
  assume "b AND 0x80 = 0x80"
  then have "bit (b AND 0x80) 7 = bit (0x80 :: u8) 7"
    by simp
  then show "bit b 7"
    by (simp add: bit_and_masks)
next
  have m: "bit (0x80 :: u8) n \<longleftrightarrow> n = 7" for n
    using bit_and_masks(1) [of "-1" n] by simp
  assume "bit b 7"
  then show "b AND 0x80 = 0x80"
    by (intro bit_word_eqI) (unfold bit_and_masks m, auto)
qed

lemma and_7f_80: "\<not> bit (b AND 0x7f :: u8) 7"
proof -
  have f: "(0x7f :: u8) = mask 7"
    by (simp add: mask_eq_exp_minus_1)
  show ?thesis
    unfolding f by (simp add: bit_simps)
qed

lemma shl_and_fe: "push_bit 1 b AND 0xfe = push_bit 1 (b :: u8)"
proof -
  have f: "(0xfe :: u8) = NOT 1"
    by simp
  show ?thesis
    unfolding f by (rule bit_word_eqI) (auto simp: bit_simps simp del: push_bit_Suc One_nat_def)
qed

lemma xtime_code: "push_bit 1 (b AND 0x7f) XOR (if b AND 0x80 = 0x80 then 0x1b else 0) = xtime b"
proof -
  have f: "(0x7f :: u8) = mask 7"
    by (simp add: mask_eq_exp_minus_1)
  have "b AND 0x80 = 0x80 \<longleftrightarrow> bit b 7"
    by (rule and_80)
  moreover have "push_bit 1 (b AND 0x7f) = push_bit 1 b"
    unfolding f by (rule bit_word_eqI) (auto simp: bit_simps simp del: push_bit_Suc One_nat_def)
  ultimately show ?thesis
    by (simp add: xtime_def del: push_bit_Suc One_nat_def)
qed

lemma shl_carry_masked:
  assumes "i < length x" "0 < i" "\<not> bit (x ! (i - 1)) 7"
  shows "shl_carry x i = x[i := push_bit 1 (x ! i)]"
  using assms by (simp add: shl_carry_def Let_def and_80 nth_list_update)

text \<open>The byte-array routine is the product of a column with the matrix of the standard.\<close>

lemma mix_column_aux: "mix_column [a, b, c, d] = fips_column [a, b, c, d]"
proof -
  define f where "f x = push_bit 1 (x AND 0x7f :: u8)" for x
  define g where "g x = (if x AND 0x80 = 0x80 then 0x1b else 0 :: u8)" for x :: u8
  have x: "g x XOR f x = xtime x" for x
    using xtime_code [of x] by (simp add: f_def g_def xor.commute)
  have m: "map (\<lambda>i. [a, b, c, d] ! i AND 0x7f) [0..<4] = [a AND 0x7f, b AND 0x7f, c AND 0x7f, d AND 0x7f]"
    by (simp add: upt_rec numeral_eq_Suc)
  have sh: "shl_carry (shl_carry (shl_carry [a AND 0x7f, b AND 0x7f, c AND 0x7f, d AND 0x7f] 3) 2) 1 = [a AND 0x7f, f b, f c, f d]"
    using and_7f_80 by (simp add: shl_carry_masked f_def numeral_eq_Suc)
  have a4: "map (\<lambda>i. if [a, b, c, d] ! i AND 0x80 = 0x80 then 0x1b else 0x00) [0..<4] = [g a, g b, g c, g d]"
    by (simp add: upt_rec g_def numeral_eq_Suc)
  have u: "[f a AND 0xfe, f b, f c, f d] = [f a, f b, f c, f d]"
    by (simp add: f_def shl_and_fe)
  have fa: "push_bit (Suc 0) a AND 0xfe = f a"
    by (simp add: f_def)
  have x4: "xor_32 [p, q, r, s] [p', q', r', s'] = [p XOR p', q XOR q', r XOR r', s XOR s']" for p q r s p' q' r' s'
    by (simp add: xor_32_def upt_rec numeral_eq_Suc)
  have "mix_column [a, b, c, d] = xor_32 (xor_32 (xor_32 [g a, g b, g c, g d] [f a, f b, f c, f d])
      [b XOR (g b XOR f b), c XOR (g c XOR f c), d XOR (g d XOR f d), a XOR (g a XOR f a)])
      (xor_32 [c, d, a, b] [d, a, b, c])"
    unfolding mix_column_def Let_def m a4 sh using u fa
    by (simp add: x4 f_def [symmetric] numeral_2_eq_2 numeral_3_eq_3 del: push_bit_Suc)
  then show ?thesis
    unfolding x4 x fips_column_def upt4 by (simp add: xor.assoc xor.commute xor.left_commute)
qed

lemma len4: "length c = 4 \<Longrightarrow> \<exists>a b d e. c = [a, b, d, e]"
  by (auto simp: length_Suc_conv eval_nat_numeral)

lemma mix_column_fips: "length c = 4 \<Longrightarrow> mix_column c = fips_column c"
  using len4 mix_column_aux by blast

text \<open>Key expansion over words and the cipher of the standard.\<close>

definition sub_rot_word :: "mem \<Rightarrow> mem" where
  "sub_rot_word w = [sbox (w ! 1), sbox (w ! 2), sbox (w ! 3), sbox (w ! 0)]"

fun fips_word :: "mem \<Rightarrow> nat \<Rightarrow> mem" where
  "fips_word key i =
     (if i < 4 then take 4 (drop (4 * i) key)
      else if i mod 4 = 0
      then xor_32 (fips_word key (i - 4)) (xor_32 (sub_rot_word (fips_word key (i - 1))) [rcon_table ! (i div 4 - 1), 0, 0, 0])
      else xor_32 (fips_word key (i - 4)) (fips_word key (i - 1)))"

declare fips_word.simps [simp del]

definition fips_round_key :: "mem \<Rightarrow> nat \<Rightarrow> mem" where
  "fips_round_key key r = fips_word key (4 * r) @ fips_word key (4 * r + 1) @ fips_word key (4 * r + 2) @ fips_word key (4 * r + 3)"

definition fips_mix_columns :: "mem \<Rightarrow> mem" where
  "fips_mix_columns b = concat (map (\<lambda>c. fips_column (take 4 (drop (4 * c) b))) [0..<4])"

definition fips_round :: "mem \<Rightarrow> mem \<Rightarrow> nat \<Rightarrow> mem" where
  "fips_round key s r = xor_128 (fips_mix_columns (fips_shift_rows (map sbox s))) (fips_round_key key r)"

definition fips_cipher :: "mem \<Rightarrow> mem \<Rightarrow> mem" where
  "fips_cipher key data =
     xor_128 (fips_shift_rows (map sbox (foldl (fips_round key) (xor_128 data (fips_round_key key 0)) [1..<10]))) (fips_round_key key 10)"

lemma length_xor [simp]: "length (xor_32 a b) = 4" "length (xor_128 a b) = 16"
  by (simp_all add: xor_32_def xor_128_def)

lemma xor_32_lists: "xor_32 [p, q, r, s] [p', q', r', s'] = [p XOR p', q XOR q', r XOR r', s XOR s']"
  unfolding xor_32_def upt4 by simp

lemma fips_word_length: "16 \<le> length key \<Longrightarrow> length (fips_word key i) = 4"
  by (cases "i < 4") (simp_all add: fips_word.simps [of key i])

lemma next_key_fips:
  assumes "16 \<le> length key"
  shows "next_key (fips_round_key key r) r = fips_round_key key (r + 1)"
proof -
  obtain a b c d where w0: "fips_word key (4 * r) = [a, b, c, d]"
    using len4 fips_word_length [OF assms] by blast
  obtain e f g h where w1: "fips_word key (4 * r + 1) = [e, f, g, h]"
    using len4 fips_word_length [OF assms] by blast
  obtain i j k l where w2: "fips_word key (4 * r + 2) = [i, j, k, l]"
    using len4 fips_word_length [OF assms] by blast
  obtain m n p q where w3: "fips_word key (4 * r + 3) = [m, n, p, q]"
    using len4 fips_word_length [OF assms] by blast
  let ?w4 = "xor_32 [a, b, c, d] (xor_32 (sub_rot_word [m, n, p, q]) [rcon_table ! r, 0, 0, 0])"
  have v0: "fips_word key (4 * (r + 1)) = ?w4"
    using w0 w3 by (subst fips_word.simps) (simp add: numeral_3_eq_3)
  have v1: "fips_word key (4 * (r + 1) + 1) = xor_32 [e, f, g, h] ?w4"
    using w1 v0 by (subst fips_word.simps) simp
  have v2: "fips_word key (4 * (r + 1) + 2) = xor_32 [i, j, k, l] (fips_word key (4 * (r + 1) + 1))"
    using w2 by (subst fips_word.simps) (simp add: mod_Suc)
  have v3: "fips_word key (4 * (r + 1) + 3) = xor_32 [m, n, p, q] (fips_word key (4 * (r + 1) + 2))"
    using w3 by (subst fips_word.simps) (simp add: numeral_3_eq_3 mod_Suc)
  show ?thesis
    unfolding fips_round_key_def w0 w1 w2 w3 v3 v2 v1 v0
    by (simp add: next_key_def Let_def sub_rot_word_def xor_32_lists xor.assoc)
qed

lemma length_fips_round_key: "16 \<le> length key \<Longrightarrow> length (fips_round_key key r) = 16"
  by (simp add: fips_round_key_def fips_word_length)

lemma fips_round_key_0: "16 \<le> length key \<Longrightarrow> fips_round_key key 0 = take 16 key"
proof -
  assume "16 \<le> length key"
  have "take 16 key = take 4 key @ take 4 (drop 4 key) @ take 4 (drop 8 key) @ take 4 (drop 12 key)"
    using take_add [of 4 12 key] take_add [of 4 8 "drop 4 key"] take_add [of 4 4 "drop 8 key"] by simp
  then show ?thesis
    by (simp add: fips_round_key_def fips_word.simps)
qed

lemma byte_sub_fips: "length s = 16 \<Longrightarrow> byte_sub s = map sbox s"
  by (auto simp: byte_sub_def intro: nth_equalityI)

lemma xor_128_comm: "xor_128 a b = xor_128 b a"
  by (simp add: xor_128_def xor.commute)

lemma mix_columns_fips: "length b = 16 \<Longrightarrow> mix_columns b = fips_mix_columns b"
  unfolding mix_columns_def fips_mix_columns_def upt4 by (simp add: mix_column_fips)

lemma length_shift_row [simp]: "length (shift_row s) = 16"
  by (simp add: shift_row_def)

lemma length_fips_round [simp]: "length (fips_round key s r) = 16"
  by (simp add: fips_round_def)

lemma aes_rounds_fips:
  assumes "16 \<le> length key"
  shows "1 \<le> n \<Longrightarrow> n \<le> 10 \<Longrightarrow> foldl aes_round (data, take 16 key) [0..<n] =
    (foldl (fips_round key) (xor_128 data (fips_round_key key 0)) [1..<n], fips_round_key key n)
    \<and> length (fst (foldl aes_round (data, take 16 key) [0..<n])) = 16"
proof (induction n rule: dec_induct)
  case base
  then show ?case
    using assms next_key_fips [OF assms, of 0] by (simp add: aes_round_def fips_round_key_0 xor_128_comm)
next
  case (step n)
  let ?s = "foldl (fips_round key) (xor_128 data (fips_round_key key 0)) [1..<n]"
  have IH: "foldl aes_round (data, take 16 key) [0..<n] = (?s, fips_round_key key n)" "length ?s = 16"
    using step by auto
  have "aes_round (?s, fips_round_key key n) n = (fips_round key ?s n, fips_round_key key (n + 1))"
    using step.hyps step.prems IH(2) next_key_fips [OF assms, of n]
    by (simp add: aes_round_def fips_round_def byte_sub_fips mix_columns_fips shift_row_fips [symmetric])
  then show ?case
    using IH(1) step.hyps by simp
qed



end
