(* ===== verification/Sec_Ccmp.thy ===== *)
theory Sec_Ccmp
  imports Sec_Aes Sec_Tkip
begin

text \<open>
  CCMP of \<^verbatim>\<open>core/rtw_security.c\<close>: the blocks built from the header (\<open>construct_mic_iv\<close>,
  \<open>construct_mic_header1\<close>, \<open>construct_mic_header2\<close>, \<open>construct_ctr_preload\<close>),
  \<open>aes_cipher\<close>, \<open>aes_decipher\<close>, \<open>rtw_aes_encrypt\<close> and \<open>rtw_aes_decrypt\<close>. The
  theorems show the round trip, and three behaviours of \<open>aes_decipher\<close> that a peer can provoke:
  a frame longer than the static message buffer, a frame shorter than a MIC, and a 4-address QoS
  frame.
\<close>

section \<open>Blocks built from the header\<close>

text \<open>\<open>m\<close> and \<open>pf\<close> are the object and the offset \<open>mpdu\<close> points to; the flags say whether a QoS
  control field and a fourth address exist.\<close>

definition qos_tid :: "mem \<Rightarrow> nat \<Rightarrow> bool \<Rightarrow> bool \<Rightarrow> u8 option" where
  "qos_tid m pf qc a4 =
     (if qc then (if a4 then map_option (\<lambda>b. b AND 0x0f) (rd8 m (pf + 30)) else map_option (\<lambda>b. b AND 0x0f) (rd8 m (pf + 24)))
      else Some 0)"

definition construct_mic_iv :: "bool \<Rightarrow> bool \<Rightarrow> mem \<Rightarrow> nat \<Rightarrow> nat \<Rightarrow> mem \<Rightarrow> mem option" where
  "construct_mic_iv qc a4 m pf payload_length pn = do {
     t \<leftarrow> qos_tid m pf qc a4;
     a2 \<leftarrow> rd_bytes m (pf + 10) 6;
     Some ([0x59, t] @ a2 @ rev (take 6 pn) @ [word_of_nat (payload_length div 256), word_of_nat (payload_length mod 256)]) }"

definition construct_mic_header1 :: "nat \<Rightarrow> mem \<Rightarrow> nat \<Rightarrow> mem option" where
  "construct_mic_header1 header_length m pf = do {
     f0 \<leftarrow> rd8 m pf;
     f1 \<leftarrow> rd8 m (pf + 1);
     a12 \<leftarrow> rd_bytes m (pf + 4) 12;
     Some ([word_of_int ((int header_length - 2) div 256), word_of_int ((int header_length - 2) mod 256), f0 AND 0xcf, f1 AND 0xc7] @ a12) }"

definition construct_mic_header2 :: "mem \<Rightarrow> nat \<Rightarrow> bool \<Rightarrow> bool \<Rightarrow> mem option" where
  "construct_mic_header2 m pf a4 qc = do {
     a3 \<leftarrow> rd_bytes m (pf + 16) 6;
     if \<not> qc \<and> a4 then do { x \<leftarrow> rd_bytes m (pf + 24) 6; Some (a3 @ [0, 0] @ x @ [0, 0]) }
     else if qc \<and> \<not> a4 then do {
       t \<leftarrow> rd8 m (pf + 24);
       u \<leftarrow> rd8 m (pf + 25);
       Some (a3 @ [0, 0, t AND 0x0f, u AND 0x00, 0, 0, 0, 0, 0, 0]) }
     else if qc \<and> a4 then do {
       x \<leftarrow> rd_bytes m (pf + 24) 6;
       t \<leftarrow> rd8 m (pf + 30);
       u \<leftarrow> rd8 m (pf + 31);
       Some (a3 @ [0, 0] @ x @ [t AND 0x0f, u AND 0x00]) }
     else Some (a3 @ replicate 10 0) }"

definition construct_ctr_preload :: "bool \<Rightarrow> bool \<Rightarrow> mem \<Rightarrow> nat \<Rightarrow> mem \<Rightarrow> nat \<Rightarrow> mem option" where
  "construct_ctr_preload a4 qc m pf pn c = do {
     t \<leftarrow> qos_tid m pf qc a4;
     a2 \<leftarrow> rd_bytes m (pf + 10) 6;
     Some ([0x01, t] @ a2 @ rev (take 6 pn) @ [word_of_nat (c div 256), word_of_nat (c mod 256)]) }"

text \<open>The frame type decides about the QoS control field; a header length other than 26 is then
  taken to exclude the field and is increased. \<open>frtype | frsubtype\<close>, with the subtype already
  shifted, is compared with unshifted codes. The result: \<open>a4_exists\<close>, \<open>qc_exists\<close>, the header
  length.\<close>

definition aes_hdr_info :: "mem \<Rightarrow> nat \<Rightarrow> nat \<Rightarrow> (bool \<times> bool \<times> nat) option" where
  "aes_hdr_info m pf hdrlen = do {
     fc \<leftarrow> RTW_GET_LE16 m pf;
     let frtype = fc AND 0x0c;
     let frsubtype = drop_bit 4 (fc AND 0xfc);
     let a4 = \<not> (hdrlen = 24 \<or> hdrlen = 26);
     let qc = (frtype OR frsubtype \<in> {0x18, 0x28, 0x38} \<or> frtype = 0x08 \<and> frsubtype \<in> {0x08, 0x09, 0x0a, 0x0b});
     Some (a4, qc, if qc \<and> hdrlen \<noteq> 26 then hdrlen + 2 else hdrlen) }"

definition aes_pn_vector :: "mem \<Rightarrow> nat \<Rightarrow> nat \<Rightarrow> mem option" where
  "aes_pn_vector m pf hdrlen = do {
     p0 \<leftarrow> rd8 m (pf + hdrlen); p1 \<leftarrow> rd8 m (pf + hdrlen + 1); p2 \<leftarrow> rd8 m (pf + hdrlen + 4);
     p3 \<leftarrow> rd8 m (pf + hdrlen + 5); p4 \<leftarrow> rd8 m (pf + hdrlen + 6); p5 \<leftarrow> rd8 m (pf + hdrlen + 7);
     Some [p0, p1, p2, p3, p4, p5] }"

section \<open>CBC-MAC and counter mode\<close>

fun aes_mic_blocks :: "nat \<Rightarrow> mem \<Rightarrow> mem \<Rightarrow> nat \<Rightarrow> mem \<Rightarrow> mem option" where
  "aes_mic_blocks 0 key m payload_index aes_out = Some aes_out"
| "aes_mic_blocks (Suc n) key m payload_index aes_out = do {
     blk \<leftarrow> rd_bytes m payload_index 16;
     aes_mic_blocks n key m (payload_index + 16) (aes128k128d key (bitwise_xor aes_out blk)) }"

text \<open>The part \<open>Calculate MIC\<close> of the two functions: the first three blocks, the full blocks of
  the payload, the padded remainder. The result is \<open>mic\<close>; it is stored behind the payload.\<close>

definition aes_mic :: "mem \<Rightarrow> mem \<Rightarrow> nat \<Rightarrow> bool \<Rightarrow> bool \<Rightarrow> nat \<Rightarrow> mem \<Rightarrow> nat \<Rightarrow> mem option" where
  "aes_mic key m pf a4 qc hdrlen pn plen = do {
     mic_iv \<leftarrow> construct_mic_iv qc a4 m pf plen pn;
     mic_header1 \<leftarrow> construct_mic_header1 hdrlen m pf;
     mic_header2 \<leftarrow> construct_mic_header2 m pf a4 qc;
     let o1 = aes128k128d key mic_iv;
     let o2 = aes128k128d key (bitwise_xor o1 mic_header1);
     let o3 = aes128k128d key (bitwise_xor o2 mic_header2);
     o4 \<leftarrow> aes_mic_blocks (plen div 16) key m (pf + hdrlen + 8) o3;
     o5 \<leftarrow> (if plen mod 16 > 0 then do {
              r \<leftarrow> rd_bytes m (pf + hdrlen + 8 + 16 * (plen div 16)) (plen mod 16);
              Some (aes128k128d key (bitwise_xor o4 (r @ replicate (16 - plen mod 16) 0))) }
            else Some o4);
     Some (take 8 o5) }"

fun aes_ctr_blocks :: "nat \<Rightarrow> nat \<Rightarrow> mem \<Rightarrow> mem \<Rightarrow> nat \<Rightarrow> bool \<Rightarrow> bool \<Rightarrow> mem \<Rightarrow> nat \<Rightarrow> mem option" where
  "aes_ctr_blocks 0 i key m pf a4 qc pn payload_index = Some m"
| "aes_ctr_blocks (Suc n) i key m pf a4 qc pn payload_index = do {
     ctr \<leftarrow> construct_ctr_preload a4 qc m pf pn (i + 1);
     blk \<leftarrow> rd_bytes m payload_index 16;
     m' \<leftarrow> wr_bytes m payload_index (bitwise_xor (aes128k128d key ctr) blk);
     aes_ctr_blocks n (i + 1) key m' pf a4 qc pn (payload_index + 16) }"

text \<open>The counter mode part on \<open>plen\<close> bytes: full blocks, then the remainder.\<close>

definition aes_ctr :: "mem \<Rightarrow> mem \<Rightarrow> nat \<Rightarrow> bool \<Rightarrow> bool \<Rightarrow> nat \<Rightarrow> mem \<Rightarrow> nat \<Rightarrow> mem option" where
  "aes_ctr key m pf a4 qc hdrlen pn plen = do {
     m1 \<leftarrow> aes_ctr_blocks (plen div 16) 0 key m pf a4 qc pn (pf + hdrlen + 8);
     if plen mod 16 > 0 then do {
       ctr \<leftarrow> construct_ctr_preload a4 qc m1 pf pn (plen div 16 + 1);
       r \<leftarrow> rd_bytes m1 (pf + hdrlen + 8 + 16 * (plen div 16)) (plen mod 16);
       wr_bytes m1 (pf + hdrlen + 8 + 16 * (plen div 16))
         (take (plen mod 16) (bitwise_xor (aes128k128d key ctr) (r @ replicate (16 - plen mod 16) 0))) }
     else Some m1 }"

text \<open>The last step encrypts the MIC with counter zero; \<open>from\<close> and \<open>to\<close> are where the code
  reads and writes it.\<close>

definition aes_enc_mic :: "mem \<Rightarrow> mem \<Rightarrow> nat \<Rightarrow> bool \<Rightarrow> bool \<Rightarrow> mem \<Rightarrow> nat \<Rightarrow> nat \<Rightarrow> mem option" where
  "aes_enc_mic key m pf a4 qc pn src dst = do {
     ctr \<leftarrow> construct_ctr_preload a4 qc m pf pn 0;
     r \<leftarrow> rd_bytes m src 8;
     wr_bytes m dst (take 8 (bitwise_xor (aes128k128d key ctr) (r @ replicate 8 0))) }"

definition aes_cipher :: "mem \<Rightarrow> nat \<Rightarrow> mem \<Rightarrow> nat \<Rightarrow> nat \<Rightarrow> mem option" where
  "aes_cipher key hdrlen m pf plen = do {
     (a4, qc, hdrlen) \<leftarrow> aes_hdr_info m pf hdrlen;
     pn \<leftarrow> aes_pn_vector m pf hdrlen;
     mic \<leftarrow> aes_mic key m pf a4 qc hdrlen pn plen;
     m1 \<leftarrow> wr_bytes m (pf + hdrlen + 8 + plen) mic;
     m2 \<leftarrow> aes_ctr key m1 pf a4 qc hdrlen pn plen;
     aes_enc_mic key m2 pf a4 qc pn (pf + hdrlen + 8 + plen) (pf + hdrlen + 8 + plen) }"

text \<open>\<open>message\<close> is the static array of \<open>MAX_MSG_SIZE\<close> = 2048 bytes: it keeps its contents from
  one call to the next, and is filled from the frame only when the frame fits. The result flag is
  \<open>_SUCCESS\<close>; the lengths are unsigned 32-bit.\<close>

definition aes_decipher :: "mem \<Rightarrow> mem \<Rightarrow> nat \<Rightarrow> mem \<Rightarrow> nat \<Rightarrow> (bool \<times> mem \<times> mem) option" where
  "aes_decipher message key hdrlen0 m plen = do {
     pn0 \<leftarrow> aes_pn_vector m 0 hdrlen0;
     (a4, qc, hdrlen) \<leftarrow> aes_hdr_info m 0 hdrlen0;
     m1 \<leftarrow> aes_ctr key m 0 a4 qc hdrlen pn0 (sub_u32 plen 8);
     msg \<leftarrow> (if (hdrlen + plen + 8) mod 2 ^ 32 \<le> 2048 then rtw_memcpy message 0 m1 0 ((hdrlen + plen + 8) mod 2 ^ 32)
             else Some message);
     pn \<leftarrow> aes_pn_vector m1 0 hdrlen;
     mic \<leftarrow> aes_mic key msg 0 a4 qc hdrlen pn (sub_u32 plen 8);
     msg1 \<leftarrow> wr_bytes msg (hdrlen + 8 + sub_u32 plen 8) mic;
     msg2 \<leftarrow> aes_ctr key msg1 0 a4 qc hdrlen pn (sub_u32 plen 8);
     msg3 \<leftarrow> aes_enc_mic key msg2 0 a4 qc pn (hdrlen + 8 + plen - 8) (hdrlen + 8 + sub_u32 plen 8);
     a \<leftarrow> rd_bytes m1 (hdrlen + 8 + plen - 8) 8;
     b \<leftarrow> rd_bytes msg3 (hdrlen + 8 + plen - 8) 8;
     Some (a = b, m1, msg3) }"

text \<open>The fragment loop of \<open>rtw_aes_encrypt\<close>; \<open>base\<close> is the machine address of the buffer, since
  fragments start at 4-aligned addresses. The signed length becomes the unsigned \<open>plen\<close>.\<close>

fun aes_frags :: "nat \<Rightarrow> mem \<Rightarrow> pkt_attrib \<Rightarrow> u32 \<Rightarrow> nat \<Rightarrow> nat \<Rightarrow> mem \<Rightarrow> nat \<Rightarrow> mem option" where
  "aes_frags 0 prwskey a frag_len base curfragnum m pframe = Some m"
| "aes_frags (Suc n) prwskey a frag_len base curfragnum m pframe =
     (if curfragnum + 1 = unat (nr_frags a) then do {
        m' \<leftarrow> aes_cipher prwskey (unat (tx_hdrlen a)) m pframe (unat (word_of_int (frag_length a frag_len True) :: u32));
        aes_frags n prwskey a frag_len base (curfragnum + 1) m' pframe }
      else do {
        m' \<leftarrow> aes_cipher prwskey (unat (tx_hdrlen a)) m pframe (unat (word_of_int (frag_length a frag_len False) :: u32));
        aes_frags n prwskey a frag_len base (curfragnum + 1) m' (RND4 (base + pframe + unat frag_len) - base) })"

text \<open>The flag is \<open>_SUCCESS\<close>. The software counters (\<open>AES_SW_ENC_CNT_INC\<close>) are statistics.\<close>

definition rtw_aes_encrypt :: "security_priv \<Rightarrow> u32 \<Rightarrow> xmit_frame \<Rightarrow> (bool \<times> xmit_frame) option" where
  "rtw_aes_encrypt sec frag_len xf =
     (case buf_addr xf of None \<Rightarrow> Some (False, xf)
      | Some base \<Rightarrow>
         if encrypt (attrib xf) = AES then do {
           mc \<leftarrow> IS_MCAST (tx_ra (attrib xf));
           prwskey \<leftarrow> (if mc then arr (dot118021XGrpKey sec) (unat (dot118021XGrpKeyid sec)) else Some (UncstKey (attrib xf)));
           m \<leftarrow> aes_frags (unat (nr_frags (attrib xf))) prwskey (attrib xf) frag_len base 0 (buf xf) (unat (hw_hdr_offset xf));
           Some (True, xf\<lparr>buf := m\<rparr>) }
         else Some (True, xf))"

definition rtw_aes_decrypt :: "security_priv \<Rightarrow> mem option \<Rightarrow> mem \<Rightarrow> recv_frame \<Rightarrow> (bool \<times> recv_frame \<times> mem) option" where
  "rtw_aes_decrypt sec stainfo message rf = (let a = rx_attrib rf in
     if rx_encrypt a = AES then
       (case stainfo of None \<Rightarrow> Some (False, rf, message)
        | Some uncst \<Rightarrow> do {
            mc \<leftarrow> IS_MCAST (rx_ra a);
            if mc \<and> binstallGrpkey sec = 0 then Some (False, rf, message)
            else if mc \<and> dot118021XGrpKeyid sec \<noteq> ucast (rx_key_index a) then Some (False, rf, message)
            else do {
              prwskey \<leftarrow> (if mc then arr (dot118021XGrpKey sec) (unat (rx_key_index a)) else Some uncst);
              (ok, m, message') \<leftarrow> aes_decipher message prwskey (unat (rx_hdrlen a)) (rx_buf rf)
                (unat (rx_len rf - ucast (rx_hdrlen a) - ucast (rx_iv_len a)));
              Some (ok, rf\<lparr>rx_buf := m\<rparr>, message') } })
     else Some (True, rf, message))"

section \<open>Both parts depend on header and payload only\<close>

lemmas window = rd8_window rd_bytes_window

lemma ctr_preload_window:
  assumes "32 \<le> length X"
  shows "construct_ctr_preload a4 qc (pre @ X @ r) (length pre) pn c = construct_ctr_preload a4 qc X 0 pn c"
  using assms window(1) [of 30 X pre r] window(1) [of 24 X pre r] window(2) [of 10 6 X pre r]
  by (simp add: construct_ctr_preload_def qos_tid_def)

lemma ctr_preload_some: "32 \<le> length X \<Longrightarrow> construct_ctr_preload a4 qc X 0 pn c \<noteq> None"
  by (simp add: construct_ctr_preload_def qos_tid_def rd8_in rd_bytes_in)

lemma length_aes [simp]: "length (aes128k128d key d) = 16"
  by (simp add: aes128k128d_def upt_rec [of _ 11] aes_round_def split: prod.split)

definition ctr_block :: "mem \<Rightarrow> bool \<Rightarrow> bool \<Rightarrow> mem \<Rightarrow> mem \<Rightarrow> nat \<Rightarrow> mem" where
  "ctr_block key a4 qc X pn c = (case construct_ctr_preload a4 qc X 0 pn c of Some b \<Rightarrow> aes128k128d key b | None \<Rightarrow> replicate 16 0)"

lemma length_ctr_block [simp]: "length (ctr_block key a4 qc X pn c) = 16"
  by (simp add: ctr_block_def split: option.split)

lemma ctr_at:
  assumes "32 \<le> length X"
  obtains b where "construct_ctr_preload a4 qc (pre @ X @ r) (length pre) pn c = Some b" "aes128k128d key b = ctr_block key a4 qc X pn c"
  using ctr_preload_some [OF assms, of a4 qc pn c] ctr_preload_window [OF assms, of a4 qc pre r pn c]
  by (auto simp: ctr_block_def)

lemma bitwise_xor_bytes: "length a = 16 \<Longrightarrow> length b = 16 \<Longrightarrow> bitwise_xor a b = xor_bytes b a"
  by (rule nth_equalityI) (simp_all add: bitwise_xor_def xor_bytes_def xor.commute)

lemma bitwise_xor_padded:
  assumes "length a = 16" "length b \<le> 16" "n = length b"
  shows "take n (bitwise_xor a (b @ replicate (16 - n) 0)) = xor_bytes b a"
  by (rule nth_equalityI) (use assms in \<open>simp_all add: bitwise_xor_def xor_bytes_def nth_append xor.commute\<close>)

lemma ctr_blocks_spec:
  assumes "32 \<le> length X"
  shows "length P = 16 * n \<Longrightarrow>
    aes_ctr_blocks n i key (pre @ X @ D @ P @ r) (length pre) a4 qc pn (length pre + length X + length D) =
      Some (pre @ X @ D @ xor_bytes P (concat (map (ctr_block key a4 qc X pn) [i + 1..<i + 1 + n])) @ r)"
proof (induction n arbitrary: i D P)
  case (Suc n)
  define B Q where "B = take 16 P" and "Q = drop 16 P"
  have P: "P = B @ Q" "length B = 16" "length Q = 16 * n"
    using Suc.prems by (simp_all add: B_def Q_def)
  let ?k = "ctr_block key a4 qc X pn (i + 1)"
  obtain b where b: "construct_ctr_preload a4 qc (pre @ X @ D @ P @ r) (length pre) pn (i + 1) = Some b" "aes128k128d key b = ?k"
    using ctr_at [OF assms, of a4 qc pre "D @ P @ r"] by metis
  have rd: "rd_bytes (pre @ X @ D @ P @ r) (length pre + length X + length D) 16 = Some B"
    using P(1,2) by (simp add: rd_bytes_def)
  have wr: "wr_bytes (pre @ X @ D @ P @ r) (length pre + length X + length D) (xor_bytes B ?k) = Some (pre @ X @ (D @ xor_bytes B ?k) @ Q @ r)"
    using P by (simp add: wr_bytes_def)
  have up: "[i + 1..<i + 1 + Suc n] = (i + 1) # [i + 1 + 1..<i + 1 + 1 + n]"
    by (simp add: upt_conv_Cons del: upt_Suc)
  show ?case
    using Suc.IH [OF P(3), of "i + 1" "D @ xor_bytes B ?k"] b rd wr P
    unfolding up by (simp add: bitwise_xor_bytes xor_bytes_append ac_simps)
qed simp

text \<open>The key stream of a frame, and counter mode as its exclusive or.\<close>

definition ctr_stream :: "mem \<Rightarrow> bool \<Rightarrow> bool \<Rightarrow> mem \<Rightarrow> mem \<Rightarrow> nat \<Rightarrow> mem" where
  "ctr_stream key a4 qc X pn plen = concat (map (ctr_block key a4 qc X pn) [1..<plen div 16 + 2])"

lemma length_concat_ctr: "length (concat (map (ctr_block key a4 qc X pn) cs)) = 16 * length cs"
  by (induction cs) simp_all

lemma length_ctr_stream: "plen \<le> length (ctr_stream key a4 qc X pn plen)"
proof -
  have "plen < 16 * (plen div 16 + 1)"
    by (simp add: dividend_less_times_div)
  then show ?thesis
    by (simp add: ctr_stream_def length_concat_ctr del: upt_Suc)
qed

lemma xor_bytes_longer: "length a = length k \<Longrightarrow> xor_bytes a (k @ l) = xor_bytes a k"
  using xor_bytes_append [of a k "[]" l] by simp

lemma ctr_stream_split:
  "ctr_stream key a4 qc X pn plen =
     concat (map (ctr_block key a4 qc X pn) [0 + 1..<0 + 1 + plen div 16]) @ ctr_block key a4 qc X pn (plen div 16 + 1)"
  by (simp add: ctr_stream_def)

lemma aes_ctr_spec:
  assumes "32 \<le> length X" "length X = hdrlen + 8"
  shows "aes_ctr key (pre @ X @ P @ r) (length pre) a4 qc hdrlen pn (length P) =
    Some (pre @ X @ xor_bytes P (ctr_stream key a4 qc X pn (length P)) @ r)"
proof -
  define n k where "n = length P div 16" and "k = length P mod 16"
  define B Q where "B = take (16 * n) P" and "Q = drop (16 * n) P"
  have P: "P = B @ Q" "length B = 16 * n" "length Q = k"
    by (simp_all add: B_def Q_def n_def k_def minus_mult_div_eq_mod)
  define K c where "K = concat (map (ctr_block key a4 qc X pn) [0 + 1..<0 + 1 + n])" and "c = ctr_block key a4 qc X pn (n + 1)"
  have K: "ctr_stream key a4 qc X pn (length P) = K @ c"
    unfolding K_def c_def n_def by (rule ctr_stream_split)
  have lenK: "length K = length B"
    using P(2) by (simp add: K_def length_concat_ctr)
  define B' where "B' = xor_bytes B K"
  have lenB: "length B' = 16 * n"
    using lenK P(2) by (simp add: B'_def)
  have blocks: "aes_ctr_blocks n 0 key (pre @ X @ P @ r) (length pre) a4 qc pn (length pre + hdrlen + 8) = Some (pre @ X @ B' @ Q @ r)"
    using ctr_blocks_spec [OF assms(1) P(2), of 0 key pre "[]" "Q @ r" a4 qc pn] P(1) assms(2)
    unfolding K_def [symmetric] B'_def [symmetric] by (simp add: add.assoc)
  show ?thesis
  proof (cases "k = 0")
    case True
    then have Q: "Q = []" "P = B"
      using P by simp_all
    have "xor_bytes P (K @ c) = B'"
      using Q(2) lenK by (simp add: xor_bytes_longer B'_def)
    then show ?thesis
      unfolding aes_ctr_def n_def [symmetric] k_def [symmetric] blocks bind.bind_lunit K
      using True Q(1) by simp
  next
    case False
    obtain b where b: "construct_ctr_preload a4 qc (pre @ X @ B' @ Q @ r) (length pre) pn (n + 1) = Some b" "aes128k128d key b = c"
      using ctr_at [OF assms(1), of a4 qc pre "B' @ Q @ r"] unfolding c_def by metis
    have idx: "length pre + hdrlen + 8 + 16 * n = length (pre @ X @ B')"
      using lenB assms(2) by simp
    have rd: "rd_bytes (pre @ X @ B' @ Q @ r) (length (pre @ X @ B')) k = Some Q"
      using P(3) by (simp add: rd_bytes_def)
    have "k < 16"
      by (simp add: k_def)
    then have pad: "take k (bitwise_xor c (Q @ replicate (16 - k) 0)) = xor_bytes Q c"
      using P(3) by (intro bitwise_xor_padded) (simp_all add: c_def)
    have wr: "wr_bytes (pre @ X @ B' @ Q @ r) (length (pre @ X @ B')) (xor_bytes Q c) = Some (pre @ X @ B' @ xor_bytes Q c @ r)"
      using P(3) \<open>k < 16\<close> by (simp add: wr_bytes_def c_def)
    have "xor_bytes P (K @ c) = B' @ xor_bytes Q c"
      unfolding P(1) using lenK by (simp add: xor_bytes_append B'_def)
    then show ?thesis
      unfolding aes_ctr_def n_def [symmetric] k_def [symmetric] blocks bind.bind_lunit idx K b(1) rd b(2) pad wr
      using False by simp
  qed
qed

lemma mic_blocks_window:
  "idx + 16 * n \<le> length m \<Longrightarrow>
     aes_mic_blocks n key (pre @ m @ r) (length pre + idx) o' = aes_mic_blocks n key m idx o' \<and> aes_mic_blocks n key m idx o' \<noteq> None"
proof (induction n arbitrary: idx o')
  case (Suc n)
  have w: "rd_bytes (pre @ m @ r) (length pre + idx) 16 = rd_bytes m idx 16"
    using Suc.prems by (intro rd_bytes_window) simp
  obtain blk where "rd_bytes m idx 16 = Some blk"
    using rd_bytes_no_fault [of idx 16 m] Suc.prems by auto
  then show ?case
    using Suc.IH [of "idx + 16"] Suc.prems w by (simp add: add.assoc)
qed simp

lemma length_mic_blocks: "aes_mic_blocks n key m idx o' = Some x \<Longrightarrow> length o' = 16 \<Longrightarrow> length x = 16"
  by (induction n arbitrary: idx o') (auto simp: bind_eq_Some_conv)

text \<open>The code over the header part \<open>X\<close> and the payload, wherever they lie in memory.\<close>

definition ccm_mic :: "mem \<Rightarrow> bool \<Rightarrow> bool \<Rightarrow> nat \<Rightarrow> mem \<Rightarrow> mem \<Rightarrow> mem \<Rightarrow> mem option" where
  "ccm_mic key a4 qc hdrlen X pn P = aes_mic key (X @ P) 0 a4 qc hdrlen pn (length P)"

lemma header_window:
  assumes "32 \<le> length m"
  shows "construct_mic_iv qc a4 (pre @ m @ r) (length pre) pl pn = construct_mic_iv qc a4 m 0 pl pn"
    "construct_mic_header1 h (pre @ m @ r) (length pre) = construct_mic_header1 h m 0"
    "construct_mic_header2 (pre @ m @ r) (length pre) a4 qc = construct_mic_header2 m 0 a4 qc"
proof -
  have z: "rd8 (m @ r) 0 = rd8 m 0"
    using assms by (intro rd8_append_left) linarith
  show "construct_mic_iv qc a4 (pre @ m @ r) (length pre) pl pn = construct_mic_iv qc a4 m 0 pl pn"
    "construct_mic_header1 h (pre @ m @ r) (length pre) = construct_mic_header1 h m 0"
    "construct_mic_header2 (pre @ m @ r) (length pre) a4 qc = construct_mic_header2 m 0 a4 qc"
    using assms z by (simp_all add: construct_mic_iv_def qos_tid_def construct_mic_header1_def construct_mic_header2_def
        rd_bytes_append_left cong: if_cong)
qed

lemma header_some:
  assumes "32 \<le> length m"
  shows "\<exists>b. construct_mic_iv qc a4 m 0 pl pn = Some b" "\<exists>b. construct_mic_header1 h m 0 = Some b"
    "\<exists>b. construct_mic_header2 m 0 a4 qc = Some b"
proof -
  have rd: "\<exists>b. rd8 m i = Some b" if "i < 32" for i
    using assms that by (simp add: rd8_def)
  have rb: "\<exists>b. rd_bytes m i n = Some b" if "i + n \<le> 32" for i n
    using assms that by (simp add: rd_bytes_def)
  obtain b0 b1 b24 b25 b30 b31 where "rd8 m 0 = Some b0" "rd8 m 1 = Some b1" "rd8 m 24 = Some b24" "rd8 m 25 = Some b25"
    "rd8 m 30 = Some b30" "rd8 m 31 = Some b31"
    using rd [of 0] rd [of 1] rd [of 24] rd [of 25] rd [of 30] rd [of 31] by auto
  moreover obtain x y z u where "rd_bytes m 10 6 = Some x" "rd_bytes m 4 12 = Some y" "rd_bytes m 16 6 = Some z" "rd_bytes m 24 6 = Some u"
    using rb [of 10 6] rb [of 4 12] rb [of 16 6] rb [of 24 6] by auto
  ultimately show "\<exists>b. construct_mic_iv qc a4 m 0 pl pn = Some b" "\<exists>b. construct_mic_header1 h m 0 = Some b"
    "\<exists>b. construct_mic_header2 m 0 a4 qc = Some b"
    by (simp_all add: construct_mic_iv_def qos_tid_def construct_mic_header1_def construct_mic_header2_def)
qed

lemma aes_mic_window:
  assumes "32 \<le> length X" "length X = hdrlen + 8"
  shows "aes_mic key (pre @ X @ P @ r) (length pre) a4 qc hdrlen pn (length P) = ccm_mic key a4 qc hdrlen X pn P"
proof -
  define m where "m = X @ P"
  have len: "length m = hdrlen + 8 + length P" "32 \<le> length m"
    using assms by (simp_all add: m_def)
  have bl: "aes_mic_blocks (length P div 16) key (pre @ m @ r) (length pre + hdrlen + 8) o' = aes_mic_blocks (length P div 16) key m (hdrlen + 8) o'" for o'
    using mic_blocks_window [of "hdrlen + 8" "length P div 16" m key pre r o'] len(1) by (simp add: add.assoc)
  have rr: "rd_bytes (pre @ m @ r) (length pre + hdrlen + 8 + 16 * (length P div 16)) (length P mod 16)
      = rd_bytes m (hdrlen + 8 + 16 * (length P div 16)) (length P mod 16)"
    using rd_bytes_window [of "hdrlen + 8 + 16 * (length P div 16)" "length P mod 16" m pre r] len(1) by (simp add: add.assoc)
  have "aes_mic key (pre @ m @ r) (length pre) a4 qc hdrlen pn (length P) = aes_mic key m 0 a4 qc hdrlen pn (length P)"
    unfolding aes_mic_def header_window [OF len(2)] bl rr add_0 ..
  then show ?thesis
    by (simp add: ccm_mic_def m_def)
qed

lemma ccm_mic_some:
  assumes "32 \<le> length X" "length X = hdrlen + 8"
  shows "\<exists>mic. ccm_mic key a4 qc hdrlen X pn P = Some mic \<and> length mic = 8"
proof -
  define m where "m = X @ P"
  have len: "length m = hdrlen + 8 + length P" "32 \<le> length m"
    using assms by (simp_all add: m_def)
  obtain iv h1 h2 where h: "construct_mic_iv qc a4 m 0 (length P) pn = Some iv" "construct_mic_header1 hdrlen m 0 = Some h1"
    "construct_mic_header2 m 0 a4 qc = Some h2"
    using header_some [OF len(2)] by blast
  let ?o3 = "aes128k128d key (bitwise_xor (aes128k128d key (bitwise_xor (aes128k128d key iv) h1)) h2)"
  obtain o4 where o4: "aes_mic_blocks (length P div 16) key m (hdrlen + 8) ?o3 = Some o4" "length o4 = 16"
    using mic_blocks_window [of "hdrlen + 8" "length P div 16" m key "[]" "[]" ?o3] length_mic_blocks len(1) by fastforce
  obtain q where "rd_bytes m (hdrlen + 8 + 16 * (length P div 16)) (length P mod 16) = Some q"
    using rd_bytes_no_fault [of "hdrlen + 8 + 16 * (length P div 16)" "length P mod 16" m] len(1) by auto
  then show ?thesis
    using h o4 by (simp add: ccm_mic_def m_def [symmetric] aes_mic_def Let_def)
qed

lemma enc_mic_spec:
  assumes "32 \<le> length X" "length M = 8"
  shows "aes_enc_mic key (pre @ X @ C @ M @ r) (length pre) a4 qc pn (length (pre @ X @ C)) (length (pre @ X @ C)) =
    Some (pre @ X @ C @ xor_bytes M (ctr_block key a4 qc X pn 0) @ r)"
proof -
  obtain b where b: "construct_ctr_preload a4 qc (pre @ X @ C @ M @ r) (length pre) pn 0 = Some b" "aes128k128d key b = ctr_block key a4 qc X pn 0"
    using ctr_at [OF assms(1), of a4 qc pre "C @ M @ r"] by metis
  have rd: "rd_bytes (pre @ X @ C @ M @ r) (length (pre @ X @ C)) 8 = Some M"
    using assms(2) by (simp add: rd_bytes_def)
  have pad: "take 8 (bitwise_xor (ctr_block key a4 qc X pn 0) (M @ replicate 8 0)) = xor_bytes M (ctr_block key a4 qc X pn 0)"
    using bitwise_xor_padded [OF length_ctr_block _ assms(2) [symmetric]] assms(2) by simp
  have "wr_bytes (pre @ X @ C @ M @ r) (length (pre @ X @ C)) (xor_bytes M (ctr_block key a4 qc X pn 0))
      = Some (pre @ X @ C @ xor_bytes M (ctr_block key a4 qc X pn 0) @ r)"
    using assms(2) by (simp add: wr_bytes_def)
  then show ?thesis
    unfolding aes_enc_mic_def b(1) bind.bind_lunit rd b(2) pad .
qed

text \<open>The header part of a frame: MAC header and extended IV. \<open>aes_hdr_info\<close> takes the length as
  it is (24 or 30 without QoS control, 26 with it).\<close>

definition ccm_header :: "mem \<Rightarrow> nat \<Rightarrow> bool \<Rightarrow> bool \<Rightarrow> mem \<Rightarrow> bool" where
  "ccm_header X hdrlen a4 qc pn \<longleftrightarrow> 24 \<le> hdrlen \<and> length X = hdrlen + 8 \<and>
     aes_hdr_info X 0 hdrlen = Some (a4, qc, hdrlen) \<and> aes_pn_vector X 0 hdrlen = Some pn"

lemma hdr_info_window:
  assumes "32 \<le> length X"
  shows "aes_hdr_info (pre @ X @ r) (length pre) h = aes_hdr_info X 0 h"
proof -
  have "rd8 (X @ r) 0 = rd8 X 0"
    using assms by (intro rd8_append_left) linarith
  moreover have "rd8 (X @ r) 1 = rd8 X 1"
    using assms by (intro rd8_append_left) linarith
  ultimately have "RTW_GET_LE16 (pre @ X @ r) (length pre) = RTW_GET_LE16 X 0"
    by (simp add: RTW_GET_LE16_def)
  then show ?thesis
    unfolding aes_hdr_info_def by (rule arg_cong)
qed

lemma pn_vector_window:
  assumes "length X = h + 8"
  shows "aes_pn_vector (pre @ X @ r) (length pre) h = aes_pn_vector X 0 h"
proof -
  have "rd8 (pre @ X @ r) (length pre + (h + i)) = rd8 X (h + i)" if "i < 8" for i
    using that assms by (intro rd8_window) simp
  from this [of 0] this [of 1] this [of 4] this [of 5] this [of 6] this [of 7] show ?thesis
    unfolding aes_pn_vector_def add.assoc by simp
qed

lemma aes_cipher_spec:
  assumes X: "32 \<le> length X" "length X = hdrlen + 8" "aes_hdr_info X 0 hdrlen0 = Some (a4, qc, hdrlen)" "aes_pn_vector X 0 hdrlen = Some pn"
    and room: "length room = 8"
  obtains mic where "ccm_mic key a4 qc hdrlen X pn P = Some mic" "length mic = 8"
    "aes_cipher key hdrlen0 (pre @ X @ P @ room @ post) (length pre) (length P) =
       Some (pre @ X @ xor_bytes P (ctr_stream key a4 qc X pn (length P)) @ xor_bytes mic (ctr_block key a4 qc X pn 0) @ post)"
proof -
  obtain mic where mic: "ccm_mic key a4 qc hdrlen X pn P = Some mic" "length mic = 8"
    using ccm_mic_some [OF X(1,2)] by blast
  let ?C = "xor_bytes P (ctr_stream key a4 qc X pn (length P))"
  have lenC: "length ?C = length P"
    using length_ctr_stream [of "length P" key a4 qc X pn] by simp
  have at: "length pre + hdrlen + 8 + length P = length (pre @ X @ P)" "length (pre @ X @ P) = length (pre @ X @ ?C)"
    using X(2) lenC by simp_all
  have wr: "wr_bytes (pre @ X @ P @ room @ post) (length (pre @ X @ P)) mic = Some (pre @ X @ P @ mic @ post)"
    using room mic(2) by (simp add: wr_bytes_def)
  have "aes_cipher key hdrlen0 (pre @ X @ P @ room @ post) (length pre) (length P) =
       Some (pre @ X @ ?C @ xor_bytes mic (ctr_block key a4 qc X pn 0) @ post)"
    unfolding aes_cipher_def hdr_info_window [OF X(1)] X(3) bind.bind_lunit prod.case pn_vector_window [OF X(2)] X(4)
      aes_mic_window [OF X(1,2)] mic(1) at(1) wr aes_ctr_spec [OF X(1,2)]
    unfolding at(2) enc_mic_spec [OF X(1) mic(2)] ..
  then show ?thesis
    using mic that by blast
qed

lemma aes_decipher_spec:
  assumes "ccm_header X hdrlen a4 qc pn" "length T = 8" "length message = 2048" "length X + length C + 8 \<le> 2048"
    and P: "P = xor_bytes C (ctr_stream key a4 qc X pn (length C))"
  obtains mic msg' where "ccm_mic key a4 qc hdrlen X pn P = Some mic" "length msg' = 2048"
    "aes_decipher message key hdrlen (X @ C @ T @ rest) (length C + 8) =
      Some (T = xor_bytes mic (ctr_block key a4 qc X pn 0), X @ P @ T @ rest, msg')"
proof -
  have X: "32 \<le> length X" "length X = hdrlen + 8" "aes_hdr_info X 0 hdrlen = Some (a4, qc, hdrlen)" "aes_pn_vector X 0 hdrlen = Some pn"
    using assms(1) by (simp_all add: ccm_header_def)
  have lenP: "length P = length C"
    using length_ctr_stream [of "length C" key a4 qc X pn] by (simp add: P)
  obtain mic where mic: "ccm_mic key a4 qc hdrlen X pn P = Some mic" "length mic = 8"
    using ccm_mic_some [OF X(1,2)] by blast
  have C: "xor_bytes P (ctr_stream key a4 qc X pn (length P)) = C"
    using xor_bytes_twice [of C "ctr_stream key a4 qc X pn (length C)"] length_ctr_stream [of "length C" key a4 qc X pn]
    unfolding lenP P by simp
  define rest' where "rest' = drop (length X + length C + 8) message"
  let ?T' = "xor_bytes mic (ctr_block key a4 qc X pn 0)"
  have sub: "sub_u32 (length C + 8) 8 = length C"
    using assms(4) by (subst sub_u32_le) simp_all
  have n: "(hdrlen + (length C + 8) + 8) mod 2 ^ 32 = length X + length C + 8"
    using assms(4) X(2) by simp
  have cpy: "rtw_memcpy message 0 (X @ P @ T @ rest) 0 (length X + length C + 8) = Some (X @ P @ T @ rest')"
    using assms(2-4) lenP by (simp add: rtw_memcpy_def rd_bytes_def wr_bytes_def rest'_def add.assoc)
  have at: "hdrlen + 8 + length P = length (X @ P)" "hdrlen + 8 + (length C + 8) - 8 = length (X @ C)" "length (X @ P) = length (X @ C)"
    using X(2) lenP by simp_all
  have wr: "wr_bytes (X @ P @ T @ rest') (length (X @ P)) mic = Some (X @ P @ mic @ rest')"
    using assms(2) mic(2) by (simp add: wr_bytes_def)
  note win = hdr_info_window [OF X(1), of "[]", simplified] pn_vector_window [OF X(2), of "[]", simplified]
    aes_mic_window [OF X(1,2), of key "[]", simplified]
  have ctr1: "aes_ctr key (X @ C @ T @ rest) 0 a4 qc hdrlen pn (length C) = Some (X @ P @ T @ rest)"
    using aes_ctr_spec [OF X(1,2), of key "[]" C "T @ rest"] by (simp add: P)
  have ctr2: "aes_ctr key (X @ P @ mic @ rest') 0 a4 qc hdrlen pn (length P) = Some (X @ C @ mic @ rest')"
    using aes_ctr_spec [OF X(1,2), of key "[]" P "mic @ rest'" a4 qc pn] C by simp
  have enc: "aes_enc_mic key (X @ C @ mic @ rest') 0 a4 qc pn (length (X @ C)) (length (X @ C)) = Some (X @ C @ ?T' @ rest')"
    using enc_mic_spec [OF X(1) mic(2), of key "[]" C rest'] by simp
  have cmp: "rd_bytes (X @ P @ T @ rest) (length (X @ C)) 8 = Some T" "rd_bytes (X @ C @ ?T' @ rest') (length (X @ C)) 8 = Some ?T'"
    using assms(2) mic(2) lenP by (simp_all add: rd_bytes_def)
  have "aes_decipher message key hdrlen (X @ C @ T @ rest) (length C + 8) = Some (T = ?T', X @ P @ T @ rest, X @ C @ ?T' @ rest')"
    unfolding aes_decipher_def win X(3,4) bind.bind_lunit prod.case sub n ctr1 if_P [OF assms(4)] cpy
    unfolding lenP [symmetric] win mic(1) bind.bind_lunit at(1) wr ctr2
    unfolding lenP at(2,3) enc bind.bind_lunit cmp ..
  moreover have "length (X @ C @ ?T' @ rest') = 2048"
    using assms(3,4) mic(2) by (simp add: rest'_def)
  ultimately show ?thesis
    using mic that by blast
qed

section \<open>Frames through the driver entry points\<close>

text \<open>An unfragmented frame in the transmit buffer with room for the MIC.\<close>

definition ccm_tx_frame :: "xmit_frame \<Rightarrow> mem \<Rightarrow> mem \<Rightarrow> mem \<Rightarrow> mem \<Rightarrow> mem \<Rightarrow> bool" where
  "ccm_tx_frame xf pre X bs room post \<longleftrightarrow>
     (let a = attrib xf in
      buf_addr xf \<noteq> None \<and> buf xf = pre @ X @ bs @ room @ post \<and> length pre = unat (hw_hdr_offset xf) \<and>
      length X = unat (tx_hdrlen a) + 8 \<and> tx_iv_len a = 8 \<and> length room = 8 \<and> tx_icv_len a = 8 \<and> nr_frags a = 1 \<and>
      last_txcmdsz a = word_of_nat (length X + length bs + 8) \<and> length X + length bs + 8 \<le> 2048)"

definition ccm_rx_frame :: "recv_frame \<Rightarrow> mem \<Rightarrow> mem \<Rightarrow> mem \<Rightarrow> bool" where
  "ccm_rx_frame rf X cipher post \<longleftrightarrow>
     (let a = rx_attrib rf in
      rx_buf rf = X @ cipher @ post \<and> length X = unat (rx_hdrlen a) + 8 \<and> rx_iv_len a = 8 \<and>
      rx_len rf = word_of_nat (length X + length cipher) \<and> 8 \<le> length cipher \<and> length X + length cipher \<le> 2048)"

lemma ccm_frag_length:
  assumes "ccm_tx_frame xf pre X bs room post"
  shows "unat (word_of_int (frag_length (attrib xf) frag_len True) :: u32) = length bs"
proof -
  have a: "tx_iv_len (attrib xf) = 8" "tx_icv_len (attrib xf) = 8" "length bs < 2 ^ 31"
    "last_txcmdsz (attrib xf) = word_of_nat (unat (tx_hdrlen (attrib xf)) + 8 + length bs + 8)"
    using assms unfolding ccm_tx_frame_def Let_def by simp_all
  have "last_txcmdsz (attrib xf) - ucast (tx_hdrlen (attrib xf)) - ucast (tx_iv_len (attrib xf)) - ucast (tx_icv_len (attrib xf))
      = (word_of_nat (length bs) :: u32)"
    unfolding a(4) ucast_u8_u32 a(1,2) by simp
  then show ?thesis
    using a(3) unfolding frag_length_def by (simp add: unat_of_nat take_bit_nat_eq_self)
qed

lemma ccm_rx_length:
  assumes "ccm_rx_frame rf X cipher post"
  shows "unat (rx_len rf - ucast (rx_hdrlen (rx_attrib rf)) - ucast (rx_iv_len (rx_attrib rf))) = length cipher"
proof -
  have a: "rx_iv_len (rx_attrib rf) = 8" "length cipher < 2 ^ 31"
    "rx_len rf = word_of_nat (unat (rx_hdrlen (rx_attrib rf)) + 8 + length cipher)"
    using assms unfolding ccm_rx_frame_def Let_def by simp_all
  have "rx_len rf - ucast (rx_hdrlen (rx_attrib rf)) - ucast (rx_iv_len (rx_attrib rf)) = (word_of_nat (length cipher) :: u32)"
    unfolding a(3) ucast_u8_u32 a(1) by simp
  then show ?thesis
    using a(2) by (simp add: unat_of_nat take_bit_nat_eq_self)
qed

text \<open>The two directions over the specification: the ciphertext of a payload and the test of a
  received one.\<close>

definition ccm_tag :: "mem \<Rightarrow> bool \<Rightarrow> bool \<Rightarrow> nat \<Rightarrow> mem \<Rightarrow> mem \<Rightarrow> mem \<Rightarrow> mem" where
  "ccm_tag key a4 qc hdrlen X pn P = xor_bytes (the (ccm_mic key a4 qc hdrlen X pn P)) (ctr_block key a4 qc X pn 0)"

definition ccm_payload :: "mem \<Rightarrow> bool \<Rightarrow> bool \<Rightarrow> mem \<Rightarrow> mem \<Rightarrow> mem \<Rightarrow> mem" where
  "ccm_payload key a4 qc X pn C = xor_bytes C (ctr_stream key a4 qc X pn (length C))"

lemma length_ccm_payload [simp]: "length (ccm_payload key a4 qc X pn C) = length C"
  using length_ctr_stream [of "length C" key a4 qc X pn] by (simp add: ccm_payload_def)

lemma ccm_payload_twice [simp]: "ccm_payload key a4 qc X pn (ccm_payload key a4 qc X pn P) = P"
  using xor_bytes_twice [of P "ctr_stream key a4 qc X pn (length P)"] length_ctr_stream [of "length P" key a4 qc X pn]
    length_ccm_payload [of key a4 qc X pn P]
  unfolding ccm_payload_def by simp

lemma rtw_aes_encrypt_frame:
  assumes "ccm_tx_frame xf pre X bs room post" "ccm_header X (unat (tx_hdrlen (attrib xf))) a4 qc pn"
    and "encrypt (attrib xf) = AES" "IS_MCAST (tx_ra (attrib xf)) = Some False"
  defines "tk \<equiv> UncstKey (attrib xf)" and "h \<equiv> unat (tx_hdrlen (attrib xf))"
  shows "rtw_aes_encrypt sec frag_len xf =
      Some (True, xf\<lparr>buf := pre @ X @ (ccm_payload tk a4 qc X pn bs @ ccm_tag tk a4 qc h X pn bs) @ post\<rparr>) \<and>
    length (ccm_tag tk a4 qc h X pn bs) = 8"
proof -
  have f: "length room = 8" "buf xf = pre @ X @ bs @ room @ post" "unat (hw_hdr_offset xf) = length pre" "unat (nr_frags (attrib xf)) = Suc 0"
    using assms(1) by (simp_all add: ccm_tx_frame_def Let_def)
  have hdr: "32 \<le> length X" "length X = unat (tx_hdrlen (attrib xf)) + 8"
    "aes_hdr_info X 0 (unat (tx_hdrlen (attrib xf))) = Some (a4, qc, unat (tx_hdrlen (attrib xf)))"
    "aes_pn_vector X 0 (unat (tx_hdrlen (attrib xf))) = Some pn"
    using assms(2) by (simp_all add: ccm_header_def)
  obtain base where base: "buf_addr xf = Some base"
    using assms(1) by (auto simp: ccm_tx_frame_def Let_def)
  obtain mic where mic: "ccm_mic tk a4 qc h X pn bs = Some mic" "length mic = 8"
    and c: "aes_cipher tk h (pre @ X @ bs @ room @ post) (length pre) (length bs) =
       Some (pre @ X @ xor_bytes bs (ctr_stream tk a4 qc X pn (length bs)) @ xor_bytes mic (ctr_block tk a4 qc X pn 0) @ post)"
    using aes_cipher_spec [OF hdr f(1)] unfolding h_def by metis
  have tag: "ccm_tag tk a4 qc h X pn bs = xor_bytes mic (ctr_block tk a4 qc X pn 0)"
    using mic(1) by (simp add: ccm_tag_def)
  have "aes_frags (unat (nr_frags (attrib xf))) tk (attrib xf) frag_len base 0 (buf xf) (unat (hw_hdr_offset xf)) =
      Some (pre @ X @ (ccm_payload tk a4 qc X pn bs @ ccm_tag tk a4 qc h X pn bs) @ post)"
    unfolding f(2-4) aes_frags.simps ccm_frag_length [OF assms(1)] using c tag by (simp add: ccm_payload_def h_def)
  then show ?thesis
    using base assms(3,4) tag mic(2) by (simp add: rtw_aes_encrypt_def tk_def)
qed

lemma rtw_aes_decrypt_frame:
  assumes "ccm_rx_frame rf X (C @ T) rest" "length T = 8" "ccm_header X (unat (rx_hdrlen (rx_attrib rf))) a4 qc pn" "length message = 2048"
    and "rx_encrypt (rx_attrib rf) = AES" "IS_MCAST (rx_ra (rx_attrib rf)) = Some False"
  shows "\<exists>message'. length message' = 2048 \<and> rtw_aes_decrypt sec (Some tk) message rf =
      Some (T = ccm_tag tk a4 qc (unat (rx_hdrlen (rx_attrib rf))) X pn (ccm_payload tk a4 qc X pn C),
        rf\<lparr>rx_buf := X @ ccm_payload tk a4 qc X pn C @ T @ rest\<rparr>, message')"
proof -
  have f: "rx_buf rf = X @ C @ T @ rest" "length X + length C + 8 \<le> 2048"
    using assms(1,2) by (simp_all add: ccm_rx_frame_def Let_def)
  have n: "unat (rx_len rf - ucast (rx_hdrlen (rx_attrib rf)) - ucast (rx_iv_len (rx_attrib rf))) = length C + 8"
    using ccm_rx_length [OF assms(1)] assms(2) by simp
  obtain mic msg' where mic: "ccm_mic tk a4 qc (unat (rx_hdrlen (rx_attrib rf))) X pn (ccm_payload tk a4 qc X pn C) = Some mic" "length msg' = 2048"
    and d: "aes_decipher message tk (unat (rx_hdrlen (rx_attrib rf))) (X @ C @ T @ rest) (length C + 8) =
      Some (T = xor_bytes mic (ctr_block tk a4 qc X pn 0), X @ ccm_payload tk a4 qc X pn C @ T @ rest, msg')"
    using aes_decipher_spec [OF assms(3,2,4) f(2) ccm_payload_def] by metis
  show ?thesis
    using mic d assms(5,6) unfolding rtw_aes_decrypt_def Let_def n f(1) by (simp add: ccm_tag_def)
qed

text \<open>C7. CCMP round trip: a unicast frame that \<open>rtw_aes_encrypt\<close> seals is accepted by
  \<open>rtw_aes_decrypt\<close> under the same key, with the payload restored, whatever the static message
  buffer holds from earlier frames.\<close>

theorem rtw_aes_roundtrip:
  assumes "ccm_tx_frame xf pre X bs room post" "ccm_header X (unat (tx_hdrlen (attrib xf))) a4 qc pn"
    and "encrypt (attrib xf) = AES" "IS_MCAST (tx_ra (attrib xf)) = Some False"
  shows "\<exists>cipher tag. rtw_aes_encrypt sec frag_len xf = Some (True, xf\<lparr>buf := pre @ X @ (cipher @ tag) @ post\<rparr>) \<and>
    length cipher = length bs \<and> length tag = 8 \<and>
    (\<forall>rf rest message. ccm_rx_frame rf X (cipher @ tag) rest \<longrightarrow> length message = 2048 \<longrightarrow> rx_encrypt (rx_attrib rf) = AES \<longrightarrow>
       rx_ra (rx_attrib rf) = tx_ra (attrib xf) \<longrightarrow>
       (\<exists>message'. rtw_aes_decrypt sec (Some (UncstKey (attrib xf))) message rf
          = Some (True, rf\<lparr>rx_buf := X @ bs @ tag @ rest\<rparr>, message')))"
proof -
  let ?tk = "UncstKey (attrib xf)" and ?h = "unat (tx_hdrlen (attrib xf))"
  let ?C = "ccm_payload ?tk a4 qc X pn bs" and ?T = "ccm_tag ?tk a4 qc ?h X pn bs"
  note enc = rtw_aes_encrypt_frame [OF assms]
  have "\<exists>message'. rtw_aes_decrypt sec (Some ?tk) message rf = Some (True, rf\<lparr>rx_buf := X @ bs @ ?T @ rest\<rparr>, message')"
    if rf: "ccm_rx_frame rf X (?C @ ?T) rest" "length message = 2048" "rx_encrypt (rx_attrib rf) = AES"
      "rx_ra (rx_attrib rf) = tx_ra (attrib xf)" for rf rest message
  proof -
    have h: "unat (rx_hdrlen (rx_attrib rf)) = ?h"
      using rf(1) assms(1) by (simp add: ccm_rx_frame_def ccm_tx_frame_def Let_def)
    show ?thesis
      using rtw_aes_decrypt_frame [OF rf(1) conjunct2 [OF enc], of a4 qc pn message sec ?tk] assms(2,4) rf(2-4) h by auto
  qed
  then show ?thesis
    using enc by (intro exI [of _ ?C] exI [of _ ?T]) simp
qed

definition ccm_demo_X :: mem where
  "ccm_demo_X = [0x88, 0x41, 0, 0, 2, 0, 0, 0, 0, 1, 2, 0, 0, 0, 0, 2, 2, 0, 0, 0, 0, 3, 0x10, 0, 5, 0, 1, 0, 0, 0x20, 0, 0, 0, 0]"

definition ccm_demo_tx :: xmit_frame where
  "ccm_demo_tx = \<lparr>attrib = \<lparr>tx_hdrlen = 26, last_txcmdsz = 45, nr_frags = 1, encrypt = 4, tx_iv_len = 8, tx_icv_len = 8,
      tx_ra = [2, 0, 0, 0, 0, 1], tx_ta = [2, 0, 0, 0, 0, 2], UncstKey = replicate 16 7\<rparr>,
    buf_addr = Some 4096, buf = replicate 40 0 @ ccm_demo_X @ [65, 66, 67] @ replicate 8 0 @ [], pkt_offset = 0\<rparr>"

definition ccm_demo_rx :: "mem \<Rightarrow> recv_frame" where
  "ccm_demo_rx cipher = \<lparr>rx_attrib = \<lparr>rx_hdrlen = 26, rx_encrypt = 4, rx_iv_len = 8, rx_key_index = 0,
      rx_ra = [2, 0, 0, 0, 0, 1], rx_ta = [2, 0, 0, 0, 0, 2]\<rparr>, rx_len = 45, rx_buf = ccm_demo_X @ cipher @ []\<rparr>"

lemma ccm_demo_header: "ccm_header ccm_demo_X 26 False True [1, 0, 0, 0, 0, 0]"
  by code_simp

lemma ccm_demo_frames:
  "ccm_tx_frame ccm_demo_tx (replicate 40 0) ccm_demo_X [65, 66, 67] (replicate 8 0) []"
  "length cipher = 11 \<Longrightarrow> ccm_rx_frame (ccm_demo_rx cipher) ccm_demo_X cipher []"
  by (simp_all add: ccm_tx_frame_def ccm_demo_tx_def hw_hdr_offset_def ccm_rx_frame_def ccm_demo_rx_def ccm_demo_X_def)

lemma ccm_demo_attrib:
  "unat (tx_hdrlen (attrib ccm_demo_tx)) = 26" "encrypt (attrib ccm_demo_tx) = 4" "UncstKey (attrib ccm_demo_tx) = replicate 16 7"
  "IS_MCAST (tx_ra (attrib ccm_demo_tx)) = Some False" "unat (rx_hdrlen (rx_attrib (ccm_demo_rx cipher))) = 26"
  "rx_encrypt (rx_attrib (ccm_demo_rx cipher)) = 4" "IS_MCAST (rx_ra (rx_attrib (ccm_demo_rx cipher))) = Some False"
  "rx_ra (rx_attrib (ccm_demo_rx cipher)) = tx_ra (attrib ccm_demo_tx)"
  by (simp_all add: ccm_demo_tx_def ccm_demo_rx_def IS_MCAST_def)

theorem rtw_aes_roundtrip_witness:
  "\<exists>cipher tag message'. rtw_aes_encrypt wep_demo_sec 2346 ccm_demo_tx
       = Some (True, ccm_demo_tx\<lparr>buf := replicate 40 0 @ ccm_demo_X @ (cipher @ tag) @ []\<rparr>) \<and>
    rtw_aes_decrypt wep_demo_sec (Some (replicate 16 7)) (replicate 2048 0) (ccm_demo_rx (cipher @ tag)) =
      Some (True, (ccm_demo_rx (cipher @ tag))\<lparr>rx_buf := ccm_demo_X @ [65, 66, 67] @ tag @ []\<rparr>, message')"
proof -
  obtain cipher tag where c: "rtw_aes_encrypt wep_demo_sec 2346 ccm_demo_tx
       = Some (True, ccm_demo_tx\<lparr>buf := replicate 40 0 @ ccm_demo_X @ (cipher @ tag) @ []\<rparr>)"
      "length cipher = length [65, 66, 67 :: u8]" "length tag = 8"
    and dec: "\<And>rf rest message. ccm_rx_frame rf ccm_demo_X (cipher @ tag) rest \<Longrightarrow> length message = 2048 \<Longrightarrow> rx_encrypt (rx_attrib rf) = 4 \<Longrightarrow>
       rx_ra (rx_attrib rf) = tx_ra (attrib ccm_demo_tx) \<Longrightarrow>
       \<exists>message'. rtw_aes_decrypt wep_demo_sec (Some (UncstKey (attrib ccm_demo_tx))) message rf
          = Some (True, rf\<lparr>rx_buf := ccm_demo_X @ [65, 66, 67] @ tag @ rest\<rparr>, message')"
    using rtw_aes_roundtrip [OF ccm_demo_frames(1), unfolded ccm_demo_attrib(1), OF ccm_demo_header ccm_demo_attrib(2,4), of wep_demo_sec 2346] by blast
  have "length (cipher @ tag) = 11"
    using c(2,3) by simp
  from dec [OF ccm_demo_frames(2) [OF this], of "replicate 2048 0", OF _ ccm_demo_attrib(6,8), unfolded ccm_demo_attrib(3)] c(1)
  show ?thesis
    by auto
qed

text \<open>C40. \<open>rtw_aes_decrypt\<close> accepts a unicast frame exactly when the last eight bytes are the
  CCM tag of the decrypted payload under the station's key; it never accepts one without a station
  entry.\<close>

theorem rtw_aes_decrypt_checks:
  assumes "ccm_rx_frame rf X (C @ T) rest" "length T = 8" "ccm_header X (unat (rx_hdrlen (rx_attrib rf))) a4 qc pn" "length message = 2048"
    and "rx_encrypt (rx_attrib rf) = AES" "IS_MCAST (rx_ra (rx_attrib rf)) = Some False"
  shows "rtw_aes_decrypt sec None message rf = Some (False, rf, message) \<and>
    (\<exists>message'. length message' = 2048 \<and> rtw_aes_decrypt sec (Some tk) message rf =
      Some (T = ccm_tag tk a4 qc (unat (rx_hdrlen (rx_attrib rf))) X pn (ccm_payload tk a4 qc X pn C),
        rf\<lparr>rx_buf := X @ ccm_payload tk a4 qc X pn C @ T @ rest\<rparr>, message'))"
  using rtw_aes_decrypt_frame [OF assms] assms(5) by (simp add: rtw_aes_decrypt_def)

theorem rtw_aes_decrypt_checks_witness:
  "\<exists>message'. length message' = 2048 \<and> rtw_aes_decrypt wep_demo_sec (Some (replicate 16 7)) (replicate 2048 0) (ccm_demo_rx ([1, 2, 3] @ replicate 8 9)) =
      Some (replicate 8 9 = ccm_tag (replicate 16 7) False True 26 ccm_demo_X [1, 0, 0, 0, 0, 0] (ccm_payload (replicate 16 7) False True ccm_demo_X [1, 0, 0, 0, 0, 0] [1, 2, 3]),
        (ccm_demo_rx ([1, 2, 3] @ replicate 8 9))\<lparr>rx_buf := ccm_demo_X @
          ccm_payload (replicate 16 7) False True ccm_demo_X [1, 0, 0, 0, 0, 0] [1, 2, 3] @ replicate 8 9 @ []\<rparr>, message')"
proof -
  have "length ([1, 2, 3] @ replicate 8 9 :: mem) = 11" "length (replicate 8 9 :: mem) = 8" "length (replicate 2048 0 :: mem) = 2048"
    by simp_all
  from rtw_aes_decrypt_checks [OF ccm_demo_frames(2) [OF this(1)] this(2), unfolded ccm_demo_attrib(5), OF ccm_demo_header this(3) ccm_demo_attrib(6,7)]
  show ?thesis
    by blast
qed

section \<open>Frames that do not fit\<close>

lemma length_aes_mic:
  assumes "aes_mic key m pf a4 qc hdrlen pn plen = Some mic"
  shows "length mic = 8"
  using assms unfolding aes_mic_def Let_def
  by (auto simp: bind_eq_Some_conv dest: length_mic_blocks split: if_splits)

lemma length_wr_bytes: "wr_bytes m a bs = Some m' \<Longrightarrow> length m' = length m"
  by (auto simp: wr_bytes_def split: if_splits)

text \<open>Counter mode walks over its whole range, so it faults when the range leaves the object.\<close>

lemma ctr_blocks_fault:
  "0 < n \<Longrightarrow> length m < idx + 16 * n \<Longrightarrow> aes_ctr_blocks n i key m pf a4 qc pn idx = None"
proof (induction n arbitrary: i m idx)
  case (Suc n)
  show ?case
  proof (cases "aes_ctr_blocks (Suc n) i key m pf a4 qc pn idx")
    case (Some m2)
    then obtain m' blk where m': "rd_bytes m idx 16 = Some blk" "length m' = length m" "aes_ctr_blocks n (i + 1) key m' pf a4 qc pn (idx + 16) = Some m2"
      by (auto simp: bind_eq_Some_conv dest: length_wr_bytes)
    have "idx + 16 \<le> length m"
      using m'(1) by (auto simp: rd_bytes_def split: if_splits)
    then have "0 < n"
      using Suc.prems(2) by (cases n) simp_all
    then have "aes_ctr_blocks n (i + 1) key m' pf a4 qc pn (idx + 16) = None"
      using Suc.IH [of m' "idx + 16" "i + 1"] Suc.prems(2) m'(2) by simp
    then show ?thesis
      using m'(3) by simp
  qed
qed simp

lemma aes_ctr_fault:
  assumes "16 \<le> plen" "length m < pf + hdrlen + 8 + 16 * (plen div 16)"
  shows "aes_ctr key m pf a4 qc hdrlen pn plen = None"
  using ctr_blocks_fault [OF _ assms(2), of 0 key pf a4 qc pn] assms(1) by (simp add: aes_ctr_def div_greater_zero_iff)

lemma hdr_info_grows: "aes_hdr_info m pf hdrlen = Some (a4, qc, h) \<Longrightarrow> hdrlen \<le> h \<and> h \<le> hdrlen + 2"
  unfolding aes_hdr_info_def Let_def
  by (auto simp only: bind_eq_Some_conv option.inject prod.inject le_add1 order_refl split: if_splits)

text \<open>\<open>aes_decipher\<close> on a frame that does not fit its static buffer of 2048 bytes: the frame
  is not copied, but the code goes on to store a MIC at the frame's length in the buffer, which is
  an access outside it.\<close>

theorem aes_decipher_oversize_fault:
  assumes "length message = 2048" "8 \<le> plen" "2048 < hdrlen + plen + 8" "hdrlen + plen + 10 < 2 ^ 32"
  shows "aes_decipher message key hdrlen m plen = None"
proof (cases "aes_decipher message key hdrlen m plen")
  case (Some r)
  then obtain a4 qc h pn mic msg1 where h: "aes_hdr_info m 0 hdrlen = Some (a4, qc, h)"
    and mic: "aes_mic key message 0 a4 qc h pn (sub_u32 plen 8) = Some mic" "wr_bytes message (h + 8 + sub_u32 plen 8) mic = Some msg1"
    using assms(3,4) hdr_info_grows [of m 0 hdrlen] unfolding aes_decipher_def
    by (auto simp: bind_eq_Some_conv split: if_splits)
  have "hdrlen \<le> h"
    using hdr_info_grows [OF h] by simp
  moreover have "h + 8 + sub_u32 plen 8 + 8 \<le> 2048"
    using mic(2) length_aes_mic [OF mic(1)] assms(1) by (auto simp: wr_bytes_def split: if_splits)
  moreover have "sub_u32 plen 8 = plen - 8"
    using assms(2,4) by (intro sub_u32_le) simp_all
  ultimately show ?thesis
    using assms(2,3) by linarith
qed

theorem aes_decipher_oversize_fault_witness:
  "aes_decipher (replicate 2048 0) (replicate 16 7) 26 (ccm_demo_X @ replicate 2100 0) 2100 = None"
  using aes_decipher_oversize_fault [of "replicate 2048 0" 2100 26] by simp

text \<open>\<open>aes_decipher\<close> on a frame whose payload is shorter than a MIC: \<open>plen - 8\<close> wraps to
  almost 4 GiB and the decryption runs out of the frame.\<close>

theorem aes_decipher_short_fault:
  assumes "plen < 8" "length m < 2 ^ 32 - 32"
  shows "aes_decipher message key hdrlen m plen = None"
proof -
  have "aes_ctr key m 0 a4 qc h pn (sub_u32 plen 8) = None" for a4 qc h pn
  proof -
    have s: "sub_u32 plen 8 = plen + 2 ^ 32 - 8"
      using assms(1) by (intro sub_u32_wrap) simp_all
    have "16 \<le> sub_u32 plen 8"
      unfolding s by simp
    moreover have "sub_u32 plen 8 < 16 * (sub_u32 plen 8 div 16) + 16"
      using dividend_less_times_div [of 16 "sub_u32 plen 8"] by simp
    ultimately have "16 \<le> sub_u32 plen 8" "2 ^ 32 - 32 \<le> 16 * (sub_u32 plen 8 div 16)"
      unfolding s by simp_all
    then show ?thesis
      using assms(2) by (intro aes_ctr_fault) linarith+
  qed
  then show ?thesis
    unfolding aes_decipher_def
    by (cases "aes_pn_vector m 0 hdrlen"; cases "aes_hdr_info m 0 hdrlen") auto
qed

theorem aes_decipher_short_fault_witness:
  "aes_decipher (replicate 2048 0) (replicate 16 7) 26 (ccm_demo_X @ [1, 2, 3, 4]) 4 = None"
  by (rule aes_decipher_short_fault) (simp_all add: ccm_demo_X_def)

section \<open>Four-address QoS frames\<close>

lemma take_wr_bytes: "wr_bytes m a bs = Some m' \<Longrightarrow> k \<le> a \<Longrightarrow> take k m' = take k m"
  by (auto simp: wr_bytes_def min_def split: if_splits)

lemma take_ctr_blocks:
  "aes_ctr_blocks n i key m pf a4 qc pn idx = Some m' \<Longrightarrow> k \<le> idx \<Longrightarrow> take k m' = take k m"
proof (induction n arbitrary: i m idx)
  case (Suc n)
  then obtain bs m1 where "wr_bytes m idx bs = Some m1" "aes_ctr_blocks n (i + 1) key m1 pf a4 qc pn (idx + 16) = Some m'"
    by (auto simp: bind_eq_Some_conv)
  then show ?case
    using Suc.IH [of "i + 1" m1 "idx + 16"] Suc.prems(2) take_wr_bytes [of m idx bs m1 k] by simp
qed simp

lemma take_aes_ctr:
  assumes "aes_ctr key m pf a4 qc hdrlen pn plen = Some m'" "k \<le> pf + hdrlen + 8"
  shows "take k m' = take k m"
proof -
  obtain m1 where m1: "aes_ctr_blocks (plen div 16) 0 key m pf a4 qc pn (pf + hdrlen + 8) = Some m1"
    and "m' = m1 \<or> (\<exists>bs. wr_bytes m1 (pf + hdrlen + 8 + 16 * (plen div 16)) bs = Some m')"
    using assms(1) unfolding aes_ctr_def by (auto simp: bind_eq_Some_conv split: if_splits)
  then show ?thesis
    using take_ctr_blocks [OF m1 assms(2)] take_wr_bytes [of m1 _ _ m' k] assms(2) by (metis trans_le_add1)
qed

lemma aes_cipher_keeps_header:
  assumes "aes_cipher key hdrlen m pf plen = Some m'" "aes_hdr_info m pf hdrlen = Some (a4, qc, h)"
  shows "take (pf + h + 8) m' = take (pf + h + 8) m"
proof -
  obtain pn mic m1 m2 where m: "wr_bytes m (pf + h + 8 + plen) mic = Some m1" "aes_ctr key m1 pf a4 qc h pn plen = Some m2"
    "aes_enc_mic key m2 pf a4 qc pn (pf + h + 8 + plen) (pf + h + 8 + plen) = Some m'"
    using assms unfolding aes_cipher_def by (auto simp: bind_eq_Some_conv)
  obtain bs where "wr_bytes m2 (pf + h + 8 + plen) bs = Some m'"
    using m(3) unfolding aes_enc_mic_def by (auto simp: bind_eq_Some_conv)
  then show ?thesis
    using take_wr_bytes [OF m(1)] take_aes_ctr [OF m(2)] take_wr_bytes [of m2 _ bs m'] by simp
qed

text \<open>A QoS data frame with four addresses (\<open>ToDS\<close> and \<open>FromDS\<close>) has a header of 32 bytes, which
  includes the QoS control field.\<close>

definition a4_qos_frame :: "mem \<Rightarrow> nat \<Rightarrow> bool" where
  "a4_qos_frame m pf \<longleftrightarrow> rd8 m pf = Some 0x88 \<and> rd8 m (pf + 1) = Some 0x03"

lemma a4_qos_hdr_info:
  assumes "a4_qos_frame m pf"
  shows "aes_hdr_info m pf 32 = Some (True, True, 34)"
proof -
  have "RTW_GET_LE16 m pf = Some (le16 0x88 0x03)"
    using assms by (simp add: a4_qos_frame_def RTW_GET_LE16_def)
  moreover have "le16 0x88 0x03 AND 0x0c = 8" "drop_bit 4 (le16 0x88 0x03 AND 0xfc) = 8"
    by code_simp+
  ultimately show ?thesis
    unfolding aes_hdr_info_def Let_def by simp
qed

text \<open>On a four-address QoS frame the header length 32 is increased to 34 although it already
  counts the QoS control field: \<open>aes_cipher\<close> then starts two bytes late, and the first two bytes of
  the payload stay in clear.\<close>

theorem aes_cipher_a4_qos_clear:
  assumes "a4_qos_frame m pf" "aes_cipher key 32 m pf plen = Some m'"
  shows "rd_bytes m' (pf + 40) 2 = rd_bytes m (pf + 40) 2"
proof -
  have t: "take (pf + 42) m' = take (pf + 42) m"
    using aes_cipher_keeps_header [OF assms(2) a4_qos_hdr_info [OF assms(1)]] by (simp add: add.assoc)
  then have l: "min (length m') (pf + 42) = min (length m) (pf + 42)"
    by (metis length_take min.commute)
  have "take 2 (drop (pf + 40) m') = take 2 (drop (pf + 40) m)"
    using arg_cong [OF t, of "drop (pf + 40)"] by (simp add: drop_take)
  then show ?thesis
    using l by (auto simp: rd_bytes_def min_def split: if_splits)
qed

definition a4_demo_X :: mem where
  "a4_demo_X = [0x88, 0x03] @ replicate 30 2 @ [1, 0, 0, 0x20, 0, 0, 0, 0] @ [0xaa, 0xbb]"

theorem aes_cipher_a4_qos_clear_witness:
  "\<exists>m'. aes_cipher (replicate 16 7) 32 (a4_demo_X @ [0xcc] @ replicate 8 0) 0 1 = Some m' \<and> rd_bytes m' 40 2 = Some [0xaa, 0xbb]"
proof -
  have X: "32 \<le> length a4_demo_X" "length a4_demo_X = 34 + 8" "aes_hdr_info a4_demo_X 0 32 = Some (True, True, 34)"
    "aes_pn_vector a4_demo_X 0 34 = Some [0, 0x20, 0, 0, 0xaa, 0xbb]" "length (replicate 8 0 :: mem) = 8"
    by code_simp+
  obtain m' where m': "aes_cipher (replicate 16 7) 32 (a4_demo_X @ [0xcc] @ replicate 8 0) 0 1 = Some m'"
    using aes_cipher_spec [OF X, of "replicate 16 7" "[0xcc]" "[]" "[]"] by auto
  have "a4_qos_frame (a4_demo_X @ [0xcc] @ replicate 8 0) 0" "rd_bytes (a4_demo_X @ [0xcc] @ replicate 8 0) (0 + 40) 2 = Some [0xaa, 0xbb]"
    by code_simp+
  then show ?thesis
    using aes_cipher_a4_qos_clear [OF _ m'] m' by simp
qed

end
