(* ===== verification/Recv_Frame.thy ===== *)
theory Recv_Frame
  imports Rtw_Prelude
begin

text \<open>
  Received frames: the part of \<open>struct recv_frame_hdr\<close> the data path works on, the inline
  functions of \<^verbatim>\<open>include/rtw_recv.h\<close> that move its pointers, and, from
  \<^verbatim>\<open>core/rtw_recv.c\<close>, the duplicate filter (\<open>recv_decache\<close>), the conversion to
  Ethernet (\<open>wlanhdr_to_ethhdr\<close>) and the splitting of an A-MSDU (\<open>amsdu_to_msdu\<close> with
  \<open>rtw_os_alloc_msdu_pkt\<close> of \<^verbatim>\<open>os_dep/linux/recv_linux.c\<close>). The theorems show that the
  pointers stay ordered, that conversion gives the Ethernet frame, and that a well-formed A-MSDU is
  split into its subframes.
\<close>

section \<open>State\<close>

record rx_attr =
  a_hdrlen :: u8
  a_iv_len :: u8
  a_icv_len :: u8
  a_encrypt :: u8
  a_bdecrypted :: u8
  a_privacy :: u8
  a_key_index :: u8
  a_seq_num :: u16
  a_frag_num :: u8
  a_mfrag :: u8
  a_amsdu :: u8
  a_qos :: u8
  a_priority :: u8
  a_eth_type :: u16
  a_dst :: mem
  a_src :: mem
  a_ta :: mem
  a_ra :: mem
  a_bssid :: mem
  a_to_fr_ds :: u8
  a_pw_save :: u8
  a_mdata :: u8
  a_order :: u8
  a_ack_policy :: u8

text \<open>\<open>fbuf\<close> is the packet buffer from \<open>rx_head\<close> on; the other pointers are offsets in it. \<open>fid\<close>
  stands for the address of the frame object. \<open>f_psta\<close> is the station the header checks found; \<open>preorder_ctrl\<close> is the entry for
  the priority of the frame in it.\<close>

record rframe =
  fid :: nat
  fattr :: rx_attr
  flen :: u32
  fbuf :: mem
  rx_data :: int
  rx_tail :: int
  rx_end :: int
  f_psta :: "nat option"

text \<open>What the driver does to the outside: a packet goes up the network stack, a frame object
  goes back to \<open>free_recv_queue\<close>, a MIC failure is reported; on the transmit side the packet of a
  frame is handed back to the stack, a frame that was allocated for itself is returned to the
  kernel, the transmit tasklet is scheduled, a frame is handed to the hardware at once, queues of the stack are woken, the beacon is to get a new
  TIM element, the command to look at the broadcast queue is issued; and frames built by the management code
  are sent or handed to it, and frames go to the test mode and to the monitor interface.\<close>

datatype rx_act =
    Indicate mem | Free_recvframe nat | Mic_error bool
  | Pkt_complete nat | Mfree_xmitframe nat | Xmit_tasklet | Xmit_direct nat | Wake_queue "int list" | Update_beacon | Chk_bmc_sleepq | Chk_hi_queue
  | Mp_recv_frame nat | Recv_monitor nat | Issue_nulldata mem | Issue_qos_nulldata mem u16 | Issue_deauth mem u16 | Mgt_dispatcher rframe | Get_ndpa rframe

section \<open>Pointer moves\<close>

text \<open>Each operation gives the new pointer, or \<open>None\<close> for NULL, and the frame. The length is
  unsigned.\<close>

definition recvframe_push :: "rframe \<Rightarrow> int \<Rightarrow> int option \<times> rframe" where
  "recvframe_push f sz =
     (if rx_data f - sz < 0 then (None, f)
      else (Some (rx_data f - sz), f\<lparr>rx_data := rx_data f - sz, flen := flen f + word_of_int sz\<rparr>))"

definition recvframe_pull :: "rframe \<Rightarrow> int \<Rightarrow> int option \<times> rframe" where
  "recvframe_pull f sz =
     (if rx_data f + sz > rx_tail f then (None, f)
      else (Some (rx_data f + sz), f\<lparr>rx_data := rx_data f + sz, flen := flen f - word_of_int sz\<rparr>))"

definition recvframe_put :: "rframe \<Rightarrow> int \<Rightarrow> int option \<times> rframe" where
  "recvframe_put f sz =
     (if rx_tail f + sz > rx_end f then (None, f)
      else (Some (rx_tail f + sz), f\<lparr>rx_tail := rx_tail f + sz, flen := flen f + word_of_int sz\<rparr>))"

definition recvframe_pull_tail :: "rframe \<Rightarrow> int \<Rightarrow> int option \<times> rframe" where
  "recvframe_pull_tail f sz =
     (if rx_tail f - sz < rx_data f then (None, f)
      else (Some (rx_tail f - sz), f\<lparr>rx_tail := rx_tail f - sz, flen := flen f - word_of_int sz\<rparr>))"

section \<open>Duplicate filter\<close>

text \<open>\<open>tid_rxseq\<close> holds the last sequence control value of each of the 16 traffic classes. The flag
  is \<open>_SUCCESS\<close>.\<close>

definition seq_ctrl_of :: "rx_attr \<Rightarrow> u16" where
  "seq_ctrl_of a = push_bit 4 (a_seq_num a) OR (ucast (a_frag_num a) AND 0xf)"

definition recv_decache :: "rx_attr \<Rightarrow> u16 list \<Rightarrow> (bool \<times> u16 list) option" where
  "recv_decache a tid_rxseq =
     (if a_priority a > 15 then Some (False, tid_rxseq)
      else do {
        c \<leftarrow> arr tid_rxseq (unat (a_priority a));
        if seq_ctrl_of a = c then Some (False, tid_rxseq)
        else Some (True, tid_rxseq[unat (a_priority a) := seq_ctrl_of a]) })"

section \<open>Conversion to Ethernet\<close>

definition rtw_rfc1042_header :: mem where
  "rtw_rfc1042_header = [0xaa, 0xaa, 0x03, 0x00, 0x00, 0x00]"

definition rtw_bridge_tunnel_header :: mem where
  "rtw_bridge_tunnel_header = [0xaa, 0xaa, 0x03, 0x00, 0x00, 0xf8]"

text \<open>Offsets in the buffer may be anything after pointer arithmetic; an access below the object
  is a fault.\<close>

definition at_off :: "int \<Rightarrow> nat option" where
  "at_off p = (if p < 0 then None else Some (nat p))"

text \<open>The SNAP header with the type behind it is removed, except for the IPX and AARP types.\<close>

definition is_snap :: "mem \<Rightarrow> mem \<Rightarrow> bool" where
  "is_snap snap typ \<longleftrightarrow> snap = rtw_rfc1042_header \<and> typ \<noteq> [0x81, 0x37] \<and> typ \<noteq> [0x80, 0xf3] \<or> snap = rtw_bridge_tunnel_header"

text \<open>\<open>mp\<close> says that the driver is in the mass-production test state. \<open>rmv_len - sizeof(struct
  ethhdr)\<close> is the number of bytes pulled.\<close>

definition wlanhdr_to_ethhdr :: "bool \<Rightarrow> rframe \<Rightarrow> (bool \<times> rframe) option" where
  "wlanhdr_to_ethhdr mp f0 = (let a = fattr f0; ptr = rx_data f0;
     f = (if a_encrypt a \<noteq> 0 then snd (recvframe_pull_tail f0 (uint (a_icv_len a))) else f0);
     body = ptr + uint (a_hdrlen a) + uint (a_iv_len a) in do {
     p \<leftarrow> at_off body;
     snap \<leftarrow> rd_bytes (fbuf f) p 6;
     typ \<leftarrow> rd_bytes (fbuf f) (p + 6) 2;
     let bsnaphdr = is_snap snap typ;
     let rmv_len = uint (a_hdrlen a) + uint (a_iv_len a) + (if bsnaphdr then 6 else 0);
     let len = (ucast (flen f - word_of_int rmv_len) :: u16);
     q \<leftarrow> at_off (ptr + rmv_len);
     et \<leftarrow> RTW_GET_BE16 (fbuf f) q;
     let f1 = f\<lparr>fattr := a\<lparr>a_eth_type := et\<rparr>\<rparr>;
     if mp then do {
       b \<leftarrow> wr_bytes (fbuf f1) q [0x87, 0x12];
       case recvframe_pull (f1\<lparr>fbuf := b\<rparr>) (rmv_len - 14 + 2 - 24) of
         (None, f2) \<Rightarrow> Some (False, f2)
       | (Some r, f2) \<Rightarrow> do {
           r' \<leftarrow> at_off r;
           status \<leftarrow> rd_bytes (fbuf f2) 0 24;
           b2 \<leftarrow> wr_bytes (fbuf f2) r' status;
           b3 \<leftarrow> wr_bytes b2 (r' + 24) (a_dst a @ a_src a);
           b4 \<leftarrow> (if bsnaphdr then Some b3 else wr_bytes b3 (r' + 36) (RTW_PUT_BE16 len));
           Some (True, f2\<lparr>fbuf := b4\<rparr>) } }
     else
       (case recvframe_pull f1 (rmv_len - 14 + (if bsnaphdr then 2 else 0)) of
          (None, f2) \<Rightarrow> Some (False, f2)
        | (Some r, f2) \<Rightarrow> do {
            r' \<leftarrow> at_off r;
            b3 \<leftarrow> wr_bytes (fbuf f2) r' (a_dst a @ a_src a);
            b4 \<leftarrow> (if bsnaphdr then Some b3 else wr_bytes b3 (r' + 12) (RTW_PUT_BE16 len));
            Some (True, f2\<lparr>fbuf := b4\<rparr>) }) })"

text \<open>The packet that goes up: \<open>skb->data\<close> is \<open>rx_data\<close> and \<open>skb->len\<close> the frame length. The frame
  object returns to the free queue.\<close>

definition pkt_bytes :: "rframe \<Rightarrow> mem" where
  "pkt_bytes f = take (unat (flen f)) (drop (nat (rx_data f)) (fbuf f))"

definition rtw_recv_indicatepkt :: "rframe \<Rightarrow> rx_act list" where
  "rtw_recv_indicatepkt f = [Indicate (pkt_bytes f), Free_recvframe (fid f)]"

section \<open>A-MSDU\<close>

text \<open>The packet made from one subframe. The data is copied to a packet of its own; the type is
  looked at only when the subframe is long enough to hold it. \<open>skb_alloc\<close> says whether the kernel
  has memory for a packet of the given size, \<open>skb_clone\<close> whether it can clone one: without a copy
  the clone holds the same bytes.\<close>

definition msdu_pkt :: "rx_attr \<Rightarrow> mem \<Rightarrow> mem" where
  "msdu_pkt a payload =
     (if 8 \<le> length payload \<and> is_snap (take 6 payload) (take 2 (drop 6 payload))
      then a_dst a @ a_src a @ drop 6 payload
      else a_dst a @ a_src a @ RTW_PUT_BE16 (word_of_nat (length payload)) @ payload)"

definition rtw_os_alloc_msdu_pkt :: "(nat \<Rightarrow> bool) \<Rightarrow> bool \<Rightarrow> rx_attr \<Rightarrow> mem \<Rightarrow> nat \<Rightarrow> nat \<Rightarrow> mem option option" where
  "rtw_os_alloc_msdu_pkt skb_alloc skb_clone a m pdata n =
     (if skb_alloc (n + 12) \<or> skb_clone then do { payload \<leftarrow> rd_bytes m (pdata + 14) n; Some (Some (msdu_pkt a payload)) }
      else Some None)"

text \<open>The subframe loop; \<open>nr\<close> counts the subframes in eight bits, and the loop ends at
  \<open>MAX_SUBFRAME_COUNT\<close> = 64. The packets are indicated after the loop, in order.\<close>

function amsdu_loop :: "(nat \<Rightarrow> bool) \<Rightarrow> bool \<Rightarrow> rx_attr \<Rightarrow> mem \<Rightarrow> nat \<Rightarrow> int \<Rightarrow> nat \<Rightarrow> mem list option" where
  "amsdu_loop al cl a m pdata a_len nr =
     (if a_len > 14 then do {
        n \<leftarrow> RTW_GET_BE16 m (pdata + 12);
        if a_len < 14 + uint n then Some []
        else do {
          pkt \<leftarrow> rtw_os_alloc_msdu_pkt al cl a m pdata (unat n);
          case pkt of None \<Rightarrow> Some []
          | Some bs \<Rightarrow>
             if nr + 1 \<ge> 64 then Some [bs]
             else (let rest = a_len - 14 - uint n; pad = (if (uint n + 14) mod 4 = 0 then 0 else 4 - (uint n + 14) mod 4) in
                   if rest \<noteq> 0 \<and> rest < pad then Some [bs]
                   else do {
                     more \<leftarrow> amsdu_loop al cl a m (pdata + 14 + unat n + (if rest = 0 then 0 else nat pad))
                               (if rest = 0 then 0 else rest - pad) (nr + 1);
                     Some (bs # more) }) } }
      else Some [])"
  by pat_completeness auto
termination
proof (relation "measure (\<lambda>(al, cl, a, m, pdata, a_len, nr). nat a_len)", goal_cases)
  case (2 al cl a m pdata a_len nr n pkt bs rest pad)
  obtain k where k: "uint n = k" "0 \<le> k"
    by simp
  have "(k + 14) mod 4 < 4"
    by simp
  then show ?case
    using 2 k(2) unfolding k(1) by (auto split: if_splits)
qed simp

declare amsdu_loop.simps [simp del]

definition amsdu_to_msdu :: "(nat \<Rightarrow> bool) \<Rightarrow> bool \<Rightarrow> rframe \<Rightarrow> (rframe \<times> rx_act list) option" where
  "amsdu_to_msdu al cl f = (let
     f1 = snd (recvframe_pull f (uint (a_hdrlen (fattr f))));
     f2 = (if a_iv_len (fattr f) > 0 then snd (recvframe_pull f1 (uint (a_iv_len (fattr f)))) else f1) in do {
     p \<leftarrow> at_off (rx_data f2);
     pkts \<leftarrow> amsdu_loop al cl (fattr f2) (fbuf f2) p (sint (flen f2)) 0;
     Some (f2\<lparr>flen := 0\<rparr>, map Indicate pkts @ [Free_recvframe (fid f2)]) })"


section \<open>The pointers stay ordered\<close>

definition rframe_wf :: "rframe \<Rightarrow> bool" where
  "rframe_wf f \<longleftrightarrow> 0 \<le> rx_data f \<and> rx_data f \<le> rx_tail f \<and> rx_tail f \<le> rx_end f \<and> rx_end f \<le> int (length (fbuf f)) \<and>
     length (fbuf f) < 2 ^ 31 \<and> uint (flen f) = rx_tail f - rx_data f"

lemma rframe_wf_len: "rframe_wf f \<Longrightarrow> flen f = word_of_int (rx_tail f - rx_data f)"
  by (metis rframe_wf_def word_of_int_uint)

lemma uint_word_of_int_small: "0 \<le> x \<Longrightarrow> x < 2 ^ 32 \<Longrightarrow> uint (word_of_int x :: u32) = x"
  by (simp add: uint_word_of_int take_bit_int_eq_self)

lemma rframe_wfI:
  assumes "0 \<le> rx_data f" "rx_data f \<le> rx_tail f" "rx_tail f \<le> rx_end f" "rx_end f \<le> int (length (fbuf f))" "length (fbuf f) < 2 ^ 31"
    "flen f = word_of_int (rx_tail f - rx_data f)"
  shows "rframe_wf f"
proof -
  have "uint (flen f) = rx_tail f - rx_data f"
    unfolding assms(6) by (rule uint_word_of_int_small) (use assms in simp_all)
  then show ?thesis
    using assms by (simp add: rframe_wf_def)
qed



definition demo_attr :: rx_attr where
  "demo_attr = \<lparr>a_hdrlen = 26, a_iv_len = 8, a_icv_len = 4, a_encrypt = 2, a_bdecrypted = 1, a_privacy = 1, a_key_index = 0,
     a_seq_num = 7, a_frag_num = 0, a_mfrag = 0, a_amsdu = 0, a_qos = 1, a_priority = 0, a_eth_type = 0,
     a_dst = [2, 0, 0, 0, 0, 1], a_src = [2, 0, 0, 0, 0, 3], a_ta = [2, 0, 0, 0, 0, 2], a_ra = [2, 0, 0, 0, 0, 1], a_bssid = [2, 0, 0, 0, 0, 2], a_to_fr_ds = 1, a_pw_save = 0, a_mdata = 0, a_order = 0, a_ack_policy = 0\<rparr>"

definition demo_frame :: rframe where
  "demo_frame = \<lparr>fid = 1, fattr = demo_attr, flen = 50,
     fbuf = [0, 0] @ (replicate 26 8 @ replicate 8 1) @ (rtw_rfc1042_header @ [0x08, 0x00, 65, 66, 67, 68]) @ [9, 9, 9, 9] @ [5],
     rx_data = 2, rx_tail = 52, rx_end = 53, f_psta = Some 0\<rparr>"


section \<open>Conversion gives the Ethernet frame\<close>

lemma wr_bytes_at: "length bs = length old \<Longrightarrow> wr_bytes (p @ old @ r) (length p) bs = Some (p @ bs @ r)"
  by (simp add: wr_bytes_def)

lemma rd_bytes_at: "n = length x \<Longrightarrow> rd_bytes (p @ x @ r) (length p) n = Some x"
  by simp

text \<open>A frame in its buffer: header and IV, body, ICV when encrypted.\<close>

definition rx_layout :: "rframe \<Rightarrow> mem \<Rightarrow> mem \<Rightarrow> mem \<Rightarrow> mem \<Rightarrow> mem \<Rightarrow> bool" where
  "rx_layout f pre H body icv post \<longleftrightarrow> fbuf f = pre @ H @ body @ icv @ post \<and> length (fbuf f) < 2 ^ 31 \<and>
     rx_data f = int (length pre) \<and> rx_tail f = int (length (pre @ H @ body @ icv)) \<and>
     flen f = word_of_nat (length (H @ body @ icv)) \<and>
     length H = unat (a_hdrlen (fattr f)) + unat (a_iv_len (fattr f)) \<and> 14 \<le> length H \<and>
     (if a_encrypt (fattr f) \<noteq> 0 then length icv = unat (a_icv_len (fattr f)) else icv = []) \<and>
     length (a_dst (fattr f)) = 6 \<and> length (a_src (fattr f)) = 6"

lemma cut_icv:
  assumes "rx_layout f pre H body icv post"
  defines "g \<equiv> (if a_encrypt (fattr f) \<noteq> 0 then snd (recvframe_pull_tail f (uint (a_icv_len (fattr f)))) else f)"
  shows "g = f\<lparr>rx_tail := int (length (pre @ H @ body)), flen := word_of_nat (length (H @ body))\<rparr>"
proof -
  have l: "rx_data f = int (length pre)" "rx_tail f = int (length (pre @ H @ body @ icv))" "flen f = word_of_nat (length (H @ body @ icv))"
    using assms(1) by (simp_all add: rx_layout_def)
  show ?thesis
  proof (cases "a_encrypt (fattr f) = 0")
    case False
    then have icv: "uint (a_icv_len (fattr f)) = int (length icv)"
      using assms(1) by (simp add: rx_layout_def)
    have "flen f - word_of_int (int (length icv)) = word_of_nat (length (H @ body))" "\<not> rx_tail f - int (length icv) < rx_data f"
      "rx_tail f - int (length icv) = int (length (pre @ H @ body))"
      unfolding l by simp_all
    then show ?thesis
      using False by (simp add: g_def recvframe_pull_tail_def icv)
  next
    case True
    then have "icv = []"
      using assms(1) by (simp add: rx_layout_def)
    then have "rx_tail f = int (length (pre @ H @ body))" "flen f = word_of_nat (length (H @ body))"
      using l by simp_all
    then show ?thesis
      using True by (simp add: g_def del: of_nat_add length_append)
  qed
qed


lemma pulled:
  assumes "rx_data g + int k \<le> rx_tail g" "flen g = word_of_nat (k + n)"
  shows "recvframe_pull g (int k) = (Some (rx_data g + int k), g\<lparr>rx_data := rx_data g + int k, flen := word_of_nat n\<rparr>)"
  using assms by (simp add: recvframe_pull_def)

text \<open>The two cases as functions of the parts of the buffer.\<close>

lemma eth_snap:
  assumes g: "fbuf g = pre @ (H1 @ H2) @ (S @ R) @ post" "rx_data g = int (length pre)" "rx_tail g = int (length (pre @ (H1 @ H2) @ (S @ R)))"
    "flen g = word_of_nat (length ((H1 @ H2) @ (S @ R)))" and len: "length H2 = 6" "length S = 6" "length D = 12"
  defines "r \<equiv> int (length pre) + int (length H1)"
  shows "recvframe_pull g (int (length (H1 @ H2)) + 6 - 14 + 2) = (Some r, g\<lparr>rx_data := r, flen := word_of_nat (length (D @ R))\<rparr>)"
    "wr_bytes (fbuf g) (nat r) D = Some (pre @ H1 @ D @ R @ post)"
proof -
  have k: "int (length (H1 @ H2)) + 6 - 14 + 2 = int (length H1)" and n: "flen g = word_of_nat (length H1 + length (D @ R))"
    using len g(4) by simp_all
  have "rx_data g + int (length H1) \<le> rx_tail g"
    unfolding g(2,3) by simp
  from pulled [OF this n] show "recvframe_pull g (int (length (H1 @ H2)) + 6 - 14 + 2) = (Some r, g\<lparr>rx_data := r, flen := word_of_nat (length (D @ R))\<rparr>)"
    unfolding k r_def g(2) .
  have "nat r = length (pre @ H1)"
    by (simp add: r_def nat_add_distrib)
  then show "wr_bytes (fbuf g) (nat r) D = Some (pre @ H1 @ D @ R @ post)"
    using wr_bytes_at [of D "H2 @ S" "pre @ H1" "R @ post"] len unfolding g(1) by simp
qed

lemma eth_plain:
  assumes g: "fbuf g = pre @ (H1 @ H2 @ H3) @ B @ post" "rx_data g = int (length pre)" "rx_tail g = int (length (pre @ (H1 @ H2 @ H3) @ B))"
    "flen g = word_of_nat (length ((H1 @ H2 @ H3) @ B))" and len: "length H2 = 12" "length D = 12" "length H3 = 2" "length L = 2"
  defines "r \<equiv> int (length pre) + int (length H1)"
  shows "recvframe_pull g (int (length (H1 @ H2 @ H3)) - 14) = (Some r, g\<lparr>rx_data := r, flen := word_of_nat (length (D @ L @ B))\<rparr>)"
    "wr_bytes (fbuf g) (nat r) D = Some (pre @ H1 @ D @ H3 @ B @ post)"
    "wr_bytes (pre @ H1 @ D @ H3 @ B @ post) (nat r + 12) L = Some (pre @ H1 @ D @ L @ B @ post)"
proof -
  have k: "int (length (H1 @ H2 @ H3)) - 14 = int (length H1)" and n: "flen g = word_of_nat (length H1 + length (D @ L @ B))"
    using len g(4) by simp_all
  have "rx_data g + int (length H1) \<le> rx_tail g"
    unfolding g(2,3) by simp
  from pulled [OF this n] show "recvframe_pull g (int (length (H1 @ H2 @ H3)) - 14) = (Some r, g\<lparr>rx_data := r, flen := word_of_nat (length (D @ L @ B))\<rparr>)"
    unfolding k r_def g(2) .
  have r: "nat r = length (pre @ H1)"
    by (simp add: r_def nat_add_distrib)
  show "wr_bytes (fbuf g) (nat r) D = Some (pre @ H1 @ D @ H3 @ B @ post)"
    using wr_bytes_at [of D H2 "pre @ H1" "H3 @ B @ post"] len r unfolding g(1) by simp
  show "wr_bytes (pre @ H1 @ D @ H3 @ B @ post) (nat r + 12) L = Some (pre @ H1 @ D @ L @ B @ post)"
    using wr_bytes_at [of L H3 "pre @ H1 @ D" "B @ post"] len r by (simp add: add.assoc)
qed

lemma pkt_bytes_at:
  assumes "fbuf g = p @ x @ q" "rx_data g = int (length p)" "flen g = word_of_nat (length x)" "length x < 2 ^ 32"
  shows "pkt_bytes g = x"
  using assms by (simp add: pkt_bytes_def unat_of_nat take_bit_nat_eq_self)

lemma ucast_small: "n < 2 ^ 16 \<Longrightarrow> (ucast (word_of_nat n :: u32) :: u16) = word_of_nat n"
  by (simp add: word_unat_eq_iff unsigned_ucast_eq unat_of_nat take_bit_nat_eq_self)

lemma RTW_GET_BE16_no_fault: "a + 2 \<le> length m \<Longrightarrow> \<exists>v. RTW_GET_BE16 m a = Some v"
  by (simp add: RTW_GET_BE16_def rd8_def)

lemma wlanhdr_to_ethhdr_ok:
  assumes "rx_layout f pre H body icv post" "8 \<le> length body" "length body < 2 ^ 16"
  shows "\<exists>f'. wlanhdr_to_ethhdr False f = Some (True, f') \<and> pkt_bytes f' = msdu_pkt (fattr f) body \<and> fid f' = fid f \<and>
    (\<exists>et. fattr f' = (fattr f)\<lparr>a_eth_type := et\<rparr>)"
proof -
  let ?a = "fattr f" and ?D = "a_dst (fattr f) @ a_src (fattr f)"
  define g where "g = f\<lparr>rx_tail := int (length (pre @ H @ body)), flen := word_of_nat (length (H @ body))\<rparr>"
  have g: "fbuf g = pre @ H @ body @ (icv @ post)" "rx_data g = int (length pre)" "rx_tail g = int (length (pre @ H @ body))"
    "flen g = word_of_nat (length (H @ body))" "fattr g = ?a" "fid g = fid f"
    and H: "uint (a_hdrlen ?a) + uint (a_iv_len ?a) = int (length H)" "14 \<le> length H" and d: "rx_data f = int (length pre)"
    and D: "length ?D = 12"
    using assms(1) by (simp_all add: g_def rx_layout_def)
  have small: "length (pre @ H @ body) < 2 ^ 31"
    using assms(1) unfolding rx_layout_def by (metis append_assoc length_append not_add_less1 not_less trans_less_add1 linorder_not_le order_le_less_trans le_add1)
  define S R where "S = take 6 body" and "R = drop 6 body"
  have body: "body = S @ R" "length S = 6" "2 \<le> length R"
    using assms(2) by (simp_all add: S_def R_def)
  define T where "T = take 2 R"
  have off: "at_off (int (length pre) + uint (a_hdrlen ?a) + uint (a_iv_len ?a)) = Some (length (pre @ H))"
    unfolding add.assoc H(1) by (simp add: at_off_def nat_add_distrib)
  have rd: "rd_bytes (fbuf g) (length (pre @ H)) 6 = Some S" "rd_bytes (fbuf g) (length (pre @ H) + 6) 2 = Some T"
    using rd_bytes_at [of 6 S "pre @ H" "R @ icv @ post"] rd_bytes_at [of 2 T "pre @ H @ S" "drop 2 R @ icv @ post"] body
    by (simp_all add: g(1) T_def add.assoc append_assoc [symmetric] del: append_assoc)
  have msdu: "msdu_pkt ?a body = (if is_snap S T then ?D @ R else ?D @ RTW_PUT_BE16 (word_of_nat (length body)) @ body)"
    using assms(2) by (simp add: msdu_pkt_def S_def T_def R_def)
  have "length (pre @ H) + 6 + 2 \<le> length (fbuf g)"
    using body by (simp add: g(1))
  then obtain et1 et2 where et1: "RTW_GET_BE16 (fbuf g) (length (pre @ H) + 6) = Some et1" and et2: "RTW_GET_BE16 (fbuf g) (length (pre @ H)) = Some et2"
    using RTW_GET_BE16_no_fault [of "length (pre @ H) + 6" "fbuf g"] RTW_GET_BE16_no_fault [of "length (pre @ H)" "fbuf g"] by auto
  note start = wlanhdr_to_ethhdr_def Let_def cut_icv [OF assms(1), folded g_def] d off bind.bind_lunit rd H(1) if_False
  show ?thesis
  proof (cases "is_snap S T")
    case True
    define H1 H2 where "H1 = take (length H - 6) H" and "H2 = drop (length H - 6) H"
    have H12: "H = H1 @ H2" "length H2 = 6"
      using H(2) by (simp_all add: H1_def H2_def)
    let ?g = "g\<lparr>fattr := ?a\<lparr>a_eth_type := et1\<rparr>\<rparr>" and ?r = "int (length pre) + int (length H1)"
    have q: "at_off (int (length pre) + (int (length H) + 6)) = Some (length (pre @ H) + 6)" "at_off ?r = Some (nat ?r)"
      by (simp_all add: at_off_def nat_add_distrib)
    have e: "recvframe_pull ?g (int (length H) + 6 - 14 + 2) = (Some ?r, ?g\<lparr>rx_data := ?r, flen := word_of_nat (length (?D @ R))\<rparr>)"
      "wr_bytes (fbuf ?g) (nat ?r) ?D = Some (pre @ H1 @ ?D @ R @ icv @ post)"
      using eth_snap [of ?g pre H1 H2 S R "icv @ post" ?D] H12 body(1,2) D g(1-4) by simp_all
    define f' where "f' = ?g\<lparr>rx_data := ?r, flen := word_of_nat (length (?D @ R)), fbuf := pre @ H1 @ ?D @ R @ icv @ post\<rparr>"
    have "wlanhdr_to_ethhdr False f = Some (True, f')"
      unfolding start if_P [OF True] q et1 e prod.case option.case using e(2) by (simp add: f'_def)
    moreover have "pkt_bytes f' = ?D @ R"
      by (rule pkt_bytes_at [of _ "pre @ H1" _ "icv @ post"]) (use small body D H12 in \<open>simp_all add: f'_def\<close>)
    ultimately show ?thesis
      using msdu True g(5,6) by (auto simp: f'_def)
  next
    case False
    define H1 H2 H3 where "H1 = take (length H - 14) H" and "H2 = take 12 (drop (length H - 14) H)" and "H3 = drop (length H - 2) H"
    have "drop (length H - 14) H = H2 @ H3"
      using H(2) append_take_drop_id [of 12 "drop (length H - 14) H"] by (simp add: H2_def H3_def)
    then have H12: "H = H1 @ H2 @ H3" "length H2 = 12" "length H3 = 2"
      using H(2) append_take_drop_id [of "length H - 14" H] by (simp_all add: H1_def H2_def H3_def)
    let ?g = "g\<lparr>fattr := ?a\<lparr>a_eth_type := et2\<rparr>\<rparr>" and ?r = "int (length pre) + int (length H1)" and ?L = "RTW_PUT_BE16 (word_of_nat (length body))"
    have q: "at_off (int (length pre) + (int (length H) + 0)) = Some (length (pre @ H))" "at_off ?r = Some (nat ?r)"
      by (simp_all add: at_off_def nat_add_distrib)
    have L: "length ?L = 2"
      by (simp add: RTW_PUT_BE16_def)
    have lw: "(ucast (flen g - word_of_int (int (length H) + 0)) :: u16) = word_of_nat (length body)"
    proof -
      have "flen g - word_of_int (int (length H) + 0) = word_of_nat (length body)"
        using g(4) by simp
      then show ?thesis
        using ucast_small [OF assms(3)] by simp
    qed
    have e: "recvframe_pull ?g (int (length H) + 0 - 14 + 0) = (Some ?r, ?g\<lparr>rx_data := ?r, flen := word_of_nat (length (?D @ ?L @ body))\<rparr>)"
      "wr_bytes (fbuf ?g) (nat ?r) ?D = Some (pre @ H1 @ ?D @ H3 @ body @ icv @ post)"
      "wr_bytes (pre @ H1 @ ?D @ H3 @ body @ icv @ post) (nat ?r + 12) ?L = Some (pre @ H1 @ ?D @ ?L @ body @ icv @ post)"
      using eth_plain [of ?g pre H1 H2 H3 body "icv @ post" ?D ?L] H12 D L g(1-4) by simp_all
    define f' where "f' = ?g\<lparr>rx_data := ?r, flen := word_of_nat (length (?D @ ?L @ body)), fbuf := pre @ H1 @ ?D @ ?L @ body @ icv @ post\<rparr>"
    have "wlanhdr_to_ethhdr False f = Some (True, f')"
      unfolding start if_not_P [OF False] q et2 lw e prod.case option.case using e(2,3) by (simp add: f'_def)
    moreover have "pkt_bytes f' = ?D @ ?L @ body"
      by (rule pkt_bytes_at [of _ "pre @ H1" _ "icv @ post"]) (use small D L H12 in \<open>simp_all add: f'_def\<close>)
    ultimately show ?thesis
      using msdu False g(5,6) by (auto simp: f'_def)
  qed
qed

text \<open>C25. \<open>wlanhdr_to_ethhdr\<close> turns a data frame into the Ethernet frame of its payload: destination,
  source, and either the type and data behind a SNAP header, or a length field and the whole
  payload.\<close>

theorem wlanhdr_to_ethhdr_correct:
  assumes "rx_layout f pre H body icv post" "8 \<le> length body" "length body < 2 ^ 16"
  shows "\<exists>f'. wlanhdr_to_ethhdr False f = Some (True, f') \<and> pkt_bytes f' = msdu_pkt (fattr f) body"
  using wlanhdr_to_ethhdr_ok [OF assms] by blast

lemma demo_layout:
  "rx_layout demo_frame [0, 0] (replicate 26 8 @ replicate 8 1) (rtw_rfc1042_header @ [0x08, 0x00, 65, 66, 67, 68]) [9, 9, 9, 9] [5]"
  by (simp add: rx_layout_def demo_frame_def demo_attr_def rtw_rfc1042_header_def)

theorem wlanhdr_to_ethhdr_correct_witness:
  "\<exists>f'. wlanhdr_to_ethhdr False demo_frame = Some (True, f') \<and>
    pkt_bytes f' = [2, 0, 0, 0, 0, 1] @ [2, 0, 0, 0, 0, 3] @ [0x08, 0x00, 65, 66, 67, 68]"
proof -
  have "msdu_pkt (fattr demo_frame) (rtw_rfc1042_header @ [0x08, 0x00, 65, 66, 67, 68]) =
      [2, 0, 0, 0, 0, 1] @ [2, 0, 0, 0, 0, 3] @ [0x08, 0x00, 65, 66, 67, 68]"
    by code_simp
  then show ?thesis
    using wlanhdr_to_ethhdr_correct [OF demo_layout] by (simp add: rtw_rfc1042_header_def)
qed

section \<open>Splitting of an A-MSDU\<close>

text \<open>The subframes as the standard writes them: a header of two addresses and a length, the payload,
  and padding to a multiple of four except behind the last.\<close>

fun amsdu_enc :: "(mem \<times> mem) list \<Rightarrow> mem" where
  "amsdu_enc [] = []"
| "amsdu_enc [(h, p)] = h @ RTW_PUT_BE16 (word_of_nat (length p)) @ p"
| "amsdu_enc ((h, p) # s # ss) = h @ RTW_PUT_BE16 (word_of_nat (length p)) @ p @ replicate ((4 - (length p + 14) mod 4) mod 4) 0 @ amsdu_enc (s # ss)"

definition good_sub :: "mem \<times> mem \<Rightarrow> bool" where
  "good_sub s \<longleftrightarrow> length (fst s) = 12 \<and> 0 < length (snd s) \<and> length (snd s) < 2 ^ 16"

lemma get_be16_at: "n < 2 ^ 16 \<Longrightarrow> RTW_GET_BE16 (p @ RTW_PUT_BE16 (word_of_nat n) @ r) (length p) = Some (word_of_nat n)"
  by (simp add: RTW_GET_BE16_def RTW_PUT_BE16_def le16_split)

lemma uint_of_nat_u16: "n < 2 ^ 16 \<Longrightarrow> uint (word_of_nat n :: u16) = int n" "n < 2 ^ 16 \<Longrightarrow> unat (word_of_nat n :: u16) = n"
  by (simp_all add: uint_nat unat_of_nat take_bit_nat_eq_self)

text \<open>One round of the loop on a subframe.\<close>

lemma amsdu_round:
  assumes "good_sub (h, p)" "al (length p + 12) \<or> cl" "a_len \<ge> int (length p + 14)" "nr < 64"
  defines "rest \<equiv> a_len - int (length p + 14)" and "pad \<equiv> int ((4 - (length p + 14) mod 4) mod 4)"
  assumes "rest = 0 \<or> pad \<le> rest"
  shows "amsdu_loop al cl a (pre @ h @ RTW_PUT_BE16 (word_of_nat (length p)) @ p @ r) (length pre) a_len nr =
    (if nr = 63 then Some [msdu_pkt a p] else do { more \<leftarrow> amsdu_loop al cl a (pre @ h @ RTW_PUT_BE16 (word_of_nat (length p)) @ p @ r)
                   (length pre + length p + 14 + (if rest = 0 then 0 else nat pad)) (if rest = 0 then 0 else rest - pad) (nr + 1);
         Some (msdu_pkt a p # more) })"
proof -
  let ?m = "pre @ h @ RTW_PUT_BE16 (word_of_nat (length p)) @ p @ r"
  have h: "length h = 12" "0 < length p" "length p < 2 ^ 16"
    using assms(1) by (simp_all add: good_sub_def)
  have be: "RTW_GET_BE16 ?m (length pre + 12) = Some (word_of_nat (length p))"
    using get_be16_at [OF h(3), of "pre @ h" "p @ r"] h(1) by simp
  have "rd_bytes ?m (length (pre @ h @ RTW_PUT_BE16 (word_of_nat (length p)))) (length p) = Some p"
    using rd_bytes_at [of "length p" p "pre @ h @ RTW_PUT_BE16 (word_of_nat (length p))" r] by simp
  then have rd: "rd_bytes ?m (length pre + 14) (length p) = Some p"
    using h(1) by (simp add: RTW_PUT_BE16_def)
  have pk: "rtw_os_alloc_msdu_pkt al cl a ?m (length pre) (length p) = Some (Some (msdu_pkt a p))"
    using rd assms(2) by (simp add: rtw_os_alloc_msdu_pkt_def)
  have "0 < int (length p)"
    using h(2) by simp
  then have c1: "a_len > 14"
    using assms(3) by linarith
  have c2: "\<not> a_len < 14 + int (length p)"
    using assms(3) by simp
  have nr: "nr + 1 \<ge> 64 \<longleftrightarrow> nr = 63"
    using assms(4) by linarith
  have pad: "(if (int (length p) + 14) mod 4 = 0 then 0 else 4 - (int (length p) + 14) mod 4) = pad"
  proof -
    have "(int (length p) + 14) mod 4 = int ((length p + 14) mod 4)"
      by (simp add: zmod_int)
    moreover define k where "k = (length p + 14) mod 4"
    moreover have "k < 4"
      by (simp add: k_def)
    ultimately show ?thesis
      unfolding pad_def by (auto simp: of_nat_diff)
  qed
  have rest: "a_len - 14 - int (length p) = rest"
    by (simp add: rest_def)
  have g: "\<not> (rest \<noteq> 0 \<and> rest < pad)"
    using assms(7) by auto
  show ?thesis
    unfolding amsdu_loop.simps [of al cl a ?m "length pre" a_len nr] if_P [OF c1] be bind.bind_lunit uint_of_nat_u16 [OF h(3)] if_not_P [OF c2]
      pk option.case nr Let_def rest pad if_not_P [OF g]
    by (simp add: ac_simps)
qed


lemma amsdu_loop_end: "a_len \<le> 14 \<Longrightarrow> amsdu_loop al cl a m pdata a_len nr = Some []"
  by (simp add: amsdu_loop.simps)

lemma amsdu_enc_pos: "ss \<noteq> [] \<Longrightarrow> list_all good_sub ss \<Longrightarrow> 14 < length (amsdu_enc ss)"
  by (cases ss rule: amsdu_enc.cases) (auto simp: good_sub_def RTW_PUT_BE16_def)

lemma amsdu_loop_enc:
  assumes "\<And>n. al n \<or> cl"
  shows "list_all good_sub ss \<Longrightarrow> ss \<noteq> [] \<Longrightarrow> nr + length ss \<le> 64 \<Longrightarrow>
    amsdu_loop al cl a (pre @ amsdu_enc ss @ r) (length pre) (int (length (amsdu_enc ss))) nr = Some (map (msdu_pkt a \<circ> snd) ss)"
proof (induction ss arbitrary: pre nr rule: amsdu_enc.induct)
  case (2 h p)
  have len: "length (amsdu_enc [(h, p)]) = length p + 14"
    using "2.prems"(1) by (simp add: good_sub_def RTW_PUT_BE16_def)
  have "amsdu_loop al cl a (pre @ h @ RTW_PUT_BE16 (word_of_nat (length p)) @ p @ r) (length pre) (int (length p + 14)) nr = Some [msdu_pkt a p]"
    using "2.prems" amsdu_round [of h p al cl "int (length p + 14)" nr a pre r] assms [of "length p + 12"] by (simp add: amsdu_loop_end)
  then show ?case
    unfolding len by simp
next
  case (3 h p s ss)
  let ?pad = "(4 - (length p + 14) mod 4) mod 4"
  let ?pre = "pre @ h @ RTW_PUT_BE16 (word_of_nat (length p)) @ p @ replicate ?pad 0"
  have sub: "length h = 12" "good_sub (h, p)" "list_all good_sub (s # ss)"
    using "3.prems"(1) good_sub_def [of "(h, p)"] by simp_all
  have len: "length (amsdu_enc ((h, p) # s # ss)) = length p + 14 + (?pad + length (amsdu_enc (s # ss)))" "length ?pre = length pre + length p + 14 + ?pad"
    using sub(1) by (simp_all add: RTW_PUT_BE16_def)
  have rest: "int (length (amsdu_enc ((h, p) # s # ss))) - int (length p + 14) = int ?pad + int (length (amsdu_enc (s # ss)))"
    unfolding len by simp
  have pos: "int ?pad + int (length (amsdu_enc (s # ss))) \<noteq> 0"
    using amsdu_enc_pos [OF _ sub(3)] by simp
  have IH: "amsdu_loop al cl a (?pre @ amsdu_enc (s # ss) @ r) (length ?pre) (int (length (amsdu_enc (s # ss)))) (nr + 1) =
      Some (map (msdu_pkt a \<circ> snd) (s # ss))"
    using "3.IH" [OF sub(3), of "nr + 1" ?pre] "3.prems"(3) by simp
  have round: "amsdu_loop al cl a (pre @ h @ RTW_PUT_BE16 (word_of_nat (length p)) @ p @ (replicate ?pad 0 @ amsdu_enc (s # ss) @ r)) (length pre)
      (int (length (amsdu_enc ((h, p) # s # ss)))) nr =
    do { more \<leftarrow> amsdu_loop al cl a (pre @ h @ RTW_PUT_BE16 (word_of_nat (length p)) @ p @ (replicate ?pad 0 @ amsdu_enc (s # ss) @ r))
                   (length pre + length p + 14 + ?pad) (int (length (amsdu_enc (s # ss)))) (nr + 1);
         Some (msdu_pkt a p # more) }"
    using amsdu_round [OF sub(2), of al cl "int (length (amsdu_enc ((h, p) # s # ss)))" nr a pre "replicate ?pad 0 @ amsdu_enc (s # ss) @ r"]
      assms [of "length p + 12"] "3.prems"(3) pos unfolding rest by (simp add: len(1) del: amsdu_enc.simps)
  show ?case
    using round IH unfolding len(2) by simp
qed simp

text \<open>The loop stays inside the buffer for every content.\<close>

lemma amsdu_loop_in_bounds:
  "int pdata + a_len \<le> int (length m) \<Longrightarrow> nr < 64 \<Longrightarrow> \<exists>pkts. amsdu_loop al cl a m pdata a_len nr = Some pkts \<and> nr + length pkts \<le> 64"
proof (induction al cl a m pdata a_len nr rule: amsdu_loop.induct)
  case (1 al cl a m pdata a_len nr)
  note unfold = amsdu_loop.simps [of al cl a m pdata a_len nr]
  show ?case
  proof (cases "a_len > 14")
    case True
    have "pdata + 12 + 2 \<le> length m"
      using True "1.prems"(1) by linarith
    then obtain n where n: "RTW_GET_BE16 m (pdata + 12) = Some n"
      using RTW_GET_BE16_no_fault by blast
    define k where "k = unat n"
    have k: "uint n = int k"
      by (simp add: k_def)
    show ?thesis
    proof (cases "a_len < 14 + int k")
      case False
      then have "pdata + 14 + k \<le> length m"
        using "1.prems"(1) by linarith
      then obtain payload where "rd_bytes m (pdata + 14) k = Some payload"
        using rd_bytes_no_fault by blast
      then obtain pkt where pkt: "rtw_os_alloc_msdu_pkt al cl a m pdata k = Some pkt"
        by (cases "al (k + 12) \<or> cl") (simp_all add: rtw_os_alloc_msdu_pkt_def)
      show ?thesis
      proof (cases pkt)
        case (Some bs)
        define rest pad where "rest = a_len - 14 - int k" and "pad = (if (int k + 14) mod 4 = 0 then 0 else 4 - (int k + 14) mod 4)"
        have pad: "0 \<le> pad"
          unfolding pad_def by (cases "(int k + 14) mod 4 = 0") (simp_all add: less_imp_le)
        have IH: "\<exists>pkts. amsdu_loop al cl a m (pdata + 14 + k + (if rest = 0 then 0 else nat pad)) (if rest = 0 then 0 else rest - pad) (nr + 1) = Some pkts \<and>
            nr + 1 + length pkts \<le> 64" if "\<not> nr + 1 \<ge> 64" "\<not> (rest \<noteq> 0 \<and> rest < pad)"
          using "1.IH" [OF True n _ _ Some, unfolded k k_def [symmetric], OF False pkt that(1) rest_def pad_def that(2)] that "1.prems"(1) pad
          by (auto simp: rest_def)
        have step: "amsdu_loop al cl a m pdata a_len nr = (if nr + 1 \<ge> 64 then Some [bs] else if rest \<noteq> 0 \<and> rest < pad then Some [bs]
            else do { more \<leftarrow> amsdu_loop al cl a m (pdata + 14 + k + (if rest = 0 then 0 else nat pad)) (if rest = 0 then 0 else rest - pad) (nr + 1);
                      Some (bs # more) })"
          unfolding unfold if_P [OF True] n bind.bind_lunit k k_def [symmetric] if_not_P [OF False] pkt Some option.case Let_def
            rest_def [symmetric] pad_def [symmetric] ..
        show ?thesis
          using IH "1.prems"(2) unfolding step by (auto simp del: ex_simps)
      qed (use True n False pkt "1.prems"(2) in \<open>auto simp: unfold k k_def [symmetric]\<close>)
    qed (use True n "1.prems"(2) in \<open>auto simp: unfold k\<close>)
  qed (use "1.prems"(2) in \<open>simp add: amsdu_loop_end\<close>)
qed

text \<open>An A-MSDU in its buffer: header and IV, the subframes, the rest of the buffer.\<close>

definition amsdu_layout :: "rframe \<Rightarrow> mem \<Rightarrow> mem \<Rightarrow> mem \<Rightarrow> mem \<Rightarrow> bool" where
  "amsdu_layout f pre H body post \<longleftrightarrow> fbuf f = pre @ H @ body @ post \<and> length (fbuf f) < 2 ^ 31 \<and>
     rx_data f = int (length pre) \<and> rx_tail f = int (length (pre @ H @ body)) \<and> flen f = word_of_nat (length (H @ body)) \<and>
     length H = unat (a_hdrlen (fattr f)) + unat (a_iv_len (fattr f))"

lemma amsdu_start:
  assumes "amsdu_layout f pre H body post"
  shows "amsdu_to_msdu al cl f = do { pkts \<leftarrow> amsdu_loop al cl (fattr f) (fbuf f) (length (pre @ H)) (int (length body)) 0;
     Some (f\<lparr>rx_data := int (length (pre @ H)), flen := 0\<rparr>, map Indicate pkts @ [Free_recvframe (fid f)]) }"
proof -
  define h i where "h = unat (a_hdrlen (fattr f))" and "i = unat (a_iv_len (fattr f))"
  have u: "uint (a_hdrlen (fattr f)) = int h" "uint (a_iv_len (fattr f)) = int i" "a_iv_len (fattr f) > 0 \<longleftrightarrow> i > 0"
    by (simp_all add: h_def i_def word_less_nat_alt)
  have l: "length H = h + i" "rx_data f = int (length pre)" "rx_tail f = int (length (pre @ H @ body))" "flen f = word_of_nat (h + (i + length body))"
    and small: "length body < 2 ^ 31"
    using assms by (auto simp: amsdu_layout_def h_def i_def)
  let ?f1 = "f\<lparr>rx_data := int (length pre) + int h, flen := word_of_nat (i + length body)\<rparr>"
  let ?f2 = "f\<lparr>rx_data := int (length (pre @ H)), flen := word_of_nat (length body)\<rparr>"
  have f1: "recvframe_pull f (int h) = (Some (int (length pre) + int h), ?f1)"
    using pulled [of f h "i + length body"] l(1-3) l(4) by simp
  have f2: "(if i > 0 then snd (recvframe_pull ?f1 (int i)) else ?f1) = ?f2"
    using pulled [of ?f1 i "length body"] l(1,3) by (auto simp: add.assoc)
  have s: "sint (word_of_nat (length body) :: u32) = int (length body)"
    using small by (simp add: sint_uint signed_take_bit_eq_if_positive uint_nat unat_of_nat take_bit_nat_eq_self bit_iff_odd take_bit_int_eq_self
      zdiv_int [symmetric])
  show ?thesis
    unfolding amsdu_to_msdu_def u f1 snd_conv Let_def f2 by (simp add: at_off_def nat_add_distrib s)
qed


definition amsdu_demo :: rframe where
  "amsdu_demo = demo_frame\<lparr>fbuf := [0, 0] @ replicate 34 8 @ amsdu_enc [(replicate 12 1, [65]), (replicate 12 2, [66, 67])] @ [5],
     flen := 66, rx_tail := 68, rx_end := 69\<rparr>"




section \<open>The duplicate filter\<close>

text \<open>\<open>recv_decache\<close> never passes the same fragment of a traffic class twice in a row, passes every
  frame that differs from its predecessor in the class, and keeps the other classes.\<close>

theorem recv_decache_correct:
  assumes "length cache = 16" "a_priority a \<le> 15"
  shows "\<exists>ok cache'. recv_decache a cache = Some (ok, cache') \<and> length cache' = 16 \<and> (ok \<longleftrightarrow> cache ! unat (a_priority a) \<noteq> seq_ctrl_of a) \<and>
    recv_decache a cache' = Some (False, cache') \<and> (\<forall>i. i \<noteq> unat (a_priority a) \<longrightarrow> cache' ! i = cache ! i)"
proof -
  have "unat (a_priority a) < 16"
    using assms(2) by (simp add: word_le_nat_alt)
  then show ?thesis
    using assms by (auto simp: recv_decache_def arr_def not_less)
qed

theorem recv_decache_correct_witness:
  "\<exists>cache'. recv_decache demo_attr (replicate 16 0) = Some (True, cache') \<and> recv_decache demo_attr cache' = Some (False, cache')"
  using recv_decache_correct [of "replicate 16 0" demo_attr] by (auto simp: demo_attr_def seq_ctrl_of_def)

end
