(* ===== verification/Recv_Reorder.thy ===== *)
theory Recv_Reorder
  imports Recv_Frame
begin

text \<open>
  The A-MPDU reorder buffer of \<^verbatim>\<open>core/rtw_recv.c\<close>: \<open>check_indicate_seq\<close>,
  \<open>enqueue_reorder_recvframe\<close>, \<open>recv_indicatepkts_in_order\<close>, \<open>recv_indicatepkt_reorder\<close> and
  the timer handler, with the block ack requests that reset it. Sequence numbers are twelve bits
  wide and wrap. The theorems relate the buffer to one over unbounded sequence numbers, which gives
  delivery in order and without duplicates, and show that the timer drains the buffer.
\<close>

section \<open>State and operations\<close>

text \<open>The pending queue is a linked list in the code; \<open>timer_set\<close> says that
  \<open>reordering_ctrl_timer\<close> is armed. \<open>indicate_seq\<close> is \<open>0xffff\<close> before the first frame.\<close>

record recv_reorder_ctrl =
  enable :: bool
  indicate_seq :: u16
  wsize_b :: u8
  ampdu_size :: u8
  pending :: "rframe list"
  timer_set :: bool

definition sn :: "rframe \<Rightarrow> u16" where
  "sn f = a_seq_num (fattr f)"

text \<open>The operands are promoted to \<open>int\<close>.\<close>

definition SN_LESS :: "u16 \<Rightarrow> u16 \<Rightarrow> bool" where
  "SN_LESS a b \<longleftrightarrow> (uint a - uint b) AND 0x800 \<noteq> 0"

definition check_indicate_seq :: "recv_reorder_ctrl \<Rightarrow> u16 \<Rightarrow> bool \<times> recv_reorder_ctrl" where
  "check_indicate_seq c seq_num = (let
     wsize = uint (wsize_b c);
     wend = (indicate_seq c + word_of_int wsize - 1) AND 0xFFF;
     start = (if indicate_seq c = 0xFFFF then seq_num else indicate_seq c) in
     if SN_LESS seq_num start then (False, c\<lparr>indicate_seq := start\<rparr>)
     else if seq_num = start then (True, c\<lparr>indicate_seq := (start + 1) AND 0xFFF\<rparr>)
     else if SN_LESS wend seq_num then
       (True, c\<lparr>indicate_seq :=
          (if uint seq_num \<ge> wsize - 1 then word_of_int (uint seq_num + 1 - wsize)
           else word_of_int (0xFFF - (wsize - (uint seq_num + 1)) + 1))\<rparr>)
     else (True, c\<lparr>indicate_seq := start\<rparr>))"

text \<open>Insertion into the queue; \<open>None\<close> when a frame with the same number is there.\<close>

fun enqueue_reorder_recvframe :: "rframe list \<Rightarrow> rframe \<Rightarrow> rframe list option" where
  "enqueue_reorder_recvframe [] f = Some [f]"
| "enqueue_reorder_recvframe (g # q) f =
     (if SN_LESS (sn g) (sn f) then do { q' \<leftarrow> enqueue_reorder_recvframe q f; Some (g # q') }
      else if sn g = sn f then None
      else Some (f # g # q))"

text \<open>The indication loop: the next number, the frames that stay and the frames that leave.\<close>

fun indicate_loop :: "u16 \<Rightarrow> rframe list \<Rightarrow> u16 \<times> rframe list \<times> rframe list" where
  "indicate_loop i [] = (i, [], [])"
| "indicate_loop i (f # q) =
     (if \<not> SN_LESS i (sn f) then
        (case indicate_loop (if i = sn f then (i + 1) AND 0xFFF else i) q of (j, r, outs) \<Rightarrow> (j, r, f # outs))
      else (i, f # q, []))"

text \<open>The result flag is \<open>bPktInBuf\<close>; a forced indication on an empty queue also answers true.\<close>

definition recv_indicatepkts_in_order :: "recv_reorder_ctrl \<Rightarrow> bool \<Rightarrow> bool \<times> recv_reorder_ctrl \<times> rframe list" where
  "recv_indicatepkts_in_order c bforced =
     (if bforced \<and> pending c = [] then (True, c, [])
      else let start = (if bforced then sn (hd (pending c)) else indicate_seq c) in
        case indicate_loop start (pending c) of (j, r, outs) \<Rightarrow> (r \<noteq> [], c\<lparr>indicate_seq := j, pending := r\<rparr>, outs))"

text \<open>Steps 2 to 4 of \<open>recv_indicatepkt_reorder\<close>, under the lock.\<close>

definition reorder_rx :: "recv_reorder_ctrl \<Rightarrow> rframe \<Rightarrow> bool \<times> recv_reorder_ctrl \<times> rframe list" where
  "reorder_rx c f =
     (case check_indicate_seq c (sn f) of
        (False, c1) \<Rightarrow> (False, c1, [])
      | (True, c1) \<Rightarrow>
         (case enqueue_reorder_recvframe (pending c1) f of
            None \<Rightarrow> (False, c1, [])
          | Some q \<Rightarrow> (case recv_indicatepkts_in_order (c1\<lparr>pending := q\<rparr>) False of (b, c2, outs) \<Rightarrow> (True, c2\<lparr>timer_set := b\<rparr>, outs))))"

text \<open>What happens to a frame that leaves the queue. A frame with an A-MSDU flag other than 0 or 1
  is dropped from the queue and nothing else happens to it; nor does anything when the driver is
  being stopped.\<close>

record rx_env =
  stopped :: bool
  mp_state :: bool
  skb_alloc :: "nat \<Rightarrow> bool"
  skb_clone :: bool

definition indicate_frame :: "rx_env \<Rightarrow> rframe \<Rightarrow> rx_act list option" where
  "indicate_frame e f =
     (if a_amsdu (fattr f) = 0 then Some (if stopped e then [] else rtw_recv_indicatepkt f)
      else if a_amsdu (fattr f) = 1 then do { r \<leftarrow> amsdu_to_msdu (skb_alloc e) (skb_clone e) f; Some (snd r) }
      else Some [])"

fun indicate_frames :: "rx_env \<Rightarrow> rframe list \<Rightarrow> rx_act list option" where
  "indicate_frames e [] = Some []"
| "indicate_frames e (f # fs) = do { a \<leftarrow> indicate_frame e f; b \<leftarrow> indicate_frames e fs; Some (a @ b) }"

definition reorder_queue :: "rx_env \<Rightarrow> recv_reorder_ctrl \<Rightarrow> rframe \<Rightarrow> (bool \<times> recv_reorder_ctrl \<times> rx_act list) option" where
  "reorder_queue e c f = (case reorder_rx c f of (ok, c', outs) \<Rightarrow> do { acts \<leftarrow> indicate_frames e outs; Some (ok, c', acts) })"

definition recv_indicatepkt_reorder :: "rx_env \<Rightarrow> recv_reorder_ctrl \<Rightarrow> rframe \<Rightarrow> (bool \<times> recv_reorder_ctrl \<times> rx_act list) option" where
  "recv_indicatepkt_reorder e c f =
     (if a_amsdu (fattr f) = 0 then do {
        (ok, f1) \<leftarrow> wlanhdr_to_ethhdr (mp_state e) f;
        if \<not> ok then Some (False, c, [])
        else if a_qos (fattr f1) \<noteq> 1 then Some (if stopped e then (False, c, []) else (True, c, rtw_recv_indicatepkt f1))
        else if \<not> enable c then Some (True, c\<lparr>indicate_seq := (sn f1 + 1) mod 4096\<rparr>, rtw_recv_indicatepkt f1)
        else reorder_queue e c f1 }
      else if a_amsdu (fattr f) = 1 \<and> \<not> enable c then do {
        r \<leftarrow> amsdu_to_msdu (skb_alloc e) (skb_clone e) f;
        Some (True, c\<lparr>indicate_seq := (sn f + 1) mod 4096\<rparr>, snd r) }
      else reorder_queue e c f)"

text \<open>The timer fires once each time it is set.\<close>

definition timeout_ctrl :: "bool \<Rightarrow> recv_reorder_ctrl \<Rightarrow> recv_reorder_ctrl \<times> rframe list" where
  "timeout_ctrl stop c = (let c0 = c\<lparr>timer_set := False\<rparr> in
     if stop then (c0, []) else (case recv_indicatepkts_in_order c0 True of (b, c1, outs) \<Rightarrow> (c1\<lparr>timer_set := b\<rparr>, outs)))"

definition rtw_reordering_ctrl_timeout_handler :: "rx_env \<Rightarrow> recv_reorder_ctrl \<Rightarrow> (recv_reorder_ctrl \<times> rx_act list) option" where
  "rtw_reordering_ctrl_timeout_handler e c =
     (case timeout_ctrl (stopped e) c of (c', outs) \<Rightarrow> do { acts \<leftarrow> indicate_frames e outs; Some (c', acts) })"

text \<open>The effect on the buffer of an ADDBA request (with the answers of
  \<open>rtw_rx_ampdu_is_accept\<close> and \<open>rtw_rx_ampdu_size\<close>), of a DELBA from the originator, and of a new
  association. None of them touches the queue.\<close>

definition addba_ctrl :: "bool \<Rightarrow> u8 \<Rightarrow> recv_reorder_ctrl \<Rightarrow> recv_reorder_ctrl" where
  "addba_ctrl accept sz c =
     (let c1 = c\<lparr>indicate_seq := 0xffff, enable := accept\<rparr> in if accept then c1\<lparr>ampdu_size := sz\<rparr> else c1)"

definition delba_ctrl :: "recv_reorder_ctrl \<Rightarrow> recv_reorder_ctrl" where
  "delba_ctrl c = c\<lparr>enable := False, ampdu_size := 0xff\<rparr>"

definition reset_ctrl :: "recv_reorder_ctrl \<Rightarrow> recv_reorder_ctrl" where
  "reset_ctrl c = c\<lparr>enable := False, indicate_seq := 0xffff, wsize_b := 64, ampdu_size := 0xff\<rparr>"

section \<open>The buffer over unbounded sequence numbers\<close>

text \<open>The same window without wrap-around: frames carry their number as sent, and the buffer is a list
  of numbered frames.\<close>

record win =
  nxt :: int
  win_buf :: "(int \<times> rframe) list"

fun win_flush :: "int \<Rightarrow> (int \<times> rframe) list \<Rightarrow> int \<times> (int \<times> rframe) list \<times> (int \<times> rframe) list" where
  "win_flush i [] = (i, [], [])"
| "win_flush i (x # q) =
     (if fst x \<le> i then (case win_flush (if fst x = i then i + 1 else i) q of (j, r, outs) \<Rightarrow> (j, r, x # outs))
      else (i, x # q, []))"

definition win_start :: "int \<Rightarrow> int \<Rightarrow> int \<Rightarrow> int" where
  "win_start w i n = (if n = i then i + 1 else if i + w - 1 < n then n + 1 - w else i)"

definition win_rx :: "int \<Rightarrow> win \<Rightarrow> int \<Rightarrow> rframe \<Rightarrow> bool \<times> win \<times> (int \<times> rframe) list" where
  "win_rx w s n f =
     (if n < nxt s \<or> n \<in> fst ` set (win_buf s) then (False, s, [])
      else (case win_flush (win_start w (nxt s) n) (insort_key fst (n, f) (win_buf s)) of
              (j, r, outs) \<Rightarrow> (True, \<lparr>nxt = j, win_buf = r\<rparr>, outs)))"

definition win_timeout :: "win \<Rightarrow> win \<times> (int \<times> rframe) list" where
  "win_timeout s = (case win_buf s of [] \<Rightarrow> (s, [])
     | x # _ \<Rightarrow> (case win_flush (fst x) (win_buf s) of (j, r, outs) \<Rightarrow> (\<lparr>nxt = j, win_buf = r\<rparr>, outs)))"

text \<open>Its invariant: the buffered numbers increase, are above the next number and inside the window.\<close>

definition win_ok :: "int \<Rightarrow> win \<Rightarrow> bool" where
  "win_ok w s \<longleftrightarrow> sorted_wrt (<) (map fst (win_buf s)) \<and> (\<forall>x \<in> set (win_buf s). nxt s < fst x \<and> fst x < nxt s + w)"

lemma flush_spec:
  "win_flush i q = (j, r, outs) \<Longrightarrow> sorted_wrt (<) (map fst q) \<Longrightarrow>
     q = outs @ r \<and> i \<le> j \<and> (\<forall>x \<in> set outs. fst x < j) \<and> (\<forall>x \<in> set r. j < fst x)"
proof (induction i q arbitrary: j r outs rule: win_flush.induct)
  case (2 i x q)
  show ?case
  proof (cases "fst x \<le> i")
    case True
    let ?i = "if fst x = i then i + 1 else i"
    obtain outs' where o: "win_flush ?i q = (j, r, outs')" "outs = x # outs'"
      using "2.prems"(1) True by (auto split: prod.splits)
    have "?i \<le> j" "q = outs' @ r" "\<forall>x \<in> set outs'. fst x < j" "\<forall>x \<in> set r. j < fst x"
      using "2.IH" [OF True o(1)] "2.prems"(2) by auto
    then show ?thesis
      using o(2) True by (auto split: if_splits)
  next
    case False
    then have "j = i" "r = x # q" "outs = []"
      using "2.prems"(1) by auto
    then show ?thesis
      using False "2.prems"(2) by (auto simp: less_le_trans)
  qed
qed auto

lemma sorted_insort_strict:
  "sorted_wrt (<) (map fst q) \<Longrightarrow> n \<notin> fst ` set q \<Longrightarrow> sorted_wrt (<) (map fst (insort_key fst (n :: int, f) q))"
  by (induction q) (auto simp: set_insort_key)

lemma win_start_ge: "i \<le> n \<Longrightarrow> i \<le> win_start w i n"
  by (auto simp: win_start_def)

text \<open>What a step of the unbounded buffer does: it keeps the invariant, delivers increasing numbers from
  the range it moves over, and neither loses nor invents a frame.\<close>

definition win_step_ok :: "int \<Rightarrow> win \<Rightarrow> win \<Rightarrow> (int \<times> rframe) list \<Rightarrow> bool" where
  "win_step_ok w s s' outs \<longleftrightarrow> win_ok w s' \<and> sorted_wrt (<) (map fst outs) \<and> nxt s \<le> nxt s' \<and> (\<forall>x \<in> set outs. nxt s \<le> fst x \<and> fst x < nxt s')"

lemma win_flush_step:
  assumes "win_flush i q = (j, r, outs)" "sorted_wrt (<) (map fst q)" "nxt s \<le> i" "\<forall>x \<in> set q. nxt s \<le> fst x \<and> fst x < i + w"
  shows "win_step_ok w s \<lparr>nxt = j, win_buf = r\<rparr> outs \<and> q = outs @ r"
proof -
  have f: "q = outs @ r" "i \<le> j" "\<forall>x \<in> set outs. fst x < j" "\<forall>x \<in> set r. j < fst x"
    using flush_spec [OF assms(1,2)] by auto
  moreover have "\<forall>x \<in> set r. fst x < j + w"
  proof
    fix x
    assume "x \<in> set r"
    then have "fst x < i + w"
      using assms(4) f(1) by simp
    then show "fst x < j + w"
      using f(2) by linarith
  qed
  ultimately show ?thesis
    using assms(2-4) by (auto simp: win_step_ok_def win_ok_def sorted_wrt_append)
qed

lemma win_rx_step:
  assumes "win_ok w s" "0 \<le> w" "win_rx w s n f = (ok, s', outs)"
  shows "win_step_ok w s s' outs \<and>
    set outs \<union> set (win_buf s') = (if ok then insert (n, f) (set (win_buf s)) else set (win_buf s))"
proof (cases "n < nxt s \<or> n \<in> fst ` set (win_buf s)")
  case True
  then show ?thesis
    using assms by (auto simp: win_rx_def win_step_ok_def)
next
  case False
  let ?q = "insort_key fst (n, f) (win_buf s)" and ?i = "win_start w (nxt s) n"
  obtain j r where j: "win_flush ?i ?q = (j, r, outs)" "s' = \<lparr>nxt = j, win_buf = r\<rparr>" "ok"
    using assms(3) False by (auto simp: win_rx_def split: prod.splits)
  have "sorted_wrt (<) (map fst ?q)"
    using assms(1) False sorted_insort_strict by (auto simp: win_ok_def)
  moreover have "\<forall>x \<in> set ?q. nxt s \<le> fst x \<and> fst x < ?i + w"
    using assms(1,2) False by (auto simp: win_ok_def win_start_def set_insort_key)
  moreover have "nxt s \<le> ?i"
    using False by (simp add: win_start_ge)
  ultimately have st: "win_step_ok w s s' outs \<and> ?q = outs @ r"
    using win_flush_step [OF j(1), of s w] j(2) by simp
  then have "set outs \<union> set r = insert (n, f) (set (win_buf s))"
    by (metis set_append set_insort_key)
  then show ?thesis
    using st j(2,3) by simp
qed

lemma win_timeout_step:
  assumes "win_ok w s" "0 \<le> w" "win_timeout s = (s', outs)"
  shows "win_step_ok w s s' outs \<and> win_buf s = outs @ win_buf s' \<and> (win_buf s \<noteq> [] \<longrightarrow> outs \<noteq> [])"
proof (cases "win_buf s")
  case (Cons x q)
  obtain j r where j: "win_flush (fst x) (x # q) = (j, r, outs)" "s' = \<lparr>nxt = j, win_buf = r\<rparr>"
    using assms(3) Cons by (auto simp: win_timeout_def split: prod.splits)
  have "win_step_ok w s s' outs \<and> x # q = outs @ r"
    unfolding j(2) by (rule win_flush_step [OF j(1)]) (use assms(1,2) Cons in \<open>auto simp: win_ok_def less_imp_le\<close>)
  moreover have "outs \<noteq> []"
    using j(1) by (auto split: prod.splits)
  ultimately show ?thesis
    using Cons j(2) by simp
qed (use assms in \<open>auto simp: win_timeout_def win_step_ok_def\<close>)

section \<open>The buffer with twelve-bit numbers\<close>

lemma SN_LESS_near:
  assumes "uint a = x mod 4096" "uint b = y mod 4096" "-2048 \<le> x - y" "x - y < 2048"
  shows "SN_LESS a b \<longleftrightarrow> x < y"
proof -
  define k where "k = y div 4096 - x div 4096"
  have "uint a - uint b = (x - y) + 2048 * (2 * k)"
    using assms(1,2) by (simp add: k_def minus_div_mult_eq_mod [symmetric] algebra_simps)
  then have "(uint a - uint b) div 2048 = (x - y) div 2048 + 2 * k"
    by simp
  moreover have "(x - y) div 2048 = (if x < y then -1 else 0)"
    using assms(3,4) by (auto simp: div_pos_pos_trivial zdiv_eq_0_iff intro: int_div_pos_eq [of _ _ _ "x - y + 2048"])
  ultimately have "odd ((uint a - uint b) div 2048) \<longleftrightarrow> x < y"
    by simp
  moreover have "SN_LESS a b \<longleftrightarrow> odd ((uint a - uint b) div 2048)"
    using and_exp_eq_0_iff_not_bit [of "uint a - uint b" 11] by (simp add: SN_LESS_def bit_iff_odd)
  ultimately show ?thesis
    by simp
qed

lemma seq_eq_near:
  assumes "uint a = x mod 4096" "uint b = y mod 4096" "-4096 < x - y" "x - y < 4096"
  shows "a = b \<longleftrightarrow> x = (y :: int)"
proof
  assume "a = b"
  then have "x mod 4096 = y mod 4096"
    using assms(1,2) by simp
  then have "4096 dvd x - y"
    by (simp only: mod_eq_dvd_iff)
  then show "x = y"
    using assms(3,4) zdvd_not_zless [of "x - y" 4096] zdvd_not_zless [of "y - x" 4096] by (auto simp: dvd_diff_commute)
qed (use assms(1,2) in \<open>simp add: word_uint_eq_iff\<close>)

lemma uint_seq_mask: "uint (v AND 0xFFF :: u16) = uint v mod 4096"
proof -
  have "v AND 0xFFF = take_bit 12 v"
    by (simp add: take_bit_eq_mask mask_eq_exp_minus_1)
  then show ?thesis
    by (simp only: unsigned_take_bit_eq) (simp add: take_bit_eq_mod)
qed

lemma uint_plus_u16_mod: "uint (a + b :: u16) mod 4096 = (uint a + uint b) mod 4096"
  by (simp add: uint_word_ariths mod_mod_cancel)

text \<open>The relation between the two: the twelve-bit values are the numbers modulo 4096.\<close>

definition num_ok :: "int \<times> rframe \<Rightarrow> bool" where
  "num_ok x \<longleftrightarrow> uint (sn (snd x)) = fst x mod 4096"

definition reorder_rel :: "recv_reorder_ctrl \<Rightarrow> win \<Rightarrow> bool" where
  "reorder_rel c s \<longleftrightarrow> uint (indicate_seq c) = nxt s mod 4096 \<and> pending c = map snd (win_buf s) \<and>
     list_all num_ok (win_buf s) \<and> win_ok (uint (wsize_b c)) s \<and> 0 < wsize_b c"

lemma seq_next:
  assumes "uint (i :: u16) = x mod 4096"
  shows "uint ((i + 1) AND 0xFFF) = (x + 1) mod 4096"
  using assms by (simp only: uint_seq_mask uint_plus_u16_mod) (simp add: mod_simps)

lemma indicate_loop_flush:
  assumes "list_all num_ok q" "sorted_wrt (<) (map fst q)" "uint i = x mod 4096" "\<forall>y \<in> set q. x - 2048 < fst y \<and> fst y < x + 2048"
  shows "\<exists>j'. indicate_loop i (map snd q) = (j', map snd (fst (snd (win_flush x q))), map snd (snd (snd (win_flush x q)))) \<and>
    uint j' = fst (win_flush x q) mod 4096"
  using assms
proof (induction q arbitrary: i x)
  case (Cons y q)
  have y: "uint (sn (snd y)) = fst y mod 4096"
    using Cons.prems(1) by (simp add: num_ok_def)
  have near: "x - 2048 < fst y" "fst y < x + 2048"
    using Cons.prems(4) by simp_all
  have less: "SN_LESS i (sn (snd y)) \<longleftrightarrow> x < fst y"
    using near by (intro SN_LESS_near Cons.prems(3) y) linarith+
  have eq: "i = sn (snd y) \<longleftrightarrow> x = fst y"
    using near by (intro seq_eq_near Cons.prems(3) y) linarith+
  show ?case
  proof (cases "fst y \<le> x")
    case True
    let ?x = "if fst y = x then x + 1 else x" and ?i = "if i = sn (snd y) then (i + 1) AND 0xFFF else i"
    have "uint ?i = ?x mod 4096"
      using eq seq_next [OF Cons.prems(3)] Cons.prems(3) by auto
    moreover have "\<forall>z \<in> set q. ?x - 2048 < fst z \<and> fst z < ?x + 2048"
      using Cons.prems(2,4) True by force
    ultimately obtain j' where "indicate_loop ?i (map snd q) = (j', map snd (fst (snd (win_flush ?x q))), map snd (snd (snd (win_flush ?x q))))"
      "uint j' = fst (win_flush ?x q) mod 4096"
      using Cons.IH [of ?i ?x] Cons.prems(1,2) by auto
    then show ?thesis
      using True less by (simp add: split_beta)
  next
    case False
    then show ?thesis
      using less Cons.prems(3) by simp
  qed
qed simp

lemma enqueue_insort:
  assumes "list_all num_ok q" "num_ok (n, f)" "sorted_wrt (<) (map fst q)" "\<forall>y \<in> set q. n - 2048 < fst y \<and> fst y < n + 2048"
  shows "enqueue_reorder_recvframe (map snd q) f = (if n \<in> fst ` set q then None else Some (map snd (insort_key fst (n, f) q)))"
  using assms
proof (induction q)
  case (Cons y q)
  have y: "uint (sn (snd y)) = fst y mod 4096" "uint (sn f) = n mod 4096"
    using Cons.prems(1,2) by (simp_all add: num_ok_def)
  have near: "n - 2048 < fst y" "fst y < n + 2048"
    using Cons.prems(4) by simp_all
  have less: "SN_LESS (sn (snd y)) (sn f) \<longleftrightarrow> fst y < n"
    using near by (intro SN_LESS_near y) linarith+
  have eq: "sn (snd y) = sn f \<longleftrightarrow> fst y = n"
    using near by (intro seq_eq_near y) linarith+
  have "n \<notin> fst ` set q" if "n \<le> fst y"
    using that Cons.prems(3) by force
  then show ?case
    using Cons less eq by auto
qed simp

text \<open>The start of the window moves the same way.\<close>

lemma check_indicate_seq_start:
  assumes "uint (indicate_seq c) = x mod 4096" "uint v = n mod 4096" "x - 2048 \<le> n" "n < x + 2048" "0 < wsize_b c"
  defines "w \<equiv> uint (wsize_b c)"
  shows "if n < x then check_indicate_seq c v = (False, c)
     else \<exists>i. check_indicate_seq c v = (True, c\<lparr>indicate_seq := i\<rparr>) \<and> uint i = win_start w x n mod 4096"
proof -
  have w: "0 < w" "w < 256"
    using uint_lt2p [of "wsize_b c"] assms(5) by (simp_all add: w_def word_less_def)
  have "uint (indicate_seq c) < 4096"
    using assms(1) by simp
  then have init: "indicate_seq c \<noteq> 0xFFFF"
    by auto
  have less: "SN_LESS v (indicate_seq c) \<longleftrightarrow> n < x"
    by (rule SN_LESS_near) (use assms in auto)
  have eq: "v = indicate_seq c \<longleftrightarrow> n = x"
    by (rule seq_eq_near) (use assms in auto)
  have wend: "uint ((indicate_seq c + word_of_int w - 1) AND 0xFFF) = (x + w - 1) mod 4096"
  proof -
    have "uint (indicate_seq c + word_of_int w - 1) mod 4096 = (uint (indicate_seq c) + w - 1) mod 4096"
      using w by (simp add: uint_word_ariths mod_mod_cancel mod_simps uint_word_of_int take_bit_int_eq_self)
    moreover have "(x mod 4096 + w - 1) mod 4096 = (x + w - 1) mod 4096"
      using mod_add_left_eq [of x 4096 "w - 1"] by (simp only: add_diff_eq)
    ultimately show ?thesis
      using assms(1) by (simp add: uint_seq_mask)
  qed
  have wless: "SN_LESS ((indicate_seq c + word_of_int w - 1) AND 0xFFF) v \<longleftrightarrow> x + w - 1 < n" if "x \<le> n"
    by (rule SN_LESS_near [OF wend assms(2)]) (use assms(3,4) that w in linarith)+
  have shift: "uint (if uint v \<ge> w - 1 then word_of_int (uint v + 1 - w) else word_of_int (0xFFF - (w - (uint v + 1)) + 1) :: u16) = (n + 1 - w) mod 4096"
  proof -
    obtain u where u: "uint v = u" "0 \<le> u" "u < 4096"
      using assms(2) by simp
    have m: "(n + 1 - w) mod 4096 = (u + 1 - w) mod 4096"
      using assms(2) mod_add_left_eq [of n 4096 "1 - w"] by (simp add: u(1) algebra_simps)
    have word: "uint (word_of_int y :: u16) = y" if "0 \<le> y" "y < 4096" for y
      using that by (simp add: uint_word_of_int take_bit_int_eq_self)
    show ?thesis
    proof (cases "u \<ge> w - 1")
      case True
      then show ?thesis
        unfolding u(1) m if_P [OF True] using word [of "u + 1 - w"] u w by (simp add: mod_pos_pos_trivial)
    next
      case False
      have "(u + 1 - w) mod 4096 = u + 1 - w + 4096"
        using False u w mod_add_self2 [of "u + 1 - w" 4096] by (simp add: mod_pos_pos_trivial)
      then show ?thesis
        unfolding u(1) m if_not_P [OF False] using word [of "u + 1 - w + 4096"] False u w by (simp add: algebra_simps)
    qed
  qed
  define sh where "sh = (if uint v \<ge> w - 1 then word_of_int (uint v + 1 - w) else word_of_int (0xFFF - (w - (uint v + 1)) + 1) :: u16)"
  note def = check_indicate_seq_def [of c v, unfolded Let_def if_not_P [OF init] w_def [symmetric] less eq, folded sh_def]
  consider "n < x" | "n = x" | "x < n" "x + w - 1 < n" | "x < n" "\<not> x + w - 1 < n"
    by linarith
  then show ?thesis
  proof cases
    case 1
    then show ?thesis
      unfolding def by simp
  next
    case 2
    then show ?thesis
      unfolding def using seq_next [OF assms(1)] by (auto simp: win_start_def intro!: exI [of _ "(indicate_seq c + 1) AND 0xFFF"])
  next
    case 3
    then show ?thesis
      unfolding def using wless shift by (auto simp: win_start_def sh_def [symmetric] intro!: exI [of _ sh])
  next
    case 4
    then show ?thesis
      unfolding def using wless assms(1) by (auto simp: win_start_def intro!: exI [of _ "indicate_seq c"])
  qed
qed

lemma reorder_rx_refines:
  assumes rel: "reorder_rel c s" and n: "num_ok (n, f)" "nxt s - 2048 \<le> n" "n < nxt s + 2048"
    and step: "win_rx (uint (wsize_b c)) s n f = (ok, s', outs)"
  shows "\<exists>c'. reorder_rx c f = (ok, c', map snd outs) \<and> reorder_rel c' s' \<and> wsize_b c' = wsize_b c"
proof -
  let ?w = "uint (wsize_b c)"
  have c: "uint (indicate_seq c) = nxt s mod 4096" "pending c = map snd (win_buf s)" "list_all num_ok (win_buf s)" "win_ok ?w s" "0 < wsize_b c"
    using rel by (simp_all add: reorder_rel_def)
  have w: "0 < ?w" "?w < 256"
    using uint_lt2p [of "wsize_b c"] c(5) by (simp_all add: word_less_def)
  have win: "sorted_wrt (<) (map fst (win_buf s))" "\<forall>x \<in> set (win_buf s). nxt s < fst x \<and> fst x < nxt s + ?w"
    using c(4) by (simp_all add: win_ok_def)
  have v: "uint (sn f) = n mod 4096"
    using n(1) by (simp add: num_ok_def)
  note start = check_indicate_seq_start [OF c(1) v n(2,3) c(5)]
  show ?thesis
  proof (cases "n < nxt s")
    case True
    then show ?thesis
      using start step rel by (auto simp: reorder_rx_def win_rx_def)
  next
    case False
    then obtain i where i: "check_indicate_seq c (sn f) = (True, c\<lparr>indicate_seq := i\<rparr>)" "uint i = win_start ?w (nxt s) n mod 4096"
      using start by auto
    have "\<forall>y \<in> set (win_buf s). n - 2048 < fst y \<and> fst y < n + 2048"
      using win(2) n(3) w False by force
    note enq = enqueue_insort [OF c(3) n(1) win(1) this]
    show ?thesis
    proof (cases "n \<in> fst ` set (win_buf s)")
      case True
      then have "n \<noteq> nxt s" "n < nxt s + ?w"
        using win(2) by auto
      then have "uint i = uint (indicate_seq c)"
        using i(2) c(1) False by (simp add: win_start_def)
      then have "i = indicate_seq c"
        by (simp add: word_uint_eq_iff)
      then show ?thesis
        using i(1) enq True step rel c(2) by (auto simp: reorder_rx_def win_rx_def)
    next
      case new: False
      let ?q = "insort_key fst (n, f) (win_buf s)" and ?i = "win_start ?w (nxt s) n"
      have q: "list_all num_ok ?q" "sorted_wrt (<) (map fst ?q)"
        using c(3) n(1) sorted_insort_strict [OF win(1) new] by (auto simp: list_all_iff set_insort_key)
      have "\<forall>y \<in> set ?q. ?i - 2048 < fst y \<and> fst y < ?i + 2048"
        using win(2) n(3) w False by (force simp: set_insort_key win_start_def)
      from indicate_loop_flush [OF q i(2) this] obtain j where
        j: "indicate_loop i (map snd ?q) = (j, map snd (win_buf s'), map snd outs)" "uint j = nxt s' mod 4096" "ok"
        using step False new by (auto simp: win_rx_def split: prod.splits)
      have s': "win_ok ?w s'" "set (win_buf s') \<subseteq> set ?q"
        using win_rx_step [OF c(4) less_imp_le [OF w(1)] step] j(3) by (auto simp: win_step_ok_def set_insort_key)
      have "reorder_rx c f = (True, c\<lparr>indicate_seq := j, pending := map snd (win_buf s'), timer_set := win_buf s' \<noteq> []\<rparr>, map snd outs)"
        unfolding reorder_rx_def i(1) using enq new j(1) c(2) by (simp add: recv_indicatepkts_in_order_def)
      then show ?thesis
        using j(2,3) s' q(1) c(5) by (auto simp: reorder_rel_def list_all_iff)
    qed
  qed
qed

lemma timeout_refines:
  assumes rel: "reorder_rel c s" and step: "win_timeout s = (s', outs)"
  shows "\<exists>c'. timeout_ctrl False c = (c', map snd outs) \<and> reorder_rel c' s' \<and> wsize_b c' = wsize_b c"
proof -
  let ?w = "uint (wsize_b c)"
  have c: "uint (indicate_seq c) = nxt s mod 4096" "pending c = map snd (win_buf s)" "list_all num_ok (win_buf s)" "win_ok ?w s" "0 < wsize_b c"
    using rel by (simp_all add: reorder_rel_def)
  show ?thesis
  proof (cases "win_buf s")
    case Nil
    then show ?thesis
      using c step by (auto simp: timeout_ctrl_def recv_indicatepkts_in_order_def win_timeout_def reorder_rel_def)
  next
    case (Cons x q)
    have w: "0 \<le> ?w" "?w < 256"
      using uint_lt2p [of "wsize_b c"] by simp_all
    have x: "uint (sn (snd x)) = fst x mod 4096"
      using c(3) Cons by (simp add: num_ok_def)
    have "sorted_wrt (<) (map fst (win_buf s))"
      using c(4) by (simp add: win_ok_def)
    moreover have "\<forall>y \<in> set (win_buf s). fst x - 2048 < fst y \<and> fst y < fst x + 2048"
      using c(4) w Cons by (force simp: win_ok_def)
    ultimately obtain j where
      j: "indicate_loop (sn (snd x)) (map snd (win_buf s)) = (j, map snd (win_buf s'), map snd outs)" "uint j = nxt s' mod 4096"
      using indicate_loop_flush [OF c(3) _ x] step Cons by (auto simp: win_timeout_def simp del: win_flush.simps indicate_loop.simps split: prod.splits)
    have s': "win_ok ?w s'" "win_buf s = outs @ win_buf s'"
      using win_timeout_step [OF c(4) w(1) step] by (auto simp: win_step_ok_def)
    have "timeout_ctrl False c = (c\<lparr>indicate_seq := j, pending := map snd (win_buf s'), timer_set := win_buf s' \<noteq> []\<rparr>, map snd outs)"
      unfolding timeout_ctrl_def recv_indicatepkts_in_order_def using j(1) c(2) Cons by (simp del: indicate_loop.simps)
    then show ?thesis
      using j(2) s' c(3,5) by (auto simp: reorder_rel_def)
  qed
qed

section \<open>Runs\<close>

text \<open>A run of the buffer is a sequence of received frames, each with the number its sender gave it before
  it was cut to twelve bits, and of timer expirations.\<close>

datatype rx_event = Rx int rframe | Timer

fun ctrl_step :: "recv_reorder_ctrl \<Rightarrow> rx_event \<Rightarrow> recv_reorder_ctrl \<times> rframe list" where
  "ctrl_step c (Rx n f) = snd (reorder_rx c f)"
| "ctrl_step c Timer = timeout_ctrl False c"

fun win_step :: "int \<Rightarrow> win \<Rightarrow> rx_event \<Rightarrow> win \<times> (int \<times> rframe) list" where
  "win_step w s (Rx n f) = snd (win_rx w s n f)"
| "win_step w s Timer = win_timeout s"

fun ctrl_run :: "recv_reorder_ctrl \<Rightarrow> rx_event list \<Rightarrow> recv_reorder_ctrl \<times> rframe list" where
  "ctrl_run c [] = (c, [])"
| "ctrl_run c (e # es) = (let (c1, a) = ctrl_step c e; (c2, b) = ctrl_run c1 es in (c2, a @ b))"

fun win_run :: "int \<Rightarrow> win \<Rightarrow> rx_event list \<Rightarrow> win \<times> (int \<times> rframe) list" where
  "win_run w s [] = (s, [])"
| "win_run w s (e # es) = (let (s1, a) = win_step w s e; (s2, b) = win_run w s1 es in (s2, a @ b))"

text \<open>The assumption on the sender and the channel: a received number is less than half the number space
  away from the start of the window.\<close>

fun ev_near :: "win \<Rightarrow> rx_event \<Rightarrow> bool" where
  "ev_near s (Rx n f) \<longleftrightarrow> num_ok (n, f) \<and> nxt s - 2048 \<le> n \<and> n < nxt s + 2048"
| "ev_near s Timer \<longleftrightarrow> True"

fun run_near :: "int \<Rightarrow> win \<Rightarrow> rx_event list \<Rightarrow> bool" where
  "run_near w s [] \<longleftrightarrow> True"
| "run_near w s (e # es) \<longleftrightarrow> ev_near s e \<and> run_near w (fst (win_step w s e)) es"

text \<open>The frames the window takes in: those that are neither old nor already there.\<close>

fun accepted :: "int \<Rightarrow> win \<Rightarrow> rx_event list \<Rightarrow> (int \<times> rframe) set" where
  "accepted w s [] = {}"
| "accepted w s (e # es) =
     (case e of Rx n f \<Rightarrow> if fst (win_rx w s n f) then {(n, f)} else {} | Timer \<Rightarrow> {}) \<union> accepted w (fst (win_step w s e)) es"

lemma ctrl_step_refines:
  assumes "reorder_rel c s" "ev_near s e" "win_step (uint (wsize_b c)) s e = (s', outs)"
  shows "\<exists>c'. ctrl_step c e = (c', map snd outs) \<and> reorder_rel c' s' \<and> wsize_b c' = wsize_b c"
proof (cases e)
  case (Rx n f)
  obtain ok where "win_rx (uint (wsize_b c)) s n f = (ok, s', outs)"
    using assms(3) Rx by (cases "win_rx (uint (wsize_b c)) s n f") auto
  from reorder_rx_refines [OF assms(1) _ _ _ this] show ?thesis
    using assms(2) Rx by auto
next
  case Timer
  then show ?thesis
    using timeout_refines [OF assms(1)] assms(3) by simp
qed

lemma win_step_step:
  assumes "win_ok w s" "0 \<le> w" "win_step w s e = (s', outs)"
  shows "win_step_ok w s s' outs" "set outs \<union> set (win_buf s') = set (win_buf s) \<union> accepted w s [e]"
proof -
  show "win_step_ok w s s' outs"
  proof (cases e)
    case (Rx n f)
    then show ?thesis
      using win_rx_step [OF assms(1,2)] assms(3) by (cases "win_rx w s n f") auto
  qed (use win_timeout_step [OF assms(1,2)] assms(3) in auto)
  show "set outs \<union> set (win_buf s') = set (win_buf s) \<union> accepted w s [e]"
  proof (cases e)
    case (Rx n f)
    then show ?thesis
      using win_rx_step [OF assms(1,2)] assms(3) by (cases "win_rx w s n f") auto
  qed (use win_timeout_step [OF assms(1,2)] assms(3) in auto)
qed

lemma win_run_ok:
  assumes "win_ok w s" "0 \<le> w" "win_run w s es = (s', outs)"
  shows "win_step_ok w s s' outs \<and> set outs \<union> set (win_buf s') = set (win_buf s) \<union> accepted w s es"
  using assms
proof (induction es arbitrary: s outs)
  case (Cons e es)
  obtain s1 a b where r: "win_step w s e = (s1, a)" "win_run w s1 es = (s', b)" "outs = a @ b"
    using Cons.prems(3) by (auto split: prod.splits)
  note one = win_step_step [OF Cons.prems(1,2) r(1)]
  then have "win_ok w s1"
    by (simp add: win_step_ok_def)
  note rest = Cons.IH [OF this Cons.prems(2) r(2)]
  have "win_step_ok w s s' outs"
    using one(1) rest r(3) by (fastforce simp: win_step_ok_def sorted_wrt_append)
  moreover have "set outs \<union> set (win_buf s') = set (win_buf s) \<union> accepted w s (e # es)"
    using one(2) rest r(1,3) by auto
  ultimately show ?case
    by blast
qed (auto simp: win_step_ok_def)

lemma ctrl_run_refines:
  assumes "reorder_rel c s" "run_near (uint (wsize_b c)) s es" "win_run (uint (wsize_b c)) s es = (s', outs)"
  shows "\<exists>c'. ctrl_run c es = (c', map snd outs) \<and> reorder_rel c' s' \<and> wsize_b c' = wsize_b c"
  using assms
proof (induction es arbitrary: c s outs)
  case (Cons e es)
  let ?w = "uint (wsize_b c)"
  obtain s1 a b where r: "win_step ?w s e = (s1, a)" "win_run ?w s1 es = (s', b)" "outs = a @ b"
    using Cons.prems(3) by (auto split: prod.splits)
  obtain c1 where c1: "ctrl_step c e = (c1, map snd a)" "reorder_rel c1 s1" "wsize_b c1 = wsize_b c"
    using ctrl_step_refines [OF Cons.prems(1) _ r(1)] Cons.prems(2) by auto
  then show ?case
    using Cons.IH [of c1 s1 b] Cons.prems(2) r by auto
qed simp

text \<open>C3. Delivery in order. Take any interleaving of received frames and timer expirations in which every
  received number is within half the number space of the window start. What the twelve-bit reorder buffer
  delivers, in the order it delivers it, are frames with strictly increasing sender numbers, so none is
  delivered twice or out of order; and the frames delivered together with those still buffered are exactly
  those buffered at first and those the window took in.\<close>

theorem reorder_in_order_delivery:
  assumes "reorder_rel c s" "run_near (uint (wsize_b c)) s es" "ctrl_run c es = (c', fs)"
  shows "\<exists>outs buf. fs = map snd outs \<and> pending c' = map snd buf \<and> sorted_wrt (<) (map fst (outs @ buf)) \<and>
    set (outs @ buf) = set (win_buf s) \<union> accepted (uint (wsize_b c)) s es"
proof -
  let ?w = "uint (wsize_b c)"
  obtain s' outs where r: "win_run ?w s es = (s', outs)"
    by (cases "win_run ?w s es")
  have rel: "fs = map snd outs" "reorder_rel c' s'"
    using ctrl_run_refines [OF assms(1,2) r] assms(3) by auto
  have "win_ok ?w s"
    using assms(1) by (simp add: reorder_rel_def)
  note ok = win_run_ok [OF this _ r]
  have "sorted_wrt (<) (map fst (outs @ win_buf s'))"
    using ok by (fastforce simp: win_step_ok_def win_ok_def sorted_wrt_append)
  moreover have "set (outs @ win_buf s') = set (win_buf s) \<union> accepted ?w s es"
    using ok by simp
  ultimately show ?thesis
    using rel by (auto simp: reorder_rel_def)
qed

definition demo_seq :: "int \<Rightarrow> rframe" where
  "demo_seq n = demo_frame\<lparr>fattr := demo_attr\<lparr>a_seq_num := word_of_int n\<rparr>\<rparr>"

definition demo_ctrl :: recv_reorder_ctrl where
  "demo_ctrl = \<lparr>enable = True, indicate_seq = 4095, wsize_b = 64, ampdu_size = 64, pending = [], timer_set = False\<rparr>"

definition demo_events :: "rx_event list" where
  "demo_events = [Rx 4097 (demo_seq 1), Rx 4096 (demo_seq 0), Rx 4095 (demo_seq 4095), Rx 4096 (demo_seq 0), Rx 4099 (demo_seq 3), Timer]"

lemma demo_rel: "reorder_rel demo_ctrl \<lparr>nxt = 4095, win_buf = []\<rparr>"
  by (simp add: reorder_rel_def demo_ctrl_def win_ok_def)

lemma demo_near: "run_near (uint (wsize_b demo_ctrl)) \<lparr>nxt = 4095, win_buf = []\<rparr> demo_events"
  by code_simp

lemma demo_run: "map sn (snd (ctrl_run demo_ctrl demo_events)) = [4095, 0, 1, 3]"
  by code_simp

theorem reorder_in_order_delivery_witness:
  "map sn (snd (ctrl_run demo_ctrl demo_events)) = [4095, 0, 1, 3] \<and>
    (\<exists>outs buf :: (int \<times> rframe) list. snd (ctrl_run demo_ctrl demo_events) = map snd outs \<and> sorted_wrt (<) (map fst (outs @ buf)))"
proof -
  obtain c' fs where r: "ctrl_run demo_ctrl demo_events = (c', fs)"
    by (cases "ctrl_run demo_ctrl demo_events")
  show ?thesis
    using reorder_in_order_delivery [OF demo_rel demo_near r] demo_run unfolding r snd_conv by blast
qed

text \<open>The first frame after a reset or a new block ack agreement sets the window: it is delivered at once
  and the buffer then stands in the relation to the unbounded one.\<close>

theorem reorder_first_frame:
  assumes "indicate_seq c = 0xFFFF" "pending c = []" "0 < wsize_b c" "sn f < 4096"
  shows "\<exists>c'. reorder_rx c f = (True, c', [f]) \<and> reorder_rel c' \<lparr>nxt = uint (sn f) + 1, win_buf = []\<rparr> \<and> \<not> timer_set c'"
proof -
  have f: "uint (sn f) = uint (sn f) mod 4096"
    using assms(4) by (simp add: word_less_def)
  have n: "uint ((sn f + 1) AND 0xFFF) = (uint (sn f) + 1) mod 4096"
    by (rule seq_next [OF f])
  have "\<not> SN_LESS ((sn f + 1) AND 0xFFF) (sn f)" "\<not> SN_LESS (sn f) (sn f)"
    using SN_LESS_near [OF n f] by (simp_all add: SN_LESS_def)
  moreover have "(sn f + 1) AND 0xFFF \<noteq> sn f"
    using seq_eq_near [OF n f] by simp
  ultimately have "reorder_rx c f = (True, c\<lparr>indicate_seq := (sn f + 1) AND 0xFFF, pending := [], timer_set := False\<rparr>, [f])"
    using assms by (simp add: reorder_rx_def check_indicate_seq_def recv_indicatepkts_in_order_def)
  then show ?thesis
    using n assms(3) by (simp add: reorder_rel_def win_ok_def)
qed

theorem reorder_first_frame_witness:
  "\<exists>c'. reorder_rx (reset_ctrl demo_ctrl) (demo_seq 4095) = (True, c', [demo_seq 4095]) \<and> \<not> timer_set c'"
  using reorder_first_frame [of "reset_ctrl demo_ctrl" "demo_seq 4095"]
  by (auto simp: reset_ctrl_def demo_ctrl_def demo_seq_def demo_attr_def sn_def)

section \<open>The timer\<close>

fun timeouts :: "nat \<Rightarrow> recv_reorder_ctrl \<Rightarrow> recv_reorder_ctrl \<times> rframe list" where
  "timeouts 0 c = (c, [])"
| "timeouts (Suc k) c = (let (c1, a) = timeout_ctrl False c; (c2, b) = timeouts k c1 in (c2, a @ b))"

lemma indicate_loop_split: "indicate_loop i q = (j, r, outs) \<Longrightarrow> q = outs @ r"
  by (induction i q arbitrary: j r outs rule: indicate_loop.induct) (auto split: if_splits prod.splits)

lemma SN_LESS_irrefl [simp]: "\<not> SN_LESS a a"
  by (simp add: SN_LESS_def)

lemma timeout_progress:
  assumes "timeout_ctrl False c = (c', outs)"
  shows "pending c = outs @ pending c'" "pending c \<noteq> [] \<Longrightarrow> outs \<noteq> []"
    "timer_set c' \<longleftrightarrow> pending c' \<noteq> [] \<or> pending c = []"
proof -
  show "pending c = outs @ pending c'"
    using assms by (auto simp: timeout_ctrl_def recv_indicatepkts_in_order_def Let_def dest!: indicate_loop_split split: if_splits prod.splits)
  show "outs \<noteq> []" if "pending c \<noteq> []"
    using that assms by (cases "pending c") (auto simp: timeout_ctrl_def recv_indicatepkts_in_order_def Let_def split: if_splits prod.splits)
  show "timer_set c' \<longleftrightarrow> pending c' \<noteq> [] \<or> pending c = []"
    using assms by (auto simp: timeout_ctrl_def recv_indicatepkts_in_order_def Let_def split: if_splits prod.splits)
qed

text \<open>C21. The timer drains the buffer: as many expirations as there are buffered frames deliver every one of
  them, in the order of the queue, and leave the queue empty. This needs no assumption on the numbers.\<close>

theorem reorder_timer_drains:
  assumes "length (pending c) \<le> k"
  shows "\<exists>c'. timeouts k c = (c', pending c) \<and> pending c' = []"
  using assms
proof (induction k arbitrary: c)
  case (Suc k)
  obtain c1 outs where c1: "timeout_ctrl False c = (c1, outs)"
    by (cases "timeout_ctrl False c")
  note p = timeout_progress [OF c1]
  have "length (pending c1) \<le> k"
    using p(1,2) Suc.prems by (cases "pending c = []") (auto simp: Suc_le_eq neq_Nil_conv)
  then show ?case
    using Suc.IH [of c1] c1 p(1) by auto
qed simp

theorem reorder_timer_drains_witness:
  "\<exists>c'. timeouts 2 (demo_ctrl\<lparr>pending := [demo_seq 7, demo_seq 3]\<rparr>) = (c', [demo_seq 7, demo_seq 3]) \<and> pending c' = []"
  using reorder_timer_drains [of "demo_ctrl\<lparr>pending := [demo_seq 7, demo_seq 3]\<rparr>" 2] by simp

text \<open>The states a buffer goes through while the driver runs: it starts as the association leaves it, frames
  arrive, the timer fires when it is set, and the peer sets up and tears down block ack agreements.\<close>

inductive reorder_reach :: "rx_env \<Rightarrow> recv_reorder_ctrl \<Rightarrow> bool" for e where
  start: "pending c = [] \<Longrightarrow> reorder_reach e (reset_ctrl c)"
| rx: "reorder_reach e c \<Longrightarrow> recv_indicatepkt_reorder e c f = Some (ok, c', acts) \<Longrightarrow> reorder_reach e c'"
| timer: "reorder_reach e c \<Longrightarrow> timer_set c \<Longrightarrow> rtw_reordering_ctrl_timeout_handler e c = Some (c', acts) \<Longrightarrow> reorder_reach e c'"
| addba: "reorder_reach e c \<Longrightarrow> reorder_reach e (addba_ctrl accept sz c)"
| delba: "reorder_reach e c \<Longrightarrow> reorder_reach e (delba_ctrl c)"
| reassoc: "reorder_reach e c \<Longrightarrow> reorder_reach e (reset_ctrl c)"

lemma check_indicate_seq_frame:
  "check_indicate_seq c v = (b, c') \<Longrightarrow> pending c' = pending c \<and> timer_set c' = timer_set c"
  by (auto simp: check_indicate_seq_def Let_def split: if_splits)

lemma reorder_rx_timer:
  assumes "reorder_rx c f = (ok, c', outs)" "pending c \<noteq> [] \<longrightarrow> timer_set c"
  shows "pending c' \<noteq> [] \<longrightarrow> timer_set c'"
  using assms by (auto simp: reorder_rx_def recv_indicatepkts_in_order_def dest!: check_indicate_seq_frame split: bool.splits option.splits prod.splits)

lemma recv_indicatepkt_reorder_timer:
  assumes "recv_indicatepkt_reorder e c f = Some (ok, c', acts)" "pending c \<noteq> [] \<longrightarrow> timer_set c"
  shows "pending c' \<noteq> [] \<longrightarrow> timer_set c'"
proof -
  have q: "pending c' \<noteq> [] \<longrightarrow> timer_set c'" if "reorder_queue e c g = Some (ok, c', acts)" for g
    using that reorder_rx_timer [OF _ assms(2)] by (auto simp: reorder_queue_def bind_eq_Some_conv split: prod.splits)
  show ?thesis
    using assms q by (auto simp: recv_indicatepkt_reorder_def bind_eq_Some_conv split: if_splits prod.splits)
qed

text \<open>C22. No frame is stranded: in every state the running driver reaches, a buffer that holds frames has its
  timer set, whatever frames and block ack requests arrive.\<close>

theorem reorder_timer_armed:
  assumes "reorder_reach e c" "\<not> stopped e" "pending c \<noteq> []"
  shows "timer_set c"
proof -
  have "pending c \<noteq> [] \<longrightarrow> timer_set c"
    using assms(1)
  proof induction
    case (rx c f ok c' acts)
    then show ?case
      using recv_indicatepkt_reorder_timer by blast
  next
    case (timer c c' acts)
    then show ?case
      using assms(2) timeout_progress(3) [of c]
      by (auto simp: rtw_reordering_ctrl_timeout_handler_def bind_eq_Some_conv split: prod.splits)
  qed (auto simp: reset_ctrl_def addba_ctrl_def delba_ctrl_def Let_def)
  then show ?thesis
    using assms(3) by blast
qed

definition demo_env :: rx_env where
  "demo_env = \<lparr>stopped = False, mp_state = False, skb_alloc = (\<lambda>_. True), skb_clone = True\<rparr>"

definition demo_empty :: "int \<Rightarrow> rframe" where
  "demo_empty n = demo_frame\<lparr>fattr := demo_attr\<lparr>a_seq_num := word_of_int n, a_amsdu := 1\<rparr>, flen := 34, rx_data := 0, rx_tail := 34\<rparr>"

lemma demo_rx:
  assumes "reorder_rx c (demo_empty n) = (ok, c', outs)" "enable c" "outs = [] \<or> outs = [demo_empty n]"
  shows "\<exists>acts. recv_indicatepkt_reorder demo_env c (demo_empty n) = Some (ok, c', acts)"
  using assms
  by (auto simp: recv_indicatepkt_reorder_def reorder_queue_def indicate_frame_def amsdu_to_msdu_def amsdu_loop.simps recvframe_pull_def
      at_off_def demo_empty_def demo_frame_def demo_attr_def rtw_rfc1042_header_def)

theorem reorder_timer_armed_witness:
  "\<exists>c. reorder_reach demo_env c \<and> map sn (pending c) = [9] \<and> timer_set c"
proof -
  define c0 where "c0 = addba_ctrl True 64 (reset_ctrl demo_ctrl)"
  define c1 where "c1 = c0\<lparr>indicate_seq := 8\<rparr>"
  define c2 where "c2 = c1\<lparr>pending := [demo_empty 9], timer_set := True\<rparr>"
  have c0: "reorder_reach demo_env c0"
    unfolding c0_def by (intro reorder_reach.addba reorder_reach.start) (simp add: demo_ctrl_def)
  note defs = c2_def c1_def c0_def reorder_rx_def check_indicate_seq_def recv_indicatepkts_in_order_def SN_LESS_def sn_def demo_empty_def
    demo_ctrl_def reset_ctrl_def addba_ctrl_def
  have rx1: "reorder_rx c0 (demo_empty 7) = (True, c1, [demo_empty 7])"
    by (simp add: defs)
  obtain acts1 where "recv_indicatepkt_reorder demo_env c0 (demo_empty 7) = Some (True, c1, acts1)"
    using demo_rx [OF rx1] by (auto simp: defs(2-3) addba_ctrl_def)
  note c1 = reorder_reach.rx [OF c0 this]
  have rx2: "reorder_rx c1 (demo_empty 9) = (True, c2, [])"
    by (simp add: defs)
  obtain acts2 where "recv_indicatepkt_reorder demo_env c1 (demo_empty 9) = Some (True, c2, acts2)"
    using demo_rx [OF rx2] by (auto simp: defs(2-3) addba_ctrl_def)
  note reach = reorder_reach.rx [OF c1 this]
  have p: "map sn (pending c2) = [9]"
    by (simp add: c2_def sn_def demo_empty_def)
  have "timer_set c2"
    by (rule reorder_timer_armed [OF reach]) (use p in \<open>auto simp: demo_env_def\<close>)
  with reach p show ?thesis
    by (intro exI [of _ c2] conjI)
qed

text \<open>The timer of an empty queue is set again each time it fires, because a forced indication of an empty
  queue answers true; the handler keeps waking up with nothing to do.\<close>

theorem reorder_timer_rearms_empty:
  assumes "pending c = []"
  shows "\<exists>c'. timeouts (Suc k) c = (c', []) \<and> timer_set c' \<and> pending c' = []"
  using assms
proof (induction k arbitrary: c)
  case 0
  then show ?case
    by (simp add: timeout_ctrl_def recv_indicatepkts_in_order_def)
next
  case (Suc k)
  obtain c1 outs where c1: "timeout_ctrl False c = (c1, outs)"
    by (cases "timeout_ctrl False c")
  then have "outs = []" "pending c1 = []"
    using timeout_progress(1) [OF c1] Suc.prems by auto
  then show ?case
    using Suc.IH [of c1] c1 by auto
qed

end
