(* ===== verification/Recv_Defrag.thy ===== *)
theory Recv_Defrag
  imports Recv_Frame
begin

text \<open>
  Reassembly of a fragmented frame, \<open>recvframe_defrag\<close> of \<^verbatim>\<open>core/rtw_recv.c\<close>. The theorems say when it gives the
  frame its sender cut up, and when it writes behind the buffer of the first fragment.
\<close>

section \<open>Defragmentation\<close>

text \<open>The loop over the queue behind the first fragment: \<open>None\<close> for a fragment out of sequence. The payload is copied
  behind the first fragment before \<open>recvframe_put\<close> looks at the room there; the header length is kept in eight
  bits.\<close>

fun defrag_loop :: "u8 \<Rightarrow> rframe \<Rightarrow> rframe list \<Rightarrow> rframe option option" where
  "defrag_loop cur f [] = Some (Some f)"
| "defrag_loop cur f (g # gs) =
     (if cur \<noteq> a_frag_num (fattr g) then Some None
      else do {
        let g1 = snd (recvframe_pull g (uint (a_hdrlen (fattr g) + a_iv_len (fattr g))));
        let f1 = snd (recvframe_pull_tail f (uint (a_icv_len (fattr f))));
        src \<leftarrow> at_off (rx_data g1);
        dst \<leftarrow> at_off (rx_tail f1);
        m \<leftarrow> rtw_memcpy (fbuf f1) dst (fbuf g1) src (unat (flen g1));
        let f2 = snd (recvframe_put (f1\<lparr>fbuf := m\<rparr>) (uint (flen g1)));
        defrag_loop (cur + 1) (f2\<lparr>fattr := (fattr f2)\<lparr>a_icv_len := a_icv_len (fattr g1)\<rparr>\<rparr>) gs })"

definition frees :: "rframe list \<Rightarrow> rx_act list" where
  "frees fs = map (\<lambda>f. Free_recvframe (fid f)) fs"

text \<open>Every call empties the queue; it is called on a queue with at least one frame.\<close>

definition recvframe_defrag :: "rframe list \<Rightarrow> (rframe option \<times> rx_act list) option" where
  "recvframe_defrag q = (case q of [] \<Rightarrow> None
     | f # gs \<Rightarrow>
        if a_frag_num (fattr f) \<noteq> 0 then Some (None, frees (f # gs))
        else do { r \<leftarrow> defrag_loop 1 f gs; case r of None \<Rightarrow> Some (None, frees (f # gs)) | Some f' \<Rightarrow> Some (Some f', frees gs) })"

section \<open>Fragments\<close>

lemma wf_split:
  assumes "rframe_wf f"
  obtains pre post where "fbuf f = pre @ pkt_bytes f @ post" "rx_data f = int (length pre)"
    "rx_tail f = int (length pre + length (pkt_bytes f))" "uint (flen f) = int (length (pkt_bytes f))"
proof
  let ?d = "nat (rx_data f)" and ?n = "unat (flen f)"
  have wf: "0 \<le> rx_data f" "rx_data f \<le> rx_tail f" "rx_tail f \<le> int (length (fbuf f))" "uint (flen f) = rx_tail f - rx_data f"
    using assms by (auto simp: rframe_wf_def)
  have n: "int ?n = rx_tail f - rx_data f"
    using wf(4) by (simp only: uint_nat)
  show "fbuf f = take ?d (fbuf f) @ pkt_bytes f @ drop ?n (drop ?d (fbuf f))"
    unfolding pkt_bytes_def append_take_drop_id ..
  show d: "rx_data f = int (length (take ?d (fbuf f)))"
    using wf by simp
  have "?n \<le> length (fbuf f) - ?d"
    using n wf(1,3) by linarith
  then have len: "length (pkt_bytes f) = ?n"
    by (simp add: pkt_bytes_def)
  show "uint (flen f) = int (length (pkt_bytes f))"
    using len n wf(4) by (simp only:)
  show "rx_tail f = int (length (take ?d (fbuf f)) + length (pkt_bytes f))"
    using d len n by (simp only: of_nat_add)
qed

text \<open>A fragment: header and IV, payload, ICV.\<close>

definition frag :: "rframe \<Rightarrow> mem \<Rightarrow> mem \<Rightarrow> mem \<Rightarrow> bool" where
  "frag f h p i \<longleftrightarrow> rframe_wf f \<and> pkt_bytes f = h @ p @ i \<and> length h = unat (a_hdrlen (fattr f)) + unat (a_iv_len (fattr f)) \<and>
     length h < 256 \<and> length i = unat (a_icv_len (fattr f))"

lemma frag_split:
  assumes "frag f h p i"
  obtains pre post where "fbuf f = pre @ (h @ p @ i) @ post" "rx_data f = int (length pre)"
    "rx_tail f = int (length pre + length (h @ p @ i))" "flen f = word_of_nat (length (h @ p @ i))"
proof -
  obtain pre post where s: "fbuf f = pre @ (h @ p @ i) @ post" "rx_data f = int (length pre)"
    "rx_tail f = int (length pre + length (h @ p @ i))"
    using assms wf_split [of f] unfolding frag_def by metis
  have "flen f = word_of_int (rx_tail f - rx_data f)"
    using assms rframe_wf_len by (simp add: frag_def)
  moreover have "rx_tail f - rx_data f = int (length (h @ p @ i))"
    using s(2,3) by simp
  ultimately have "flen f = word_of_nat (length (h @ p @ i))"
    by (simp only: of_int_of_nat_eq)
  with s show ?thesis
    using that by blast
qed

text \<open>The two ends of the copy: what the next fragment gives, and where the first one stands without its ICV.\<close>

lemma frag_pull:
  assumes g: "frag g hg pg ig"
  obtains g1 src where "snd (recvframe_pull g (uint (a_hdrlen (fattr g) + a_iv_len (fattr g)))) = g1" "at_off (rx_data g1) = Some src"
    "rd_bytes (fbuf g1) src (unat (flen g1)) = Some (pg @ ig)" "uint (flen g1) = int (length (pg @ ig))" "fattr g1 = fattr g"
proof -
  obtain pre post where gs: "fbuf g = pre @ (hg @ pg @ ig) @ post" "rx_data g = int (length pre)"
    "rx_tail g = int (length pre + length (hg @ pg @ ig))" "flen g = word_of_nat (length (hg @ pg @ ig))"
    using frag_split [OF g] by blast
  have wf: "length hg < 256" "length hg = unat (a_hdrlen (fattr g)) + unat (a_iv_len (fattr g))" "length (fbuf g) < 2 ^ 31"
    using g by (simp_all add: frag_def rframe_wf_def)
  have "unat (a_hdrlen (fattr g) + a_iv_len (fattr g)) = length hg"
    using wf(1,2) by (simp add: unat_word_ariths)
  then have hg: "uint (a_hdrlen (fattr g) + a_iv_len (fattr g)) = int (length hg)"
    by (simp only: uint_nat)
  have small: "length (pg @ ig) < 2 ^ 32"
    using wf(3) gs(1) by simp
  define g1 where "g1 = g\<lparr>rx_data := int (length pre + length hg), flen := word_of_nat (length (pg @ ig))\<rparr>"
  have len: "unat (flen g1) = length (pg @ ig)"
    using small by (simp add: g1_def unat_of_nat take_bit_nat_eq_self del: of_nat_add length_append)
  have "snd (recvframe_pull g (uint (a_hdrlen (fattr g) + a_iv_len (fattr g)))) = g1"
    using gs unfolding hg recvframe_pull_def by (simp add: g1_def)
  moreover have "at_off (rx_data g1) = Some (length pre + length hg)"
    by (simp add: g1_def at_off_def nat_add_distrib)
  moreover have "rd_bytes (fbuf g1) (length pre + length hg) (unat (flen g1)) = Some (pg @ ig)"
    using rd_bytes_at [of _ "pg @ ig" "pre @ hg" post] gs(1) unfolding len by (simp add: g1_def)
  moreover have "uint (flen g1) = int (length (pg @ ig))"
    using len by (simp only: uint_nat)
  ultimately show ?thesis
    using that [of g1] by (simp add: g1_def)
qed

lemma frag_cut:
  assumes f: "frag f h acc i"
  obtains pre post where "fbuf f = pre @ (h @ acc @ i) @ post" "rx_data f = int (length pre)"
    "snd (recvframe_pull_tail f (uint (a_icv_len (fattr f)))) =
      f\<lparr>rx_tail := int (length (pre @ h @ acc)), flen := word_of_nat (length (h @ acc))\<rparr>"
proof -
  obtain pre post where fs: "fbuf f = pre @ (h @ acc @ i) @ post" "rx_data f = int (length pre)"
    "rx_tail f = int (length pre + length (h @ acc @ i))" "flen f = word_of_nat (length (h @ acc @ i))"
    using frag_split [OF f] by blast
  have "length i = unat (a_icv_len (fattr f))"
    using f by (simp add: frag_def)
  then have icv: "uint (a_icv_len (fattr f)) = int (length i)"
    by (simp only: uint_nat)
  have "snd (recvframe_pull_tail f (uint (a_icv_len (fattr f)))) =
      f\<lparr>rx_tail := int (length (pre @ h @ acc)), flen := word_of_nat (length (h @ acc))\<rparr>"
    using fs unfolding icv recvframe_pull_tail_def by simp
  with fs(1,2) show ?thesis
    using that by blast
qed

text \<open>One round of the loop on a fragment that fits.\<close>

lemma defrag_round:
  assumes f: "frag f h acc i" and g: "frag g hg pg ig" and num: "a_frag_num (fattr g) = cur"
    and room: "rx_data f + int (length (h @ acc @ pg @ ig)) \<le> rx_end f"
  shows "\<exists>f'. defrag_loop cur f (g # gs) = defrag_loop (cur + 1) f' gs \<and> frag f' h (acc @ pg) ig \<and> rx_data f' = rx_data f \<and>
    rx_end f' = rx_end f \<and> fid f' = fid f \<and> fattr f' = (fattr f)\<lparr>a_icv_len := a_icv_len (fattr g)\<rparr>"
proof -
  obtain g1 src where g1: "snd (recvframe_pull g (uint (a_hdrlen (fattr g) + a_iv_len (fattr g)))) = g1" "at_off (rx_data g1) = Some src"
    "rd_bytes (fbuf g1) src (unat (flen g1)) = Some (pg @ ig)" "uint (flen g1) = int (length (pg @ ig))" "fattr g1 = fattr g"
    using frag_pull [OF g] by blast
  obtain pre post where fs: "fbuf f = pre @ (h @ acc @ i) @ post" "rx_data f = int (length pre)"
    "snd (recvframe_pull_tail f (uint (a_icv_len (fattr f)))) =
      f\<lparr>rx_tail := int (length (pre @ h @ acc)), flen := word_of_nat (length (h @ acc))\<rparr>"
    using frag_cut [OF f] by blast
  have wf: "length ig = unat (a_icv_len (fattr g))" "length h = unat (a_hdrlen (fattr f)) + unat (a_iv_len (fattr f))" "length h < 256"
    "length (fbuf f) < 2 ^ 31" "rx_end f \<le> int (length (fbuf f))"
    using f g by (auto simp: frag_def rframe_wf_def)
  define f1 where "f1 = f\<lparr>rx_tail := int (length (pre @ h @ acc)), flen := word_of_nat (length (h @ acc))\<rparr>"
  have fit: "length (pg @ ig) \<le> length (i @ post)"
    using room wf(5) fs(1,2) by simp
  define b where "b = (pre @ h @ acc) @ (pg @ ig) @ drop (length (pg @ ig)) (i @ post)"
  have "wr_bytes ((pre @ h @ acc) @ take (length (pg @ ig)) (i @ post) @ drop (length (pg @ ig)) (i @ post)) (length (pre @ h @ acc)) (pg @ ig) = Some b"
    unfolding b_def by (rule wr_bytes_at) (use fit in simp)
  then have copy: "wr_bytes (fbuf f1) (length (pre @ h @ acc)) (pg @ ig) = Some b"
    unfolding append_take_drop_id using fs(1) by (simp add: f1_def)
  define f' where "f' = f1\<lparr>fbuf := b, rx_tail := int (length (pre @ h @ acc @ pg @ ig)), flen := word_of_nat (length (h @ acc @ pg @ ig)),
    fattr := (fattr f)\<lparr>a_icv_len := a_icv_len (fattr g)\<rparr>\<rparr>"
  have put: "snd (recvframe_put (f1\<lparr>fbuf := b\<rparr>) (uint (flen g1))) = f'\<lparr>fattr := fattr f\<rparr>"
    using room fs(2) unfolding g1(4) recvframe_put_def by (simp add: f1_def f'_def)
  have off: "at_off (rx_tail f1) = Some (length (pre @ h @ acc))"
    by (simp only: f1_def) (simp add: at_off_def)
  have "defrag_loop cur f (g # gs) = defrag_loop (cur + 1) f' gs"
    unfolding defrag_loop.simps Let_def g1(1) fs(3) f1_def [symmetric] rtw_memcpy_def g1(2,3) off bind.bind_lunit copy put
    using num g1(5) by (simp add: f'_def)
  moreover have fields: "rx_data f' = int (length pre)" "rx_end f' = rx_end f" "rx_tail f' = int (length (pre @ h @ acc @ pg @ ig))"
    "fbuf f' = b" "flen f' = word_of_nat (length (h @ acc @ pg @ ig))" "fid f' = fid f" "fattr f' = (fattr f)\<lparr>a_icv_len := a_icv_len (fattr g)\<rparr>"
    using fs(2) by (simp_all add: f'_def f1_def)
  moreover have lb: "length b = length (fbuf f)"
    using fit fs(1) by (simp add: b_def)
  moreover have "rframe_wf f'"
    by (rule rframe_wfI) (use fields lb wf(4,5) room fs(2) in simp_all)
  moreover have "pkt_bytes f' = h @ (acc @ pg) @ ig"
  proof -
    have "length (h @ acc @ pg @ ig) < 2 ^ 32"
      using lb wf(4) by (simp add: b_def)
    then have "unat (flen f') = length (h @ acc @ pg @ ig)"
      unfolding fields(5) by (simp add: unat_of_nat take_bit_nat_eq_self del: of_nat_add length_append)
    then show ?thesis
      by (simp add: pkt_bytes_def fields b_def del: length_append) simp
  qed
  ultimately show ?thesis
    using wf fs(2) by (intro exI [of _ f']) (simp add: frag_def)
qed

text \<open>The further fragments, numbered on from \<open>cur\<close>, with ICVs of \<open>c\<close> bytes.\<close>

fun frag_seq :: "u8 \<Rightarrow> nat \<Rightarrow> rframe list \<Rightarrow> mem list \<Rightarrow> bool" where
  "frag_seq cur c [] [] = True"
| "frag_seq cur c (g # gs) (p # ps) \<longleftrightarrow> (\<exists>h i. frag g h p i \<and> length i = c) \<and> a_frag_num (fattr g) = cur \<and> frag_seq (cur + 1) c gs ps"
| "frag_seq cur c _ _ = False"

lemma defrag_loop_correct:
  assumes "frag f h acc i" "length i = c" "frag_seq cur c gs ps" "rx_data f + int (length (h @ acc @ concat ps) + c) \<le> rx_end f"
  shows "\<exists>f' i'. defrag_loop cur f gs = Some (Some f') \<and> frag f' h (acc @ concat ps) i' \<and> length i' = c \<and> fid f' = fid f"
  using assms
proof (induction cur c gs ps arbitrary: f acc i rule: frag_seq.induct)
  case (2 cur c g gs p ps)
  obtain hg ig where g: "frag g hg p ig" "length ig = c" "a_frag_num (fattr g) = cur" "frag_seq (cur + 1) c gs ps"
    using "2.prems"(3) by auto
  have "rx_data f + int (length (h @ acc @ p @ ig)) \<le> rx_end f"
    using "2.prems"(4) g(2) by simp
  from defrag_round [OF "2.prems"(1) g(1,3) this] obtain f' where f': "defrag_loop cur f (g # gs) = defrag_loop (cur + 1) f' gs"
    "frag f' h (acc @ p) ig" "rx_data f' = rx_data f" "rx_end f' = rx_end f" "fid f' = fid f"
    by blast
  then show ?case
    using "2.IH" [OF f'(2) g(2,4)] "2.prems"(4) by (simp add: add.assoc)
qed (auto intro: exI)

text \<open>C18. Reassembly is concatenation: when the fragments are numbered from 0 on and fit into the buffer of the first, the
  result is the first fragment's header, all payloads in order, and the last ICV, in the first frame object; the
  other frame objects are freed. The sequence numbers of the fragments play no part.\<close>

theorem recvframe_defrag_correct:
  assumes "frag f h p i" "a_frag_num (fattr f) = 0" "length i = c" "frag_seq 1 c gs ps"
    "rx_data f + int (length (h @ p @ concat ps) + c) \<le> rx_end f"
  shows "\<exists>f' i'. recvframe_defrag (f # gs) = Some (Some f', frees gs) \<and> rframe_wf f' \<and> pkt_bytes f' = h @ p @ concat ps @ i' \<and>
    length i' = c \<and> fid f' = fid f"
  using defrag_loop_correct [OF assms(1,3,4,5)] assms(2) by (auto simp: recvframe_defrag_def frag_def)

definition demo_frag :: "u8 \<Rightarrow> mem \<Rightarrow> rframe" where
  "demo_frag n room = \<lparr>fid = unat n, fattr = demo_attr\<lparr>a_hdrlen := 2, a_iv_len := 0, a_icv_len := 1, a_frag_num := n\<rparr>, flen = 4,
     fbuf = [8, 8, n, 9] @ room, rx_data = 0, rx_tail = 4, rx_end = int (4 + length room), f_psta = None\<rparr>"

lemma demo_frag_ok: "length room < 100 \<Longrightarrow> frag (demo_frag n room) [8, 8] [n] [9]"
  by (simp add: frag_def demo_frag_def demo_attr_def rframe_wf_def pkt_bytes_def)

theorem recvframe_defrag_correct_witness:
  "\<exists>f' i'. recvframe_defrag [demo_frag 0 [0, 0], demo_frag 1 []] = Some (Some f', [Free_recvframe 1]) \<and> pkt_bytes f' = [8, 8, 0, 1] @ i'"
proof -
  have "\<exists>h i. frag (demo_frag 1 []) h [1] i \<and> length i = 1"
    by (intro exI [of _ "[8, 8]"] exI [of _ "[9]"]) (simp add: demo_frag_ok)
  moreover have "a_frag_num (fattr (demo_frag 1 [])) = 1"
    by (simp add: demo_frag_def)
  ultimately have "frag_seq 1 1 [demo_frag 1 []] [[1]]"
    by simp
  then show ?thesis
    using recvframe_defrag_correct [OF demo_frag_ok [of "[0, 0]" 0], of 1 "[demo_frag 1 []]" "[[1]]"]
    by (auto simp: demo_frag_def frees_def)
qed

text \<open>C28. A second fragment that does not fit is copied all the same: the room is looked at only after the copy, which runs
  over the end of the first fragment's buffer.\<close>

theorem recvframe_defrag_overflow:
  assumes "frag f h p i" "a_frag_num (fattr f) = 0" "frag g hg pg ig" "a_frag_num (fattr g) = 1"
    "int (length (fbuf f)) < rx_data f + int (length (h @ p @ pg @ ig))"
  shows "recvframe_defrag (f # g # gs) = None"
proof -
  obtain g1 src where g1: "snd (recvframe_pull g (uint (a_hdrlen (fattr g) + a_iv_len (fattr g)))) = g1" "at_off (rx_data g1) = Some src"
    "rd_bytes (fbuf g1) src (unat (flen g1)) = Some (pg @ ig)"
    using frag_pull [OF assms(3)] by blast
  obtain pre post where fs: "fbuf f = pre @ (h @ p @ i) @ post" "rx_data f = int (length pre)"
    "snd (recvframe_pull_tail f (uint (a_icv_len (fattr f)))) =
      f\<lparr>rx_tail := int (length (pre @ h @ p)), flen := word_of_nat (length (h @ p))\<rparr>"
    using frag_cut [OF assms(1)] by blast
  have "wr_bytes (fbuf f) (length (pre @ h @ p)) (pg @ ig) = None"
    using assms(5) fs(2) by (simp add: wr_bytes_def)
  moreover have "at_off (int (length (pre @ h @ p))) = Some (length (pre @ h @ p))"
    by (simp add: at_off_def del: length_append)
  ultimately have "defrag_loop 1 f (g # gs) = None"
    unfolding defrag_loop.simps Let_def g1(1) fs(3) rtw_memcpy_def g1(2,3) bind.bind_lunit
    using assms(4) by (simp del: length_append)
  then show ?thesis
    using assms(2) by (simp add: recvframe_defrag_def)
qed

theorem recvframe_defrag_overflow_witness: "recvframe_defrag [demo_frag 0 [], demo_frag 1 []] = None"
  using recvframe_defrag_overflow [OF demo_frag_ok [of "[]" 0] _ demo_frag_ok [of "[]" 1], of "[]"] by (simp add: demo_frag_def)

end
