(* ===== verification/Macid.thy ===== *)
theory Macid
  imports Rtw_Prelude
begin

text \<open>
  The hardware id of a station: \<open>rtw_alloc_macid\<close> and \<open>rtw_release_macid\<close> of
  \<^verbatim>\<open>core/rtw_wlan_util.c\<close> with the bitmaps they keep (\<open>struct macid_bmp\<close> and
  \<open>struct macid_ctl_t\<close> of \<^verbatim>\<open>include/drv_types.h\<close>). \<open>MACID_NUM_SW_LIMIT\<close> is 32, so a
  bitmap is one word. A bitmap stands for a set of ids; the theorems say that the operations are
  insertion and deletion there, and that an id is never given out twice.
\<close>

section \<open>Bitmaps\<close>

type_synonym macid_bmp = u32

definition rtw_macid_is_set :: "macid_bmp \<Rightarrow> nat \<Rightarrow> bool" where
  "rtw_macid_is_set m0 i \<longleftrightarrow> i < 32 \<and> m0 AND push_bit i 1 \<noteq> 0"

definition rtw_macid_map_set :: "macid_bmp \<Rightarrow> nat \<Rightarrow> macid_bmp" where
  "rtw_macid_map_set m0 i = (if i < 32 then m0 OR push_bit i 1 else m0)"

definition rtw_macid_map_clr :: "macid_bmp \<Rightarrow> nat \<Rightarrow> macid_bmp" where
  "rtw_macid_map_clr m0 i = (if i < 32 then m0 AND NOT (push_bit i 1) else m0)"

definition bmp_set :: "macid_bmp \<Rightarrow> nat set" where
  "bmp_set m = {i. rtw_macid_is_set m i}"

lemma macid_is_set_bit: "rtw_macid_is_set m i \<longleftrightarrow> i < 32 \<and> bit m i"
  using and_exp_eq_0_iff_not_bit [of m i] by (auto simp: rtw_macid_is_set_def push_bit_eq_mult)

lemma bmp_set_set: "i < 32 \<Longrightarrow> bmp_set (rtw_macid_map_set m i) = insert i (bmp_set m)"
  by (auto simp: bmp_set_def macid_is_set_bit rtw_macid_map_set_def bit_simps)

lemma bmp_set_clr: "i < 32 \<Longrightarrow> bmp_set (rtw_macid_map_clr m i) = bmp_set m - {i}"
  by (auto simp: bmp_set_def macid_is_set_bit rtw_macid_map_clr_def bit_simps)

lemma bmp_set_le: "bmp_set m \<subseteq> {..<32}"
  by (auto simp: bmp_set_def rtw_macid_is_set_def)

section \<open>Allocation and release\<close>

text \<open>\<open>if_g\<close> has one bitmap for each interface, \<open>ch_g\<close> one for each of two channels.\<close>

record macid_ctl_t =
  mc_num :: u8
  mc_used :: macid_bmp
  mc_bmc :: macid_bmp
  mc_if_g :: "macid_bmp list"
  mc_ch_g :: "macid_bmp list"

definition bc_addr :: mem where
  "bc_addr = [0xff, 0xff, 0xff, 0xff, 0xff, 0xff]"

text \<open>The search loop: the first id that is neither 1, the shared id of broadcast, nor in use; the
  bound when there is none.\<close>

function macid_search :: "macid_bmp \<Rightarrow> nat \<Rightarrow> nat \<Rightarrow> nat" where
  "macid_search used num i =
     (if i < num then
        if i = 1 then macid_search used num (i + 1)
        else if \<not> rtw_macid_is_set used i then i
        else macid_search used num (i + 1)
      else i)"
  by pat_completeness auto
termination
  by (relation "measure (\<lambda>(used, num, i). num - i)") auto

declare macid_search.simps [simp del]

text \<open>The answer is \<open>mac_id\<close>. \<open>my\<close> is the address of the adapter, \<open>iface\<close> its interface number.\<close>

definition rtw_alloc_macid :: "mem \<Rightarrow> nat \<Rightarrow> macid_ctl_t \<Rightarrow> mem \<Rightarrow> (u32 \<times> macid_ctl_t) option" where
  "rtw_alloc_macid my iface mc hwaddr =
     (if hwaddr = my then Some (ucast (mc_num mc), mc)
      else do {
        g \<leftarrow> arr (mc_if_g mc) iface;
        if hwaddr = bc_addr then
          Some (1, mc\<lparr>mc_used := rtw_macid_map_set (mc_used mc) 1, mc_bmc := rtw_macid_map_set (mc_bmc mc) 1,
                      mc_if_g := (mc_if_g mc)[iface := rtw_macid_map_set g 1]\<rparr>)
        else let i = macid_search (mc_used mc) (unat (mc_num mc)) 0 in
          if i < unat (mc_num mc) then
            Some (word_of_nat i, mc\<lparr>mc_used := rtw_macid_map_set (mc_used mc) i,
                                    mc_if_g := (mc_if_g mc)[iface := rtw_macid_map_set g i]\<rparr>)
          else Some (ucast (mc_num mc), mc) })"

definition rtw_release_macid :: "mem \<Rightarrow> macid_ctl_t \<Rightarrow> mem \<Rightarrow> u32 \<Rightarrow> macid_ctl_t" where
  "rtw_release_macid my mc hwaddr mac_id =
     (if hwaddr = my \<or> hwaddr = bc_addr \<or> mac_id = 1 then mc
      else if mac_id < ucast (mc_num mc) then
        let i = unat mac_id in
        mc\<lparr>mc_used := rtw_macid_map_clr (mc_used mc) i, mc_bmc := rtw_macid_map_clr (mc_bmc mc) i,
           mc_if_g := map (\<lambda>g. rtw_macid_map_clr g i) (mc_if_g mc), mc_ch_g := map (\<lambda>g. rtw_macid_map_clr g i) (mc_ch_g mc)\<rparr>
      else mc)"

lemma macid_search_spec:
  assumes "macid_search used num i = j"
  shows "i \<le> j \<and> (j < num \<longrightarrow> j \<noteq> 1 \<and> \<not> rtw_macid_is_set used j) \<and> (\<forall>k. i \<le> k \<and> k < j \<and> k < num \<longrightarrow> k = 1 \<or> rtw_macid_is_set used k)"
  using assms
proof (induction used num i arbitrary: j rule: macid_search.induct)
  case (1 used num i)
  show ?case
  proof (cases "i < num \<and> (i = 1 \<or> rtw_macid_is_set used i)")
    case True
    then have "macid_search used num (i + 1) = j"
      using "1.prems" macid_search.simps [of used num i] by (auto split: if_splits)
    then have r: "i + 1 \<le> j" "j < num \<longrightarrow> j \<noteq> 1 \<and> \<not> rtw_macid_is_set used j"
      "\<forall>k. i + 1 \<le> k \<and> k < j \<and> k < num \<longrightarrow> k = 1 \<or> rtw_macid_is_set used k"
      using "1.IH" True by blast+
    moreover have "k = 1 \<or> rtw_macid_is_set used k" if "i \<le> k" "k < j" "k < num" for k
      using that True r(3) by (cases "k = i") auto
    ultimately show ?thesis
      by auto
  next
    case False
    then have "j = i"
      using "1.prems" macid_search.simps [of used num i] by (auto split: if_splits)
    then show ?thesis
      using False by auto
  qed
qed

lemma rtw_alloc_macid_some:
  assumes "iface < length (mc_if_g mc)"
  shows "\<exists>i mc'. rtw_alloc_macid my iface mc hwaddr = Some (i, mc') \<and> length (mc_if_g mc') = length (mc_if_g mc) \<and> mc_num mc' = mc_num mc"
  using assms by (simp add: rtw_alloc_macid_def arr_def Let_def)

lemma rtw_release_macid_frame [simp]:
  "length (mc_if_g (rtw_release_macid my mc hwaddr i)) = length (mc_if_g mc)" "mc_num (rtw_release_macid my mc hwaddr i) = mc_num mc"
  by (simp_all add: rtw_release_macid_def Let_def)

text \<open>An id that \<open>rtw_alloc_macid\<close> gives to a station other than the adapter itself and broadcast is in range,
  was not in use and is not the shared broadcast id; exactly this id is added to the ids in use. When every
  other id is in use the answer is the bound, which is no id, and nothing changes.\<close>

lemma rtw_alloc_macid_fresh:
  assumes "rtw_alloc_macid my iface mc hwaddr = Some (mac_id, mc')" "hwaddr \<noteq> my" "hwaddr \<noteq> bc_addr" "mc_num mc \<le> 32"
  shows "if {..<unat (mc_num mc)} - {1} \<subseteq> bmp_set (mc_used mc) then mac_id = ucast (mc_num mc) \<and> mc' = mc
    else unat mac_id < unat (mc_num mc) \<and> mac_id \<noteq> 1 \<and> unat mac_id \<notin> bmp_set (mc_used mc) \<and>
      bmp_set (mc_used mc') = insert (unat mac_id) (bmp_set (mc_used mc))"
proof -
  define i where "i = macid_search (mc_used mc) (unat (mc_num mc)) 0"
  have i: "i < unat (mc_num mc) \<longrightarrow> i \<noteq> 1 \<and> i \<notin> bmp_set (mc_used mc)"
    "\<forall>k < i. k < unat (mc_num mc) \<longrightarrow> k = 1 \<or> k \<in> bmp_set (mc_used mc)"
    using macid_search_spec [OF i_def [symmetric]] by (simp_all add: bmp_set_def)
  obtain g where g: "arr (mc_if_g mc) iface = Some g"
    using assms(1-3) by (auto simp: rtw_alloc_macid_def bind_eq_Some_conv)
  note def = rtw_alloc_macid_def [of my iface mc hwaddr, unfolded if_not_P [OF assms(2)] if_not_P [OF assms(3)] g bind.bind_lunit, folded i_def]
  show ?thesis
  proof (cases "i < unat (mc_num mc)")
    case True
    then have lt: "i < 32"
      using assms(4) by (simp add: word_le_nat_alt)
    have "mac_id = word_of_nat i" "mc_used mc' = rtw_macid_map_set (mc_used mc) i"
      using assms(1) True unfolding def by (auto simp: Let_def)
    moreover have "unat (word_of_nat i :: u32) = i"
      using lt by (simp add: unat_of_nat take_bit_nat_eq_self)
    moreover have "(word_of_nat i :: u32) \<noteq> 1"
      using i(1) True \<open>unat (word_of_nat i :: u32) = i\<close> by auto
    ultimately show ?thesis
      using True i(1) bmp_set_set [OF lt] by auto
  next
    case False
    then have "mac_id = ucast (mc_num mc)" "mc' = mc"
      using assms(1) unfolding def by (auto simp: Let_def)
    moreover have "\<forall>k < unat (mc_num mc). k = 1 \<or> k \<in> bmp_set (mc_used mc)"
      using i(2) False by (meson less_le_trans not_less)
    then have "{..<unat (mc_num mc)} - {1} \<subseteq> bmp_set (mc_used mc)"
      by auto
    ultimately show ?thesis
      by simp
  qed
qed

lemma rtw_release_macid_used:
  assumes "hwaddr \<noteq> my" "hwaddr \<noteq> bc_addr" "mac_id \<noteq> 1" "mac_id < ucast (mc_num mc)" "mc_num mc \<le> 32"
  shows "bmp_set (mc_used (rtw_release_macid my mc hwaddr mac_id)) = bmp_set (mc_used mc) - {unat mac_id}"
proof -
  have "unat mac_id < unat (mc_num mc)"
    using assms(4) by (simp add: word_less_nat_alt unat_ucast_u8)
  then have "unat mac_id < 32"
    using assms(5) by (simp add: word_le_nat_alt)
  then show ?thesis
    using assms bmp_set_clr by (simp add: rtw_release_macid_def Let_def)
qed

text \<open>The three ways an id is given out, for a station whose id is in range.\<close>

lemma rtw_alloc_macid_cases:
  assumes "rtw_alloc_macid my iface mc a = Some (mid, mc')" "mc_num mc \<le> 32" "unat mid < unat (mc_num mc)"
  shows "a \<noteq> my \<and> (if a = bc_addr then mid = 1 else mid \<noteq> 1 \<and> unat mid \<notin> bmp_set (mc_used mc) \<and> unat mid \<in> bmp_set (mc_used mc'))"
proof (cases "a = my \<or> a = bc_addr")
  case True
  then show ?thesis
    using assms by (auto simp: rtw_alloc_macid_def bind_eq_Some_conv unat_ucast_u8 split: if_splits)
next
  case False
  then show ?thesis
    using rtw_alloc_macid_fresh [OF assms(1)] assms(2,3) by (auto simp: unat_ucast_u8 split: if_splits)
qed

lemma rtw_alloc_macid_mono:
  assumes "rtw_alloc_macid my iface mc a = Some (mid, mc')" "mc_num mc \<le> 32"
  shows "bmp_set (mc_used mc) \<subseteq> bmp_set (mc_used mc')"
proof (cases "a = my \<or> a = bc_addr")
  case True
  then show ?thesis
    using assms bmp_set_set [of 1 "mc_used mc"] by (auto simp: rtw_alloc_macid_def bind_eq_Some_conv split: if_splits)
next
  case False
  then show ?thesis
    using rtw_alloc_macid_fresh [OF assms(1)] assms(2) by (auto split: if_splits)
qed

end
