(* ===== verification/Xmit_Frame.thy ===== *)
theory Xmit_Frame
  imports Recv_Frame "HOL-Library.Multiset"
begin

text \<open>
  Transmit frames and their pools, from \<^verbatim>\<open>core/rtw_xmit.c\<close>: \<open>rtw_alloc_xmitframe\<close>, \<open>rtw_alloc_xmitframe_ext\<close>,
  \<open>rtw_free_xmitframe\<close>, \<open>rtw_free_xmitframe_queue\<close> and the setting up of the pools and of the four hardware
  queues. A frame object carries the attributes the queueing code reads and writes. The lemmas say that a
  frame object that is given back goes to the pool it came from.
\<close>

section \<open>State\<close>

text \<open>\<open>xid\<close> stands for the address of the object. \<open>x_psta\<close> is the station \<open>attrib.psta\<close> points to, \<open>x_pkt\<close> says that the
  frame carries a packet of the stack, \<open>x_alloc_addr\<close> that it was allocated for itself.\<close>

record xframe =
  xid :: nat
  x_ra :: mem
  x_psta :: "nat option"
  x_priority :: u8
  x_triggered :: u8
  x_mdata :: u8
  x_eosp :: u8
  x_qsel :: u8
  x_ether_type :: u16
  x_dhcp_pkt :: u8
  x_pkt :: bool
  x_alloc_addr :: bool
  x_ext_tag :: u8

text \<open>A queue of a station, and a hardware queue: \<open>sta_queue\<close> lists the stations whose \<open>tx_pending\<close> is linked there.\<close>

record tx_servq =
  sta_pending :: "xframe list"
  qcnt :: int

record hw_xmit =
  sta_queue :: "nat list"
  accnt :: int

record xmit_priv =
  free_xmit_queue :: "xframe list"
  free_xmitframe_cnt :: u32
  free_xframe_ext_queue :: "xframe list"
  free_xframe_ext_cnt :: u32
  hwxmits :: "hw_xmit list"
  wmm_para_seq :: "nat list"
  tx_drop :: u64

section \<open>Operations\<close>

definition init_txservq :: tx_servq where
  "init_txservq = \<lparr>sta_pending = [], qcnt = 0\<rparr>"

definition rtw_init_xmitframe :: "xframe \<Rightarrow> xframe" where
  "rtw_init_xmitframe f = f\<lparr>x_ra := replicate 6 0, x_psta := None, x_priority := 0, x_triggered := 0, x_mdata := 0, x_eosp := 0,
     x_qsel := 0, x_ether_type := 0, x_dhcp_pkt := 0, x_pkt := False\<rparr>"

text \<open>An object of a pool as \<open>_rtw_init_xmit_priv\<close> leaves it; the memory was zeroed. The pools have
  \<open>NR_XMITFRAME\<close> = 256 and \<open>NR_XMIT_EXTBUFF\<close> = 32 objects; \<open>v1\<close> and \<open>v2\<close> say that they could be allocated.\<close>

definition pool_frame :: "u8 \<Rightarrow> nat \<Rightarrow> xframe" where
  "pool_frame tag i = \<lparr>xid = i, x_ra = replicate 6 0, x_psta = None, x_priority = 0, x_triggered = 0, x_mdata = 0, x_eosp = 0, x_qsel = 0,
     x_ether_type = 0, x_dhcp_pkt = 0, x_pkt = False, x_alloc_addr = False, x_ext_tag = tag\<rparr>"

definition init_pools :: "bool \<Rightarrow> bool \<Rightarrow> xmit_priv \<Rightarrow> bool \<times> xmit_priv" where
  "init_pools v1 v2 xp = (let xp0 = xp\<lparr>free_xmit_queue := []\<rparr> in
     if \<not> v1 then (False, xp0)
     else let xp1 = xp0\<lparr>free_xmit_queue := map (pool_frame 0) [0..<256], free_xmitframe_cnt := 256, free_xframe_ext_queue := []\<rparr> in
       if \<not> v2 then (False, xp1)
       else (True, xp1\<lparr>free_xframe_ext_queue := map (pool_frame 1) [256..<288], free_xframe_ext_cnt := 32\<rparr>))"

text \<open>\<open>HWXMIT_ENTRY\<close> is 4: voice, video, best effort, background.\<close>

definition rtw_alloc_hwxmits :: "bool \<Rightarrow> xmit_priv \<Rightarrow> xmit_priv" where
  "rtw_alloc_hwxmits ok xp = xp\<lparr>hwxmits := (if ok then replicate 4 \<lparr>sta_queue = [], accnt = 0\<rparr> else [])\<rparr>"

definition rtw_alloc_xmitframe :: "xmit_priv \<Rightarrow> xframe option \<times> xmit_priv" where
  "rtw_alloc_xmitframe xp = (case free_xmit_queue xp of [] \<Rightarrow> (None, xp)
     | f # q \<Rightarrow> (Some (rtw_init_xmitframe f), xp\<lparr>free_xmit_queue := q, free_xmitframe_cnt := free_xmitframe_cnt xp - 1\<rparr>))"

definition rtw_alloc_xmitframe_ext :: "xmit_priv \<Rightarrow> xframe option \<times> xmit_priv" where
  "rtw_alloc_xmitframe_ext xp = (case free_xframe_ext_queue xp of [] \<Rightarrow> (None, xp)
     | f # q \<Rightarrow> (Some (rtw_init_xmitframe f), xp\<lparr>free_xframe_ext_queue := q, free_xframe_ext_cnt := free_xframe_ext_cnt xp - 1\<rparr>))"

text \<open>A tag other than 0 and 1 leaves the queue pointer at NULL.\<close>

definition rtw_free_xmitframe :: "xmit_priv \<Rightarrow> xframe option \<Rightarrow> (xmit_priv \<times> rx_act list) option" where
  "rtw_free_xmitframe xp p = (case p of None \<Rightarrow> Some (xp, [])
     | Some f \<Rightarrow> let f1 = f\<lparr>x_pkt := False\<rparr>; complete = (if x_pkt f then [Pkt_complete (xid f)] else []) in
         if x_alloc_addr f then Some (xp, Mfree_xmitframe (xid f) # complete)
         else if x_ext_tag f = 0 then
           Some (xp\<lparr>free_xmit_queue := free_xmit_queue xp @ [f1], free_xmitframe_cnt := free_xmitframe_cnt xp + 1\<rparr>, complete)
         else if x_ext_tag f = 1 then
           Some (xp\<lparr>free_xframe_ext_queue := free_xframe_ext_queue xp @ [f1], free_xframe_ext_cnt := free_xframe_ext_cnt xp + 1\<rparr>, complete)
         else None)"

fun rtw_free_xmitframe_queue :: "xmit_priv \<Rightarrow> xframe list \<Rightarrow> (xmit_priv \<times> rx_act list) option" where
  "rtw_free_xmitframe_queue xp [] = Some (xp, [])"
| "rtw_free_xmitframe_queue xp (f # fs) = do {
     (xp1, a) \<leftarrow> rtw_free_xmitframe xp (Some f);
     (xp2, b) \<leftarrow> rtw_free_xmitframe_queue xp1 fs;
     Some (xp2, a @ b) }"

section \<open>Where the objects are\<close>

text \<open>The objects of the data pool that are free, as a multiset of ids; the ids an action gives back to the
  kernel. A frame of the data pool has tag 0 and was not allocated for itself.\<close>

definition data_frame :: "xframe \<Rightarrow> bool" where
  "data_frame f \<longleftrightarrow> x_ext_tag f = 0 \<and> \<not> x_alloc_addr f"

definition pool_ids :: "xmit_priv \<Rightarrow> nat multiset" where
  "pool_ids xp = image_mset xid (mset (free_xmit_queue xp))"

definition pool_wf :: "xmit_priv \<Rightarrow> bool" where
  "pool_wf xp \<longleftrightarrow> list_all data_frame (free_xmit_queue xp) \<and> free_xmitframe_cnt xp = of_nat (length (free_xmit_queue xp))"

lemma rtw_alloc_xmitframe_pool:
  assumes "pool_wf xp" "rtw_alloc_xmitframe xp = (r, xp')"
  shows "pool_wf xp' \<and> hwxmits xp' = hwxmits xp \<and>
    (case r of None \<Rightarrow> pool_ids xp = {#} \<and> xp' = xp | Some f \<Rightarrow> data_frame f \<and> pool_ids xp = add_mset (xid f) (pool_ids xp'))"
  using assms
  by (cases "free_xmit_queue xp")
    (auto simp: rtw_alloc_xmitframe_def pool_wf_def pool_ids_def rtw_init_xmitframe_def data_frame_def)

lemma rtw_free_xmitframe_pool:
  assumes "data_frame f"
  shows "\<exists>xp' acts. rtw_free_xmitframe xp (Some f) = Some (xp', acts) \<and> pool_ids xp' = add_mset (xid f) (pool_ids xp) \<and>
    hwxmits xp' = hwxmits xp \<and> tx_drop xp' = tx_drop xp \<and> (pool_wf xp \<longrightarrow> pool_wf xp')"
  using assms by (auto simp: rtw_free_xmitframe_def data_frame_def pool_ids_def pool_wf_def Let_def)

lemma rtw_free_xmitframe_queue_pool:
  assumes "list_all data_frame fs"
  shows "\<exists>xp' acts. rtw_free_xmitframe_queue xp fs = Some (xp', acts) \<and> pool_ids xp' = image_mset xid (mset fs) + pool_ids xp \<and>
    hwxmits xp' = hwxmits xp \<and> (pool_wf xp \<longrightarrow> pool_wf xp')"
  using assms
proof (induction fs arbitrary: xp)
  case (Cons f fs)
  then obtain xp1 a where f: "rtw_free_xmitframe xp (Some f) = Some (xp1, a)" "pool_ids xp1 = add_mset (xid f) (pool_ids xp)"
    "hwxmits xp1 = hwxmits xp" "pool_wf xp \<longrightarrow> pool_wf xp1"
    using rtw_free_xmitframe_pool [of f xp] by auto
  then show ?case
    using Cons.IH [of xp1] Cons.prems by auto
qed simp

lemma init_pools_wf: "init_pools True True xp = (r, xp') \<Longrightarrow> pool_wf xp' \<and> pool_ids xp' = mset [0..<256] \<and> r"
  by (auto simp: init_pools_def pool_wf_def pool_ids_def pool_frame_def data_frame_def list_all_iff Let_def comp_def simp flip: mset_map)

end
