(* ===== verification/Sta_Mgt.thy ===== *)
theory Sta_Mgt
  imports Recv_Reorder Macid Xmit_Frame
begin

text \<open>
  The station table of \<^verbatim>\<open>core/rtw_sta_mgt.c\<close>: a pool of \<open>NUM_STA\<close> = 32 station objects, a free queue and a
  hash table over hardware addresses, with allocation, release, lookup and the access control list. A
  pointer to a station is its index in the pool, which is what \<open>rtw_stainfo_offset\<close> computes. The theorems
  state the table as a map from addresses to stations, as a locale the hash table is an instance of.
\<close>

section \<open>State\<close>

text \<open>The part of \<open>struct sta_info\<close> that the receive path, the transmit queues and the table use. \<open>txservq\<close> holds
  \<open>vo_q\<close>, \<open>vi_q\<close>, \<open>be_q\<close> and \<open>bk_q\<close> of \<open>sta_xmitpriv\<close>, in the order of the hardware queues.\<close>

record stainfo_stats =
  st_rx_mgnt_pkts :: u64
  st_rx_beacon_pkts :: u64
  st_rx_probereq_pkts :: u64
  st_rx_probersp_pkts :: u64
  st_rx_probersp_bm_pkts :: u64
  st_rx_probersp_uo_pkts :: u64
  st_rx_ctrl_pkts :: u64
  st_rx_data_pkts :: u64
  st_rx_bytes :: u64

record sta_info =
  sta_state :: u32
  aid :: u32
  mac_id :: u32
  hwaddr :: mem
  ieee8021x_blocked :: u32
  dot11tkiprxmickey :: mem
  dot118021x_UncstKey :: mem
  tid_rxseq :: "u16 list"
  defrag_q :: "rframe list"
  recvreorder_ctrl :: "recv_reorder_ctrl list"
  RxMgmtFrameSeqNum :: u16
  dot118021XPrivacy :: u32
  qos_option :: u32
  sta_stats :: stainfo_stats
  txservq :: "tx_servq list"
  sleep_q :: "xframe list"
  sleepq_len :: u32
  sleepq_ac_len :: u32
  expire_to :: u32
  qos_info :: u8
  max_sp_len :: u8
  uapsd_bk :: u8
  uapsd_be :: u8
  uapsd_vi :: u8
  uapsd_vo :: u8
  has_legacy_ac :: u8

text \<open>\<open>sta_hash_lock\<close> counts how often the lock is held: 0 is free, a negative number says that it was
  released once more than it was taken. \<open>sp_expire_to\<close> is \<open>pstapriv->expire_to\<close>. The last four fields are reached through \<open>padapter\<close>.\<close>

record sta_priv =
  pstainfo_buf :: "sta_info list"
  free_sta_queue :: "nat list"
  sta_hash_lock :: int
  sta_hash :: "nat list list"
  asoc_sta_count :: int
  auth_list :: "nat list"
  auth_list_cnt :: u8
  sta_aid :: "nat option list"
  sta_dz_bitmap :: u16
  tim_bitmap :: u16
  sp_expire_to :: u32
  acl_mode :: int
  acl_node_q :: "(mem \<times> bool) list"
  macid_ctl :: macid_ctl_t
  myid :: mem
  iface_id :: nat
  xmitpriv :: xmit_priv

section \<open>Operations\<close>

definition wifi_mac_hash :: "mem \<Rightarrow> nat option" where
  "wifi_mac_hash mac = do {
     b0 \<leftarrow> rd8 mac 0; b1 \<leftarrow> rd8 mac 1; b2 \<leftarrow> rd8 mac 2; b3 \<leftarrow> rd8 mac 3; b4 \<leftarrow> rd8 mac 4; b5 \<leftarrow> rd8 mac 5;
     let x0 = (ucast b0 :: u32);
     let x1 = push_bit 2 x0 XOR ucast b1;
     let x2 = push_bit 2 x1 XOR ucast b2;
     let x3 = push_bit 2 x2 XOR ucast b3;
     let x4 = push_bit 2 x3 XOR ucast b4;
     let x5 = push_bit 2 x4 XOR ucast b5;
     let x6 = x5 XOR drop_bit 8 x5;
     Some (unat (x6 AND 31)) }"

text \<open>The object after \<open>_rtw_memset\<close>: every field is zero and the queues are empty.\<close>

definition ctrl_zero :: recv_reorder_ctrl where
  "ctrl_zero = \<lparr>enable = False, indicate_seq = 0, wsize_b = 0, ampdu_size = 0, pending = [], timer_set = False\<rparr>"

definition rtw_init_stainfo :: sta_info where
  "rtw_init_stainfo = \<lparr>sta_state = 0, aid = 0, mac_id = 0, hwaddr = replicate 6 0, ieee8021x_blocked = 0,
     dot11tkiprxmickey = replicate 16 0, dot118021x_UncstKey = replicate 16 0, tid_rxseq = replicate 16 0, defrag_q = [],
     recvreorder_ctrl = replicate 16 ctrl_zero, RxMgmtFrameSeqNum = 0, dot118021XPrivacy = 0, qos_option = 0,
     sta_stats = \<lparr>st_rx_mgnt_pkts = 0, st_rx_beacon_pkts = 0, st_rx_probereq_pkts = 0, st_rx_probersp_pkts = 0, st_rx_probersp_bm_pkts = 0,
       st_rx_probersp_uo_pkts = 0, st_rx_ctrl_pkts = 0, st_rx_data_pkts = 0, st_rx_bytes = 0\<rparr>,
     txservq = replicate 4 init_txservq, sleep_q = [], sleepq_len = 0, sleepq_ac_len = 0, expire_to = 0, qos_info = 0, max_sp_len = 0,
     uapsd_bk = 0, uapsd_be = 0, uapsd_vi = 0, uapsd_vo = 0, has_legacy_ac = 0\<rparr>"

text \<open>\<open>vm\<close> says that the pool could be allocated.\<close>

definition rtw_init_sta_priv :: "bool \<Rightarrow> sta_priv \<Rightarrow> bool \<times> sta_priv" where
  "rtw_init_sta_priv vm sp = (if \<not> vm then (False, sp) else (True, sp\<lparr>pstainfo_buf := replicate 32 rtw_init_stainfo, free_sta_queue := [0..<32], sta_hash_lock := 0,
     sta_hash := replicate 32 [], asoc_sta_count := 0, auth_list := [], auth_list_cnt := 0, sta_dz_bitmap := 0, tim_bitmap := 0\<rparr>))"

text \<open>What allocation writes into the object; the mac id comes last.\<close>

definition ctrl_alloc :: recv_reorder_ctrl where
  "ctrl_alloc = \<lparr>enable = False, indicate_seq = 0xffff, wsize_b = 64, ampdu_size = 0xff, pending = [], timer_set = False\<rparr>"

definition sta_alloc :: "mem \<Rightarrow> sta_info" where
  "sta_alloc addr = rtw_init_stainfo\<lparr>hwaddr := addr, tid_rxseq := replicate 16 0xffff, recvreorder_ctrl := replicate 16 ctrl_alloc,
     RxMgmtFrameSeqNum := 0xffff\<rparr>"

definition spin_lock :: "sta_priv \<Rightarrow> sta_priv" where
  "spin_lock sp = sp\<lparr>sta_hash_lock := sta_hash_lock sp + 1\<rparr>"

definition spin_unlock :: "sta_priv \<Rightarrow> sta_priv" where
  "spin_unlock sp = sp\<lparr>sta_hash_lock := sta_hash_lock sp - 1\<rparr>"

text \<open>The branch for an empty free queue releases the lock and then runs into the common exit, which
  releases it again.\<close>

definition rtw_alloc_stainfo :: "sta_priv \<Rightarrow> mem \<Rightarrow> (nat option \<times> sta_priv) option" where
  "rtw_alloc_stainfo sp0 addr6 = (let sp = spin_lock sp0 in
     case free_sta_queue sp of
       [] \<Rightarrow> Some (None, spin_unlock (spin_unlock sp))
     | psta # q \<Rightarrow> do {
         addr \<leftarrow> rd_bytes addr6 0 6;
         let sp1 = sp\<lparr>free_sta_queue := q, pstainfo_buf := (pstainfo_buf sp)[psta := sta_alloc addr]\<rparr>;
         index \<leftarrow> wifi_mac_hash addr;
         if index \<ge> 32 then Some (None, spin_unlock sp1)
         else do {
           bucket \<leftarrow> arr (sta_hash sp1) index;
           (mid, mc) \<leftarrow> rtw_alloc_macid (myid sp1) (iface_id sp1) (macid_ctl sp1) addr;
           Some (Some psta, spin_unlock (sp1\<lparr>sta_hash := (sta_hash sp1)[index := bucket @ [psta]],
             asoc_sta_count := asoc_sta_count sp1 + 1, macid_ctl := mc,
             pstainfo_buf := (pstainfo_buf sp1)[psta := (sta_alloc addr)\<lparr>mac_id := mid\<rparr>]\<rparr>)) } })"

text \<open>The lookup. A multicast address stands for the broadcast station.\<close>

fun hash_find :: "sta_info list \<Rightarrow> nat list \<Rightarrow> mem \<Rightarrow> nat option option" where
  "hash_find buf [] addr = Some None"
| "hash_find buf (i # is) addr = do { s \<leftarrow> arr buf i; if hwaddr s = addr then Some (Some i) else hash_find buf is addr }"

definition rtw_get_stainfo :: "sta_priv \<Rightarrow> mem option \<Rightarrow> nat option option" where
  "rtw_get_stainfo sp hw = (case hw of None \<Rightarrow> Some None
     | Some h \<Rightarrow> do {
         mc \<leftarrow> IS_MCAST h;
         let addr = (if mc then bc_addr else h);
         index \<leftarrow> wifi_mac_hash addr;
         bucket \<leftarrow> arr (sta_hash sp) index;
         hash_find (pstainfo_buf sp) bucket addr })"

definition rtw_get_bcmc_stainfo :: "sta_priv \<Rightarrow> nat option option" where
  "rtw_get_bcmc_stainfo sp = rtw_get_stainfo sp (Some bc_addr)"

definition rtw_init_bcmc_stainfo :: "sta_priv \<Rightarrow> sta_priv option" where
  "rtw_init_bcmc_stainfo sp = do { (r, sp') \<leftarrow> rtw_alloc_stainfo sp bc_addr; Some sp' }"

text \<open>Release. The frames the station has to send go back to their pools, and its four queues leave the
  hardware queues. The frames of the sixteen reorder queues go back to the free queue; those of the
  defragmentation queue do not. \<open>BIT(aid)\<close> is a shift of an \<open>int\<close>.\<close>

fun free_servqs :: "xmit_priv \<Rightarrow> nat \<Rightarrow> nat \<Rightarrow> tx_servq list \<Rightarrow> (xmit_priv \<times> rx_act list) option" where
  "free_servqs xp psta ac [] = Some (xp, [])"
| "free_servqs xp psta ac (q # qs) = do {
     (xp1, a) \<leftarrow> rtw_free_xmitframe_queue xp (sta_pending q);
     h \<leftarrow> arr (hwxmits xp1) ac;
     (xp2, b) \<leftarrow> free_servqs (xp1\<lparr>hwxmits := (hwxmits xp1)[ac :=
        h\<lparr>sta_queue := removeAll psta (sta_queue h), accnt := accnt h - qcnt q\<rparr>]\<rparr>) psta (ac + 1) qs;
     Some (xp2, a @ b) }"

definition sta_purge :: "sta_info \<Rightarrow> sta_info" where
  "sta_purge s = s\<lparr>sta_state := sta_state s AND NOT 1, sleep_q := [], sleepq_len := 0, txservq := map (\<lambda>_. init_txservq) (txservq s),
     expire_to := 0, sleepq_ac_len := 0, qos_info := 0, max_sp_len := 0, uapsd_bk := 0, uapsd_be := 0, uapsd_vi := 0, uapsd_vo := 0,
     has_legacy_ac := 0\<rparr>"

definition ctrl_purge :: "recv_reorder_ctrl \<Rightarrow> recv_reorder_ctrl" where
  "ctrl_purge c = c\<lparr>timer_set := False, pending := []\<rparr>"

definition rtw_free_stainfo :: "sta_priv \<Rightarrow> nat option \<Rightarrow> (sta_priv \<times> rx_act list) option" where
  "rtw_free_stainfo sp p = (case p of None \<Rightarrow> Some (sp, [])
     | Some psta \<Rightarrow> do {
         s \<leftarrow> arr (pstainfo_buf sp) psta;
         let sp1 = sp\<lparr>sta_hash := map (removeAll psta) (sta_hash sp), asoc_sta_count := asoc_sta_count sp - 1\<rparr>;
         (xp1, a1) \<leftarrow> rtw_free_xmitframe_queue (xmitpriv sp1) (sleep_q s);
         (xp2, a2) \<leftarrow> free_servqs xp1 psta 0 (txservq s);
         let acts = a1 @ a2 @ [Wake_queue (map qcnt (txservq s))] @
           map (\<lambda>f. Free_recvframe (fid f)) (concat (map pending (recvreorder_ctrl s)));
         let s1 = (sta_purge s)\<lparr>recvreorder_ctrl := map ctrl_purge (recvreorder_ctrl s)\<rparr>;
         let sp2 = sp1\<lparr>xmitpriv := xp2, macid_ctl := rtw_release_macid (myid sp1) (macid_ctl sp1) (hwaddr s1) (mac_id s1)\<rparr>;
         let sp3 = (if psta \<in> set (auth_list sp2)
                    then sp2\<lparr>auth_list := removeAll psta (auth_list sp2), auth_list_cnt := auth_list_cnt sp2 - 1\<rparr> else sp2);
         if aid s1 \<ge> 32 then None
         else do {
           let sp4 = sp3\<lparr>sta_dz_bitmap := sta_dz_bitmap sp3 AND NOT (push_bit (unat (aid s1)) 1),
                          tim_bitmap := tim_bitmap sp3 AND NOT (push_bit (unat (aid s1)) 1)\<rparr>;
           (sp5, s2) \<leftarrow> (if aid s1 > 0 then do {
                owner \<leftarrow> arr (sta_aid sp4) (unat (aid s1) - 1);
                if owner = Some psta then Some (sp4\<lparr>sta_aid := (sta_aid sp4)[unat (aid s1) - 1 := None]\<rparr>, s1\<lparr>aid := 0\<rparr>)
                else Some (sp4, s1) }
              else Some (sp4, s1));
           Some (sp5\<lparr>pstainfo_buf := (pstainfo_buf sp5)[psta := s2], free_sta_queue := free_sta_queue sp5 @ [psta]\<rparr>, acts) } })"

text \<open>All stations except the broadcast one. They leave the hash table first and are then freed one by one.\<close>

fun free_list :: "sta_priv \<Rightarrow> nat list \<Rightarrow> (sta_priv \<times> rx_act list) option" where
  "free_list sp [] = Some (sp, [])"
| "free_list sp (i # is) = do { (sp1, a) \<leftarrow> rtw_free_stainfo sp (Some i); (sp2, b) \<leftarrow> free_list sp1 is; Some (sp2, a @ b) }"

definition rtw_free_all_stainfo :: "sta_priv \<Rightarrow> (sta_priv \<times> rx_act list) option" where
  "rtw_free_all_stainfo sp = do {
     bcmc \<leftarrow> rtw_get_bcmc_stainfo sp;
     if asoc_sta_count sp = 1 then Some (sp, [])
     else (let keep = (\<lambda>i. bcmc = Some i); fl = filter (\<lambda>i. \<not> keep i) (concat (sta_hash sp)) in
       free_list (sp\<lparr>sta_hash := map (filter keep) (sta_hash sp)\<rparr>) fl) }"

definition rtw_access_ctrl :: "sta_priv \<Rightarrow> mem \<Rightarrow> bool" where
  "rtw_access_ctrl sp addr = (let match = (\<exists>n \<in> set (acl_node_q sp). fst n = addr \<and> snd n) in
     if acl_mode sp = 1 then \<not> match else if acl_mode sp = 2 then match else True)"

section \<open>The table as a map\<close>

text \<open>What a client of the table relies on: a state abstracts to a finite map from addresses to stations, a
  lookup reads it, an allocation for a new address extends it with an unused station or reports that the
  pool is exhausted, a release removes one entry. Addresses have six bytes; lookups of group addresses go
  to the broadcast entry.\<close>

definition sta_key :: "mem \<Rightarrow> mem" where
  "sta_key a = (if hd a AND 1 \<noteq> 0 then bc_addr else a)"

locale station_table =
  fixes inv :: "'s \<Rightarrow> bool" and tab :: "'s \<Rightarrow> mem \<Rightarrow> nat option" and full :: "'s \<Rightarrow> bool"
    and get :: "'s \<Rightarrow> mem option \<Rightarrow> nat option option"
    and alloc :: "'s \<Rightarrow> mem \<Rightarrow> (nat option \<times> 's) option"
    and free :: "'s \<Rightarrow> nat option \<Rightarrow> ('s \<times> 'act) option"
  assumes get_tab: "inv s \<Longrightarrow> length a = 6 \<Longrightarrow> get s (Some a) = Some (tab s (sta_key a))"
    and alloc_tab: "inv s \<Longrightarrow> length a = 6 \<Longrightarrow> tab s a = None \<Longrightarrow>
      \<exists>r s'. alloc s a = Some (r, s') \<and> inv s' \<and>
        (case r of None \<Rightarrow> full s \<and> tab s' = tab s | Some i \<Rightarrow> \<not> full s \<and> i \<notin> ran (tab s) \<and> tab s' = (tab s)(a \<mapsto> i))"
    and free_tab: "inv s \<Longrightarrow> tab s a = Some i \<Longrightarrow>
      \<exists>s' acts. free s (Some i) = Some (s', acts) \<and> inv s' \<and> \<not> full s' \<and> tab s' = (tab s)(a := None)"
begin

text \<open>The way the driver creates a station: look the address up and allocate when it is not there.\<close>

definition find_or_alloc :: "'s \<Rightarrow> mem \<Rightarrow> (nat option \<times> 's) option" where
  "find_or_alloc s a = do { r \<leftarrow> get s (Some a); case r of Some i \<Rightarrow> Some (Some i, s) | None \<Rightarrow> alloc s a }"

lemma find_or_alloc_spec:
  assumes "inv s" "length a = 6" "hd a AND 1 = 0"
  shows "\<exists>r s'. find_or_alloc s a = Some (r, s') \<and> inv s' \<and> tab s' a = r \<and> (r = None \<longrightarrow> full s) \<and>
    (\<forall>b. b \<noteq> a \<longrightarrow> tab s' b = tab s b)"
proof (cases "tab s a")
  case None
  then obtain r s' where a: "alloc s a = Some (r, s')" "inv s'"
    "case r of None \<Rightarrow> full s \<and> tab s' = tab s | Some i \<Rightarrow> \<not> full s \<and> i \<notin> ran (tab s) \<and> tab s' = (tab s)(a \<mapsto> i)"
    using alloc_tab [OF assms(1,2)] by blast
  then show ?thesis
    using None get_tab [OF assms(1,2)] assms(3) by (auto simp: find_or_alloc_def sta_key_def split: option.splits)
next
  case (Some i)
  then show ?thesis
    using get_tab [OF assms(1,2)] assms by (auto simp: find_or_alloc_def sta_key_def)
qed

text \<open>Different addresses never share a station, whatever is created.\<close>

lemma find_or_alloc_inj:
  assumes "inv s" "length a = 6" "hd a AND 1 = 0" "find_or_alloc s a = Some (r, s')" "inj_on (tab s) (dom (tab s))"
  shows "inj_on (tab s') (dom (tab s'))"
proof (cases "tab s a")
  case None
  then have "alloc s a = Some (r, s')"
    using assms(3,4) get_tab [OF assms(1,2)] by (simp add: find_or_alloc_def sta_key_def)
  then have "case r of None \<Rightarrow> tab s' = tab s | Some i \<Rightarrow> i \<notin> ran (tab s) \<and> tab s' = (tab s)(a \<mapsto> i)"
    using alloc_tab [OF assms(1,2) None] by (auto split: option.splits)
  then show ?thesis
    using assms(5) by (auto simp: inj_on_def ran_def split: option.splits)
next
  case (Some i)
  then show ?thesis
    using assms get_tab [OF assms(1,2)] by (auto simp: find_or_alloc_def sta_key_def)
qed

lemma free_then_alloc:
  assumes "inv s" "tab s a = Some i" "length b = 6" "tab s b = None"
  shows "\<exists>s1 acts j s2. free s (Some i) = Some (s1, acts) \<and> alloc s1 b = Some (Some j, s2) \<and> tab s2 b = Some j"
proof -
  obtain s1 acts where f: "free s (Some i) = Some (s1, acts)" "inv s1" "\<not> full s1" "tab s1 = (tab s)(a := None)"
    using free_tab [OF assms(1,2)] by blast
  then have "tab s1 b = None"
    using assms(4) by simp
  then show ?thesis
    using alloc_tab [OF f(2) assms(3)] f by (auto split: option.splits)
qed

end

section \<open>The hash table is such a map\<close>

definition live :: "sta_priv \<Rightarrow> nat list" where
  "live sp = concat (sta_hash sp)"

definition sta_at :: "sta_priv \<Rightarrow> nat \<Rightarrow> sta_info" where
  "sta_at sp i = pstainfo_buf sp ! i"

definition sta_tab :: "sta_priv \<Rightarrow> mem \<Rightarrow> nat option" where
  "sta_tab sp = map_of (map (\<lambda>i. (hwaddr (sta_at sp i), i)) (live sp))"

text \<open>The invariant: every station is either free or in exactly one bucket, which is the one its address hashes
  to; addresses of stations in the table are different; the count is the number of stations in the table. The frames
  stations have queued are frames of the data pool.\<close>

definition sta_tx_ok :: "sta_info \<Rightarrow> bool" where
  "sta_tx_ok s \<longleftrightarrow> length (txservq s) = 4 \<and> list_all data_frame (sleep_q s) \<and> (\<forall>q \<in> set (txservq s). list_all data_frame (sta_pending q))"

definition sta_wf :: "sta_priv \<Rightarrow> bool" where
  "sta_wf sp \<longleftrightarrow> length (pstainfo_buf sp) = 32 \<and> length (sta_hash sp) = 32 \<and> length (sta_aid sp) = 32 \<and>
     iface_id sp < length (mc_if_g (macid_ctl sp)) \<and>
     distinct (live sp @ free_sta_queue sp) \<and> set (live sp @ free_sta_queue sp) = {..<32} \<and>
     (\<forall>b < 32. \<forall>i \<in> set (sta_hash sp ! b). length (hwaddr (sta_at sp i)) = 6 \<and> wifi_mac_hash (hwaddr (sta_at sp i)) = Some b) \<and>
     inj_on (\<lambda>i. hwaddr (sta_at sp i)) (set (live sp)) \<and> asoc_sta_count sp = int (length (live sp)) \<and> (\<forall>i < 32. aid (sta_at sp i) < 32) \<and>
     length (hwxmits (xmitpriv sp)) = 4 \<and> (\<forall>i < 32. sta_tx_ok (sta_at sp i))"

lemma live_lock [simp]: "live (sp\<lparr>sta_hash_lock := n\<rparr>) = live sp" "sta_at (sp\<lparr>sta_hash_lock := n\<rparr>) = sta_at sp"
  by (simp_all add: live_def sta_at_def fun_eq_iff)

lemma sta_wf_lock [simp]: "sta_wf (sp\<lparr>sta_hash_lock := n\<rparr>) = sta_wf sp" "sta_tab (sp\<lparr>sta_hash_lock := n\<rparr>) = sta_tab sp"
  by (simp_all add: sta_wf_def sta_tab_def)

lemma wifi_mac_hash_some: "length a = 6 \<Longrightarrow> \<exists>k < 32. wifi_mac_hash a = Some k"
proof -
  assume "length a = 6"
  have "unat (x AND 31 :: u32) < 32" for x
    using word_and_le1 [of x 31] by (simp add: word_le_nat_alt word_less_nat_alt and.commute)
  then show ?thesis
    using \<open>length a = 6\<close> by (simp add: wifi_mac_hash_def rd8_def Let_def)
qed

lemma inj_on_new: "inj_on f A \<Longrightarrow> p \<notin> A \<Longrightarrow> v \<notin> f ` A \<Longrightarrow> inj_on (\<lambda>i. if i = p then v else f i) (insert p A)"
  by (auto simp: inj_on_def)

lemma option_eqI: "(\<And>i. x = Some i \<longleftrightarrow> y = Some i) \<Longrightarrow> x = y"
  by (cases x; cases y) auto

lemma hash_find_spec:
  "\<forall>i \<in> set is. i < length buf \<Longrightarrow> hash_find buf is addr = Some (find (\<lambda>i. hwaddr (buf ! i) = addr) is)"
  by (induction "is") (auto simp: arr_def)

lemma live_split:
  assumes "k < length (sta_hash sp)"
  shows "live sp = concat (take k (sta_hash sp)) @ sta_hash sp ! k @ concat (drop (Suc k) (sta_hash sp))"
    "concat ((sta_hash sp)[k := b]) = concat (take k (sta_hash sp)) @ b @ concat (drop (Suc k) (sta_hash sp))"
  using id_take_nth_drop [OF assms] by (metis concat.simps(2) concat_append live_def)
     (simp add: assms upd_conv_take_nth_drop)

lemma sta_tab_Some:
  assumes "sta_wf sp"
  shows "sta_tab sp a = Some i \<longleftrightarrow> i \<in> set (live sp) \<and> hwaddr (sta_at sp i) = a"
proof -
  have "distinct (map fst (map (\<lambda>i. (hwaddr (sta_at sp i), i)) (live sp)))"
    using assms by (simp add: sta_wf_def distinct_map comp_def)
  then show ?thesis
    by (auto simp: sta_tab_def)
qed

lemma sta_tab_None: "sta_tab sp a = None \<longleftrightarrow> a \<notin> (\<lambda>i. hwaddr (sta_at sp i)) ` set (live sp)"
  by (force simp: sta_tab_def map_of_eq_None_iff)

lemma bucket_live: "b < length (sta_hash sp) \<Longrightarrow> set (sta_hash sp ! b) \<subseteq> set (live sp)"
  by (auto simp: live_def intro!: bexI [OF _ nth_mem])

lemma in_bucket:
  assumes "sta_wf sp" "i \<in> set (live sp)" "wifi_mac_hash (hwaddr (sta_at sp i)) = Some k"
  shows "i \<in> set (sta_hash sp ! k)"
proof -
  obtain bs where "bs \<in> set (sta_hash sp)" "i \<in> set bs"
    using assms(2) by (auto simp: live_def)
  then obtain b where "b < length (sta_hash sp)" "i \<in> set (sta_hash sp ! b)"
    by (metis in_set_conv_nth)
  then show ?thesis
    using assms by (auto simp: sta_wf_def)
qed

lemma rtw_get_stainfo_tab:
  assumes wf: "sta_wf sp" and a: "length a = 6"
  shows "rtw_get_stainfo sp (Some a) = Some (sta_tab sp (sta_key a))"
proof -
  have mc: "IS_MCAST a = Some (hd a AND 1 \<noteq> 0)"
    using a by (cases a) (auto simp: IS_MCAST_def rd8_def)
  have key: "length (sta_key a) = 6"
    using a by (simp add: sta_key_def bc_addr_def)
  then obtain k where k: "k < 32" "wifi_mac_hash (sta_key a) = Some k"
    using wifi_mac_hash_some by blast
  let ?b = "sta_hash sp ! k"
  have b: "arr (sta_hash sp) k = Some ?b" "set ?b \<subseteq> set (live sp)" "\<forall>i \<in> set (live sp). i < length (pstainfo_buf sp)"
    using wf k(1) by (auto simp: sta_wf_def arr_def live_def)
  have idx: "\<forall>i \<in> set ?b. i < length (pstainfo_buf sp)"
    using b by blast
  have "rtw_get_stainfo sp (Some a) = Some (find (\<lambda>i. hwaddr (sta_at sp i) = sta_key a) ?b)"
    using mc k(2) b(1) hash_find_spec [of ?b "pstainfo_buf sp" "sta_key a", OF idx]
    by (auto simp: rtw_get_stainfo_def sta_key_def sta_at_def Let_def)
  moreover have "find (\<lambda>i. hwaddr (sta_at sp i) = sta_key a) ?b = sta_tab sp (sta_key a)"
  proof (cases "sta_tab sp (sta_key a)")
    case None
    then have "find (\<lambda>i. hwaddr (sta_at sp i) = sta_key a) ?b = None"
      using b(2) unfolding sta_tab_None find_None_iff by (metis (no_types, lifting) imageI subsetD)
    then show ?thesis
      using None by simp
  next
    case (Some i)
    then have i: "i \<in> set (live sp)" "hwaddr (sta_at sp i) = sta_key a"
      using sta_tab_Some [OF wf] by auto
    then have "i \<in> set ?b"
      using in_bucket [OF wf] k(2) by simp
    then obtain j where j: "find (\<lambda>i. hwaddr (sta_at sp i) = sta_key a) ?b = Some j"
      using i(2) by (cases "find (\<lambda>i. hwaddr (sta_at sp i) = sta_key a) ?b") (auto simp: find_None_iff)
    then have "j \<in> set (live sp)" "hwaddr (sta_at sp j) = sta_key a"
      using b(2) by (auto simp: find_Some_iff)
    then have "sta_tab sp (sta_key a) = Some j"
      using sta_tab_Some [OF wf] by simp
    then show ?thesis
      using j Some by simp
  qed
  ultimately show ?thesis
    by simp
qed

lemma rtw_alloc_stainfo_tab:
  assumes wf: "sta_wf sp" and a: "length a = 6" and new: "sta_tab sp a = None"
  shows "\<exists>r sp'. rtw_alloc_stainfo sp a = Some (r, sp') \<and> sta_wf sp' \<and>
    (case r of None \<Rightarrow> free_sta_queue sp = [] \<and> sta_tab sp' = sta_tab sp
     | Some i \<Rightarrow> free_sta_queue sp \<noteq> [] \<and> i \<notin> ran (sta_tab sp) \<and> sta_tab sp' = (sta_tab sp)(a \<mapsto> i))"
proof (cases "free_sta_queue sp")
  case Nil
  then have "rtw_alloc_stainfo sp a = Some (None, spin_unlock (spin_unlock (spin_lock sp)))"
    by (simp add: rtw_alloc_stainfo_def spin_lock_def Let_def)
  then show ?thesis
    using wf Nil by (simp add: spin_lock_def spin_unlock_def)
next
  case (Cons p q)
  obtain k where k: "k < 32" "wifi_mac_hash a = Some k"
    using wifi_mac_hash_some [OF a] by blast
  obtain mid mc where mc: "rtw_alloc_macid (myid sp) (iface_id sp) (macid_ctl sp) a = Some (mid, mc)"
    "length (mc_if_g mc) = length (mc_if_g (macid_ctl sp))"
    using rtw_alloc_macid_some [of "iface_id sp" "macid_ctl sp" "myid sp" a] wf by (auto simp: sta_wf_def)
  define s where "s = (sta_alloc a)\<lparr>mac_id := mid\<rparr>"
  define sp' where "sp' = sp\<lparr>free_sta_queue := q, sta_hash := (sta_hash sp)[k := sta_hash sp ! k @ [p]],
    asoc_sta_count := asoc_sta_count sp + 1, macid_ctl := mc, pstainfo_buf := (pstainfo_buf sp)[p := s]\<rparr>"
  have len: "length (sta_hash sp) = 32" "length (pstainfo_buf sp) = 32"
    using wf by (simp_all add: sta_wf_def)
  have alloc: "rtw_alloc_stainfo sp a = Some (Some p, sp')"
    using a Cons k mc(1) len by (simp add: rtw_alloc_stainfo_def spin_lock_def spin_unlock_def rd_bytes_def arr_def Let_def sp'_def s_def)
  have p: "p < 32" "p \<notin> set (live sp)"
    using wf Cons by (auto simp: sta_wf_def)
  have at: "sta_at sp' i = (if i = p then s else sta_at sp i)" for i
    using p(1) len by (simp add: sp'_def sta_at_def)
  have s: "hwaddr s = a" "aid s = 0" "sta_tx_ok s"
    by (simp_all add: s_def sta_alloc_def rtw_init_stainfo_def sta_tx_ok_def init_txservq_def)
  have other: "\<forall>i \<in> set (live sp). hwaddr (sta_at sp i) \<noteq> a"
    using new [unfolded sta_tab_None] by blast
  have hw: "(\<lambda>i. hwaddr (sta_at sp' i)) = (\<lambda>i. if i = p then a else hwaddr (sta_at sp i))"
    using s(1) by (auto simp: at)
  note sp = live_split [of k sp, unfolded len(1), OF k(1)]
  have live': "live sp' = concat (take k (sta_hash sp)) @ (sta_hash sp ! k @ [p]) @ concat (drop (Suc k) (sta_hash sp))"
    using sp(2) by (simp add: live_def sp'_def)
  then have set': "set (live sp') = insert p (set (live sp))" "length (live sp') = Suc (length (live sp))"
    "distinct (live sp' @ q) \<longleftrightarrow> distinct (live sp @ p # q)"
    using sp(1) by auto
  have "sta_wf sp'"
  proof -
    have "inj_on (\<lambda>i. hwaddr (sta_at sp' i)) (set (live sp'))"
      using inj_on_new [of "\<lambda>i. hwaddr (sta_at sp i)" "set (live sp)" p a] wf new p(2) unfolding hw set'(1) sta_tab_None by (simp add: sta_wf_def)
    moreover have "length (hwaddr (sta_at sp' i)) = 6 \<and> wifi_mac_hash (hwaddr (sta_at sp' i)) = Some b"
      if b: "b < 32" "i \<in> set (sta_hash sp' ! b)" for b i
    proof (cases "i = p")
      case True
      then have "b = k"
        using b p(2) len bucket_live [of b sp] by (cases "b = k") (auto simp: sp'_def)
      then show ?thesis
        using True a k(2) s(1) by (simp add: at)
    next
      case False
      then have "i \<in> set (sta_hash sp ! b)"
        using b len by (cases "b = k") (auto simp: sp'_def)
      then show ?thesis
        using False wf b(1) by (simp add: at sta_wf_def)
    qed
    moreover have "distinct (live sp' @ free_sta_queue sp')" "set (live sp' @ free_sta_queue sp') = {..<32}"
      using wf Cons set' by (auto simp: sta_wf_def sp'_def)
    ultimately show ?thesis
      using wf set'(2) mc(2) s(2,3) by (simp add: sta_wf_def at) (simp add: sp'_def)
  qed
  moreover have "sta_tab sp' = (sta_tab sp)(a \<mapsto> p)"
  proof
    fix x
    have "sta_tab sp' x = Some i \<longleftrightarrow> ((sta_tab sp)(a \<mapsto> p)) x = Some i" for i
      using other s(1) p(2) sta_tab_Some [OF wf, of x i] unfolding sta_tab_Some [OF \<open>sta_wf sp'\<close>] set'(1) by (auto simp: at)
    then show "sta_tab sp' x = ((sta_tab sp)(a \<mapsto> p)) x"
      by (rule option_eqI)
  qed
  moreover have "p \<notin> ran (sta_tab sp)"
    using p(2) sta_tab_Some [OF wf] by (auto simp: ran_def)
  ultimately show ?thesis
    using alloc Cons by auto
qed

lemma concat_removeAll: "concat (map (removeAll p) hs) = removeAll p (concat hs)"
  by (induction hs) auto

lemma free_servqs_some:
  assumes "\<forall>q \<in> set qs. list_all data_frame (sta_pending q)" "ac + length qs \<le> length (hwxmits xp)"
  shows "\<exists>xp' acts. free_servqs xp p ac qs = Some (xp', acts) \<and> length (hwxmits xp') = length (hwxmits xp) \<and>
    pool_ids xp' = image_mset xid (mset (concat (map sta_pending qs))) + pool_ids xp \<and> (pool_wf xp \<longrightarrow> pool_wf xp') \<and>
    (\<forall>j < length (hwxmits xp). hwxmits xp' ! j = (if ac \<le> j \<and> j < ac + length qs
       then (hwxmits xp ! j)\<lparr>sta_queue := removeAll p (sta_queue (hwxmits xp ! j)), accnt := accnt (hwxmits xp ! j) - qcnt (qs ! (j - ac))\<rparr>
       else hwxmits xp ! j))"
  using assms
proof (induction qs arbitrary: xp ac)
  case (Cons q qs)
  then obtain xp1 a where f: "rtw_free_xmitframe_queue xp (sta_pending q) = Some (xp1, a)" "hwxmits xp1 = hwxmits xp"
    "pool_ids xp1 = image_mset xid (mset (sta_pending q)) + pool_ids xp" "pool_wf xp \<longrightarrow> pool_wf xp1"
    using rtw_free_xmitframe_queue_pool [of "sta_pending q" xp] by auto
  let ?h = "hwxmits xp ! ac"
  let ?xp = "xp1\<lparr>hwxmits := (hwxmits xp)[ac := ?h\<lparr>sta_queue := removeAll p (sta_queue ?h), accnt := accnt ?h - qcnt q\<rparr>]\<rparr>"
  have ac: "arr (hwxmits xp1) ac = Some ?h"
    using Cons.prems(2) f(2) by (simp add: arr_def)
  have upd: "pool_ids ?xp = pool_ids xp1" "pool_wf ?xp = pool_wf xp1"
    by (simp_all add: pool_ids_def pool_wf_def)
  obtain xp2 b where r: "free_servqs ?xp p (ac + 1) qs = Some (xp2, b)" "length (hwxmits xp2) = length (hwxmits xp)"
    "pool_ids xp2 = image_mset xid (mset (concat (map sta_pending qs))) + pool_ids xp1" "pool_wf xp1 \<longrightarrow> pool_wf xp2"
    "\<forall>j < length (hwxmits xp). hwxmits xp2 ! j = (if ac + 1 \<le> j \<and> j < ac + 1 + length qs
       then (hwxmits ?xp ! j)\<lparr>sta_queue := removeAll p (sta_queue (hwxmits ?xp ! j)), accnt := accnt (hwxmits ?xp ! j) - qcnt (qs ! (j - (ac + 1)))\<rparr>
       else hwxmits ?xp ! j)"
    using Cons.IH [of "ac + 1" ?xp] Cons.prems upd by auto
  have "hwxmits xp2 ! j = (if ac \<le> j \<and> j < ac + length (q # qs)
       then (hwxmits xp ! j)\<lparr>sta_queue := removeAll p (sta_queue (hwxmits xp ! j)), accnt := accnt (hwxmits xp ! j) - qcnt ((q # qs) ! (j - ac))\<rparr>
       else hwxmits xp ! j)" if "j < length (hwxmits xp)" for j
    using r(5) that by (cases "j = ac") (auto simp: nth_Cons')
  then show ?case
    using f ac r(1-4) by (simp add: add.assoc)
qed auto

lemma rtw_free_stainfo_eq:
  assumes "p < length (pstainfo_buf sp)" "aid (sta_at sp p) < 32" "length (sta_aid sp) = 32" "sta_tx_ok (sta_at sp p)" "length (hwxmits (xmitpriv sp)) = 4"
  shows "\<exists>sp' s' tx. rtw_free_stainfo sp (Some p) =
      Some (sp', tx @ map (\<lambda>f. Free_recvframe (fid f)) (concat (map pending (recvreorder_ctrl (sta_at sp p))))) \<and>
    pstainfo_buf sp' = (pstainfo_buf sp)[p := s'] \<and> hwaddr s' = hwaddr (sta_at sp p) \<and> aid s' < 32 \<and> mac_id s' = mac_id (sta_at sp p) \<and>
    list_all (\<lambda>c. pending c = []) (recvreorder_ctrl s') \<and> sleep_q s' = [] \<and> txservq s' = replicate 4 init_txservq \<and> sleepq_len s' = 0 \<and>
    free_sta_queue sp' = free_sta_queue sp @ [p] \<and> sta_hash sp' = map (removeAll p) (sta_hash sp) \<and>
    asoc_sta_count sp' = asoc_sta_count sp - 1 \<and> length (sta_aid sp') = 32 \<and> iface_id sp' = iface_id sp \<and> myid sp' = myid sp \<and>
    sta_hash_lock sp' = sta_hash_lock sp \<and>
    macid_ctl sp' = rtw_release_macid (myid sp) (macid_ctl sp) (hwaddr (sta_at sp p)) (mac_id (sta_at sp p)) \<and>
    length (hwxmits (xmitpriv sp')) = 4 \<and> (pool_wf (xmitpriv sp) \<longrightarrow> pool_wf (xmitpriv sp')) \<and>
    pool_ids (xmitpriv sp') = image_mset xid (mset (sleep_q (sta_at sp p) @ concat (map sta_pending (txservq (sta_at sp p))))) + pool_ids (xmitpriv sp)"
proof -
  obtain s where s: "arr (pstainfo_buf sp) p = Some s" "sta_at sp p = s"
    using assms(1) by (simp add: arr_def sta_at_def)
  have small: "aid s < 32" "unat (aid s) - 1 < length (sta_aid sp)"
    using assms(2,3) s(2) by (simp_all add: word_less_nat_alt)
  have tx: "length (txservq s) = 4" "list_all data_frame (sleep_q s)" "\<forall>q \<in> set (txservq s). list_all data_frame (sta_pending q)"
    using assms(4) s(2) by (simp_all add: sta_tx_ok_def)
  obtain xp1 a1 where x1: "rtw_free_xmitframe_queue (xmitpriv sp) (sleep_q s) = Some (xp1, a1)" "hwxmits xp1 = hwxmits (xmitpriv sp)"
    "pool_ids xp1 = image_mset xid (mset (sleep_q s)) + pool_ids (xmitpriv sp)" "pool_wf (xmitpriv sp) \<longrightarrow> pool_wf xp1"
    using rtw_free_xmitframe_queue_pool [OF tx(2), of "xmitpriv sp"] by auto
  obtain xp2 a2 where x2: "free_servqs xp1 p 0 (txservq s) = Some (xp2, a2)" "length (hwxmits xp2) = 4"
    "pool_ids xp2 = image_mset xid (mset (concat (map sta_pending (txservq s)))) + pool_ids xp1" "pool_wf xp1 \<longrightarrow> pool_wf xp2"
    using free_servqs_some [OF tx(3), of 0 xp1 p] tx(1) x1(2) assms(5) by auto
  have pool: "pool_ids xp2 = image_mset xid (mset (sleep_q s @ concat (map sta_pending (txservq s)))) + pool_ids (xmitpriv sp)"
    "pool_wf (xmitpriv sp) \<longrightarrow> pool_wf xp2"
    using x1(3,4) x2(3,4) by (simp_all add: ac_simps)
  have purge: "list_all (\<lambda>c. pending c = []) (map ctrl_purge cs)" for cs
    by (simp add: list_all_iff ctrl_purge_def)
  define s1 where "s1 = (sta_purge s)\<lparr>recvreorder_ctrl := map ctrl_purge (recvreorder_ctrl s)\<rparr>"
  have s1: "hwaddr s1 = hwaddr s" "aid s1 = aid s" "mac_id s1 = mac_id s" "list_all (\<lambda>c. pending c = []) (recvreorder_ctrl s1)"
    "sleep_q s1 = []" "txservq s1 = replicate 4 init_txservq" "sleepq_len s1 = 0"
    using purge tx(1) by (simp_all add: s1_def sta_purge_def map_replicate_const)
  have o: "arr (sta_aid sp) (unat (aid s) - 1) = Some (sta_aid sp ! (unat (aid s) - 1))"
    using small(2) by (simp add: arr_def)
  note def = rtw_free_stainfo_def [of sp "Some p", unfolded option.case s(1) bind.bind_lunit Let_def, folded s1_def [unfolded Let_def]]
  show ?thesis
  proof (cases "aid s > 0 \<and> sta_aid sp ! (unat (aid s) - 1) = Some p")
    case True
    then show ?thesis
      using s1 small(1) o assms(3) s(2) x1(1) x2(1,2) pool unfolding def by (simp add: not_le) (intro exI [of _ "s1\<lparr>aid := 0\<rparr>"], simp)
  next
    case False
    then show ?thesis
      using s1 small(1) o assms(3) s(2) x1(1) x2(1,2) pool unfolding def by (simp add: not_le) (intro exI [of _ s1], simp)
  qed
qed

lemma rtw_free_stainfo_tab:
  assumes wf: "sta_wf sp" and a: "sta_tab sp a = Some p"
  shows "\<exists>sp' acts. rtw_free_stainfo sp (Some p) = Some (sp', acts) \<and> sta_wf sp' \<and> free_sta_queue sp' \<noteq> [] \<and> sta_tab sp' = (sta_tab sp)(a := None)"
proof -
  have p: "p \<in> set (live sp)" "hwaddr (sta_at sp p) = a"
    using a sta_tab_Some [OF wf] by auto
  then have lt: "p < 32" "length (pstainfo_buf sp) = 32" "length (sta_aid sp) = 32" "aid (sta_at sp p) < 32"
    "sta_tx_ok (sta_at sp p)" "length (hwxmits (xmitpriv sp)) = 4"
    using wf by (auto simp: sta_wf_def)
  obtain sp' s' acts where f: "rtw_free_stainfo sp (Some p) = Some (sp', acts)"
    "pstainfo_buf sp' = (pstainfo_buf sp)[p := s']" "hwaddr s' = a" "aid s' < 32" "free_sta_queue sp' = free_sta_queue sp @ [p]"
    "sta_hash sp' = map (removeAll p) (sta_hash sp)" "asoc_sta_count sp' = asoc_sta_count sp - 1" "length (sta_aid sp') = 32"
    "iface_id sp' = iface_id sp" "length (mc_if_g (macid_ctl sp')) = length (mc_if_g (macid_ctl sp))"
    "length (hwxmits (xmitpriv sp')) = 4" "sta_tx_ok s'"
    using rtw_free_stainfo_eq [of p sp] lt p(2) by (auto simp: sta_tx_ok_def init_txservq_def)
  have at: "sta_at sp' i = (if i = p then s' else sta_at sp i)" for i
    using f(2) lt by (simp add: sta_at_def)
  have live': "live sp' = removeAll p (live sp)"
    using f(6) by (simp add: live_def concat_removeAll)
  then have set': "set (live sp') = set (live sp) - {p}" "distinct (live sp) \<Longrightarrow> length (live sp') = length (live sp) - 1"
    using p(1) by (simp_all add: distinct_remove1_removeAll [symmetric] length_remove1)
  have "sta_wf sp'"
  proof -
    have "inj_on (\<lambda>i. hwaddr (sta_at sp' i)) (set (live sp'))"
      using wf by (auto simp: sta_wf_def at set'(1) inj_on_def)
    moreover have "\<forall>b < 32. \<forall>i \<in> set (sta_hash sp' ! b). length (hwaddr (sta_at sp' i)) = 6 \<and> wifi_mac_hash (hwaddr (sta_at sp' i)) = Some b"
      using wf f(6) by (simp add: sta_wf_def at)
    moreover have "distinct (live sp' @ free_sta_queue sp')" "set (live sp' @ free_sta_queue sp') = {..<32}"
      using wf f(5) live' p(1) by (auto simp: sta_wf_def distinct_removeAll)
    moreover have "int (length (live sp')) = int (length (live sp)) - 1"
      using set'(2) wf length_pos_if_in_set [OF p(1)] by (simp add: sta_wf_def of_nat_diff Suc_le_eq)
    ultimately show ?thesis
      using wf f by (simp add: sta_wf_def at)
  qed
  moreover have "sta_tab sp' = (sta_tab sp)(a := None)"
  proof
    fix x
    have inj: "inj_on (\<lambda>i. hwaddr (sta_at sp i)) (set (live sp))"
      using wf by (simp add: sta_wf_def)
    have only: "i \<in> set (live sp) \<and> hwaddr (sta_at sp i) = a \<longleftrightarrow> i = p" for i
      using inj_onD [OF inj, of i p] p by auto
    have "sta_tab sp' x = Some i \<longleftrightarrow> ((sta_tab sp)(a := None)) x = Some i" for i
      using only [of i] sta_tab_Some [OF wf, of x i] unfolding sta_tab_Some [OF \<open>sta_wf sp'\<close>] set'(1)
      by (cases "x = a"; cases "i = p") (simp_all add: at)
    then show "sta_tab sp' x = ((sta_tab sp)(a := None)) x"
      by (rule option_eqI)
  qed
  ultimately show ?thesis
    using f(1,5) by auto
qed

interpretation sta: station_table sta_wf sta_tab "\<lambda>sp. free_sta_queue sp = []" rtw_get_stainfo rtw_alloc_stainfo rtw_free_stainfo
  by unfold_locales (fact rtw_get_stainfo_tab rtw_alloc_stainfo_tab rtw_free_stainfo_tab)+

text \<open>C14. The hash table refines a map from addresses to stations: a lookup reads the map and never fails; an
  allocation for an address that is not there either finds the pool exhausted or adds a station that no
  other address has; a release removes exactly its address.\<close>

theorem station_table_refines_map:
  assumes "sta_wf sp" "length a = 6"
  shows "rtw_get_stainfo sp (Some a) = Some (sta_tab sp (sta_key a)) \<and>
    (case sta_tab sp a of
       None \<Rightarrow> \<exists>r sp'. rtw_alloc_stainfo sp a = Some (r, sp') \<and> sta_wf sp' \<and>
         (case r of None \<Rightarrow> free_sta_queue sp = [] \<and> sta_tab sp' = sta_tab sp
          | Some i \<Rightarrow> free_sta_queue sp \<noteq> [] \<and> i \<notin> ran (sta_tab sp) \<and> sta_tab sp' = (sta_tab sp)(a \<mapsto> i))
     | Some i \<Rightarrow> \<exists>sp' acts. rtw_free_stainfo sp (Some i) = Some (sp', acts) \<and> sta_wf sp' \<and>
         free_sta_queue sp' \<noteq> [] \<and> sta_tab sp' = (sta_tab sp)(a := None))"
  using sta.get_tab [OF assms] sta.alloc_tab [OF assms] sta.free_tab [OF assms(1)] by (cases "sta_tab sp a") auto

lemma sta_wf_init:
  assumes "length (sta_aid sp) = 32" "iface_id sp < length (mc_if_g (macid_ctl sp))" "length (hwxmits (xmitpriv sp)) = 4"
    "rtw_init_sta_priv True sp = (r, sp')"
  shows "sta_wf sp' \<and> sta_tab sp' = Map.empty \<and> live sp' = [] \<and> macid_ctl sp' = macid_ctl sp \<and> free_sta_queue sp' = [0..<32]"
  using assms by (auto simp: rtw_init_sta_priv_def sta_wf_def sta_tab_def live_def sta_at_def rtw_init_stainfo_def lessThan_atLeast0 sta_tx_ok_def init_txservq_def)

definition demo_sp :: sta_priv where
  "demo_sp = \<lparr>pstainfo_buf = [], free_sta_queue = [], sta_hash_lock = 0, sta_hash = [], asoc_sta_count = 0, auth_list = [], auth_list_cnt = 0,
     sta_aid = replicate 32 None, sta_dz_bitmap = 0, tim_bitmap = 0, sp_expire_to = 0, acl_mode = 0, acl_node_q = [],
     macid_ctl = \<lparr>mc_num = 32, mc_used = 0, mc_bmc = 0, mc_if_g = [0, 0, 0, 0], mc_ch_g = [0, 0]\<rparr>, myid = [2, 0, 0, 0, 0, 1], iface_id = 0,
     xmitpriv = \<lparr>free_xmit_queue = [], free_xmitframe_cnt = 0, free_xframe_ext_queue = [], free_xframe_ext_cnt = 0,
       hwxmits = replicate 4 \<lparr>sta_queue = [], accnt = 0\<rparr>, wmm_para_seq = [0, 1, 2, 3], tx_drop = 0\<rparr>\<rparr>"

definition demo_table :: sta_priv where
  "demo_table = snd (rtw_init_sta_priv True demo_sp)"

lemma demo_table_wf: "sta_wf demo_table" "sta_tab demo_table = Map.empty" "live demo_table = []" "free_sta_queue demo_table = [0..<32]"
  using sta_wf_init [of demo_sp "fst (rtw_init_sta_priv True demo_sp)" demo_table]
  by (simp_all add: demo_table_def demo_sp_def)

theorem station_table_refines_map_witness:
  "\<exists>i sp'. rtw_alloc_stainfo demo_table [2, 0, 0, 0, 0, 9] = Some (Some i, sp') \<and> rtw_get_stainfo sp' (Some [2, 0, 0, 0, 0, 9]) = Some (Some i) \<and>
    (\<exists>sp'' acts. rtw_free_stainfo sp' (Some i) = Some (sp'', acts) \<and> sta_tab sp'' = Map.empty)"
proof -
  let ?a = "[2, 0, 0, 0, 0, 9] :: mem"
  obtain i sp' where a: "rtw_alloc_stainfo demo_table ?a = Some (Some i, sp')" "sta_wf sp'" "sta_tab sp' = Map.empty(?a \<mapsto> i)"
    using station_table_refines_map [OF demo_table_wf(1), of ?a] demo_table_wf by (auto split: option.splits)
  then show ?thesis
    using station_table_refines_map [OF a(2), of ?a] by (auto simp: sta_key_def)
qed

text \<open>When the pool is exhausted, the failing allocation gives the lock back twice; otherwise it is balanced.\<close>

theorem rtw_alloc_stainfo_double_unlock:
  assumes "rtw_alloc_stainfo sp a = Some (r, sp')"
  shows "sta_hash_lock sp' = sta_hash_lock sp - (if free_sta_queue sp = [] then 1 else 0)"
  using assms by (cases "free_sta_queue sp") (auto simp: rtw_alloc_stainfo_def spin_lock_def spin_unlock_def Let_def bind_eq_Some_conv split: if_splits)

section \<open>Reachable tables\<close>

text \<open>The states of a table whose users allocate only addresses that are not there, and otherwise write to
  stations without touching address and hardware id.\<close>

inductive sta_reach :: "sta_priv \<Rightarrow> bool" where
  init: "length (sta_aid sp) = 32 \<Longrightarrow> iface_id sp < length (mc_if_g (macid_ctl sp)) \<Longrightarrow> mc_num (macid_ctl sp) \<le> 32 \<Longrightarrow>
    length (hwxmits (xmitpriv sp)) = 4 \<Longrightarrow> rtw_init_sta_priv True sp = (r, sp') \<Longrightarrow> sta_reach sp'"
| alloc: "sta_reach sp \<Longrightarrow> length a = 6 \<Longrightarrow> sta_tab sp a = None \<Longrightarrow> rtw_alloc_stainfo sp a = Some (r, sp') \<Longrightarrow> sta_reach sp'"
| free: "sta_reach sp \<Longrightarrow> sta_tab sp a = Some i \<Longrightarrow> rtw_free_stainfo sp (Some i) = Some (sp', acts) \<Longrightarrow> sta_reach sp'"
| upd: "sta_reach sp \<Longrightarrow> i < 32 \<Longrightarrow> hwaddr s = hwaddr (sta_at sp i) \<Longrightarrow> mac_id s = mac_id (sta_at sp i) \<Longrightarrow> aid s < 32 \<Longrightarrow> sta_tx_ok s \<Longrightarrow>
    sta_reach (sp\<lparr>pstainfo_buf := (pstainfo_buf sp)[i := s]\<rparr>)"

text \<open>A hardware id below the bound belongs to one station: it is in use, and no other station of the table
  has it. The broadcast station has the shared id 1.\<close>

definition has_id :: "sta_priv \<Rightarrow> nat \<Rightarrow> bool" where
  "has_id sp i \<longleftrightarrow> unat (mac_id (sta_at sp i)) < unat (mc_num (macid_ctl sp))"

definition macid_wf :: "sta_priv \<Rightarrow> bool" where
  "macid_wf sp \<longleftrightarrow> mc_num (macid_ctl sp) \<le> 32 \<and>
     (\<forall>i \<in> set (live sp). has_id sp i \<longrightarrow> hwaddr (sta_at sp i) \<noteq> myid sp \<and>
        (if hwaddr (sta_at sp i) = bc_addr then mac_id (sta_at sp i) = 1
         else mac_id (sta_at sp i) \<noteq> 1 \<and> unat (mac_id (sta_at sp i)) \<in> bmp_set (mc_used (macid_ctl sp)))) \<and>
     inj_on (\<lambda>i. mac_id (sta_at sp i)) {i \<in> set (live sp). has_id sp i}"

lemma alloc_view:
  assumes wf: "sta_wf sp" and a: "length a = 6" and q: "free_sta_queue sp = p # q"
  shows "\<exists>mid mc sp'. rtw_alloc_stainfo sp a = Some (Some p, sp') \<and> rtw_alloc_macid (myid sp) (iface_id sp) (macid_ctl sp) a = Some (mid, mc) \<and>
    mc_num mc = mc_num (macid_ctl sp) \<and> macid_ctl sp' = mc \<and> myid sp' = myid sp \<and> p \<notin> set (live sp) \<and> set (live sp') = insert p (set (live sp)) \<and>
    (\<forall>i. sta_at sp' i = (if i = p then (sta_alloc a)\<lparr>mac_id := mid\<rparr> else sta_at sp i))"
proof -
  obtain k where k: "k < 32" "wifi_mac_hash a = Some k"
    using wifi_mac_hash_some [OF a] by blast
  obtain mid mc where mc: "rtw_alloc_macid (myid sp) (iface_id sp) (macid_ctl sp) a = Some (mid, mc)" "mc_num mc = mc_num (macid_ctl sp)"
    using rtw_alloc_macid_some [of "iface_id sp" "macid_ctl sp" "myid sp" a] wf by (auto simp: sta_wf_def)
  have len: "length (sta_hash sp) = 32" "length (pstainfo_buf sp) = 32" "p < 32" "p \<notin> set (live sp)"
    using wf q by (auto simp: sta_wf_def)
  define sp' where "sp' = sp\<lparr>free_sta_queue := q, sta_hash := (sta_hash sp)[k := sta_hash sp ! k @ [p]],
    asoc_sta_count := asoc_sta_count sp + 1, macid_ctl := mc, pstainfo_buf := (pstainfo_buf sp)[p := (sta_alloc a)\<lparr>mac_id := mid\<rparr>]\<rparr>"
  have "rtw_alloc_stainfo sp a = Some (Some p, sp')"
    using a q k mc(1) len by (simp add: rtw_alloc_stainfo_def spin_lock_def spin_unlock_def rd_bytes_def arr_def Let_def sp'_def)
  moreover have "set (live sp') = insert p (set (live sp))"
    using live_split [of k sp] k(1) len(1) by (auto simp: live_def sp'_def)
  moreover have "\<forall>i. sta_at sp' i = (if i = p then (sta_alloc a)\<lparr>mac_id := mid\<rparr> else sta_at sp i)"
    using len by (simp add: sp'_def sta_at_def)
  ultimately show ?thesis
    using mc len(4) by (auto simp: sp'_def)
qed

lemma macid_wf_alloc:
  assumes "sta_wf sp" "macid_wf sp" "length a = 6" "sta_tab sp a = None" "rtw_alloc_stainfo sp a = Some (r, sp')"
  shows "macid_wf sp'"
proof (cases "free_sta_queue sp")
  case Nil
  then have "sp' = spin_unlock (spin_unlock (spin_lock sp))"
    using assms(5) by (simp add: rtw_alloc_stainfo_def spin_lock_def Let_def)
  then show ?thesis
    using assms(2) by (simp add: macid_wf_def has_id_def spin_lock_def spin_unlock_def)
next
  case (Cons p q)
  let ?mc = "macid_ctl sp"
  obtain mid mc where v: "rtw_alloc_macid (myid sp) (iface_id sp) ?mc a = Some (mid, mc)" "mc_num mc = mc_num ?mc" "macid_ctl sp' = mc"
    "myid sp' = myid sp" "p \<notin> set (live sp)" "set (live sp') = insert p (set (live sp))"
    "\<And>i. sta_at sp' i = (if i = p then (sta_alloc a)\<lparr>mac_id := mid\<rparr> else sta_at sp i)"
    using alloc_view [OF assms(1,3) Cons] assms(5) by auto
  have num: "mc_num ?mc \<le> 32"
    using assms(2) by (simp add: macid_wf_def)
  note new = rtw_alloc_macid_cases [OF v(1) num]
  note mono = rtw_alloc_macid_mono [OF v(1) num]
  have p: "hwaddr (sta_at sp' p) = a" "mac_id (sta_at sp' p) = mid" "has_id sp' p \<longleftrightarrow> unat mid < unat (mc_num ?mc)"
    using v(2,3,7) by (simp_all add: sta_alloc_def has_id_def)
  have old: "sta_at sp' i = sta_at sp i" "has_id sp' i = has_id sp i" if "i \<in> set (live sp)" for i
    using that v(2,3,5,7) by (auto simp: has_id_def)
  have bc: "hwaddr (sta_at sp i) \<noteq> a" if "i \<in> set (live sp)" for i
    using that assms(4) unfolding sta_tab_None by blast
  have wf: "hwaddr (sta_at sp i) \<noteq> myid sp \<and> (if hwaddr (sta_at sp i) = bc_addr then mac_id (sta_at sp i) = 1
      else mac_id (sta_at sp i) \<noteq> 1 \<and> unat (mac_id (sta_at sp i)) \<in> bmp_set (mc_used ?mc))" if "i \<in> set (live sp)" "has_id sp i" for i
    using assms(2) that by (simp add: macid_wf_def)
  have diff: "mac_id (sta_at sp i) \<noteq> mid" if "i \<in> set (live sp)" "has_id sp i" "unat mid < unat (mc_num ?mc)" for i
    using wf [OF that(1,2)] new that bc [OF that(1)] by (auto split: if_splits)
  have "inj_on (\<lambda>i. mac_id (sta_at sp' i)) {i \<in> set (live sp'). has_id sp' i}"
  proof (rule inj_onI)
    fix i j
    assume ij: "i \<in> {i \<in> set (live sp'). has_id sp' i}" "j \<in> {i \<in> set (live sp'). has_id sp' i}" "mac_id (sta_at sp' i) = mac_id (sta_at sp' j)"
    consider "i = p" "j = p" | "i = p" "j \<in> set (live sp)" "j \<noteq> p" | "j = p" "i \<in> set (live sp)" "i \<noteq> p" | "i \<in> set (live sp)" "j \<in> set (live sp)"
      using ij v(6) by auto
    then show "i = j"
    proof cases
      case 4
      then have "inj_on (\<lambda>i. mac_id (sta_at sp i)) {i \<in> set (live sp). has_id sp i}"
        using assms(2) by (simp add: macid_wf_def)
      then show ?thesis
        using ij 4 old by (auto dest: inj_onD)
    qed (use ij old diff p in auto)
  qed
  moreover have "hwaddr (sta_at sp' i) \<noteq> myid sp' \<and> (if hwaddr (sta_at sp' i) = bc_addr then mac_id (sta_at sp' i) = 1
      else mac_id (sta_at sp' i) \<noteq> 1 \<and> unat (mac_id (sta_at sp' i)) \<in> bmp_set (mc_used mc))" if "i \<in> set (live sp')" "has_id sp' i" for i
  proof (cases "i = p")
    case True
    then show ?thesis
      using that new p v(4) by auto
  next
    case False
    then have "i \<in> set (live sp)"
      using that v(6) by auto
    then show ?thesis
      using that wf [of i] old [of i] mono v(4) by (auto split: if_splits)
  qed
  ultimately show ?thesis
    using num v(2,3) by (simp add: macid_wf_def)
qed

lemma macid_wf_free:
  assumes "sta_wf sp" "macid_wf sp" "sta_tab sp a = Some p" "rtw_free_stainfo sp (Some p) = Some (sp', acts)"
  shows "macid_wf sp'"
proof -
  let ?mc = "macid_ctl sp"
  have p: "p \<in> set (live sp)" "hwaddr (sta_at sp p) = a"
    using assms(3) sta_tab_Some [OF assms(1)] by auto
  then have lt: "p < 32" "length (pstainfo_buf sp) = 32" "length (sta_aid sp) = 32" "aid (sta_at sp p) < 32"
    "sta_tx_ok (sta_at sp p)" "length (hwxmits (xmitpriv sp)) = 4"
    using assms(1) by (auto simp: sta_wf_def)
  obtain s' where f: "pstainfo_buf sp' = (pstainfo_buf sp)[p := s']" "sta_hash sp' = map (removeAll p) (sta_hash sp)"
    "myid sp' = myid sp" "macid_ctl sp' = rtw_release_macid (myid sp) ?mc a (mac_id (sta_at sp p))"
    using rtw_free_stainfo_eq [of p sp] lt p(2) assms(4) by auto
  have live': "set (live sp') = set (live sp) - {p}"
    using f(2) by (simp add: live_def concat_removeAll)
  have old: "sta_at sp' i = sta_at sp i" "has_id sp' i = has_id sp i" if "i \<in> set (live sp')" for i
    using that live' f(1,4) by (auto simp: sta_at_def has_id_def)
  have inj: "inj_on (\<lambda>i. mac_id (sta_at sp i)) {i \<in> set (live sp). has_id sp i}" and num: "mc_num ?mc \<le> 32"
    using assms(2) by (simp_all add: macid_wf_def)
  have used: "unat (mac_id (sta_at sp i)) \<in> bmp_set (mc_used (macid_ctl sp'))"
    if i: "i \<in> set (live sp')" "has_id sp i" "unat (mac_id (sta_at sp i)) \<in> bmp_set (mc_used ?mc)" for i
  proof (cases "a = myid sp \<or> a = bc_addr \<or> mac_id (sta_at sp p) = 1 \<or> \<not> mac_id (sta_at sp p) < ucast (mc_num ?mc)")
    case True
    then show ?thesis
      using i(3) f(4) by (auto simp: rtw_release_macid_def)
  next
    case False
    then have "has_id sp p"
      by (simp add: has_id_def word_less_nat_alt unat_ucast_u8)
    then have "mac_id (sta_at sp i) \<noteq> mac_id (sta_at sp p)"
      using inj_onD [OF inj, of i p] i(1,2) p(1) live' by auto
    then show ?thesis
      using i(3) f(4) False num rtw_release_macid_used [of a "myid sp" "mac_id (sta_at sp p)" ?mc] by (simp add: word_unat_eq_iff)
  qed
  have "inj_on (\<lambda>i. mac_id (sta_at sp' i)) {i \<in> set (live sp'). has_id sp' i}"
    using inj live' old by (auto simp: inj_on_def)
  moreover have "hwaddr (sta_at sp' i) \<noteq> myid sp' \<and> (if hwaddr (sta_at sp' i) = bc_addr then mac_id (sta_at sp' i) = 1
      else mac_id (sta_at sp' i) \<noteq> 1 \<and> unat (mac_id (sta_at sp' i)) \<in> bmp_set (mc_used (macid_ctl sp')))"
    if i: "i \<in> set (live sp')" "has_id sp' i" for i
    using assms(2) i live' old [OF i(1)] used [OF i(1)] f(3) by (simp add: macid_wf_def)
  moreover have "mc_num (macid_ctl sp') \<le> 32"
    using num f(4) by simp
  ultimately show ?thesis
    unfolding macid_wf_def by blast
qed

lemma sta_upd_wf:
  assumes "sta_wf sp" "macid_wf sp" "i < 32" "hwaddr s = hwaddr (sta_at sp i)" "mac_id s = mac_id (sta_at sp i)" "aid s < 32" "sta_tx_ok s"
  shows "sta_wf (sp\<lparr>pstainfo_buf := (pstainfo_buf sp)[i := s]\<rparr>) \<and> macid_wf (sp\<lparr>pstainfo_buf := (pstainfo_buf sp)[i := s]\<rparr>)"
proof -
  let ?sp = "sp\<lparr>pstainfo_buf := (pstainfo_buf sp)[i := s]\<rparr>"
  have len: "length (pstainfo_buf sp) = 32"
    using assms(1) by (simp add: sta_wf_def)
  then have at: "sta_at ?sp j = (if j = i then s else sta_at sp j)" for j
    using assms(3) by (simp add: sta_at_def)
  have hw: "hwaddr (sta_at ?sp j) = hwaddr (sta_at sp j)" "mac_id (sta_at ?sp j) = mac_id (sta_at sp j)" for j
    using assms(4,5) by (simp_all add: at)
  have live: "live ?sp = live sp" "has_id ?sp j = has_id sp j" for j
    by (simp_all add: live_def has_id_def hw(2))
  show ?thesis
    using assms(1,2,6,7) unfolding sta_wf_def macid_wf_def live hw by (simp add: at)
qed

text \<open>C15. In every reachable table two different stations have different addresses, and different hardware ids
  unless the ids have run out (an id equal to the bound means none); the pool, the buckets and the count
  agree, and every station of the table is found under its address.\<close>

theorem sta_reach_distinct:
  assumes "sta_reach sp"
  shows "sta_wf sp \<and> (\<forall>i \<in> set (live sp). \<forall>j \<in> set (live sp). i \<noteq> j \<longrightarrow> hwaddr (sta_at sp i) \<noteq> hwaddr (sta_at sp j) \<and>
    (mac_id (sta_at sp i) = mac_id (sta_at sp j) \<longrightarrow> unat (mc_num (macid_ctl sp)) \<le> unat (mac_id (sta_at sp i))))"
proof -
  have wf: "sta_wf sp \<and> macid_wf sp"
    using assms
  proof induction
    case (init sp r sp')
    then show ?case
      using sta_wf_init [OF init(1,2,4,5)] by (auto simp: macid_wf_def)
  next
    case (alloc sp a r sp')
    then show ?case
      using rtw_alloc_stainfo_tab [of sp a] macid_wf_alloc [of sp a r sp'] by auto
  next
    case (free sp a i sp' acts)
    then show ?case
      using rtw_free_stainfo_tab [of sp a i] macid_wf_free [of sp a i sp' acts] by auto
  next
    case (upd sp i s)
    then show ?case
      using sta_upd_wf by blast
  qed
  moreover have "hwaddr (sta_at sp i) \<noteq> hwaddr (sta_at sp j)" if "i \<in> set (live sp)" "j \<in> set (live sp)" "i \<noteq> j" for i j
    using wf that by (auto simp: sta_wf_def dest: inj_onD)
  moreover have "\<not> has_id sp i" if "i \<in> set (live sp)" "j \<in> set (live sp)" "i \<noteq> j" "mac_id (sta_at sp i) = mac_id (sta_at sp j)" for i j
  proof
    assume "has_id sp i"
    then have "has_id sp j"
      using that(4) by (simp add: has_id_def)
    then show False
      using wf that \<open>has_id sp i\<close> by (auto simp: macid_wf_def dest: inj_onD)
  qed
  ultimately show ?thesis
    unfolding has_id_def not_less by blast
qed

lemma demo_reach: "sta_reach demo_table"
  by (rule sta_reach.init [of demo_sp "fst (rtw_init_sta_priv True demo_sp)"]) (simp_all add: demo_table_def demo_sp_def)

theorem sta_reach_distinct_witness:
  "\<exists>sp i j. sta_reach sp \<and> i \<in> set (live sp) \<and> j \<in> set (live sp) \<and> hwaddr (sta_at sp i) = bc_addr \<and>
    hwaddr (sta_at sp j) = [2, 0, 0, 0, 0, 9] \<and>
    (mac_id (sta_at sp i) = mac_id (sta_at sp j) \<longrightarrow> unat (mc_num (macid_ctl sp)) \<le> unat (mac_id (sta_at sp i)))"
proof -
  let ?a = "[2, 0, 0, 0, 0, 9] :: mem"
  have bc: "length bc_addr = 6" "?a \<noteq> bc_addr"
    by (simp_all add: bc_addr_def)
  obtain i sp1 where s1: "rtw_alloc_stainfo demo_table bc_addr = Some (Some i, sp1)" "sta_wf sp1" "sta_tab sp1 = Map.empty(bc_addr \<mapsto> i)"
    using rtw_alloc_stainfo_tab [OF demo_table_wf(1) bc(1)] demo_table_wf by (auto split: option.splits)
  have r1: "sta_reach sp1"
    by (rule sta_reach.alloc [OF demo_reach bc(1) _ s1(1)]) (simp add: demo_table_wf)
  have "free_sta_queue sp1 = [1..<32]"
    using alloc_view [OF demo_table_wf(1) bc(1), of 0 "[1..<32]"] s1(1) demo_table_wf(4)
    by (auto simp: rtw_alloc_stainfo_def spin_lock_def spin_unlock_def upt_rec [of 0] Let_def bind_eq_Some_conv split: if_splits)
  then obtain j sp2 where s2: "rtw_alloc_stainfo sp1 ?a = Some (Some j, sp2)" "sta_wf sp2" "sta_tab sp2 = [bc_addr \<mapsto> i, ?a \<mapsto> j]"
    using rtw_alloc_stainfo_tab [OF s1(2), of ?a] s1(3) bc(2) by (auto split: option.splits)
  have r2: "sta_reach sp2"
    by (rule sta_reach.alloc [OF r1 _ _ s2(1)]) (use s1(3) bc(2) in simp_all)
  have ij: "i \<in> set (live sp2)" "hwaddr (sta_at sp2 i) = bc_addr" "j \<in> set (live sp2)" "hwaddr (sta_at sp2 j) = ?a"
    using sta_tab_Some [OF s2(2), of bc_addr i] sta_tab_Some [OF s2(2), of ?a j] s2(3) bc(2) by simp_all
  then have "i \<noteq> j"
    using bc(2) by auto
  then have "mac_id (sta_at sp2 i) = mac_id (sta_at sp2 j) \<longrightarrow> unat (mc_num (macid_ctl sp2)) \<le> unat (mac_id (sta_at sp2 i))"
    using sta_reach_distinct [OF r2] ij(1,3) by simp
  with r2 ij show ?thesis
    by (intro exI [of _ sp2] exI [of _ i] exI [of _ j] conjI)
qed

section \<open>Access control\<close>

text \<open>The access control list does what its three modes promise: in mode 1 every address but the valid entries is
  accepted, in mode 2 only the valid entries are, in any other mode every address is.\<close>

theorem rtw_access_ctrl_modes:
  "rtw_access_ctrl sp a \<longleftrightarrow> (acl_mode sp = 1 \<longrightarrow> (a, True) \<notin> set (acl_node_q sp)) \<and> (acl_mode sp = 2 \<longrightarrow> (a, True) \<in> set (acl_node_q sp))"
  by (force simp: rtw_access_ctrl_def Let_def)

end
