(* ===== verification/Recv_Path.thy ===== *)
theory Recv_Path
  imports Recv_Defrag Sta_Mgt Sec_Mic Sec_Ccmp "HOL-Library.Multiset"
begin

text \<open>
  The data path of \<^verbatim>\<open>core/rtw_recv.c\<close> behind the header checks: \<open>decryptor\<close>, defragmentation
  (\<open>recvframe_chk_defrag\<close> and \<open>recvframe_defrag\<close>), the TKIP integrity check \<open>recvframe_chkmic\<close>, the 802.1X port
  (\<open>portctrl\<close>), \<open>process_recv_indicatepkts\<close> and \<open>recv_func_posthandle\<close>, which runs them in this order. It works on
  the station table, the ciphers and the reorder buffer of the other theories.
\<close>

section \<open>State\<close>

text \<open>The part of the adapter the path uses: stations, keys, the flags of \<open>security_priv\<close>, the static buffers of
  the ciphers, the environment of the indication, the state and the address of the network (\<open>fw_state\<close>, \<open>bss_mac\<close> for \<open>get_bssid\<close>),
  statistics, the queue of frames that wait for a key, the flags of the mass-production test, and the
  kernel's clock.\<close>

record rx_adapter =
  stapriv :: sta_priv
  sec :: security_priv
  dot118021XGrprxmickey :: "mem list"
  dot11AuthAlgrthm :: u32
  busetkipkey :: u8
  bcheck_grpkey :: u8
  sw_decrypt :: bool
  hw_decrypted :: bool
  mlme_key_index :: u32
  ht_option :: bool
  rx_env_of :: rx_env
  crc_tab :: crc_static
  aes_message :: mem
  rx_drop :: u64
  fw_state :: u32
  bss_mac :: mem
  dot11PrivacyAlgrthm :: u32
  dot118021XGrpPrivacy :: u32
  ndisauthtype :: u32
  uc_swdec_pending_queue :: "rframe list"
  rx_bytes :: u64
  rx_pkts :: u64
  NumRxOkInPeriod :: u32
  NumRxUnicastOkInPeriod :: u32
  bIsAnyNonBEPkts :: bool
  send_issue_deauth_time :: u32
  hiq_filter :: u8
  mp_mode :: u8
  bRTWSmbCfg :: bool
  rx_pktloss :: u32
  cur_time :: u32
  passing_ms :: "u32 \<Rightarrow> u32"

text \<open>A station through its index, and the change of one.\<close>

definition sta_of :: "rx_adapter \<Rightarrow> mem \<Rightarrow> (nat \<times> sta_info) option option" where
  "sta_of ad addr = do { r \<leftarrow> rtw_get_stainfo (stapriv ad) (Some addr);
     case r of None \<Rightarrow> Some None | Some i \<Rightarrow> do { s \<leftarrow> arr (pstainfo_buf (stapriv ad)) i; Some (Some (i, s)) } }"

definition upd_sta :: "rx_adapter \<Rightarrow> nat \<Rightarrow> sta_info \<Rightarrow> rx_adapter" where
  "upd_sta ad i s = ad\<lparr>stapriv := (stapriv ad)\<lparr>pstainfo_buf := (pstainfo_buf (stapriv ad))[i := s]\<rparr>\<rparr>"

section \<open>Decryption\<close>

text \<open>The ciphers see the frame from \<open>rx_data\<close> on.\<close>

definition to_recv_frame :: "rframe \<Rightarrow> nat \<Rightarrow> recv_frame" where
  "to_recv_frame f p = \<lparr>rx_attrib = \<lparr>rx_hdrlen = a_hdrlen (fattr f), rx_encrypt = a_encrypt (fattr f), rx_iv_len = a_iv_len (fattr f),
      rx_key_index = a_key_index (fattr f), rx_ra = a_ra (fattr f), rx_ta = a_ta (fattr f)\<rparr>,
     rx_len = flen f, rx_buf = drop p (fbuf f)\<rparr>"

definition of_recv_frame :: "rframe \<Rightarrow> nat \<Rightarrow> recv_frame \<Rightarrow> rframe" where
  "of_recv_frame f p rf = f\<lparr>fbuf := take p (fbuf f) @ rx_buf rf\<rparr>"

text \<open>The software ciphers; the flag is \<open>_SUCCESS\<close>. The result of \<open>rtw_wep_decrypt\<close> is not looked at.\<close>

definition sw_cipher :: "rx_adapter \<Rightarrow> rframe \<Rightarrow> (bool \<times> rframe \<times> rx_adapter) option" where
  "sw_cipher ad f = do {
     p \<leftarrow> at_off (rx_data f);
     sta \<leftarrow> sta_of ad (a_ta (fattr f));
     let key = map_option (\<lambda>s. dot118021x_UncstKey (snd s)) sta;
     let enc = a_encrypt (fattr f);
     if enc = WEP40 \<or> enc = WEP104 then do {
       (bad, rf, c) \<leftarrow> rtw_wep_decrypt (sec ad) (crc_tab ad) (to_recv_frame f p);
       Some (True, of_recv_frame f p rf, ad\<lparr>crc_tab := c\<rparr>) }
     else if enc = TKIP then do {
       (ok, rf, c) \<leftarrow> rtw_tkip_decrypt (sec ad) key (crc_tab ad) (to_recv_frame f p);
       Some (ok, of_recv_frame f p rf, ad\<lparr>crc_tab := c\<rparr>) }
     else if enc = AES then do {
       (ok, rf, m) \<leftarrow> rtw_aes_decrypt (sec ad) key (aes_message ad) (to_recv_frame f p);
       Some (ok, of_recv_frame f p rf, ad\<lparr>aes_message := m\<rparr>) }
     else Some (True, f, ad) }"

definition set_key_index :: "rx_adapter \<Rightarrow> rframe \<Rightarrow> rframe option" where
  "set_key_index ad f = (let a = fattr f in
     if a_encrypt a > 0 then do {
       b \<leftarrow> rd8i (fbuf f) (rx_data f + uint (a_hdrlen a) + 3);
       let k = drop_bit 6 b AND 3;
       Some (f\<lparr>fattr := a\<lparr>a_key_index :=
         (if k > 4 then if a_encrypt a = WEP40 \<or> a_encrypt a = WEP104 then ucast (dot11PrivacyKeyIndex (sec ad))
                        else ucast (dot118021XGrpKeyid (sec ad))
          else k)\<rparr>\<rparr>) }
     else Some f)"

definition decryptor :: "rx_adapter \<Rightarrow> rframe \<Rightarrow> (rframe option \<times> rx_adapter \<times> rx_act list) option" where
  "decryptor ad f0 = do {
     f \<leftarrow> set_key_index ad f0;
     let a = fattr f;
     (ok, f1, ad1) \<leftarrow>
       (if a_encrypt a > 0 \<and> (a_bdecrypted a = 0 \<or> sw_decrypt ad) then sw_cipher (ad\<lparr>hw_decrypted := False\<rparr>) f
        else if a_bdecrypted a = 1 \<and> a_encrypt a > 0 \<and> (busetkipkey ad = 1 \<or> a_encrypt a \<noteq> TKIP) then Some (True, f, ad\<lparr>hw_decrypted := True\<rparr>)
        else Some (True, f, ad));
     if \<not> ok then Some (None, ad1, [Free_recvframe (fid f1)])
     else Some (Some (f1\<lparr>fattr := (fattr f1)\<lparr>a_bdecrypted := 1\<rparr>\<rparr>), ad1, []) }"

section \<open>Integrity of a TKIP frame\<close>

text \<open>The flag is \<open>_SUCCESS\<close>. Without a station nothing is checked. The error exit for a missing group key leaves
  the code at the end of the frame.\<close>

definition mic_ok :: "rx_adapter \<Rightarrow> mem \<Rightarrow> rframe \<Rightarrow> nat \<Rightarrow> bool run" where
  "mic_ok ad mickey f p = (let a = fattr f;
     datalen = unat (flen f - ucast (a_hdrlen a) - ucast (a_iv_len a) - ucast (a_icv_len a) - 8);
     payload = p + unat (a_hdrlen a) + unat (a_iv_len a) in
     run_bind (rtw_seccalctkipmic mickey (drop p (fbuf f)) (drop payload (fbuf f)) datalen (replicate 8 0) (a_priority a)) (\<lambda>miccode.
     Some (map_option (\<lambda>framemic. miccode = framemic) (rd_bytes (fbuf f) (payload + datalen) 8))))"

definition recvframe_chkmic :: "rx_adapter \<Rightarrow> rframe \<Rightarrow> (bool \<times> rframe \<times> rx_adapter \<times> rx_act list) run" where
  "recvframe_chkmic ad f = (let a = fattr f; cut = snd (recvframe_pull_tail f 8) in
     if a_encrypt a \<noteq> TKIP then Some (Some (True, f, ad, []))
     else run_bind (Some (sta_of ad (a_ta a))) (\<lambda>sta.
       case sta of None \<Rightarrow> Some (Some (True, cut, ad, []))
       | Some (i, s) \<Rightarrow>
           run_bind (Some (IS_MCAST (a_ra a))) (\<lambda>mc.
           run_bind (Some (if mc then arr (dot118021XGrprxmickey ad) (unat (a_key_index a)) else Some (dot11tkiprxmickey s))) (\<lambda>mickey.
           if mc \<and> binstallGrpkey (sec ad) = 0 then Some (Some (False, f, ad, []))
           else run_bind (Some (at_off (rx_data f))) (\<lambda>p.
             run_bind (mic_ok ad mickey f p) (\<lambda>ok.
             if ok then Some (Some (True, cut, (if bcheck_grpkey ad = 0 \<and> mc then ad\<lparr>bcheck_grpkey := 1\<rparr> else ad), []))
             else Some (Some (False, cut, ad,
               if a_bdecrypted a = 1 \<and> \<not> (mc \<and> ucast (a_key_index a) \<noteq> mlme_key_index ad) then [Mic_error mc] else []))))))))"

section \<open>Collecting fragments\<close>

definition GetFrameType :: "mem \<Rightarrow> nat \<Rightarrow> u16 option" where
  "GetFrameType m p = map_option (\<lambda>v. v AND 0xc) (RTW_GET_LE16 m p)"

text \<open>The station whose queue collects the fragments.\<close>

definition defrag_sta :: "rx_adapter \<Rightarrow> rframe \<Rightarrow> (nat \<times> sta_info) option option" where
  "defrag_sta ad f = do {
     sta \<leftarrow> sta_of ad (a_ta (fattr f));
     case sta of Some s \<Rightarrow> Some (Some s)
     | None \<Rightarrow> do {
         p \<leftarrow> at_off (rx_data f);
         t \<leftarrow> GetFrameType (fbuf f) p;
         if t \<noteq> 8 then do { b \<leftarrow> sta_of ad bc_addr; case b of None \<Rightarrow> None | Some s \<Rightarrow> Some (Some s) }
         else Some None } }"

definition defrag_step :: "rx_adapter \<Rightarrow> rframe \<Rightarrow> (rframe option \<times> rx_adapter \<times> rx_act list) option" where
  "defrag_step ad f = (let a = fattr f in do {
     sta \<leftarrow> defrag_sta ad f;
     if a_mfrag a = 0 \<and> a_frag_num a = 0 then Some (Some f, ad, [])
     else if a_mfrag a = 1 then
       (case sta of None \<Rightarrow> Some (None, ad, frees [f])
        | Some (i, s) \<Rightarrow>
            if a_frag_num a = 0 then Some (None, upd_sta ad i (s\<lparr>defrag_q := [f]\<rparr>), frees (defrag_q s))
            else Some (None, upd_sta ad i (s\<lparr>defrag_q := defrag_q s @ [f]\<rparr>), []))
     else if a_mfrag a = 0 then
       (case sta of None \<Rightarrow> Some (None, ad, frees [f])
        | Some (i, s) \<Rightarrow> do { (r, acts) \<leftarrow> recvframe_defrag (defrag_q s @ [f]); Some (r, upd_sta ad i (s\<lparr>defrag_q := []\<rparr>), acts) })
     else Some (None, ad, []) })"

definition recvframe_chk_defrag :: "rx_adapter \<Rightarrow> rframe \<Rightarrow> (rframe option \<times> rx_adapter \<times> rx_act list) run" where
  "recvframe_chk_defrag ad f =
     run_bind (Some (defrag_step ad f)) (\<lambda>(r, ad1, acts1).
       case r of None \<Rightarrow> Some (Some (None, ad1, acts1))
       | Some g \<Rightarrow>
           if a_privacy (fattr g) \<noteq> 0 then
             run_bind (recvframe_chkmic ad1 g) (\<lambda>(ok, g1, ad2, acts2).
               if ok then Some (Some (Some g1, ad2, acts1 @ acts2))
               else Some (Some (None, ad2, acts1 @ acts2 @ [Free_recvframe (fid g1)])))
           else Some (Some (Some g, ad1, acts1)))"

section \<open>The 802.1X port\<close>

definition ether_type_of :: "rframe \<Rightarrow> u16 option" where
  "ether_type_of f = do { p \<leftarrow> at_off (rx_data f); RTW_GET_BE16 (fbuf f) (p + unat (a_hdrlen (fattr f)) + unat (a_iv_len (fattr f)) + 6) }"

definition portctrl :: "rx_adapter \<Rightarrow> rframe \<Rightarrow> (rframe option \<times> rx_act list) option" where
  "portctrl ad f = do {
     sta \<leftarrow> sta_of ad (a_ta (fattr f));
     if dot11AuthAlgrthm ad = 2 \<and> (case sta of None \<Rightarrow> False | Some (i, s) \<Rightarrow> ieee8021x_blocked s \<noteq> 0) then do {
       t \<leftarrow> ether_type_of f;
       if t = 0x888e then Some (Some f, []) else Some (None, [Free_recvframe (fid f)]) }
     else Some (Some f, []) }"

section \<open>Indication\<close>

text \<open>The statistics of \<open>count_rx_stats\<close>; \<open>sta\<close> is its third argument.\<close>

definition count_rx_stats :: "rx_adapter \<Rightarrow> rframe \<Rightarrow> nat option \<Rightarrow> rx_adapter option" where
  "count_rx_stats ad f sta = do {
     mc \<leftarrow> IS_MCAST (a_dst (fattr f));
     let ad1 = ad\<lparr>rx_bytes := rx_bytes ad + ucast (flen f), NumRxOkInPeriod := NumRxOkInPeriod ad + 1,
       NumRxUnicastOkInPeriod := (if mc then NumRxUnicastOkInPeriod ad else NumRxUnicastOkInPeriod ad + 1)\<rparr>;
     case (if sta \<noteq> None then sta else f_psta f) of None \<Rightarrow> Some ad1
     | Some i \<Rightarrow> do {
         s \<leftarrow> arr (pstainfo_buf (stapriv ad)) i;
         let st = sta_stats s;
         Some (upd_sta ad1 i (s\<lparr>sta_stats := st\<lparr>st_rx_data_pkts := st_rx_data_pkts st + 1, st_rx_bytes := st_rx_bytes st + ucast (flen f)\<rparr>\<rparr>)) } }"

text \<open>The reorder buffer is \<open>preorder_ctrl\<close>, set by \<open>validate_recv_data_frame\<close>.\<close>

definition process_recv_indicatepkts :: "rx_adapter \<Rightarrow> rframe \<Rightarrow> (bool \<times> rx_adapter \<times> rx_act list) option" where
  "process_recv_indicatepkts ad f = (let e = rx_env_of ad in
     if ht_option ad then do {
       i \<leftarrow> f_psta f;
       s \<leftarrow> arr (pstainfo_buf (stapriv ad)) i;
       c \<leftarrow> arr (recvreorder_ctrl s) (unat (a_priority (fattr f)));
       (ok, c', acts) \<leftarrow> recv_indicatepkt_reorder e c f;
       Some (ok \<or> stopped e, upd_sta ad i (s\<lparr>recvreorder_ctrl := (recvreorder_ctrl s)[unat (a_priority (fattr f)) := c']\<rparr>), acts) }
     else do {
       (ok, f1) \<leftarrow> wlanhdr_to_ethhdr (mp_state e) f;
       if \<not> ok then Some (False, ad, [])
       else if \<not> stopped e then Some (True, ad, rtw_recv_indicatepkt f1)
       else Some (False, ad, []) })"

text \<open>The whole path. The frame that is freed when the indication fails is the one the function was called with.\<close>

definition recv_func_posthandle :: "rx_adapter \<Rightarrow> rframe \<Rightarrow> (bool \<times> rx_adapter \<times> rx_act list) run" where
  "recv_func_posthandle ad f = (let drop1 = (\<lambda>ad. ad\<lparr>rx_drop := rx_drop ad + 1\<rparr>) in
     run_bind (Some (decryptor ad f)) (\<lambda>(r1, ad1, acts1).
     case r1 of None \<Rightarrow> Some (Some (False, drop1 ad1, acts1))
     | Some f1 \<Rightarrow>
       run_bind (recvframe_chk_defrag ad1 f1) (\<lambda>(r2, ad2, acts2).
       case r2 of None \<Rightarrow> Some (Some (True, drop1 ad2, acts1 @ acts2))
       | Some f2 \<Rightarrow>
         run_bind (Some (portctrl ad2 f2)) (\<lambda>(r3, acts3).
         case r3 of None \<Rightarrow> Some (Some (False, drop1 ad2, acts1 @ acts2 @ acts3))
         | Some f3 \<Rightarrow>
           run_bind (Some (count_rx_stats ad2 f3 None)) (\<lambda>ads.
           run_bind (Some (process_recv_indicatepkts ads f3)) (\<lambda>(ok, ad3, acts4).
           if ok then Some (Some (True, ad3, acts1 @ acts2 @ acts3 @ acts4))
           else Some (Some (False, drop1 ad3, acts1 @ acts2 @ acts3 @ acts4 @ [Free_recvframe (fid f)]))))))))"

section \<open>What the path frees\<close>

definition freed :: "rx_act list \<Rightarrow> nat list" where
  "freed acts = concat (map (\<lambda>a. case a of Free_recvframe i \<Rightarrow> [i] | _ \<Rightarrow> []) acts)"

definition indicates :: "rx_act list \<Rightarrow> bool" where
  "indicates acts \<longleftrightarrow> (\<exists>b. Indicate b \<in> set acts)"

lemma freed_simps [simp]:
  "freed [] = []" "freed (Free_recvframe i # as) = i # freed as" "freed (Indicate b # as) = freed as" "freed (Mic_error m # as) = freed as"
  "freed (as @ bs) = freed as @ freed bs"
  by (simp_all add: freed_def)

lemma freed_Indicate [simp]: "freed (map Indicate ps) = []"
  by (induction ps) simp_all

lemma freed_frees [simp]: "freed (frees fs) = map fid fs"
  by (induction fs) (simp_all add: frees_def)

lemma indicates_simps [simp]:
  "\<not> indicates []" "indicates (as @ bs) \<longleftrightarrow> indicates as \<or> indicates bs" "\<not> indicates (frees fs)"
  "indicates (Free_recvframe i # as) = indicates as" "indicates (Mic_error m # as) = indicates as"
  by (auto simp: indicates_def frees_def)

text \<open>The steps before the port send nothing up and leave alone what the port looks at.\<close>

lemma set_key_index_frame:
  "set_key_index ad f = Some g \<Longrightarrow> g = f\<lparr>fattr := (fattr f)\<lparr>a_key_index := a_key_index (fattr g)\<rparr>\<rparr>"
  by (auto simp: set_key_index_def Let_def bind_eq_Some_conv split: if_splits)

lemma sw_cipher_frame:
  assumes "sw_cipher ad f = Some (ok, g, ad')"
  shows "fid g = fid f \<and> fattr g = fattr f \<and> stapriv ad' = stapriv ad \<and> dot11AuthAlgrthm ad' = dot11AuthAlgrthm ad \<and>
    ht_option ad' = ht_option ad \<and> rx_env_of ad' = rx_env_of ad"
proof -
  obtain p where p: "at_off (rx_data f) = Some p"
    using assms by (auto simp: sw_cipher_def bind_eq_Some_conv)
  obtain sta where sta: "sta_of ad (a_ta (fattr f)) = Some sta"
    using assms p by (auto simp: sw_cipher_def bind_eq_Some_conv)
  have g: "fid (of_recv_frame f p rf) = fid f" "fattr (of_recv_frame f p rf) = fattr f" for rf
    by (simp_all add: of_recv_frame_def)
  show ?thesis
    using assms unfolding sw_cipher_def p sta bind.bind_lunit Let_def
    by (auto simp: bind_eq_Some_conv g split: if_splits)
qed

lemma decryptor_frame:
  assumes "decryptor ad f = Some (r, ad', acts)"
  shows "stapriv ad' = stapriv ad \<and> dot11AuthAlgrthm ad' = dot11AuthAlgrthm ad \<and> ht_option ad' = ht_option ad \<and> rx_env_of ad' = rx_env_of ad \<and>
    \<not> indicates acts \<and> (case r of None \<Rightarrow> freed acts = [fid f] | Some g \<Rightarrow> acts = [] \<and> fid g = fid f \<and>
      fattr g = (fattr f)\<lparr>a_key_index := a_key_index (fattr g), a_bdecrypted := 1\<rparr>)"
proof -
  obtain g where g: "set_key_index ad f = Some g"
    using assms by (auto simp: decryptor_def bind_eq_Some_conv)
  define m where "m = (if a_encrypt (fattr g) > 0 \<and> (a_bdecrypted (fattr g) = 0 \<or> sw_decrypt ad) then sw_cipher (ad\<lparr>hw_decrypted := False\<rparr>) g
        else if a_bdecrypted (fattr g) = 1 \<and> a_encrypt (fattr g) > 0 \<and> (busetkipkey ad = 1 \<or> a_encrypt (fattr g) \<noteq> TKIP)
        then Some (True, g, ad\<lparr>hw_decrypted := True\<rparr>) else Some (True, g, ad))"
  obtain ok h ad1 where m: "m = Some (ok, h, ad1)"
    "if ok then r = Some (h\<lparr>fattr := (fattr h)\<lparr>a_bdecrypted := 1\<rparr>\<rparr>) \<and> ad' = ad1 \<and> acts = []
     else r = None \<and> ad' = ad1 \<and> acts = [Free_recvframe (fid h)]"
    using assms unfolding decryptor_def g bind.bind_lunit Let_def m_def [symmetric] by (auto simp: bind_eq_Some_conv split: if_splits)
  have h: "fid h = fid g" "fattr h = fattr g" and ad1: "stapriv ad1 = stapriv ad" "dot11AuthAlgrthm ad1 = dot11AuthAlgrthm ad"
    "ht_option ad1 = ht_option ad" "rx_env_of ad1 = rx_env_of ad"
    using m(1) unfolding m_def by (auto split: if_splits dest!: sw_cipher_frame)
  have "fid g = fid f" "fattr g = (fattr f)\<lparr>a_key_index := a_key_index (fattr g)\<rparr>"
    using set_key_index_frame [OF g] by (metis rframe.select_convs(1) rframe.surjective rframe.update_convs(2), metis rframe.select_convs(2) rframe.surjective rframe.update_convs(2))
  then show ?thesis
    using h ad1 m(2) by (cases ok) auto
qed

lemma decryptor_attr:
  assumes "decryptor ad f = Some (Some g, ad', acts)"
  shows "a_mfrag (fattr g) = a_mfrag (fattr f)" "a_frag_num (fattr g) = a_frag_num (fattr f)" "a_amsdu (fattr g) = a_amsdu (fattr f)"
    "a_ta (fattr g) = a_ta (fattr f)" "a_privacy (fattr g) = a_privacy (fattr f)"
proof -
  have e: "fattr g = (fattr f)\<lparr>a_key_index := a_key_index (fattr g), a_bdecrypted := 1\<rparr>"
    using decryptor_frame [OF assms] by simp
  show "a_mfrag (fattr g) = a_mfrag (fattr f)" "a_frag_num (fattr g) = a_frag_num (fattr f)" "a_amsdu (fattr g) = a_amsdu (fattr f)"
    "a_ta (fattr g) = a_ta (fattr f)" "a_privacy (fattr g) = a_privacy (fattr f)"
    by (subst e, simp)+
qed

lemma pull_tail_frame:
  "fid (snd (recvframe_pull_tail f n)) = fid f" "fattr (snd (recvframe_pull_tail f n)) = fattr f"
  "fbuf (snd (recvframe_pull_tail f n)) = fbuf f" "rx_data (snd (recvframe_pull_tail f n)) = rx_data f"
  by (simp_all add: recvframe_pull_tail_def)

lemma chkmic_frame:
  assumes "recvframe_chkmic ad f = Some (Some (ok, f', ad', acts))"
  shows "stapriv ad' = stapriv ad \<and> dot11AuthAlgrthm ad' = dot11AuthAlgrthm ad \<and> ht_option ad' = ht_option ad \<and> rx_env_of ad' = rx_env_of ad \<and>
    \<not> indicates acts \<and> freed acts = [] \<and> fid f' = fid f \<and> fattr f' = fattr f \<and> fbuf f' = fbuf f \<and> rx_data f' = rx_data f"
proof (cases "a_encrypt (fattr f) = TKIP")
  case True
  then obtain sta where sta: "sta_of ad (a_ta (fattr f)) = Some sta"
    using assms by (auto simp: recvframe_chkmic_def run_bind_eq_ret Let_def)
  show ?thesis
  proof (cases sta)
    case None
    then show ?thesis
      using assms True sta by (auto simp: recvframe_chkmic_def Let_def pull_tail_frame)
  next
    case (Some z)
    obtain i s where "z = (i, s)"
      by (cases z)
    then show ?thesis
      using assms True sta Some by (auto simp: recvframe_chkmic_def run_bind_eq_ret Let_def pull_tail_frame split: if_splits)
  qed
qed (use assms in \<open>auto simp: recvframe_chkmic_def Let_def\<close>)

text \<open>Stations keep their addresses and their port state when only queues change.\<close>

definition blocked :: "rx_adapter \<Rightarrow> mem \<Rightarrow> bool" where
  "blocked ad addr \<longleftrightarrow> (\<exists>i s. sta_of ad addr = Some (Some (i, s)) \<and> ieee8021x_blocked s \<noteq> 0)"

lemma hash_find_upd:
  "i < length tb \<Longrightarrow> hwaddr s' = hwaddr (tb ! i) \<Longrightarrow> hash_find (tb[i := s']) is a = hash_find tb is a"
  by (induction "is") (auto simp: arr_def nth_list_update)

lemma sta_of_at:
  assumes "sta_of ad a = Some (Some (i, s))"
  shows "i < length (pstainfo_buf (stapriv ad))" "pstainfo_buf (stapriv ad) ! i = s"
  using assms by (auto simp: sta_of_def bind_eq_Some_conv arr_def split: option.splits if_splits)

lemma get_stainfo_upd:
  assumes "i < length (pstainfo_buf sp)" "hwaddr s' = hwaddr (pstainfo_buf sp ! i)"
  shows "rtw_get_stainfo (sp\<lparr>pstainfo_buf := (pstainfo_buf sp)[i := s']\<rparr>) h = rtw_get_stainfo sp h"
  using hash_find_upd [OF assms] by (cases h) (simp_all add: rtw_get_stainfo_def Let_def)

lemma sta_of_upd:
  assumes "i < length (pstainfo_buf (stapriv ad))" "hwaddr s' = hwaddr (pstainfo_buf (stapriv ad) ! i)"
  shows "sta_of (upd_sta ad i s') a = map_option (map_option (\<lambda>(j, s). (j, if j = i then s' else s))) (sta_of ad a)"
proof (cases "rtw_get_stainfo (stapriv ad) (Some a)")
  case (Some r)
  then show ?thesis
    using assms get_stainfo_upd [OF assms] by (cases r) (auto simp: sta_of_def upd_sta_def arr_def)
qed (use get_stainfo_upd [OF assms] in \<open>simp add: sta_of_def upd_sta_def\<close>)

lemma blocked_upd:
  assumes "sta_of ad b = Some (Some (i, s))" "hwaddr s' = hwaddr s" "ieee8021x_blocked s' = ieee8021x_blocked s"
  shows "blocked (upd_sta ad i s') a = blocked ad a"
proof -
  note at = sta_of_at [OF assms(1)]
  have "sta_of (upd_sta ad i s') a = map_option (map_option (\<lambda>(j, t). (j, if j = i then s' else t))) (sta_of ad a)"
    by (rule sta_of_upd) (use at assms(2) in simp_all)
  moreover have "t = s" if "sta_of ad a = Some (Some (i, t))" for t
    using sta_of_at [OF that] at by simp
  ultimately show ?thesis
    using assms(3) by (cases "sta_of ad a"; cases "the (sta_of ad a)") (auto simp: blocked_def split: if_splits)
qed

lemma defrag_sta_of:
  assumes "defrag_sta ad f = Some (Some (i, s))"
  shows "\<exists>b. sta_of ad b = Some (Some (i, s))"
proof -
  obtain sta where sta: "sta_of ad (a_ta (fattr f)) = Some sta"
    using assms by (auto simp: defrag_sta_def bind_eq_Some_conv)
  show ?thesis
  proof (cases sta)
    case (Some z)
    then show ?thesis
      using assms sta by (auto simp: defrag_sta_def)
  next
    case None
    then show ?thesis
      using assms sta by (auto simp: defrag_sta_def bind_eq_Some_conv split: if_splits option.splits)
  qed
qed

lemma upd_sta_frame [simp]:
  "dot11AuthAlgrthm (upd_sta ad i s) = dot11AuthAlgrthm ad" "ht_option (upd_sta ad i s) = ht_option ad" "rx_env_of (upd_sta ad i s) = rx_env_of ad"
  by (simp_all add: upd_sta_def)

lemma recvframe_defrag_quiet: "recvframe_defrag q = Some (r, acts) \<Longrightarrow> \<not> indicates acts"
  by (auto simp: recvframe_defrag_def bind_eq_Some_conv split: list.splits if_splits option.splits)

lemma defrag_step_frame:
  assumes "defrag_step ad f = Some (r, ad', acts)"
  shows "dot11AuthAlgrthm ad' = dot11AuthAlgrthm ad \<and> ht_option ad' = ht_option ad \<and> rx_env_of ad' = rx_env_of ad \<and> \<not> indicates acts \<and>
    (\<forall>a. blocked ad' a = blocked ad a) \<and> (a_mfrag (fattr f) = 0 \<and> a_frag_num (fattr f) = 0 \<longrightarrow> r = Some f \<and> ad' = ad \<and> acts = [])"
proof -
  obtain sta where sta: "defrag_sta ad f = Some sta"
    using assms by (auto simp: defrag_step_def bind_eq_Some_conv Let_def)
  show ?thesis
  proof (cases sta)
    case None
    then show ?thesis
      using assms sta by (auto simp: defrag_step_def Let_def split: if_splits)
  next
    case (Some z)
    obtain i s where z: "z = (i, s)"
      by (cases z)
    obtain b where b: "sta_of ad b = Some (Some (i, s))"
      using defrag_sta_of sta Some z by blast
    have "blocked (upd_sta ad i (s\<lparr>defrag_q := q\<rparr>)) a = blocked ad a" for q a
      by (rule blocked_upd [OF b]) simp_all
    then show ?thesis
      using assms sta Some z recvframe_defrag_quiet by (auto simp: defrag_step_def Let_def bind_eq_Some_conv split: if_splits)
  qed
qed

lemma ether_type_frame: "fbuf g = fbuf f \<Longrightarrow> rx_data g = rx_data f \<Longrightarrow> fattr g = fattr f \<Longrightarrow> ether_type_of g = ether_type_of f"
  by (simp add: ether_type_of_def)

lemma blocked_stapriv:
  assumes "stapriv ad' = stapriv ad"
  shows "blocked ad' a = blocked ad a" "sta_of ad' a = sta_of ad a"
  unfolding blocked_def sta_of_def assms by (rule refl)+

lemma chk_defrag_frame:
  assumes "recvframe_chk_defrag ad f = Some (Some (r, ad', acts))"
  shows "dot11AuthAlgrthm ad' = dot11AuthAlgrthm ad \<and> ht_option ad' = ht_option ad \<and> rx_env_of ad' = rx_env_of ad \<and> \<not> indicates acts \<and>
    (\<forall>a. blocked ad' a = blocked ad a) \<and>
    (a_mfrag (fattr f) = 0 \<and> a_frag_num (fattr f) = 0 \<longrightarrow> stapriv ad' = stapriv ad \<and>
      (case r of None \<Rightarrow> freed acts = [fid f] | Some g \<Rightarrow> freed acts = [] \<and> fid g = fid f \<and> fattr g = fattr f))"
proof -
  obtain r1 ad1 acts1 where d: "defrag_step ad f = Some (r1, ad1, acts1)"
    using assms by (auto simp: recvframe_chk_defrag_def run_bind_eq_ret)
  note d1 = defrag_step_frame [OF d]
  show ?thesis
  proof (cases r1)
    case None
    then show ?thesis
      using assms d d1 by (auto simp: recvframe_chk_defrag_def)
  next
    case (Some g)
    show ?thesis
    proof (cases "a_privacy (fattr g) = 0")
      case True
      then show ?thesis
        using assms d d1 Some by (auto simp: recvframe_chk_defrag_def)
    next
      case False
      obtain ok g1 ad2 acts2 where c: "recvframe_chkmic ad1 g = Some (Some (ok, g1, ad2, acts2))"
        "(r, ad', acts) = (if ok then (Some g1, ad2, acts1 @ acts2) else (None, ad2, acts1 @ acts2 @ [Free_recvframe (fid g1)]))"
        using assms d Some False by (auto simp: recvframe_chk_defrag_def run_bind_eq_ret split: if_splits)
      note c1 = chkmic_frame [OF c(1)]
      have "\<forall>a. blocked ad2 a = blocked ad1 a"
        using c1 blocked_stapriv by blast
      then show ?thesis
        using c(2) c1 d1 Some by (auto split: if_splits)
    qed
  qed
qed

section \<open>The controlled port\<close>

lemma portctrl_Some:
  assumes "portctrl ad f = Some (Some g, acts)"
  shows "g = f \<and> acts = [] \<and> (dot11AuthAlgrthm ad = 2 \<and> blocked ad (a_ta (fattr f)) \<longrightarrow> ether_type_of f = Some 0x888e)"
  using assms by (auto simp: portctrl_def blocked_def bind_eq_Some_conv split: if_splits option.splits prod.splits)

lemma portctrl_None: "portctrl ad f = Some (None, acts) \<Longrightarrow> acts = [Free_recvframe (fid f)]"
  by (auto simp: portctrl_def bind_eq_Some_conv split: if_splits)

text \<open>The four ways through the path.\<close>

lemma posthandle_cases:
  assumes "recv_func_posthandle ad f = Some (Some (ok, ad', acts))"
  obtains (decrypt) ad1 acts1 where "decryptor ad f = Some (None, ad1, acts1)" "acts = acts1" "stapriv ad' = stapriv ad1"
  | (defrag) f1 ad1 acts1 ad2 acts2 where "decryptor ad f = Some (Some f1, ad1, acts1)"
      "recvframe_chk_defrag ad1 f1 = Some (Some (None, ad2, acts2))" "acts = acts1 @ acts2" "stapriv ad' = stapriv ad2"
  | (port) f1 ad1 acts1 f2 ad2 acts2 acts3 where "decryptor ad f = Some (Some f1, ad1, acts1)"
      "recvframe_chk_defrag ad1 f1 = Some (Some (Some f2, ad2, acts2))" "portctrl ad2 f2 = Some (None, acts3)" "acts = acts1 @ acts2 @ acts3"
      "stapriv ad' = stapriv ad2"
  | (up) f1 ad1 acts1 f2 ad2 acts2 ad3 acts4 ads where "decryptor ad f = Some (Some f1, ad1, acts1)"
      "recvframe_chk_defrag ad1 f1 = Some (Some (Some f2, ad2, acts2))" "portctrl ad2 f2 = Some (Some f2, [])"
      "process_recv_indicatepkts ads f2 = Some (ok, ad3, acts4)"
      "acts = acts1 @ acts2 @ acts4 @ (if ok then [] else [Free_recvframe (fid f)])" "stapriv ad' = stapriv ad3" "count_rx_stats ad2 f2 None = Some ads"
proof -
  obtain r1 ad1 acts1 where d: "decryptor ad f = Some (r1, ad1, acts1)"
    using assms by (auto simp: recv_func_posthandle_def run_bind_eq_ret Let_def)
  show thesis
  proof (cases r1)
    case None
    then show thesis
      using assms d decrypt by (auto simp: recv_func_posthandle_def)
  next
    case (Some f1)
    note d = d [unfolded Some]
    obtain r2 ad2 acts2 where c: "recvframe_chk_defrag ad1 f1 = Some (Some (r2, ad2, acts2))"
      using assms d by (auto simp: recv_func_posthandle_def run_bind_eq_ret Let_def)
    show thesis
    proof (cases r2)
      case None
      then show thesis
        using assms d c defrag by (auto simp: recv_func_posthandle_def)
    next
      case (Some f2)
      note c = c [unfolded Some]
      obtain r3 acts3 where p: "portctrl ad2 f2 = Some (r3, acts3)"
        using assms d c by (auto simp: recv_func_posthandle_def run_bind_eq_ret Let_def)
      show thesis
      proof (cases r3)
        case None
        then show thesis
          using assms d c p port by (auto simp: recv_func_posthandle_def)
      next
        case (Some f3)
        then have "f3 = f2" "acts3 = []"
          using portctrl_Some p by auto
        then have p: "portctrl ad2 f2 = Some (Some f2, [])"
          using p Some by simp
        then obtain ads where n: "count_rx_stats ad2 f2 None = Some ads"
          using assms d c by (auto simp: recv_func_posthandle_def run_bind_eq_ret Let_def)
        then obtain ok3 ad3 acts4 where q: "process_recv_indicatepkts ads f2 = Some (ok3, ad3, acts4)"
          using assms d c p by (auto simp: recv_func_posthandle_def run_bind_eq_ret Let_def)
        then have "ok3 = ok"
          using assms d c p n by (auto simp: recv_func_posthandle_def split: if_splits)
        then show thesis
          using assms d c p n q by (intro up [OF d c p q [unfolded \<open>ok3 = ok\<close>]]) (auto simp: recv_func_posthandle_def split: if_splits)
      qed
    qed
  qed
qed

text \<open>C6. With 802.1X the port filter holds: a data frame is sent up only after decryption and reassembly, and when the
  station of the resulting frame is still blocked, only if that frame is an EAPOL frame.\<close>

theorem blocked_station_only_eapol:
  assumes "recv_func_posthandle ad f = Some (Some (ok, ad', acts))" "indicates acts" "dot11AuthAlgrthm ad = 2"
  shows "\<exists>f1 ad1 acts1 f2 ad2 acts2. decryptor ad f = Some (Some f1, ad1, acts1) \<and>
    recvframe_chk_defrag ad1 f1 = Some (Some (Some f2, ad2, acts2)) \<and> (blocked ad (a_ta (fattr f2)) \<longrightarrow> ether_type_of f2 = Some 0x888e)"
  using assms(1)
proof (cases rule: posthandle_cases)
  case (up f1 ad1 acts1 f2 ad2 acts2 ad3 acts4 ads)
  have "dot11AuthAlgrthm ad2 = 2" "blocked ad2 a = blocked ad a" for a
    using chk_defrag_frame [OF up(2)] decryptor_frame [OF up(1)] assms(3) blocked_stapriv [of ad1 ad] by auto
  then have "blocked ad (a_ta (fattr f2)) \<longrightarrow> ether_type_of f2 = Some 0x888e"
    using portctrl_Some [OF up(3)] by simp
  then show ?thesis
    using up(1,2) by blast
qed (use assms(2) decryptor_frame chk_defrag_frame portctrl_None in fastforce)+

text \<open>An adapter with one station, which is still blocked, and a frame from it.\<close>

definition demo_sta :: sta_info where
  "demo_sta = (sta_alloc [2, 0, 0, 0, 0, 2])\<lparr>ieee8021x_blocked := 1, dot11tkiprxmickey := replicate 16 0\<rparr>"

definition demo_ad :: "bool \<Rightarrow> rx_adapter" where
  "demo_ad stop = \<lparr>stapriv = demo_sp\<lparr>pstainfo_buf := [demo_sta], sta_hash := (replicate 32 [])[10 := [0]]\<rparr>,
     sec = \<lparr>dot11PrivacyKeyIndex = 0, dot11DefKey = [], dot11DefKeylen = [], dot118021XGrpKeyid = 0, dot118021XGrpKey = [], binstallGrpkey = 0\<rparr>,
     dot118021XGrprxmickey = [], dot11AuthAlgrthm = 2, busetkipkey = 0, bcheck_grpkey = 0, sw_decrypt = False, hw_decrypted = False,
     mlme_key_index = 0, ht_option = False, rx_env_of = demo_env\<lparr>stopped := stop\<rparr>, crc_tab = \<lparr>bcrc32initialized = 0, crc32_table = []\<rparr>,
     aes_message = [], rx_drop = 0, fw_state = 9, bss_mac = [2, 0, 0, 0, 0, 2], dot11PrivacyAlgrthm = 0, dot118021XGrpPrivacy = 0, ndisauthtype = 0,
     uc_swdec_pending_queue = [], rx_bytes = 0, rx_pkts = 0, NumRxOkInPeriod = 0, NumRxUnicastOkInPeriod = 0, bIsAnyNonBEPkts = False, send_issue_deauth_time = 0, hiq_filter = 0, mp_mode = 0, bRTWSmbCfg = False, rx_pktloss = 0,
     cur_time = 0, passing_ms = (\<lambda>_. 0)\<rparr>"

definition demo_clear :: "u8 \<Rightarrow> rframe" where
  "demo_clear frag_num = \<lparr>fid = unat frag_num, fattr = demo_attr\<lparr>a_hdrlen := 24, a_iv_len := 0, a_icv_len := 0, a_encrypt := 0, a_privacy := 0, a_frag_num := frag_num\<rparr>,
     flen = 34, fbuf = [0, 0] @ (8 # replicate 23 0) @ rtw_rfc1042_header @ [0x88, 0x8e, 65, 66] @ [0, 0], rx_data = 2, rx_tail = 36, rx_end = 38, f_psta = Some 0\<rparr>"

lemma demo_sta_of: "sta_of (demo_ad stop) [2, 0, 0, 0, 0, 2] = Some (Some (0, demo_sta))"
  by (simp add: sta_of_def rtw_get_stainfo_def IS_MCAST_def rd8_def wifi_mac_hash_def demo_ad_def demo_sta_def sta_alloc_def arr_def Let_def)

lemma demo_bytes:
  "fbuf (demo_clear n) = [0, 0, 8, 0, 0, 0, 0, 0, 0, 0, 0, 0, 0, 0, 0, 0, 0, 0, 0, 0, 0, 0, 0, 0, 0, 0, 0xaa, 0xaa, 0x03, 0x00, 0x00, 0x00, 0x88, 0x8e, 65, 66, 0, 0]"
  by (simp add: demo_clear_def rtw_rfc1042_header_def numeral_eq_Suc)

lemma demo_decrypt: "decryptor (demo_ad stop) (demo_clear n) = Some (Some (demo_clear n), demo_ad stop, [])"
  by (simp add: decryptor_def set_key_index_def demo_clear_def demo_attr_def Let_def)

lemma demo_chk: "recvframe_chk_defrag (demo_ad stop) (demo_clear 0) = Some (Some (Some (demo_clear 0), demo_ad stop, []))"
  using demo_sta_of [of stop]
  by (simp add: recvframe_chk_defrag_def defrag_step_def defrag_sta_def demo_clear_def demo_attr_def Let_def)

lemma demo_port: "ether_type_of (demo_clear 0) = Some 0x888e" "portctrl (demo_ad stop) (demo_clear 0) = Some (Some (demo_clear 0), [])"
proof -
  have "RTW_GET_BE16 (fbuf (demo_clear 0)) 32 = Some 0x888e"
    unfolding demo_bytes by (simp add: RTW_GET_BE16_def rd8_def le16_def)
  moreover have "rx_data (demo_clear 0) = 2" "a_hdrlen (fattr (demo_clear 0)) = 24" "a_iv_len (fattr (demo_clear 0)) = 0" "a_ta (fattr (demo_clear 0)) = [2, 0, 0, 0, 0, 2]"
    by (simp_all add: demo_clear_def demo_attr_def)
  ultimately show "ether_type_of (demo_clear 0) = Some 0x888e" "portctrl (demo_ad stop) (demo_clear 0) = Some (Some (demo_clear 0), [])"
    using demo_sta_of [of stop] by (simp_all add: ether_type_of_def at_off_def portctrl_def)
qed

lemma demo_process:
  assumes "\<not> ht_option ad" "rx_env_of ad = demo_env\<lparr>stopped := False\<rparr>"
  shows "\<exists>pkt. process_recv_indicatepkts ad (demo_clear 0) = Some (True, ad, [Indicate pkt, Free_recvframe 0])"
proof -
  have l: "rx_layout (demo_clear 0) [0, 0] (8 # replicate 23 0) (rtw_rfc1042_header @ [0x88, 0x8e, 65, 66]) [] [0, 0]"
    by (simp add: rx_layout_def demo_clear_def demo_attr_def rtw_rfc1042_header_def)
  obtain f' where f': "wlanhdr_to_ethhdr False (demo_clear 0) = Some (True, f')" "fid f' = 0"
    using wlanhdr_to_ethhdr_ok [OF l] by (auto simp: rtw_rfc1042_header_def demo_clear_def)
  then show ?thesis
    using assms by (simp add: process_recv_indicatepkts_def demo_env_def rtw_recv_indicatepkt_def)
qed

lemma demo_count:
  "\<exists>ad'. count_rx_stats (demo_ad False) (demo_clear 0) None = Some ad' \<and> \<not> ht_option ad' \<and> rx_env_of ad' = demo_env\<lparr>stopped := False\<rparr>"
  by (simp add: count_rx_stats_def demo_clear_def demo_attr_def demo_ad_def IS_MCAST_def rd8_def arr_def upd_sta_def Let_def)

lemma demo_posthandle:
  "\<exists>pkt ad'. recv_func_posthandle (demo_ad False) (demo_clear 0) = Some (Some (True, ad', [Indicate pkt, Free_recvframe 0]))"
proof -
  obtain ads where c: "count_rx_stats (demo_ad False) (demo_clear 0) None = Some ads" "\<not> ht_option ads" "rx_env_of ads = demo_env\<lparr>stopped := False\<rparr>"
    using demo_count by blast
  obtain pkt where "process_recv_indicatepkts ads (demo_clear 0) = Some (True, ads, [Indicate pkt, Free_recvframe 0])"
    using demo_process [OF c(2,3)] by blast
  then show ?thesis
    using c(1) by (simp add: recv_func_posthandle_def demo_decrypt demo_chk demo_port Let_def)
qed

theorem blocked_station_only_eapol_witness:
  "\<exists>ok ad' acts. recv_func_posthandle (demo_ad False) (demo_clear 0) = Some (Some (ok, ad', acts)) \<and> indicates acts \<and>
    blocked (demo_ad False) (a_ta (fattr (demo_clear 0))) \<and> ether_type_of (demo_clear 0) = Some 0x888e"
proof -
  obtain pkt ad' where r: "recv_func_posthandle (demo_ad False) (demo_clear 0) = Some (Some (True, ad', [Indicate pkt, Free_recvframe 0]))"
    using demo_posthandle by blast
  have i: "indicates [Indicate pkt, Free_recvframe 0]"
    by (auto simp: indicates_def)
  have b: "blocked (demo_ad False) (a_ta (fattr (demo_clear 0)))"
    using demo_sta_of [of False] by (simp add: blocked_def demo_sta_def demo_clear_def demo_attr_def)
  have "dot11AuthAlgrthm (demo_ad False) = 2"
    by (simp add: demo_ad_def)
  from blocked_station_only_eapol [OF r i this] have "ether_type_of (demo_clear 0) = Some 0x888e"
    using b demo_decrypt demo_chk by auto
  then show ?thesis
    using r i b by blast
qed

section \<open>Frames are freed once\<close>

text \<open>The A-MSDU flag is one bit of the header.\<close>

definition amsdu_ok :: "rframe \<Rightarrow> bool" where
  "amsdu_ok f \<longleftrightarrow> a_amsdu (fattr f) = 0 \<or> a_amsdu (fattr f) = 1"

lemma pull_frame: "fid (snd (recvframe_pull f n)) = fid f" "fattr (snd (recvframe_pull f n)) = fattr f"
  by (simp_all add: recvframe_pull_def)

lemma pull_then:
  assumes "(case recvframe_pull g n of (None, f2) \<Rightarrow> Some (False, f2) | (Some r, f2) \<Rightarrow> K r f2) = Some (ok, f')"
    "\<And>r f2. K r f2 = Some (ok, f') \<Longrightarrow> fid f' = fid f2 \<and> fattr f' = fattr f2"
  shows "fid f' = fid g \<and> fattr f' = fattr g"
proof -
  obtain x f2 where x: "recvframe_pull g n = (x, f2)"
    by (cases "recvframe_pull g n")
  then have "fid f2 = fid g" "fattr f2 = fattr g"
    using pull_frame [of g n] by simp_all
  then show ?thesis
    using assms x by (cases x) auto
qed

lemma wlanhdr_to_ethhdr_frame:
  assumes "wlanhdr_to_ethhdr mp f = Some (ok, f')"
  shows "fid f' = fid f \<and> a_amsdu (fattr f') = a_amsdu (fattr f)"
proof -
  define g where "g = (if a_encrypt (fattr f) \<noteq> 0 then snd (recvframe_pull_tail f (uint (a_icv_len (fattr f)))) else f)"
  have g: "fid g = fid f" "fattr g = fattr f"
    by (simp_all add: g_def pull_tail_frame)
  obtain p where p: "at_off (rx_data f + uint (a_hdrlen (fattr f)) + uint (a_iv_len (fattr f))) = Some p"
    using assms by (auto simp: wlanhdr_to_ethhdr_def Let_def bind_eq_Some_conv)
  obtain snap ty where s: "rd_bytes (fbuf g) p 6 = Some snap" "rd_bytes (fbuf g) (p + 6) 2 = Some ty"
    using assms unfolding wlanhdr_to_ethhdr_def Let_def g_def [symmetric] p bind.bind_lunit by (auto simp: bind_eq_Some_conv)
  define n where "n = uint (a_hdrlen (fattr f)) + uint (a_iv_len (fattr f)) + (if is_snap snap ty then 6 else 0)"
  obtain q et where q: "at_off (rx_data f + n) = Some q" "RTW_GET_BE16 (fbuf g) q = Some et"
    using assms unfolding wlanhdr_to_ethhdr_def Let_def g_def [symmetric] p s bind.bind_lunit n_def [symmetric] by (auto simp: bind_eq_Some_conv)
  note run = assms [unfolded wlanhdr_to_ethhdr_def Let_def g_def [symmetric] p s bind.bind_lunit n_def [symmetric] q]
  show ?thesis
  proof (cases mp)
    case True
    obtain b where b: "wr_bytes (fbuf (g\<lparr>fattr := (fattr f)\<lparr>a_eth_type := et\<rparr>\<rparr>)) q [0x87, 0x12] = Some b"
      using run [unfolded if_P [OF True]] by (auto simp: bind_eq_Some_conv)
    have "fid f' = fid (g\<lparr>fattr := (fattr f)\<lparr>a_eth_type := et\<rparr>, fbuf := b\<rparr>) \<and> fattr f' = fattr (g\<lparr>fattr := (fattr f)\<lparr>a_eth_type := et\<rparr>, fbuf := b\<rparr>)"
      by (rule pull_then [OF run [unfolded if_P [OF True] b bind.bind_lunit]]) (auto simp: bind_eq_Some_conv)
    then show ?thesis
      using g by simp
  next
    case False
    have "fid f' = fid (g\<lparr>fattr := (fattr f)\<lparr>a_eth_type := et\<rparr>\<rparr>) \<and> fattr f' = fattr (g\<lparr>fattr := (fattr f)\<lparr>a_eth_type := et\<rparr>\<rparr>)"
      by (rule pull_then [OF run [unfolded if_not_P [OF False]]]) (auto simp: bind_eq_Some_conv)
    then show ?thesis
      using g by simp
  qed
qed

lemma amsdu_to_msdu_freed:
  assumes "amsdu_to_msdu al cl f = Some (f', acts)"
  shows "freed acts = [fid f]"
  using assms by (auto simp: amsdu_to_msdu_def Let_def bind_eq_Some_conv pull_frame split: if_splits)

lemma indicate_frames_freed:
  assumes "indicate_frames e fs = Some acts" "\<not> stopped e" "list_all amsdu_ok fs"
  shows "freed acts = map fid fs"
  using assms
proof (induction fs arbitrary: acts)
  case (Cons f fs)
  obtain a b where ab: "indicate_frame e f = Some a" "indicate_frames e fs = Some b" "acts = a @ b"
    using Cons.prems(1) by (auto simp: bind_eq_Some_conv)
  have "freed a = [fid f]"
    using ab(1) Cons.prems(2,3) amsdu_to_msdu_freed
    by (auto simp: indicate_frame_def rtw_recv_indicatepkt_def amsdu_ok_def bind_eq_Some_conv split: if_splits)
  then show ?case
    using Cons ab by simp
qed simp

lemma enqueue_mset: "enqueue_reorder_recvframe q f = Some q' \<Longrightarrow> mset q' = add_mset f (mset q)"
  by (induction q arbitrary: q') (auto simp: bind_eq_Some_conv split: if_splits)

lemma reorder_rx_mset:
  assumes "reorder_rx c f = (ok, c', outs)"
  shows "mset outs + mset (pending c') = mset (pending c) + (if ok then {#f#} else {#})"
proof -
  obtain b c1 where b: "check_indicate_seq c (sn f) = (b, c1)"
    by (cases "check_indicate_seq c (sn f)")
  note keep = check_indicate_seq_frame [OF b]
  show ?thesis
  proof (cases b)
    case True
    show ?thesis
    proof (cases "enqueue_reorder_recvframe (pending c1) f")
      case (Some q)
      obtain j r os where l: "indicate_loop (indicate_seq c1) q = (j, r, os)"
        by (cases "indicate_loop (indicate_seq c1) q")
      then have "outs = os" "pending c' = r" "ok"
        using assms b True Some by (auto simp: reorder_rx_def recv_indicatepkts_in_order_def)
      moreover have "mset q = mset os + mset r"
        using indicate_loop_split [OF l] by simp
      ultimately show ?thesis
        using enqueue_mset [OF Some] keep by simp
    qed (use assms b True keep in \<open>auto simp: reorder_rx_def\<close>)
  qed (use assms b keep in \<open>auto simp: reorder_rx_def\<close>)
qed

lemma reorder_queue_freed:
  assumes "reorder_queue e c f = Some (ok, c', acts)" "\<not> stopped e" "amsdu_ok f" "list_all amsdu_ok (pending c)"
  shows "mset (freed acts) + mset (map fid (pending c')) = mset (map fid (pending c)) + (if ok then {#fid f#} else {#}) \<and> list_all amsdu_ok (pending c')"
proof -
  obtain outs where r: "reorder_rx c f = (ok, c', outs)" "indicate_frames e outs = Some acts"
    using assms(1) by (auto simp: reorder_queue_def bind_eq_Some_conv split: prod.splits)
  note m = reorder_rx_mset [OF r(1)]
  have "set outs \<union> set (pending c') \<subseteq> insert f (set (pending c))"
    using arg_cong [OF m, of set_mset] by (auto split: if_splits)
  then have ok: "list_all amsdu_ok outs" "list_all amsdu_ok (pending c')"
    using assms(3,4) by (auto simp: list_all_iff)
  then have "freed acts = map fid outs"
    using indicate_frames_freed [OF r(2) assms(2)] by simp
  then show ?thesis
    using arg_cong [OF m, of "image_mset fid"] ok(2) by (auto split: if_splits)
qed

lemma recv_indicatepkt_reorder_freed:
  assumes "recv_indicatepkt_reorder e c f = Some (ok, c', acts)" "\<not> stopped e" "amsdu_ok f" "list_all amsdu_ok (pending c)"
  shows "mset (freed acts) + mset (map fid (pending c')) = mset (map fid (pending c)) + (if ok then {#fid f#} else {#}) \<and> list_all amsdu_ok (pending c')"
proof (cases "a_amsdu (fattr f) = 0")
  case True
  obtain ok1 f1 where w: "wlanhdr_to_ethhdr (mp_state e) f = Some (ok1, f1)"
    using assms(1) True by (auto simp: recv_indicatepkt_reorder_def bind_eq_Some_conv)
  then have f1: "fid f1 = fid f" "amsdu_ok f1"
    using wlanhdr_to_ethhdr_frame [OF w] assms(3) by (auto simp: amsdu_ok_def)
  show ?thesis
    using assms(1,2,4) True w f1(1) reorder_queue_freed [OF _ assms(2) f1(2) assms(4)]
    by (auto simp: recv_indicatepkt_reorder_def rtw_recv_indicatepkt_def split: if_splits)
next
  case False
  then show ?thesis
    using assms reorder_queue_freed amsdu_to_msdu_freed
    by (auto simp: recv_indicatepkt_reorder_def bind_eq_Some_conv amsdu_ok_def split: if_splits)
qed

text \<open>The frames in the reorder queues of a list of stations.\<close>

definition queued :: "sta_info list \<Rightarrow> rframe list" where
  "queued ss = concat (map (\<lambda>s. concat (map pending (recvreorder_ctrl s))) ss)"

lemma mset_concat_upd:
  assumes "i < length xs"
  shows "mset (concat (map h (xs[i := y]))) + mset (h (xs ! i)) = mset (concat (map h xs)) + mset (h y)"
proof -
  have "map h xs = map h (take i xs) @ h (xs ! i) # map h (drop (Suc i) xs)"
    by (simp flip: map_append list.map(2) add: id_take_nth_drop [OF assms, symmetric])
  moreover have "map h (xs[i := y]) = map h (take i xs) @ h y # map h (drop (Suc i) xs)"
    by (simp add: upd_conv_take_nth_drop [OF assms])
  ultimately show ?thesis
    by simp
qed

lemma mset_swap:
  fixes Q :: "'a multiset"
  assumes "Q + P = R + S" "F + S = P + T"
  shows "F + Q = R + T"
proof -
  have "(F + Q) + P = F + (R + S)"
    by (simp only: assms(1) [symmetric] add.assoc)
  also have "\<dots> = R + (F + S)"
    by (simp only: ac_simps)
  also have "\<dots> = (R + T) + P"
    by (simp only: assms(2) ac_simps)
  finally show ?thesis
    by simp
qed

lemma process_freed:
  assumes "process_recv_indicatepkts ad f = Some (ok, ad', acts)" "\<not> stopped (rx_env_of ad)" "amsdu_ok f"
    "list_all amsdu_ok (queued (pstainfo_buf (stapriv ad)))"
  shows "mset (freed acts) + mset (map fid (queued (pstainfo_buf (stapriv ad')))) =
    mset (map fid (queued (pstainfo_buf (stapriv ad)))) + (if ok then {#fid f#} else {#}) \<and>
    list_all amsdu_ok (queued (pstainfo_buf (stapriv ad')))"
proof (cases "ht_option ad")
  case True
  obtain i s where s: "f_psta f = Some i" "arr (pstainfo_buf (stapriv ad)) i = Some s"
    using assms(1) True by (auto simp: process_recv_indicatepkts_def bind_eq_Some_conv Let_def)
  let ?t = "unat (a_priority (fattr f))" and ?ss = "pstainfo_buf (stapriv ad)"
  obtain c where c: "arr (recvreorder_ctrl s) ?t = Some c"
    using assms(1) True s by (auto simp: process_recv_indicatepkts_def bind_eq_Some_conv Let_def)
  obtain c' where r: "recv_indicatepkt_reorder (rx_env_of ad) c f = Some (ok, c', acts)"
    "ad' = upd_sta ad i (s\<lparr>recvreorder_ctrl := (recvreorder_ctrl s)[?t := c']\<rparr>)"
    using assms(1,2) True s c by (auto simp: process_recv_indicatepkts_def bind_eq_Some_conv Let_def)
  have at: "i < length (pstainfo_buf (stapriv ad))" "pstainfo_buf (stapriv ad) ! i = s"
    using s(2) by (auto simp: arr_def split: if_splits)
  have t: "?t < length (recvreorder_ctrl s)" "recvreorder_ctrl s ! ?t = c"
    using c by (auto simp: arr_def split: if_splits)
  let ?s = "s\<lparr>recvreorder_ctrl := (recvreorder_ctrl s)[?t := c']\<rparr>"
  have "set (pending c) \<subseteq> set (queued ?ss)"
    using at t nth_mem by (fastforce simp: queued_def)
  then have "list_all amsdu_ok (pending c)"
    using assms(4) by (auto simp: list_all_iff)
  then have f: "mset (freed acts) + mset (map fid (pending c')) = mset (map fid (pending c)) + (if ok then {#fid f#} else {#})" and
    pc: "list_all amsdu_ok (pending c')"
    using recv_indicatepkt_reorder_freed [OF r(1) assms(2,3)] by simp_all
  have a: "mset (concat (map pending ((recvreorder_ctrl s)[?t := c']))) + mset (pending c) = mset (concat (map pending (recvreorder_ctrl s))) + mset (pending c')"
    using mset_concat_upd [OF t(1), of pending c'] t(2) by simp
  have b: "mset (queued (?ss[i := ?s])) + mset (concat (map pending (recvreorder_ctrl s))) =
      mset (queued ?ss) + mset (concat (map pending ((recvreorder_ctrl s)[?t := c'])))"
    unfolding queued_def using mset_concat_upd [OF at(1), of "\<lambda>s. concat (map pending (recvreorder_ctrl s))" ?s] at(2) by simp
  have swap: "mset (pending c) + mset (queued (?ss[i := ?s])) = mset (queued ?ss) + mset (pending c')"
    by (rule mset_swap [OF b]) (use a in \<open>simp only: add.commute\<close>)
  from arg_cong [OF swap, of "image_mset fid"]
  have "mset (map fid (queued (?ss[i := ?s]))) + mset (map fid (pending c)) = mset (map fid (queued ?ss)) + mset (map fid (pending c'))"
    by (simp add: add.commute)
  from mset_swap [OF this f] have "mset (freed acts) + mset (map fid (queued (?ss[i := ?s]))) = mset (map fid (queued ?ss)) + (if ok then {#fid f#} else {#})" .
  moreover have "list_all amsdu_ok (queued (?ss[i := ?s]))"
  proof -
    have "set (pending c) \<union> set (queued (?ss[i := ?s])) = set (queued ?ss) \<union> set (pending c')"
      using arg_cong [OF swap, of set_mset] by simp
    then show ?thesis
      using pc assms(4) by (auto simp: list_all_iff)
  qed
  ultimately show ?thesis
    using r(2) by (simp add: upd_sta_def)
next
  case False
  obtain ok1 f1 where w: "wlanhdr_to_ethhdr (mp_state (rx_env_of ad)) f = Some (ok1, f1)"
    using assms(1) False by (auto simp: process_recv_indicatepkts_def bind_eq_Some_conv Let_def)
  show ?thesis
    using assms(1,2,4) False w wlanhdr_to_ethhdr_frame [OF w]
    by (auto simp: process_recv_indicatepkts_def rtw_recv_indicatepkt_def Let_def split: if_splits)
qed

lemma count_rx_stats_keep:
  assumes "count_rx_stats ad f sta = Some ad'"
  shows "rx_env_of ad' = rx_env_of ad" "queued (pstainfo_buf (stapriv ad')) = queued (pstainfo_buf (stapriv ad))"
proof -
  have q: "queued (ss[i := (ss ! i)\<lparr>sta_stats := st\<rparr>]) = queued ss" if "i < length ss" for ss i st
    using that unfolding queued_def by (intro arg_cong [of _ _ concat] nth_equalityI) (auto simp: nth_list_update)
  show "rx_env_of ad' = rx_env_of ad" "queued (pstainfo_buf (stapriv ad')) = queued (pstainfo_buf (stapriv ad))"
    using assms q by (auto simp: count_rx_stats_def upd_sta_def Let_def arr_def bind_eq_Some_conv split: option.splits if_splits)
qed

lemma posthandle_freed:
  assumes "recv_func_posthandle ad f = Some (Some (ok, ad', acts))" "a_mfrag (fattr f) = 0" "a_frag_num (fattr f) = 0"
    "\<not> stopped (rx_env_of ad)" "amsdu_ok f" "list_all amsdu_ok (queued (pstainfo_buf (stapriv ad)))"
  shows "mset (freed acts) + mset (map fid (queued (pstainfo_buf (stapriv ad')))) = add_mset (fid f) (mset (map fid (queued (pstainfo_buf (stapriv ad))))) \<and>
    list_all amsdu_ok (queued (pstainfo_buf (stapriv ad')))"
  using assms(1)
proof (cases rule: posthandle_cases)
  case (decrypt ad1 acts1)
  then show ?thesis
    using decryptor_frame [OF decrypt(1)] assms(6) by simp
next
  case (defrag f1 ad1 acts1 ad2 acts2)
  then show ?thesis
    using decryptor_frame [OF defrag(1)] decryptor_attr [OF defrag(1)] chk_defrag_frame [OF defrag(2)] assms(2,3,6) by auto
next
  case (port f1 ad1 acts1 f2 ad2 acts2 acts3)
  then show ?thesis
    using decryptor_frame [OF port(1)] decryptor_attr [OF port(1)] chk_defrag_frame [OF port(2)] portctrl_None [OF port(3)] assms(2,3,6) by auto
next
  case (up f1 ad1 acts1 f2 ad2 acts2 ad3 acts4 ads)
  have f1: "acts1 = []" "fid f1 = fid f" "a_mfrag (fattr f1) = 0" "a_frag_num (fattr f1) = 0" "a_amsdu (fattr f1) = a_amsdu (fattr f)"
    "stapriv ad1 = stapriv ad" "rx_env_of ad1 = rx_env_of ad"
    using decryptor_frame [OF up(1)] decryptor_attr [OF up(1)] assms(2,3) by auto
  have f2: "freed acts2 = []" "fid f2 = fid f" "fattr f2 = fattr f1" "stapriv ad2 = stapriv ad" "rx_env_of ad2 = rx_env_of ad"
    using chk_defrag_frame [OF up(2)] f1 by auto
  have "amsdu_ok f2"
    using f1 f2(3) assms(5) by (simp add: amsdu_ok_def)
  then show ?thesis
    using process_freed [OF up(4)] count_rx_stats_keep [OF up(7)] f1 f2 assms(4,6) up(5,6) by auto
qed

text \<open>A frame object is neither lost nor freed twice: whatever an unfragmented frame meets on the path (a wrong key, a
  wrong code, the port, a duplicate, the reorder buffer, an A-MSDU), the frames freed together with the frames still in
  reorder queues are exactly the frames queued before and the new one. The driver is not being stopped.\<close>

theorem posthandle_frees_once:
  assumes "recv_func_posthandle ad f = Some (Some (ok, ad', acts))" "a_mfrag (fattr f) = 0" "a_frag_num (fattr f) = 0"
    "\<not> stopped (rx_env_of ad)" "amsdu_ok f" "list_all amsdu_ok (queued (pstainfo_buf (stapriv ad)))"
  shows "mset (freed acts) + mset (map fid (queued (pstainfo_buf (stapriv ad')))) = add_mset (fid f) (mset (map fid (queued (pstainfo_buf (stapriv ad)))))"
  using posthandle_freed [OF assms] by simp

theorem posthandle_frees_once_witness:
  "\<exists>ok ad' acts. recv_func_posthandle (demo_ad False) (demo_clear 0) = Some (Some (ok, ad', acts)) \<and>
    mset (freed acts) + mset (map fid (queued (pstainfo_buf (stapriv ad')))) = {#0#}"
proof -
  obtain pkt ad' where r: "recv_func_posthandle (demo_ad False) (demo_clear 0) = Some (Some (True, ad', [Indicate pkt, Free_recvframe 0]))"
    using demo_posthandle by blast
  have q: "queued (pstainfo_buf (stapriv (demo_ad False))) = []"
    by (simp add: queued_def demo_ad_def demo_sta_def sta_alloc_def ctrl_alloc_def)
  have "a_mfrag (fattr (demo_clear 0)) = 0" "a_frag_num (fattr (demo_clear 0)) = 0" "\<not> stopped (rx_env_of (demo_ad False))" "amsdu_ok (demo_clear 0)" "fid (demo_clear 0) = 0"
    by (simp_all add: demo_clear_def demo_attr_def demo_ad_def demo_env_def amsdu_ok_def)
  then show ?thesis
    using posthandle_frees_once [OF r] q r by auto
qed

text \<open>The exception is a reassembled frame: when its indication fails, the path frees the frame it was called with, which
  is the last fragment, already freed by the reassembly, and not the reassembled frame.\<close>

lemma defrag_last:
  "recvframe_defrag (q @ [f]) = Some (Some g, acts) \<Longrightarrow> a_frag_num (fattr f) \<noteq> 0 \<Longrightarrow> fid f \<in> set (freed acts)"
proof (cases q)
  case (Cons h t)
  assume "recvframe_defrag (q @ [f]) = Some (Some g, acts)"
  then have "acts = frees (t @ [f])"
    using Cons by (cases "defrag_loop 1 h (t @ [f])"; cases "the (defrag_loop 1 h (t @ [f]))") (simp_all add: recvframe_defrag_def split: if_splits)
  then show ?thesis
    by simp
qed (simp add: recvframe_defrag_def)

lemma defrag_step_last:
  assumes "defrag_step ad f = Some (Some g, ad', acts)" "a_mfrag (fattr f) = 0" "a_frag_num (fattr f) \<noteq> 0"
  shows "fid f \<in> set (freed acts)"
proof -
  obtain sta where "defrag_sta ad f = Some sta"
    using assms(1) by (auto simp: defrag_step_def bind_eq_Some_conv Let_def)
  then show ?thesis
    using assms defrag_last by (cases sta) (auto simp: defrag_step_def bind_eq_Some_conv Let_def)
qed

lemma chk_defrag_last:
  assumes "recvframe_chk_defrag ad f = Some (Some (Some h, ad', acts))" "a_mfrag (fattr f) = 0" "a_frag_num (fattr f) \<noteq> 0"
  shows "fid f \<in> set (freed acts)"
proof -
  obtain r ad1 acts1 where d: "defrag_step ad f = Some (r, ad1, acts1)"
    using assms(1) by (auto simp: recvframe_chk_defrag_def run_bind_eq_ret)
  then obtain g where g: "r = Some g"
    using assms(1) by (cases r) (auto simp: recvframe_chk_defrag_def)
  then show ?thesis
    using assms(1) d defrag_step_last [OF _ assms(2,3)] by (auto simp: recvframe_chk_defrag_def run_bind_eq_ret split: if_splits)
qed

theorem posthandle_double_free:
  assumes "recv_func_posthandle ad f = Some (Some (False, ad', acts))" "a_mfrag (fattr f) = 0" "a_frag_num (fattr f) \<noteq> 0"
    "decryptor ad f = Some (Some f1, ad1, acts1)" "recvframe_chk_defrag ad1 f1 = Some (Some (Some f2, ad2, acts2))" "portctrl ad2 f2 = Some (Some f2, [])"
  shows "2 \<le> count (mset (freed acts)) (fid f)"
  using assms(1)
proof (cases rule: posthandle_cases)
  case (up g1 bd1 bcts1 g2 bd2 bcts2 ad3 acts4 ads)
  have "fid f1 = fid f" "fid f1 \<in> set (freed acts2)"
    using decryptor_frame [OF assms(4)] decryptor_attr [OF assms(4)] chk_defrag_last [OF assms(5)] assms(2,3) by auto
  then have "1 \<le> count (mset (freed acts2)) (fid f)"
    by (simp add: Suc_le_eq)
  moreover have "bcts2 = acts2"
    using up(1,2) assms(4,5) by simp
  moreover have "count (mset (freed acts)) (fid f) =
      count (mset (freed bcts1)) (fid f) + (count (mset (freed acts2)) (fid f) + (count (mset (freed acts4)) (fid f) + 1))"
    using up(5) \<open>bcts2 = acts2\<close> by simp
  ultimately show ?thesis
    by linarith
qed (use assms(4-6) in auto)

section \<open>The integrity check\<close>

lemma mic_addr_append: "30 \<le> length x \<Longrightarrow> mic_da (x @ y) = mic_da x" "30 \<le> length x \<Longrightarrow> mic_sa (x @ y) = mic_sa x"
  by (simp_all add: mic_da_def mic_sa_def nth_append)

lemma mic_ok_iff:
  assumes wf: "rframe_wf f" and bytes: "pkt_bytes f = hdr @ iv @ d @ mic @ icv" and
    len: "length hdr = unat (a_hdrlen (fattr f))" "length iv = unat (a_iv_len (fattr f))" "length icv = unat (a_icv_len (fattr f))" "length mic = 8"
    and key: "8 \<le> length mickey" and long: "30 \<le> length (pkt_bytes f)"
  shows "mic_ok ad mickey f (nat (rx_data f)) =
    Some (Some (mic_bytes (michael (mic_key mickey) (mic_da (pkt_bytes f) @ mic_sa (pkt_bytes f) @ [a_priority (fattr f), 0, 0, 0] @ d)) = mic))"
proof -
  obtain pre post where fs: "fbuf f = pre @ pkt_bytes f @ post" "rx_data f = int (length pre)" "uint (flen f) = int (length (pkt_bytes f))"
    using wf_split [OF wf] by blast
  let ?dl = "unat (flen f - ucast (a_hdrlen (fattr f)) - ucast (a_iv_len (fattr f)) - ucast (a_icv_len (fattr f)) - 8)"
  have "flen f = word_of_nat (length (pkt_bytes f))"
    using fs(3) by (metis of_int_of_nat_eq word_of_int_uint)
  then have "flen f - ucast (a_hdrlen (fattr f)) - ucast (a_iv_len (fattr f)) - ucast (a_icv_len (fattr f)) - 8 = word_of_nat (length d)"
    unfolding bytes ucast_u8_u32 len [symmetric] by (simp add: len(4))
  moreover have "length d < 2 ^ 32"
    using wf fs(1) bytes by (simp add: rframe_wf_def)
  ultimately have dl: "?dl = length d"
    by (simp add: unat_of_nat take_bit_nat_eq_self)
  let ?payload = "nat (rx_data f) + unat (a_hdrlen (fattr f)) + unat (a_iv_len (fattr f))"
  have pay: "?payload = length (pre @ hdr @ iv)" "nat (rx_data f) = length pre"
    using fs(2) len by simp_all
  have h: "drop (length pre) (fbuf f) = pkt_bytes f @ post" "drop (length (pre @ hdr @ iv)) (fbuf f) = d @ mic @ icv @ post"
    using fs(1) bytes by simp_all
  have "rtw_seccalctkipmic mickey (pkt_bytes f @ post) (d @ mic @ icv @ post) (length d) (replicate 8 0) (a_priority (fattr f)) =
    Some (Some (mic_bytes (michael (mic_key mickey) (mic_da (pkt_bytes f) @ mic_sa (pkt_bytes f) @ [a_priority (fattr f), 0, 0, 0] @ d))))"
    using seccalctkipmic_michael [of mickey "pkt_bytes f @ post" "length d" "d @ mic @ icv @ post" "replicate 8 0" "a_priority (fattr f)"] key long
    by (simp add: mic_addr_append)
  moreover have "rd_bytes (fbuf f) (length (pre @ hdr @ iv) + length d) 8 = Some mic"
    using rd_bytes_at [of 8 mic "pre @ hdr @ iv @ d" "icv @ post"] fs(1) bytes len(4) by (simp add: add.assoc)
  ultimately show ?thesis
    unfolding mic_ok_def Let_def dl pay(1) unfolding pay(2) h by simp
qed


definition demo_tkip :: "mem \<Rightarrow> rframe" where
  "demo_tkip mic = \<lparr>fid = 1, fattr = demo_attr\<lparr>a_hdrlen := 24\<rparr>, flen = 46, fbuf = replicate 24 0 @ replicate 8 1 @ [65, 66] @ mic @ [9, 9, 9, 9],
     rx_data = 0, rx_tail = 46, rx_end = 46, f_psta = Some 0\<rparr>"


end
