(* ===== verification/Xmit_Queue.thy ===== *)
theory Xmit_Queue
  imports Sta_Mgt
begin

text \<open>
  The transmit queues of \<^verbatim>\<open>core/rtw_xmit.c\<close>: four queues for each station, one for each access category, linked into four
  hardware queues (\<open>rtw_get_sta_pending\<close>, \<open>rtw_xmit_classifier\<close>, \<open>dequeue_one_xmitframe\<close>, \<open>rtw_dequeue_xframe\<close>,
  \<open>rtw_txframes_sta_ac_pending\<close>), and the entry points of the chip driver that use them
  (\<open>rtl8812au_hal_xmitframe_enqueue\<close> and \<open>pre_xmitframe\<close> of \<^verbatim>\<open>hal/rtl8812a/usb/rtl8812au_xmit.c\<close>). The invariant \<open>tx_wf\<close>
  ties counters, links and queues together; every frame object is in one place.
\<close>

section \<open>Operations\<close>

text \<open>Writing to a station and to a hardware queue.\<close>

definition sta_set :: "sta_priv \<Rightarrow> nat \<Rightarrow> sta_info \<Rightarrow> sta_priv" where
  "sta_set sp i s = sp\<lparr>pstainfo_buf := (pstainfo_buf sp)[i := s]\<rparr>"

definition hw_set :: "sta_priv \<Rightarrow> nat \<Rightarrow> hw_xmit \<Rightarrow> sta_priv" where
  "hw_set sp ac h = sp\<lparr>xmitpriv := (xmitpriv sp)\<lparr>hwxmits := (hwxmits (xmitpriv sp))[ac := h]\<rparr>\<rparr>"

definition servq_set :: "sta_info \<Rightarrow> nat \<Rightarrow> tx_servq \<Rightarrow> sta_info" where
  "servq_set s ac q = s\<lparr>txservq := (txservq s)[ac := q]\<rparr>"

text \<open>The access category of a priority: 0 voice, 1 video, 2 best effort, 3 background.\<close>

definition rtw_get_sta_pending :: "u8 \<Rightarrow> nat" where
  "rtw_get_sta_pending up = (if up = 1 \<or> up = 2 then 3 else if up = 4 \<or> up = 5 then 1 else if up = 6 \<or> up = 7 then 0 else 2)"

definition rtw_xmit_classifier :: "sta_priv \<Rightarrow> xframe \<Rightarrow> (bool \<times> sta_priv) option" where
  "rtw_xmit_classifier sp f = do {
     psta \<leftarrow> rtw_get_stainfo sp (Some (x_ra f));
     if x_psta f \<noteq> psta then Some (False, sp)
     else case psta of None \<Rightarrow> Some (False, sp)
     | Some i \<Rightarrow> do {
         s \<leftarrow> arr (pstainfo_buf sp) i;
         if sta_state s AND 1 = 0 then Some (False, sp)
         else do {
           let ac = rtw_get_sta_pending (x_priority f);
           q \<leftarrow> arr (txservq s) ac;
           h \<leftarrow> arr (hwxmits (xmitpriv sp)) ac;
           let h1 = h\<lparr>sta_queue := (if i \<in> set (sta_queue h) then sta_queue h else sta_queue h @ [i]), accnt := accnt h + 1\<rparr>;
           let q1 = q\<lparr>sta_pending := sta_pending q @ [f], qcnt := qcnt q + 1\<rparr>;
           Some (True, hw_set (sta_set sp i (servq_set s ac q1)) ac h1) } } }"

definition rtw_xmitframe_enqueue :: "sta_priv \<Rightarrow> xframe \<Rightarrow> (bool \<times> sta_priv) option" where
  "rtw_xmitframe_enqueue sp f = rtw_xmit_classifier sp f"

text \<open>A frame that cannot be queued is dropped.\<close>

definition xmit_drop :: "sta_priv \<Rightarrow> xframe \<Rightarrow> (sta_priv \<times> rx_act list) option" where
  "xmit_drop sp f = do {
     (xp, a) \<leftarrow> rtw_free_xmitframe (xmitpriv sp) (Some f);
     Some (sp\<lparr>xmitpriv := xp\<lparr>tx_drop := tx_drop xp + 1\<rparr>\<rparr>, a) }"

definition rtl8812au_hal_xmitframe_enqueue :: "sta_priv \<Rightarrow> xframe \<Rightarrow> (bool \<times> sta_priv \<times> rx_act list) option" where
  "rtl8812au_hal_xmitframe_enqueue sp f = do {
     (ok, sp1) \<leftarrow> rtw_xmitframe_enqueue sp f;
     if ok then Some (True, sp1, [Xmit_tasklet])
     else do { (sp2, a) \<leftarrow> xmit_drop sp1 f; Some (False, sp2, a) } }"

definition dequeue_one_xmitframe :: "tx_servq \<Rightarrow> xframe option \<times> tx_servq" where
  "dequeue_one_xmitframe q = (case sta_pending q of [] \<Rightarrow> (None, q) | f # fs \<Rightarrow> (Some f, q\<lparr>sta_pending := fs, qcnt := qcnt q - 1\<rparr>))"

text \<open>The stations of one hardware queue, then the queues in the order given; a station whose queue has run
  empty is unlinked.\<close>

fun dequeue_stas :: "sta_priv \<Rightarrow> nat \<Rightarrow> nat list \<Rightarrow> (xframe option \<times> sta_priv) option" where
  "dequeue_stas sp ac [] = Some (None, sp)"
| "dequeue_stas sp ac (i # is) = do {
     s \<leftarrow> arr (pstainfo_buf sp) i;
     q \<leftarrow> arr (txservq s) ac;
     (case dequeue_one_xmitframe q of
        (None, q1) \<Rightarrow> dequeue_stas sp ac is
      | (Some f, q1) \<Rightarrow> do {
          h \<leftarrow> arr (hwxmits (xmitpriv sp)) ac;
          let h1 = h\<lparr>accnt := accnt h - 1, sta_queue := (if sta_pending q1 = [] then remove1 i (sta_queue h) else sta_queue h)\<rparr>;
          Some (Some f, hw_set (sta_set sp i (servq_set s ac q1)) ac h1) }) }"

fun dequeue_acs :: "sta_priv \<Rightarrow> nat list \<Rightarrow> (xframe option \<times> sta_priv) option" where
  "dequeue_acs sp [] = Some (None, sp)"
| "dequeue_acs sp (ac # acs) = do {
     h \<leftarrow> arr (hwxmits (xmitpriv sp)) ac;
     (r, sp1) \<leftarrow> dequeue_stas sp ac (sta_queue h);
     case r of None \<Rightarrow> dequeue_acs sp1 acs | Some f \<Rightarrow> Some (Some f, sp1) }"

definition rtw_dequeue_xframe :: "bool \<Rightarrow> sta_priv \<Rightarrow> nat \<Rightarrow> (xframe option \<times> sta_priv) option" where
  "rtw_dequeue_xframe wifi_spec sp n =
     dequeue_acs sp (take n (if wifi_spec then wmm_para_seq (xmitpriv sp) else [0, 1, 2, 3]))"

definition rtw_txframes_sta_ac_pending :: "sta_priv \<Rightarrow> xframe \<Rightarrow> int option" where
  "rtw_txframes_sta_ac_pending sp f = do {
     psta \<leftarrow> rtw_get_stainfo sp (Some (x_ra f));
     if x_psta f \<noteq> psta then Some 0
     else case psta of None \<Rightarrow> Some 0
     | Some i \<Rightarrow> do {
         s \<leftarrow> arr (pstainfo_buf sp) i;
         if sta_state s AND 1 = 0 then Some 0
         else map_option qcnt (arr (txservq s) (rtw_get_sta_pending (x_priority f))) } }"

text \<open>\<open>busy\<close>: a survey or a connection attempt is running; \<open>xbuf\<close>: a transmit buffer is free; \<open>direct\<close>: \<open>xmitframe_direct\<close>
  handed the frame to the hardware. The answer is whether the hardware takes the packet.\<close>

definition pre_xmitframe :: "bool \<Rightarrow> bool \<Rightarrow> bool \<Rightarrow> sta_priv \<Rightarrow> xframe \<Rightarrow> (bool \<times> sta_priv \<times> rx_act list) option" where
  "pre_xmitframe busy xbuf direct sp f = do {
     n \<leftarrow> rtw_txframes_sta_ac_pending sp f;
     if n > 0 \<or> busy \<or> \<not> xbuf then do {
       (ok, sp1) \<leftarrow> rtw_xmitframe_enqueue sp f;
       if ok then Some (False, sp1, []) else do { (sp2, a) \<leftarrow> xmit_drop sp1 f; Some (True, sp2, a) } }
     else if direct then Some (True, sp, [Xmit_direct (xid f)])
     else do { (xp, a) \<leftarrow> rtw_free_xmitframe (xmitpriv sp) (Some f); Some (True, sp\<lparr>xmitpriv := xp\<rparr>, a) } }"

section \<open>Views of the state\<close>

definition pend :: "sta_priv \<Rightarrow> nat \<Rightarrow> nat \<Rightarrow> xframe list" where
  "pend sp i ac = sta_pending (txservq (sta_at sp i) ! ac)"

definition pend_cnt :: "sta_priv \<Rightarrow> nat \<Rightarrow> nat \<Rightarrow> int" where
  "pend_cnt sp i ac = qcnt (txservq (sta_at sp i) ! ac)"

definition hwq :: "sta_priv \<Rightarrow> nat \<Rightarrow> nat list" where
  "hwq sp ac = sta_queue (hwxmits (xmitpriv sp) ! ac)"

definition hwcnt :: "sta_priv \<Rightarrow> nat \<Rightarrow> int" where
  "hwcnt sp ac = accnt (hwxmits (xmitpriv sp) ! ac)"

definition slp :: "sta_priv \<Rightarrow> nat \<Rightarrow> xframe list" where
  "slp sp i = sleep_q (sta_at sp i)"

text \<open>A frame that goes to station \<open>i\<close>.\<close>

definition to_sta :: "sta_priv \<Rightarrow> nat \<Rightarrow> xframe \<Rightarrow> bool" where
  "to_sta sp i f \<longleftrightarrow> x_psta f = Some i \<and> length (x_ra f) = 6 \<and> sta_tab sp (sta_key (x_ra f)) = Some i \<and> data_frame f"

definition tx_wf :: "sta_priv \<Rightarrow> bool" where
  "tx_wf sp \<longleftrightarrow> sta_wf sp \<and> pool_wf (xmitpriv sp) \<and>
     (\<forall>i < 32. sleepq_len (sta_at sp i) = of_nat (length (slp sp i)) \<and> list_all (to_sta sp i) (slp sp i)) \<and>
     (\<forall>i < 32. \<forall>ac < 4. pend_cnt sp i ac = int (length (pend sp i ac)) \<and>
        list_all (\<lambda>f. to_sta sp i f \<and> rtw_get_sta_pending (x_priority f) = ac) (pend sp i ac)) \<and>
     (\<forall>ac < 4. distinct (hwq sp ac) \<and> set (hwq sp ac) \<subseteq> {..<32} \<and> hwcnt sp ac = (\<Sum>i < 32. pend_cnt sp i ac) \<and>
        (\<forall>i < 32. pend sp i ac \<noteq> [] \<longrightarrow> i \<in> set (hwq sp ac)))"

text \<open>The ids of all frame objects of the data pool: free ones, sleeping ones, waiting ones.\<close>

definition sta_ids :: "sta_info \<Rightarrow> nat multiset" where
  "sta_ids s = image_mset xid (mset (sleep_q s)) + image_mset xid (mset (concat (map sta_pending (txservq s))))"

definition tx_ids :: "sta_priv \<Rightarrow> nat multiset" where
  "tx_ids sp = pool_ids (xmitpriv sp) + (\<Sum>i < 32. sta_ids (sta_at sp i))"

section \<open>One station changes\<close>

lemma sta_set_fields [simp]:
  "xmitpriv (sta_set sp i s) = xmitpriv sp" "sta_hash (sta_set sp i s) = sta_hash sp" "live (sta_set sp i s) = live sp"
  "pstainfo_buf (sta_set sp i s) = (pstainfo_buf sp)[i := s]" "tim_bitmap (sta_set sp i s) = tim_bitmap sp"
  "sta_dz_bitmap (sta_set sp i s) = sta_dz_bitmap sp" "sp_expire_to (sta_set sp i s) = sp_expire_to sp" "myid (sta_set sp i s) = myid sp"
  by (simp_all add: sta_set_def live_def)

lemma hw_set_fields [simp]:
  "hwxmits (xmitpriv (hw_set sp ac h)) = (hwxmits (xmitpriv sp))[ac := h]" "pool_ids (xmitpriv (hw_set sp ac h)) = pool_ids (xmitpriv sp)"
  "pool_wf (xmitpriv (hw_set sp ac h)) = pool_wf (xmitpriv sp)" "pstainfo_buf (hw_set sp ac h) = pstainfo_buf sp"
  "sta_at (hw_set sp ac h) j = sta_at sp j" "tim_bitmap (hw_set sp ac h) = tim_bitmap sp" "sta_dz_bitmap (hw_set sp ac h) = sta_dz_bitmap sp"
  "sta_tab (hw_set sp ac h) = sta_tab sp" "sta_wf (hw_set sp ac h) = sta_wf sp"
  by (simp_all add: hw_set_def pool_ids_def pool_wf_def sta_at_def sta_tab_def sta_wf_def live_def)

lemma sta_at_set: "i < length (pstainfo_buf sp) \<Longrightarrow> sta_at (sta_set sp i s) j = (if j = i then s else sta_at sp j)"
  by (simp add: sta_set_def sta_at_def)

lemma sta_wf_buf: "sta_wf sp \<Longrightarrow> length (pstainfo_buf sp) = 32" "sta_wf sp \<Longrightarrow> length (hwxmits (xmitpriv sp)) = 4"
  "sta_wf sp \<Longrightarrow> i < 32 \<Longrightarrow> arr (pstainfo_buf sp) i = Some (sta_at sp i)" "sta_wf sp \<Longrightarrow> i < 32 \<Longrightarrow> length (txservq (sta_at sp i)) = 4"
  by (simp_all add: sta_wf_def arr_def sta_at_def sta_tx_ok_def)

lemma sta_wf_set:
  assumes "sta_wf sp" "i < 32" "hwaddr s = hwaddr (sta_at sp i)" "aid s < 32" "sta_tx_ok s"
  shows "sta_wf (sta_set sp i s)" "sta_tab (sta_set sp i s) = sta_tab sp"
proof -
  have at: "sta_at (sta_set sp i s) j = (if j = i then s else sta_at sp j)" for j
    using assms(1,2) by (simp add: sta_at_set sta_wf_buf)
  then have hw: "hwaddr (sta_at (sta_set sp i s) j) = hwaddr (sta_at sp j)" for j
    using assms(3) by simp
  then show "sta_tab (sta_set sp i s) = sta_tab sp"
    by (simp add: sta_tab_def)
  show "sta_wf (sta_set sp i s)"
    using assms(1,4,5) unfolding sta_wf_def hw sta_set_fields(3) by (simp add: at) (simp add: sta_set_def)
qed

lemma sum_upd:
  fixes g :: "nat \<Rightarrow> 'a::comm_monoid_add"
  assumes "p < n" "\<And>j. j < n \<Longrightarrow> j \<noteq> p \<Longrightarrow> g j = h j"
  shows "(\<Sum>j < n. g j) + h p = g p + (\<Sum>j < n. h j)"
proof -
  have "(\<Sum>j < n. g j) = g p + (\<Sum>j \<in> {..<n} - {p}. g j)" "(\<Sum>j < n. h j) = h p + (\<Sum>j \<in> {..<n} - {p}. h j)"
    using assms(1) by (simp_all add: sum.remove)
  moreover have "(\<Sum>j \<in> {..<n} - {p}. g j) = (\<Sum>j \<in> {..<n} - {p}. h j)"
    using assms(2) by (intro sum.cong) auto
  ultimately show ?thesis
    by (simp add: ac_simps)
qed

lemma tx_wfD:
  assumes "tx_wf sp"
  shows "sta_wf sp" "pool_wf (xmitpriv sp)"
    "i < 32 \<Longrightarrow> sleepq_len (sta_at sp i) = of_nat (length (slp sp i))" "i < 32 \<Longrightarrow> list_all (to_sta sp i) (slp sp i)"
    "i < 32 \<Longrightarrow> ac < 4 \<Longrightarrow> pend_cnt sp i ac = int (length (pend sp i ac))"
    "i < 32 \<Longrightarrow> ac < 4 \<Longrightarrow> list_all (\<lambda>f. to_sta sp i f \<and> rtw_get_sta_pending (x_priority f) = ac) (pend sp i ac)"
    "ac < 4 \<Longrightarrow> distinct (hwq sp ac)" "ac < 4 \<Longrightarrow> set (hwq sp ac) \<subseteq> {..<32}"
    "ac < 4 \<Longrightarrow> hwcnt sp ac = (\<Sum>i < 32. pend_cnt sp i ac)" "i < 32 \<Longrightarrow> ac < 4 \<Longrightarrow> pend sp i ac \<noteq> [] \<Longrightarrow> i \<in> set (hwq sp ac)"
  using assms by (auto simp: tx_wf_def)

lemma tx_wf_upd:
  assumes "tx_wf sp" "i < 32" "sta_wf sp'" "pool_wf (xmitpriv sp')" "sta_tab sp' = sta_tab sp"
    "\<And>j. j < 32 \<Longrightarrow> j \<noteq> i \<Longrightarrow> sta_at sp' j = sta_at sp j"
    "sleepq_len (sta_at sp' i) = of_nat (length (slp sp' i))" "list_all (to_sta sp i) (slp sp' i)"
    "\<And>ac. ac < 4 \<Longrightarrow> pend_cnt sp' i ac = int (length (pend sp' i ac)) \<and>
       list_all (\<lambda>f. to_sta sp i f \<and> rtw_get_sta_pending (x_priority f) = ac) (pend sp' i ac)"
    "\<And>ac. ac < 4 \<Longrightarrow> distinct (hwq sp' ac) \<and> set (hwq sp' ac) \<subseteq> {..<32} \<and> set (hwq sp ac) \<subseteq> insert i (set (hwq sp' ac)) \<and>
       hwcnt sp' ac + pend_cnt sp i ac = pend_cnt sp' i ac + hwcnt sp ac \<and> (pend sp' i ac \<noteq> [] \<longrightarrow> i \<in> set (hwq sp' ac))"
  shows "tx_wf sp'"
proof -
  have old: "slp sp' j = slp sp j" "pend sp' j ac = pend sp j ac" "pend_cnt sp' j ac = pend_cnt sp j ac" if "j < 32" "j \<noteq> i" for j ac
    using assms(6) that by (simp_all add: slp_def pend_def pend_cnt_def)
  have to: "to_sta sp' j f = to_sta sp j f" for j f
    using assms(5) by (simp add: to_sta_def)
  have sums: "hwcnt sp' ac = (\<Sum>j < 32. pend_cnt sp' j ac)" if "ac < 4" for ac
    using assms(10) [OF that] tx_wfD(9) [OF assms(1) that] sum_upd [of i 32 "\<lambda>j. pend_cnt sp' j ac" "\<lambda>j. pend_cnt sp j ac"] assms(2) old(3)
    by simp
  have links: "j \<in> set (hwq sp' ac)" if "j < 32" "ac < 4" "pend sp' j ac \<noteq> []" for j ac
    using tx_wfD(10) [OF assms(1), of j ac] assms(10) [OF that(2)] that old(2) [of j ac] by (cases "j = i") auto
  have "sleepq_len (sta_at sp' j) = of_nat (length (slp sp' j)) \<and> list_all (to_sta sp' j) (slp sp' j)" if "j < 32" for j
    using tx_wfD(3,4) [OF assms(1) that] assms(6-8) that old(1) by (cases "j = i") (auto simp: list_all_iff to)
  moreover have "pend_cnt sp' j ac = int (length (pend sp' j ac)) \<and>
      list_all (\<lambda>f. to_sta sp' j f \<and> rtw_get_sta_pending (x_priority f) = ac) (pend sp' j ac)" if "j < 32" "ac < 4" for j ac
    using tx_wfD(5,6) [OF assms(1) that] assms(9) [of ac] that old(2,3) [of j ac] by (cases "j = i") (auto simp: list_all_iff to)
  ultimately show ?thesis
    using assms(3,4,10) sums links unfolding tx_wf_def by blast
qed

lemma tx_ids_upd:
  assumes "i < 32" "\<And>j. j < 32 \<Longrightarrow> j \<noteq> i \<Longrightarrow> sta_at sp' j = sta_at sp j"
  shows "tx_ids sp' + sta_ids (sta_at sp i) + pool_ids (xmitpriv sp) = tx_ids sp + sta_ids (sta_at sp' i) + pool_ids (xmitpriv sp')"
  using sum_upd [of i 32 "\<lambda>j. sta_ids (sta_at sp' j)" "\<lambda>j. sta_ids (sta_at sp j)"] assms by (simp add: tx_ids_def ac_simps)

section \<open>Queueing a frame\<close>

lemma ac_lt [simp]: "rtw_get_sta_pending up < 4"
  by (simp add: rtw_get_sta_pending_def)

lemma sta_tab_lt: "sta_wf sp \<Longrightarrow> sta_tab sp a = Some i \<Longrightarrow> i < 32"
  using sta_tab_Some by (fastforce simp: sta_wf_def)

lemma to_sta_get: "sta_wf sp \<Longrightarrow> to_sta sp i f \<Longrightarrow> rtw_get_stainfo sp (Some (x_ra f)) = Some (Some i) \<and> x_psta f = Some i \<and> i < 32"
  using rtw_get_stainfo_tab [of sp "x_ra f"] sta_tab_lt by (auto simp: to_sta_def)

lemma concat_upd:
  "i < length xs \<Longrightarrow> mset (concat (map g (xs[i := y]))) + mset (g (xs ! i)) = mset (concat (map g xs)) + mset (g y)"
  by (induction xs arbitrary: i) (auto simp: nth_Cons' list_update_def ac_simps split: nat.splits)

lemma sta_ids_servq_set:
  assumes "ac < length (txservq s)"
  shows "sta_ids (servq_set s ac q) + image_mset xid (mset (sta_pending (txservq s ! ac))) = sta_ids s + image_mset xid (mset (sta_pending q))"
proof -
  have "image_mset xid (mset (concat (map sta_pending ((txservq s)[ac := q]))) + mset (sta_pending (txservq s ! ac))) =
      image_mset xid (mset (concat (map sta_pending (txservq s))) + mset (sta_pending q))"
    using concat_upd [OF assms, of sta_pending q] by (rule arg_cong)
  then show ?thesis
    by (simp add: sta_ids_def servq_set_def add.assoc)
qed

lemma sta_ids_servq_add:
  assumes "ac < length (txservq s)" "image_mset xid (mset (sta_pending q)) = image_mset xid (mset (sta_pending (txservq s ! ac))) + M"
  shows "sta_ids (servq_set s ac q) = sta_ids s + M"
proof (rule add_right_imp_eq)
  show "sta_ids (servq_set s ac q) + image_mset xid (mset (sta_pending (txservq s ! ac))) =
      (sta_ids s + M) + image_mset xid (mset (sta_pending (txservq s ! ac)))"
    using sta_ids_servq_set [OF assms(1), of q] assms(2) by (simp add: ac_simps)
qed

lemma sta_ids_servq_del:
  assumes "ac < length (txservq s)" "image_mset xid (mset (sta_pending (txservq s ! ac))) = image_mset xid (mset (sta_pending q)) + M"
  shows "sta_ids s = sta_ids (servq_set s ac q) + M"
proof (rule add_right_imp_eq)
  show "sta_ids s + image_mset xid (mset (sta_pending q)) = (sta_ids (servq_set s ac q) + M) + image_mset xid (mset (sta_pending q))"
    using sta_ids_servq_set [OF assms(1), of q] assms(2) by (simp add: ac_simps)
qed

definition tx_push :: "sta_priv \<Rightarrow> nat \<Rightarrow> xframe \<Rightarrow> sta_priv" where
  "tx_push sp i f = (let s = sta_at sp i; ac = rtw_get_sta_pending (x_priority f); h = hwxmits (xmitpriv sp) ! ac; q = txservq s ! ac in
     hw_set (sta_set sp i (servq_set s ac (q\<lparr>sta_pending := sta_pending q @ [f], qcnt := qcnt q + 1\<rparr>))) ac
       (h\<lparr>sta_queue := (if i \<in> set (sta_queue h) then sta_queue h else sta_queue h @ [i]), accnt := accnt h + 1\<rparr>))"

lemma rtw_xmit_classifier_to_sta:
  assumes "sta_wf sp" "to_sta sp i f"
  shows "rtw_xmit_classifier sp f = Some (if sta_state (sta_at sp i) AND 1 = 0 then (False, sp) else (True, tx_push sp i f))"
  using to_sta_get [OF assms] sta_wf_buf [OF assms(1)]
  by (simp add: rtw_xmit_classifier_def arr_def [of "txservq s" for s] arr_def [of "hwxmits x" for x] tx_push_def Let_def)

lemma tx_push_at:
  assumes "sta_wf sp" "i < 32"
  shows "sta_at (tx_push sp i f) j = (if j = i then servq_set (sta_at sp i) (rtw_get_sta_pending (x_priority f))
      ((txservq (sta_at sp i) ! rtw_get_sta_pending (x_priority f))\<lparr>sta_pending := pend sp i (rtw_get_sta_pending (x_priority f)) @ [f],
         qcnt := pend_cnt sp i (rtw_get_sta_pending (x_priority f)) + 1\<rparr>) else sta_at sp j)"
  using assms by (simp add: tx_push_def Let_def sta_at_set sta_wf_buf pend_def pend_cnt_def)

lemma tx_push_views:
  assumes "sta_wf sp" "i < 32"
  shows "pend (tx_push sp i f) j ac = pend sp j ac @ (if j = i \<and> ac = rtw_get_sta_pending (x_priority f) then [f] else [])"
    "pend_cnt (tx_push sp i f) j ac = pend_cnt sp j ac + (if j = i \<and> ac = rtw_get_sta_pending (x_priority f) then 1 else 0)"
    "slp (tx_push sp i f) j = slp sp j" "sleepq_len (sta_at (tx_push sp i f) j) = sleepq_len (sta_at sp j)"
    "sta_state (sta_at (tx_push sp i f) j) = sta_state (sta_at sp j)" "aid (sta_at (tx_push sp i f) j) = aid (sta_at sp j)"
    "hwaddr (sta_at (tx_push sp i f) j) = hwaddr (sta_at sp j)"
    "tim_bitmap (tx_push sp i f) = tim_bitmap sp" "sta_dz_bitmap (tx_push sp i f) = sta_dz_bitmap sp"
    "pool_ids (xmitpriv (tx_push sp i f)) = pool_ids (xmitpriv sp)" "pool_wf (xmitpriv (tx_push sp i f)) = pool_wf (xmitpriv sp)"
    "ac < 4 \<Longrightarrow> hwq (tx_push sp i f) ac = hwq sp ac @ (if ac = rtw_get_sta_pending (x_priority f) \<and> i \<notin> set (hwq sp ac) then [i] else [])"
    "ac < 4 \<Longrightarrow> hwcnt (tx_push sp i f) ac = hwcnt sp ac + (if ac = rtw_get_sta_pending (x_priority f) then 1 else 0)"
  using sta_wf_buf(2) [OF assms(1)] sta_wf_buf(4) [OF assms]
  by (auto simp: pend_def pend_cnt_def slp_def hwq_def hwcnt_def tx_push_at [OF assms] servq_set_def nth_list_update)
    (auto simp: tx_push_def Let_def nth_list_update)

lemma tx_push_wf:
  assumes "tx_wf sp" "to_sta sp i f"
  shows "tx_wf (tx_push sp i f)" "tx_ids (tx_push sp i f) = add_mset (xid f) (tx_ids sp)" "sta_tab (tx_push sp i f) = sta_tab sp"
proof -
  note wf = tx_wfD(1) [OF assms(1)]
  have i: "i < 32"
    using to_sta_get [OF wf assms(2)] by simp
  note v = tx_push_views [OF wf i] and at = tx_push_at [OF wf i]
  let ?ac = "rtw_get_sta_pending (x_priority f)"
  let ?s = "sta_at (tx_push sp i f) i"
  have df: "data_frame f" "list_all data_frame (sta_pending (txservq (sta_at sp i) ! ?ac))"
    using assms(2) tx_wfD(6) [OF assms(1) i, of ?ac] by (auto simp: to_sta_def list_all_iff pend_def)
  have sta: "hwaddr ?s = hwaddr (sta_at sp i)" "aid ?s < 32" "sta_tx_ok ?s"
    using wf i df by (auto simp: at servq_set_def sta_wf_def sta_tx_ok_def pend_def dest!: set_update_subset_insert [THEN subsetD])
  have eq: "sta_wf (tx_push sp i f) = sta_wf (sta_set sp i ?s)" "sta_tab (tx_push sp i f) = sta_tab (sta_set sp i ?s)"
    using wf i by (simp_all add: at pend_def pend_cnt_def) (simp_all add: tx_push_def Let_def)
  then have wf': "sta_wf (tx_push sp i f)" and tab: "sta_tab (tx_push sp i f) = sta_tab sp"
    using sta_wf_set [OF wf i sta] by simp_all
  then show "sta_tab (tx_push sp i f) = sta_tab sp"
    by simp
  show "tx_wf (tx_push sp i f)"
  proof (rule tx_wf_upd [OF assms(1) i wf' _ tab])
    show "pend_cnt (tx_push sp i f) i ac = int (length (pend (tx_push sp i f) i ac)) \<and>
        list_all (\<lambda>f. to_sta sp i f \<and> rtw_get_sta_pending (x_priority f) = ac) (pend (tx_push sp i f) i ac)" if "ac < 4" for ac
      using tx_wfD(5,6) [OF assms(1) i that] assms(2) by (simp add: v)
    show "distinct (hwq (tx_push sp i f) ac) \<and> set (hwq (tx_push sp i f) ac) \<subseteq> {..<32} \<and>
        set (hwq sp ac) \<subseteq> insert i (set (hwq (tx_push sp i f) ac)) \<and>
        hwcnt (tx_push sp i f) ac + pend_cnt sp i ac = pend_cnt (tx_push sp i f) i ac + hwcnt sp ac \<and>
        (pend (tx_push sp i f) i ac \<noteq> [] \<longrightarrow> i \<in> set (hwq (tx_push sp i f) ac))" if "ac < 4" for ac
      using tx_wfD(7,8) [OF assms(1) that] tx_wfD(10) [OF assms(1) i that] i that by (auto simp: v)
  qed (use tx_wfD(2-4) [OF assms(1)] i in \<open>simp_all add: v at servq_set_def\<close>)
  have "sta_ids ?s = add_mset (xid f) (sta_ids (sta_at sp i))"
    using sta_ids_servq_add [of ?ac "sta_at sp i" _ "{#xid f#}"] sta_wf_buf(4) [OF wf i] by (simp add: at pend_def)
  then show "tx_ids (tx_push sp i f) = add_mset (xid f) (tx_ids sp)"
    using tx_ids_upd [of i "tx_push sp i f" sp] i by (simp add: at v(10))
qed

text \<open>The entry of the chip driver: a frame to a station that is linked is queued, one to a station that is not is freed.
  In both cases the object is accounted for.\<close>

lemma xmit_drop_wf:
  assumes "tx_wf sp" "data_frame f"
  shows "\<exists>sp' a. xmit_drop sp f = Some (sp', a) \<and> tx_wf sp' \<and> tx_ids sp' = add_mset (xid f) (tx_ids sp) \<and> sta_tab sp' = sta_tab sp \<and>
    (\<forall>j. sta_at sp' j = sta_at sp j) \<and> tim_bitmap sp' = tim_bitmap sp \<and> sta_dz_bitmap sp' = sta_dz_bitmap sp \<and>
    hwxmits (xmitpriv sp') = hwxmits (xmitpriv sp)"
proof -
  obtain xp a where x: "rtw_free_xmitframe (xmitpriv sp) (Some f) = Some (xp, a)" "pool_ids xp = add_mset (xid f) (pool_ids (xmitpriv sp))"
    "hwxmits xp = hwxmits (xmitpriv sp)" "pool_wf xp"
    using rtw_free_xmitframe_pool [OF assms(2), of "xmitpriv sp"] tx_wfD(2) [OF assms(1)] by blast
  let ?sp = "sp\<lparr>xmitpriv := xp\<lparr>tx_drop := tx_drop xp + 1\<rparr>\<rparr>"
  have at: "sta_at ?sp j = sta_at sp j" "sta_tab ?sp = sta_tab sp" for j
    by (simp_all add: sta_at_def sta_tab_def live_def)
  have "sta_wf ?sp"
    using tx_wfD(1) [OF assms(1)] x(3) by (simp add: sta_wf_def at live_def)
  then have "tx_wf ?sp"
    using assms(1) x(3,4) by (simp add: tx_wf_def pend_def pend_cnt_def slp_def hwq_def hwcnt_def to_sta_def [abs_def] at pool_wf_def)
  moreover have "tx_ids ?sp = add_mset (xid f) (tx_ids sp)"
    using x(2) by (simp add: tx_ids_def at pool_ids_def)
  ultimately show ?thesis
    using x(1,3) at by (intro exI [of _ ?sp] exI [of _ a]) (simp add: xmit_drop_def)
qed

lemma hal_enqueue_wf:
  assumes "tx_wf sp" "to_sta sp i f"
  shows "\<exists>sp' a. rtl8812au_hal_xmitframe_enqueue sp f = Some (sta_state (sta_at sp i) AND 1 \<noteq> 0, sp', a) \<and>
    (sta_state (sta_at sp i) AND 1 \<noteq> 0 \<longrightarrow> sp' = tx_push sp i f) \<and>
    (sta_state (sta_at sp i) AND 1 = 0 \<longrightarrow> (\<forall>j. sta_at sp' j = sta_at sp j) \<and> tim_bitmap sp' = tim_bitmap sp \<and> sta_dz_bitmap sp' = sta_dz_bitmap sp \<and>
       hwxmits (xmitpriv sp') = hwxmits (xmitpriv sp)) \<and>
    tx_wf sp' \<and> tx_ids sp' = add_mset (xid f) (tx_ids sp) \<and> sta_tab sp' = sta_tab sp"
proof (cases "sta_state (sta_at sp i) AND 1 = 0")
  case True
  then show ?thesis
    using xmit_drop_wf [OF assms(1), of f] assms(2) rtw_xmit_classifier_to_sta [OF tx_wfD(1) [OF assms(1)] assms(2)]
    by (auto simp: rtl8812au_hal_xmitframe_enqueue_def rtw_xmitframe_enqueue_def to_sta_def)
next
  case False
  then show ?thesis
    using tx_push_wf [OF assms] rtw_xmit_classifier_to_sta [OF tx_wfD(1) [OF assms(1)] assms(2)]
    by (simp add: rtl8812au_hal_xmitframe_enqueue_def rtw_xmitframe_enqueue_def)
qed

section \<open>Taking a frame out\<close>

definition tx_pop :: "sta_priv \<Rightarrow> nat \<Rightarrow> nat \<Rightarrow> sta_priv" where
  "tx_pop sp i ac = (let s = sta_at sp i; q = txservq s ! ac; h = hwxmits (xmitpriv sp) ! ac; fs = tl (sta_pending q) in
     hw_set (sta_set sp i (servq_set s ac (q\<lparr>sta_pending := fs, qcnt := qcnt q - 1\<rparr>))) ac
       (h\<lparr>accnt := accnt h - 1, sta_queue := (if fs = [] then remove1 i (sta_queue h) else sta_queue h)\<rparr>))"

lemma tx_pop_at:
  assumes "sta_wf sp" "i < 32"
  shows "sta_at (tx_pop sp i ac) j = (if j = i then servq_set (sta_at sp i) ac
      ((txservq (sta_at sp i) ! ac)\<lparr>sta_pending := tl (pend sp i ac), qcnt := pend_cnt sp i ac - 1\<rparr>) else sta_at sp j)"
  using assms by (simp add: tx_pop_def Let_def sta_at_set sta_wf_buf pend_def pend_cnt_def)

lemma tx_pop_views:
  assumes "sta_wf sp" "i < 32" "ac < 4"
  shows "pend (tx_pop sp i ac) j c = (if j = i \<and> c = ac then tl (pend sp j c) else pend sp j c)"
    "pend_cnt (tx_pop sp i ac) j c = (if j = i \<and> c = ac then pend_cnt sp j c - 1 else pend_cnt sp j c)"
    "slp (tx_pop sp i ac) j = slp sp j" "sleepq_len (sta_at (tx_pop sp i ac) j) = sleepq_len (sta_at sp j)"
    "sta_state (sta_at (tx_pop sp i ac) j) = sta_state (sta_at sp j)" "aid (sta_at (tx_pop sp i ac) j) = aid (sta_at sp j)"
    "tim_bitmap (tx_pop sp i ac) = tim_bitmap sp" "sta_dz_bitmap (tx_pop sp i ac) = sta_dz_bitmap sp"
    "pool_ids (xmitpriv (tx_pop sp i ac)) = pool_ids (xmitpriv sp)" "pool_wf (xmitpriv (tx_pop sp i ac)) = pool_wf (xmitpriv sp)"
    "c < 4 \<Longrightarrow> hwq (tx_pop sp i ac) c = (if c = ac \<and> tl (pend sp i ac) = [] then remove1 i (hwq sp c) else hwq sp c)"
    "c < 4 \<Longrightarrow> hwcnt (tx_pop sp i ac) c = hwcnt sp c - (if c = ac then 1 else 0)"
  using sta_wf_buf(2) [OF assms(1)] sta_wf_buf(4) [OF assms(1,2)] assms(3)
  by (auto simp: pend_def pend_cnt_def slp_def hwq_def hwcnt_def tx_pop_at [OF assms(1,2)] servq_set_def nth_list_update)
    (auto simp: tx_pop_def Let_def nth_list_update)

lemma tx_pop_wf:
  assumes "tx_wf sp" "i < 32" "ac < 4" "pend sp i ac = f # fs"
  shows "tx_wf (tx_pop sp i ac)" "tx_ids sp = add_mset (xid f) (tx_ids (tx_pop sp i ac))" "sta_tab (tx_pop sp i ac) = sta_tab sp"
proof -
  note wf = tx_wfD(1) [OF assms(1)]
  note v = tx_pop_views [OF wf assms(2,3)] and at = tx_pop_at [OF wf assms(2)]
  let ?s = "sta_at (tx_pop sp i ac) i"
  have "list_all data_frame (tl (pend sp i ac))"
    using tx_wfD(6) [OF assms(1-3)] assms(4) by (auto simp: to_sta_def list_all_iff)
  then have sta: "hwaddr ?s = hwaddr (sta_at sp i)" "aid ?s < 32" "sta_tx_ok ?s"
    using wf assms(2) by (auto simp: at servq_set_def sta_wf_def sta_tx_ok_def pend_def dest!: set_update_subset_insert [THEN subsetD])
  have eq: "sta_wf (tx_pop sp i ac) = sta_wf (sta_set sp i ?s)" "sta_tab (tx_pop sp i ac) = sta_tab (sta_set sp i ?s)"
    by (simp_all add: at pend_def pend_cnt_def) (simp_all add: tx_pop_def Let_def)
  then have wf': "sta_wf (tx_pop sp i ac)" and tab: "sta_tab (tx_pop sp i ac) = sta_tab sp"
    using sta_wf_set [OF wf assms(2) sta] by simp_all
  then show "sta_tab (tx_pop sp i ac) = sta_tab sp"
    by simp
  show "tx_wf (tx_pop sp i ac)"
  proof (rule tx_wf_upd [OF assms(1,2) wf' _ tab])
    show "pend_cnt (tx_pop sp i ac) i c = int (length (pend (tx_pop sp i ac) i c)) \<and>
        list_all (\<lambda>f. to_sta sp i f \<and> rtw_get_sta_pending (x_priority f) = c) (pend (tx_pop sp i ac) i c)" if "c < 4" for c
      using tx_wfD(5,6) [OF assms(1,2) that] assms(4) by (auto simp: v)
    show "distinct (hwq (tx_pop sp i ac) c) \<and> set (hwq (tx_pop sp i ac) c) \<subseteq> {..<32} \<and>
        set (hwq sp c) \<subseteq> insert i (set (hwq (tx_pop sp i ac) c)) \<and>
        hwcnt (tx_pop sp i ac) c + pend_cnt sp i c = pend_cnt (tx_pop sp i ac) i c + hwcnt sp c \<and>
        (pend (tx_pop sp i ac) i c \<noteq> [] \<longrightarrow> i \<in> set (hwq (tx_pop sp i ac) c))" if "c < 4" for c
      using tx_wfD(7,8) [OF assms(1) that] tx_wfD(10) [OF assms(1,2) that] that assms(4) by (auto simp: v)
  qed (use tx_wfD(2-4) [OF assms(1)] assms(2) in \<open>simp_all add: v at servq_set_def\<close>)
  have "add_mset (xid f) (sta_ids ?s) = sta_ids (sta_at sp i)"
    using sta_ids_servq_del [of ac "sta_at sp i" _ "{#xid f#}", symmetric] sta_wf_buf(4) [OF wf assms(2)] assms(3,4) by (simp add: at pend_def)
  then show "tx_ids sp = add_mset (xid f) (tx_ids (tx_pop sp i ac))"
    using tx_ids_upd [of i "tx_pop sp i ac" sp] assms(2)
    by (simp add: at v(9) del: add_mset_add_single) (metis add_mset_add_mset_same_iff union_mset_add_mset_left union_mset_add_mset_right add_right_imp_eq)
qed

lemma dequeue_stas_find:
  assumes "sta_wf sp" "ac < 4" "set is \<subseteq> {..<32}"
  shows "dequeue_stas sp ac is = Some (case find (\<lambda>i. pend sp i ac \<noteq> []) is of None \<Rightarrow> (None, sp)
    | Some i \<Rightarrow> (Some (hd (pend sp i ac)), tx_pop sp i ac))"
  using assms(3)
proof (induction "is")
  case (Cons i "is")
  then have i: "i < 32"
    by simp
  have "dequeue_one_xmitframe (txservq (sta_at sp i) ! ac) = (None, txservq (sta_at sp i) ! ac)" if "pend sp i ac = []"
    using that by (simp add: dequeue_one_xmitframe_def pend_def)
  moreover have "dequeue_one_xmitframe (txservq (sta_at sp i) ! ac) = (Some f, (txservq (sta_at sp i) ! ac)\<lparr>sta_pending := fs,
      qcnt := qcnt (txservq (sta_at sp i) ! ac) - 1\<rparr>)" if "pend sp i ac = f # fs" for f fs
    using that by (simp add: dequeue_one_xmitframe_def pend_def)
  ultimately show ?case
    using Cons sta_wf_buf [OF assms(1)] i assms(2) sta_wf_buf(4) [OF assms(1) i]
    by (cases "pend sp i ac") (simp_all add: arr_def [of "txservq s" for s] arr_def [of "hwxmits x" for x] tx_pop_def Let_def pend_def [symmetric])
qed simp

lemma dequeue_acs_spec:
  assumes "tx_wf sp" "set acs \<subseteq> {..<4}"
  shows "\<exists>r sp'. dequeue_acs sp acs = Some (r, sp') \<and> (case r of None \<Rightarrow> sp' = sp \<and> (\<forall>ac \<in> set acs. \<forall>i < 32. pend sp i ac = [])
    | Some f \<Rightarrow> \<exists>k < length acs. \<exists>i \<in> set (hwq sp (acs ! k)). sp' = tx_pop sp i (acs ! k) \<and> hd (pend sp i (acs ! k)) = f \<and> pend sp i (acs ! k) \<noteq> [] \<and>
        (\<forall>m < k. \<forall>j < 32. pend sp j (acs ! m) = []))"
  using assms(2)
proof (induction acs)
  case (Cons ac acs)
  then have ac: "ac < 4"
    by simp
  have h: "arr (hwxmits (xmitpriv sp)) ac = Some (hwxmits (xmitpriv sp) ! ac)"
    using ac sta_wf_buf(2) [OF tx_wfD(1) [OF assms(1)]] by (simp add: arr_def)
  note d = dequeue_stas_find [OF tx_wfD(1) [OF assms(1)] ac tx_wfD(8) [OF assms(1) ac], unfolded hwq_def]
  show ?case
  proof (cases "find (\<lambda>i. pend sp i ac \<noteq> []) (hwq sp ac)")
    case None
    then have none: "pend sp i ac = []" if "i < 32" for i
      using tx_wfD(10) [OF assms(1) that ac] by (auto simp: find_None_iff)
    from Cons obtain r sp' where r: "dequeue_acs sp acs = Some (r, sp')" "case r of None \<Rightarrow> sp' = sp \<and> (\<forall>ac \<in> set acs. \<forall>i < 32. pend sp i ac = [])
      | Some f \<Rightarrow> \<exists>k < length acs. \<exists>i \<in> set (hwq sp (acs ! k)). sp' = tx_pop sp i (acs ! k) \<and> hd (pend sp i (acs ! k)) = f \<and> pend sp i (acs ! k) \<noteq> [] \<and>
        (\<forall>m < k. \<forall>j < 32. pend sp j (acs ! m) = [])"
      by auto
    have "dequeue_acs sp (ac # acs) = Some (r, sp')"
      using r(1) h d None by (simp add: hwq_def)
    moreover have "case r of None \<Rightarrow> sp' = sp \<and> (\<forall>c \<in> set (ac # acs). \<forall>i < 32. pend sp i c = [])
      | Some f \<Rightarrow> \<exists>k < length (ac # acs). \<exists>i \<in> set (hwq sp ((ac # acs) ! k)). sp' = tx_pop sp i ((ac # acs) ! k) \<and> hd (pend sp i ((ac # acs) ! k)) = f \<and>
        pend sp i ((ac # acs) ! k) \<noteq> [] \<and> (\<forall>m < k. \<forall>j < 32. pend sp j ((ac # acs) ! m) = [])"
    proof (cases r)
      case (Some f)
      then obtain k i where k: "k < length acs" "i \<in> set (hwq sp (acs ! k))" "sp' = tx_pop sp i (acs ! k)" "hd (pend sp i (acs ! k)) = f"
        "pend sp i (acs ! k) \<noteq> []" "\<forall>m < k. \<forall>j < 32. pend sp j (acs ! m) = []"
        using r(2) by auto
      have "\<forall>m < Suc k. \<forall>j < 32. pend sp j ((ac # acs) ! m) = []"
        using k(6) none by (auto simp: less_Suc_eq_0_disj)
      then show ?thesis
        using k(1-5) Some by (auto intro!: exI [of _ "Suc k"] bexI [of _ i])
    qed (use r(2) none in auto)
    ultimately show ?thesis
      by blast
  next
    case (Some i)
    then have "i \<in> set (hwq sp ac)" "pend sp i ac \<noteq> []"
      by (auto simp: find_Some_iff)
    then show ?thesis
      using h d Some by (auto simp: hwq_def intro!: exI [of _ 0])
  qed
qed simp

text \<open>C13. Transmission takes strict priority and first in, first out: with the queues in a consistent state \<open>rtw_dequeue_xframe\<close>
  always returns; it gives nothing only when nothing waits in the categories it looks at; otherwise it gives the oldest
  frame of a linked station in the first category of the order where anything waits, removes exactly that
  frame, and leaves a consistent state.\<close>

theorem rtw_dequeue_xframe_correct:
  assumes "tx_wf sp" "order = take n (if wifi_spec then wmm_para_seq (xmitpriv sp) else [0, 1, 2, 3])" "set (wmm_para_seq (xmitpriv sp)) \<subseteq> {..<4}"
  shows "\<exists>r sp'. rtw_dequeue_xframe wifi_spec sp n = Some (r, sp') \<and> tx_wf sp' \<and>
    (case r of None \<Rightarrow> sp' = sp \<and> (\<forall>ac \<in> set order. \<forall>i < 32. pend sp i ac = [])
     | Some f \<Rightarrow> \<exists>k < length order. \<exists>i \<in> set (hwq sp (order ! k)). pend sp i (order ! k) = f # pend sp' i (order ! k) \<and>
         (\<forall>m < k. \<forall>j < 32. pend sp j (order ! m) = []) \<and> (\<forall>j c. (j, c) \<noteq> (i, order ! k) \<longrightarrow> pend sp' j c = pend sp j c) \<and>
         tx_ids sp = add_mset (xid f) (tx_ids sp'))"
proof -
  have sub: "set order \<subseteq> {..<4}"
    using assms(2,3) by (auto simp: dest!: in_set_takeD)
  obtain r sp' where r: "rtw_dequeue_xframe wifi_spec sp n = Some (r, sp')" "case r of None \<Rightarrow> sp' = sp \<and> (\<forall>ac \<in> set order. \<forall>i < 32. pend sp i ac = [])
      | Some f \<Rightarrow> \<exists>k < length order. \<exists>i \<in> set (hwq sp (order ! k)). sp' = tx_pop sp i (order ! k) \<and> hd (pend sp i (order ! k)) = f \<and>
          pend sp i (order ! k) \<noteq> [] \<and> (\<forall>m < k. \<forall>j < 32. pend sp j (order ! m) = [])"
    using dequeue_acs_spec [OF assms(1) sub] assms(2) by (auto simp: rtw_dequeue_xframe_def)
  show ?thesis
  proof (cases r)
    case None
    then show ?thesis
      using r assms(1) by auto
  next
    case (Some f)
    then obtain k i where k: "k < length order" "i \<in> set (hwq sp (order ! k))" "sp' = tx_pop sp i (order ! k)" "hd (pend sp i (order ! k)) = f"
      "pend sp i (order ! k) \<noteq> []" "\<forall>m < k. \<forall>j < 32. pend sp j (order ! m) = []"
      using r(2) by auto
    have ac: "order ! k < 4"
      using sub nth_mem [OF k(1)] by auto
    then have i: "i < 32"
      using k(2) tx_wfD(8) [OF assms(1)] by auto
    obtain fs where fs: "pend sp i (order ! k) = f # fs"
      using k(4,5) by (cases "pend sp i (order ! k)") auto
    show ?thesis
      using r(1) Some k(1,2,6) fs tx_pop_wf [OF assms(1) i ac fs] tx_pop_views(1) [OF tx_wfD(1) [OF assms(1)] i ac] k(3)
      by (intro exI [of _ r] exI [of _ sp']) (auto intro!: exI [of _ k] bexI [of _ i])
  qed
qed

section \<open>An example\<close>

text \<open>An access point with its broadcast station and one linked station, and a voice frame for that station.\<close>

definition demo_addr :: mem where
  "demo_addr = [2, 0, 0, 0, 0, 9]"

definition demo_xframe :: xframe where
  "demo_xframe = (pool_frame 0 5)\<lparr>x_ra := demo_addr, x_psta := Some 1, x_priority := 6\<rparr>"

definition fresh :: "sta_priv \<Rightarrow> bool" where
  "fresh sp \<longleftrightarrow> (\<forall>i < 32. txservq (sta_at sp i) = replicate 4 init_txservq \<and> sleep_q (sta_at sp i) = [] \<and> sleepq_len (sta_at sp i) = 0) \<and>
     xmitpriv sp = xmitpriv demo_sp \<and> sta_dz_bitmap sp = 0 \<and> tim_bitmap sp = 0"

lemma fresh_views:
  assumes "fresh sp" "i < 32" "ac < 4"
  shows "pend sp i ac = []" "slp sp i = []" "pend_cnt sp i ac = 0" "hwq sp ac = []" "hwcnt sp ac = 0"
  using assms by (simp_all add: fresh_def pend_def slp_def pend_cnt_def hwq_def hwcnt_def init_txservq_def demo_sp_def nth_replicate)

lemma fresh_tx_wf:
  assumes "sta_wf sp" "fresh sp"
  shows "tx_wf sp"
proof -
  have "pool_wf (xmitpriv sp)" "\<And>i. i < 32 \<Longrightarrow> sleepq_len (sta_at sp i) = 0" "\<And>i. i < 32 \<Longrightarrow> slp sp i = []"
    using assms(2) by (simp_all add: fresh_def pool_wf_def demo_sp_def slp_def)
  then show ?thesis
    using assms(1) fresh_views(1,3) [OF assms(2)] fresh_views(4,5) [OF assms(2), of 0] by (simp add: tx_wf_def)
qed

lemma fresh_alloc:
  assumes "sta_wf sp" "fresh sp" "length a = 6" "sta_tab sp a = None" "free_sta_queue sp = p # q"
  shows "\<exists>sp'. sta_wf sp' \<and> fresh sp' \<and> free_sta_queue sp' = q \<and> sta_tab sp' = (sta_tab sp)(a \<mapsto> p) \<and>
    (\<exists>mid. sta_at sp' p = (sta_alloc a)\<lparr>mac_id := mid\<rparr>)"
proof -
  obtain mid sp' where v: "rtw_alloc_stainfo sp a = Some (Some p, sp')" "\<forall>i. sta_at sp' i = (if i = p then (sta_alloc a)\<lparr>mac_id := mid\<rparr> else sta_at sp i)"
    using alloc_view [OF assms(1,3,5)] by blast
  have t: "sta_wf sp'" "sta_tab sp' = (sta_tab sp)(a \<mapsto> p)"
    using rtw_alloc_stainfo_tab [OF assms(1,3,4)] v(1) by auto
  have "free_sta_queue sp' = q" "xmitpriv sp' = xmitpriv sp" "sta_dz_bitmap sp' = sta_dz_bitmap sp" "tim_bitmap sp' = tim_bitmap sp"
    using v(1) assms(5) by (auto simp: rtw_alloc_stainfo_def spin_lock_def spin_unlock_def Let_def bind_eq_Some_conv split: if_splits)
  then show ?thesis
    using t v(2) assms(2) by (intro exI [of _ sp']) (auto simp: fresh_def sta_alloc_def rtw_init_stainfo_def)
qed

lemma demo_ap:
  "\<exists>sp. tx_wf sp \<and> fresh sp \<and> sta_tab sp = [bc_addr \<mapsto> 0, demo_addr \<mapsto> 1] \<and> sta_state (sta_at sp 0) = 1 \<and> sta_state (sta_at sp 1) = 1 \<and>
    aid (sta_at sp 1) = 1 \<and> uapsd_vo (sta_at sp 1) = 0 \<and> has_legacy_ac (sta_at sp 1) = 1"
proof -
  have a: "length bc_addr = 6" "length demo_addr = 6" "demo_addr \<noteq> bc_addr"
    by (simp_all add: bc_addr_def demo_addr_def)
  have "fresh demo_table"
    by (simp add: fresh_def demo_table_def rtw_init_sta_priv_def rtw_init_stainfo_def sta_at_def demo_sp_def)
  then obtain sp1 where s1: "sta_wf sp1" "fresh sp1" "free_sta_queue sp1 = [1..<32]" "sta_tab sp1 = [bc_addr \<mapsto> 0]"
    using fresh_alloc [OF demo_table_wf(1) _ a(1), of 0 "[1..<32]"] demo_table_wf by (auto simp: sta_alloc_def upt_rec [of 0])
  have u: "free_sta_queue sp1 = 1 # [2..<32]"
    by (simp add: s1(3) upt_conv_Cons numeral_2_eq_2)
  have "sta_tab sp1 demo_addr = None"
    using s1(4) a(3) by simp
  then obtain sp2 mid where s2: "sta_wf sp2" "fresh sp2" "sta_tab sp2 = [bc_addr \<mapsto> 0, demo_addr \<mapsto> 1]" "sta_at sp2 1 = (sta_alloc demo_addr)\<lparr>mac_id := mid\<rparr>"
    using fresh_alloc [OF s1(1,2) a(2) _ u] unfolding s1(4) by blast
  define sp3 where "sp3 = sta_set sp2 0 ((sta_at sp2 0)\<lparr>sta_state := 1\<rparr>)"
  define sp4 where "sp4 = sta_set sp3 1 ((sta_at sp2 1)\<lparr>sta_state := 1, aid := 1, has_legacy_ac := 1\<rparr>)"
  have len: "length (pstainfo_buf sp2) = 32" "\<And>i. i < 32 \<Longrightarrow> aid (sta_at sp2 i) < 32 \<and> sta_tx_ok (sta_at sp2 i)"
    using s2(1) by (simp_all add: sta_wf_def)
  have w3: "sta_wf sp3" "sta_tab sp3 = sta_tab sp2"
    using sta_wf_set [OF s2(1), of 0 "(sta_at sp2 0)\<lparr>sta_state := 1\<rparr>"] len(2) [of 0] by (simp_all add: sp3_def sta_tx_ok_def)
  have at3: "sta_at sp3 1 = sta_at sp2 1"
    using len by (simp add: sp3_def sta_at_set)
  have w4: "sta_wf sp4" "sta_tab sp4 = sta_tab sp2"
    using sta_wf_set [OF w3(1), of 1 "(sta_at sp2 1)\<lparr>sta_state := 1, aid := 1, has_legacy_ac := 1\<rparr>"] len(2) [of 1] w3(2) at3 by (simp_all add: sp4_def sta_tx_ok_def)
  have at: "sta_at sp4 i = (if i = 1 then (sta_at sp2 1)\<lparr>sta_state := 1, aid := 1, has_legacy_ac := 1\<rparr> else if i = 0 then (sta_at sp2 0)\<lparr>sta_state := 1\<rparr> else sta_at sp2 i)" for i
    using len by (simp add: sp4_def sp3_def sta_at_set)
  have "fresh sp4"
    using s2(2) unfolding fresh_def at by (auto simp: sp4_def sp3_def)
  moreover have "uapsd_vo (sta_at sp2 1) = 0"
    by (subst s2(4)) (simp add: sta_alloc_def rtw_init_stainfo_def)
  ultimately show ?thesis
    using w4 s2(3) at fresh_tx_wf by (intro exI [of _ sp4]) simp
qed

lemma demo_to_sta: "sta_tab sp = [bc_addr \<mapsto> 0, demo_addr \<mapsto> 1] \<Longrightarrow> to_sta sp 1 demo_xframe" "rtw_get_sta_pending (x_priority demo_xframe) = 0"
  by (simp_all add: to_sta_def demo_xframe_def demo_addr_def sta_key_def data_frame_def pool_frame_def bc_addr_def rtw_get_sta_pending_def)

theorem rtw_dequeue_xframe_correct_witness:
  "\<exists>sp sp'. tx_wf sp \<and> rtw_dequeue_xframe False sp 4 = Some (Some demo_xframe, sp') \<and> tx_wf sp' \<and> pend sp' 1 0 = []"
proof -
  obtain sp where d: "tx_wf sp" "fresh sp" "sta_tab sp = [bc_addr \<mapsto> 0, demo_addr \<mapsto> 1]"
    using demo_ap by blast
  let ?sp = "tx_push sp 1 demo_xframe"
  note p = tx_push_wf [OF d(1) demo_to_sta(1) [OF d(3)]]
  have i: "(1 :: nat) < 32"
    by simp
  note v = tx_push_views [OF tx_wfD(1) [OF d(1)] i, where f = demo_xframe]
  have q: "pend ?sp 1 0 = [demo_xframe]" "\<And>j c. j < 32 \<Longrightarrow> c < 4 \<Longrightarrow> (j, c) \<noteq> (1, 0) \<Longrightarrow> pend ?sp j c = []"
    using fresh_views(1) [OF d(2)] demo_to_sta(2) by (auto simp: v simp del: One_nat_def)
  have s: "set (wmm_para_seq (xmitpriv ?sp)) \<subseteq> {..<4}"
    using d(2) by (simp add: tx_push_def Let_def hw_set_def fresh_def demo_sp_def)
  have o: "[0, 1, 2, 3] = take 4 (if False then wmm_para_seq (xmitpriv ?sp) else [0, 1, 2, 3])"
    by simp
  obtain r sp' where r: "rtw_dequeue_xframe False ?sp 4 = Some (r, sp')" "tx_wf sp'"
    "case r of None \<Rightarrow> sp' = ?sp \<and> (\<forall>ac \<in> set [0, 1, 2, 3]. \<forall>i < 32. pend ?sp i ac = [])
     | Some f \<Rightarrow> \<exists>k < length [0, 1, 2, 3 :: nat]. \<exists>i \<in> set (hwq ?sp ([0, 1, 2, 3] ! k)). pend ?sp i ([0, 1, 2, 3] ! k) = f # pend sp' i ([0, 1, 2, 3] ! k) \<and>
         (\<forall>m < k. \<forall>j < 32. pend ?sp j ([0, 1, 2, 3] ! m) = []) \<and> (\<forall>j c. (j, c) \<noteq> (i, [0, 1, 2, 3] ! k) \<longrightarrow> pend sp' j c = pend ?sp j c) \<and>
         tx_ids ?sp = add_mset (xid f) (tx_ids sp')"
    using rtw_dequeue_xframe_correct [OF p(1) o s] by blast
  show ?thesis
  proof (cases r)
    case None
    then show ?thesis
      using r(3) q(1) i by auto
  next
    case (Some f)
    then obtain k i where k: "k < length [0, 1, 2, 3 :: nat]" "i \<in> set (hwq ?sp ([0, 1, 2, 3] ! k))" "pend ?sp i ([0, 1, 2, 3] ! k) = f # pend sp' i ([0, 1, 2, 3] ! k)"
      using r(3) unfolding Some option.case by blast
    have "[0, 1, 2, 3 :: nat] ! k < 4"
      using k(1) by (auto simp: numeral_eq_Suc less_Suc_eq)
    then have "i < 32" "(i, [0, 1, 2, 3 :: nat] ! k) = (1, 0)"
      using k(2,3) tx_wfD(8) [OF p(1)] q(2) by (auto, fastforce+)
    then show ?thesis
      using r(1,2) Some p(1) k(3) q(1) by auto
  qed
qed

end
