(* ===== verification/Ap_Sleep.thy ===== *)
theory Ap_Sleep
  imports Xmit_Queue
begin

text \<open>
  Power saving of stations in access point mode, from \<^verbatim>\<open>core/rtw_xmit.c\<close>: frames for a station that sleeps are buffered in
  its \<open>sleep_q\<close> and announced in the TIM (\<open>xmitframe_enqueue_for_sleeping_sta\<close>, \<open>stop_sta_xmit\<close>), and sent when it
  wakes up or asks for them (\<open>wakeup_sta_to_xmit\<close>, \<open>xmit_delivery_enabled_frames\<close>); broadcast frames wait until nobody sleeps
  or until the next beacon (\<open>chk_bmc_sleepq_hdl\<close> of \<^verbatim>\<open>core/rtw_mlme_ext.c\<close>). The theorems show that no frame is lost or doubled,
  that nothing but answers to a request is queued for a station that sleeps, and that waking up sends everything in order.
\<close>

section \<open>Operations\<close>

text \<open>\<open>BIT(aid)\<close> in a 16-bit map; a shift by 32 or more is undefined.\<close>

definition aid_bit :: "u32 \<Rightarrow> u16 option" where
  "aid_bit a = (if a < 32 then Some (push_bit (unat a) 1) else None)"

text \<open>The \<open>uapsd\<close> flags for a priority.\<close>

definition uapsd_of :: "sta_info \<Rightarrow> u8 \<Rightarrow> u8" where
  "uapsd_of s up = (if up = 1 \<or> up = 2 then uapsd_bk s else if up = 4 \<or> up = 5 then uapsd_vi s
     else if up = 6 \<or> up = 7 then uapsd_vo s else uapsd_be s)"

text \<open>\<open>hiq\<close> is the registry entry \<open>hiq_filter\<close>; the interface is USB.\<close>

definition xmitframe_hiq_filter :: "u8 \<Rightarrow> xframe \<Rightarrow> bool" where
  "xmitframe_hiq_filter hiq f \<longleftrightarrow>
     (if hiq = 1 then x_ether_type f = 0x0806 \<or> x_ether_type f = 0x888e \<or> x_dhcp_pkt f \<noteq> 0 else hiq = 0)"

text \<open>\<open>ap\<close> says that the adapter is an access point. The answer is whether the frame was buffered; the frame is returned because
  its queue may have been changed.\<close>

definition xmitframe_enqueue_for_sleeping_sta ::
  "bool \<Rightarrow> u8 \<Rightarrow> sta_priv \<Rightarrow> xframe \<Rightarrow> (bool \<times> xframe \<times> sta_priv \<times> rx_act list) option" where
  "xmitframe_enqueue_for_sleeping_sta ap hiq sp f = do {
     bmcst \<leftarrow> IS_MCAST (x_ra f);
     if \<not> ap then Some (False, f, sp, [])
     else do {
       psta \<leftarrow> rtw_get_stainfo sp (Some (x_ra f));
       if x_psta f \<noteq> psta then Some (False, f, sp, [])
       else case psta of None \<Rightarrow> Some (False, f, sp, [])
       | Some i \<Rightarrow> do {
           s \<leftarrow> arr (pstainfo_buf sp) i;
           if sta_state s AND 1 = 0 then Some (False, f, sp, [])
           else if x_triggered f = 1 then
             Some (False, if bmcst \<and> xmitframe_hiq_filter hiq f then f\<lparr>x_qsel := 0x11\<rparr> else f, sp, [])
           else if bmcst then
             (if sta_dz_bitmap sp \<noteq> 0 then
                let s1 = s\<lparr>sleep_q := sleep_q s @ [f], sleepq_len := sleepq_len s + 1\<rparr> in
                Some (True, f, (sta_set sp i s1)\<lparr>tim_bitmap := tim_bitmap sp OR 1, sta_dz_bitmap := sta_dz_bitmap sp OR 1\<rparr>,
                  [if tim_bitmap sp AND 1 = 0 then Update_beacon else Chk_bmc_sleepq])
              else Some (False, f, sp, []))
           else if sta_state s AND 4 \<noteq> 0 then do {
             b \<leftarrow> aid_bit (aid s);
             if sta_dz_bitmap sp AND b \<noteq> 0 then
               let wmmps = (uapsd_of s (x_priority f) AND 1 \<noteq> 0);
                   s1 = s\<lparr>sleep_q := sleep_q s @ [f], sleepq_len := sleepq_len s + 1,
                          sleepq_ac_len := (if wmmps then sleepq_ac_len s + 1 else sleepq_ac_len s)\<rparr> in
               if (has_legacy_ac s \<noteq> 0 \<and> \<not> wmmps) \<or> (has_legacy_ac s = 0 \<and> wmmps) then
                 Some (True, f, (sta_set sp i s1)\<lparr>tim_bitmap := tim_bitmap sp OR b\<rparr>, if tim_bitmap sp AND b = 0 then [Update_beacon] else [])
               else Some (True, f, sta_set sp i s1, [])
             else Some (False, f, sp, []) }
           else Some (False, f, sp, []) } } }"

text \<open>The loop over a queue of station \<open>psta\<close>: \<open>kept\<close> are the frames that stay. A frame that is buffered leaves the queue, and the
  counters of its category go down.\<close>

definition servq_dec :: "sta_priv \<Rightarrow> nat \<Rightarrow> nat \<Rightarrow> sta_priv option" where
  "servq_dec sp i ac = do {
     s \<leftarrow> arr (pstainfo_buf sp) i;
     q \<leftarrow> arr (txservq s) ac;
     h \<leftarrow> arr (hwxmits (xmitpriv sp)) ac;
     Some (hw_set (sta_set sp i (servq_set s ac (q\<lparr>qcnt := qcnt q - 1\<rparr>))) ac (h\<lparr>accnt := accnt h - 1\<rparr>)) }"

definition set_pending :: "sta_priv \<Rightarrow> nat \<Rightarrow> nat \<Rightarrow> xframe list \<Rightarrow> sta_priv option" where
  "set_pending sp i ac fs = do {
     s \<leftarrow> arr (pstainfo_buf sp) i;
     q \<leftarrow> arr (txservq s) ac;
     Some (sta_set sp i (servq_set s ac (q\<lparr>sta_pending := fs\<rparr>))) }"

fun deq_sleep_loop :: "bool \<Rightarrow> u8 \<Rightarrow> sta_priv \<Rightarrow> nat \<Rightarrow> nat \<Rightarrow> xframe list \<Rightarrow> xframe list \<Rightarrow> (sta_priv \<times> rx_act list) option" where
  "deq_sleep_loop ap hiq sp psta ac kept [] = Some (sp, [])"
| "deq_sleep_loop ap hiq sp psta ac kept (f # fs) = do {
     (moved, f1, sp1, a) \<leftarrow> xmitframe_enqueue_for_sleeping_sta ap hiq sp (f\<lparr>x_triggered := 0\<rparr>);
     if moved then do {
       sp2 \<leftarrow> set_pending sp1 psta ac (kept @ fs);
       sp3 \<leftarrow> servq_dec sp2 psta (rtw_get_sta_pending (x_priority f));
       (sp4, b) \<leftarrow> deq_sleep_loop ap hiq sp3 psta ac kept fs;
       Some (sp4, a @ b) }
     else do {
       sp2 \<leftarrow> set_pending sp1 psta ac (kept @ f1 # fs);
       (sp4, b) \<leftarrow> deq_sleep_loop ap hiq sp2 psta ac (kept @ [f1]) fs;
       Some (sp4, a @ b) } }"

definition dequeue_xmitframes_to_sleeping_queue :: "bool \<Rightarrow> u8 \<Rightarrow> sta_priv \<Rightarrow> nat \<Rightarrow> nat \<Rightarrow> (sta_priv \<times> rx_act list) option" where
  "dequeue_xmitframes_to_sleeping_queue ap hiq sp psta ac = do {
     s \<leftarrow> arr (pstainfo_buf sp) psta;
     q \<leftarrow> arr (txservq s) ac;
     deq_sleep_loop ap hiq sp psta ac [] (sta_pending q) }"

text \<open>\<open>rtw_list_delete\<close> of \<open>tx_pending\<close>.\<close>

definition hw_unlink :: "sta_priv \<Rightarrow> nat \<Rightarrow> nat \<Rightarrow> sta_priv option" where
  "hw_unlink sp i ac = do { h \<leftarrow> arr (hwxmits (xmitpriv sp)) ac; Some (hw_set sp ac (h\<lparr>sta_queue := removeAll i (sta_queue h)\<rparr>)) }"

fun stop_acs :: "bool \<Rightarrow> u8 \<Rightarrow> sta_priv \<Rightarrow> nat \<Rightarrow> nat list \<Rightarrow> (sta_priv \<times> rx_act list) option" where
  "stop_acs ap hiq sp psta [] = Some (sp, [])"
| "stop_acs ap hiq sp psta (ac # acs) = do {
     (sp1, a) \<leftarrow> dequeue_xmitframes_to_sleeping_queue ap hiq sp psta ac;
     sp2 \<leftarrow> hw_unlink sp1 psta ac;
     (sp3, b) \<leftarrow> stop_acs ap hiq sp2 psta acs;
     Some (sp3, a @ b) }"

text \<open>The broadcast station is used without a test for NULL.\<close>

definition stop_sta_xmit :: "bool \<Rightarrow> u8 \<Rightarrow> sta_priv \<Rightarrow> nat \<Rightarrow> (sta_priv \<times> rx_act list) option" where
  "stop_sta_xmit ap hiq sp psta = do {
     psta_bmc \<leftarrow> rtw_get_bcmc_stainfo sp;
     s \<leftarrow> arr (pstainfo_buf sp) psta;
     b \<leftarrow> aid_bit (aid s);
     (sp1, a1) \<leftarrow> stop_acs ap hiq ((sta_set sp psta (s\<lparr>sta_state := sta_state s OR 4\<rparr>))\<lparr>sta_dz_bitmap := sta_dz_bitmap sp OR b\<rparr>) psta [0, 1, 2, 3];
     bmc \<leftarrow> psta_bmc;
     (sp2, a2) \<leftarrow> stop_acs ap hiq sp1 bmc [2];
     Some (sp2, a1 @ a2) }"

text \<open>The loops that empty a \<open>sleep_q\<close>. \<open>More data\<close> is set on all but the last frame; the last frame of a service period for
  trigger-enabled categories has \<open>eosp\<close>.\<close>

definition wake_frame :: "bool \<Rightarrow> u32 \<Rightarrow> u32 \<Rightarrow> xframe \<Rightarrow> xframe" where
  "wake_frame trig n acn f = (let f1 = f\<lparr>x_mdata := (if n > 0 then 1 else 0)\<rparr>;
     f2 = (if trig then (if acn > 0 then f1\<lparr>x_mdata := 1, x_eosp := 0\<rparr> else f1\<lparr>x_mdata := 0, x_eosp := 1\<rparr>) else f1) in
     f2\<lparr>x_triggered := 1\<rparr>)"

fun wake_loop :: "sta_priv \<Rightarrow> nat \<Rightarrow> xframe list \<Rightarrow> (sta_priv \<times> rx_act list) option" where
  "wake_loop sp i [] = Some (sp, [])"
| "wake_loop sp i (f # fs) = do {
     s \<leftarrow> arr (pstainfo_buf sp) i;
     let trig = (uapsd_of s (x_priority f) AND 2 \<noteq> 0);
     let n = sleepq_len s - 1;
     let acn = (if trig then sleepq_ac_len s - 1 else sleepq_ac_len s);
     (ok, sp1, a) \<leftarrow> rtl8812au_hal_xmitframe_enqueue
        (sta_set sp i (s\<lparr>sleep_q := fs, sleepq_len := n, sleepq_ac_len := acn\<rparr>)) (wake_frame trig n acn f);
     (sp2, b) \<leftarrow> wake_loop sp1 i fs;
     Some (sp2, a @ b) }"

text \<open>For broadcast frames; \<open>hiq\<close> is given when the frames may go to the high queue.\<close>

fun bmc_loop :: "u8 option \<Rightarrow> sta_priv \<Rightarrow> nat \<Rightarrow> xframe list \<Rightarrow> (sta_priv \<times> rx_act list) option" where
  "bmc_loop hiq sp i [] = Some (sp, [])"
| "bmc_loop hiq sp i (f # fs) = do {
     s \<leftarrow> arr (pstainfo_buf sp) i;
     let n = sleepq_len s - 1;
     let f1 = wake_frame False n 0 f;
     let f2 = (case hiq of None \<Rightarrow> f1 | Some h \<Rightarrow> if xmitframe_hiq_filter h f1 then f1\<lparr>x_qsel := 0x11\<rparr> else f1);
     (ok, sp1, a) \<leftarrow> rtl8812au_hal_xmitframe_enqueue (sta_set sp i (s\<lparr>sleep_q := fs, sleepq_len := n\<rparr>)) f2;
     (sp2, b) \<leftarrow> bmc_loop hiq sp1 i fs;
     Some (sp2, a @ b) }"

text \<open>\<open>WIFI_SLEEP_STATE\<close> is 4, \<open>WIFI_STA_ALIVE_CHK_STATE\<close> is 0x400. The flag says that the TIM has to change.\<close>

definition wake_done :: "sta_priv \<Rightarrow> nat \<Rightarrow> (bool \<times> sta_priv) option" where
  "wake_done sp psta = do {
     s \<leftarrow> arr (pstainfo_buf sp) psta;
     if sleepq_len s = 0 then do {
       b \<leftarrow> aid_bit (aid s);
       let s1 = (if sta_state s AND 4 \<noteq> 0 then s\<lparr>sta_state := sta_state s XOR 4\<rparr> else s);
       let s2 = (if sta_state s1 AND 0x400 \<noteq> 0 then s1\<lparr>expire_to := sp_expire_to sp, sta_state := sta_state s1 XOR 0x400\<rparr> else s1);
       Some (tim_bitmap sp AND b \<noteq> 0,
         (sta_set sp psta s2)\<lparr>tim_bitmap := tim_bitmap sp AND NOT b, sta_dz_bitmap := sta_dz_bitmap sp AND NOT b\<rparr>) }
     else Some (False, sp) }"

definition wake_bmc :: "sta_priv \<Rightarrow> nat \<Rightarrow> (bool \<times> sta_priv \<times> rx_act list) option" where
  "wake_bmc sp bmc =
     (if sta_dz_bitmap sp AND 0xfffe = 0 then do {
        s \<leftarrow> arr (pstainfo_buf sp) bmc;
        (sp1, a) \<leftarrow> bmc_loop None sp bmc (sleep_q s);
        s1 \<leftarrow> arr (pstainfo_buf sp1) bmc;
        if sleepq_len s1 = 0 then
          Some (tim_bitmap sp1 AND 1 \<noteq> 0, sp1\<lparr>tim_bitmap := tim_bitmap sp1 AND NOT 1, sta_dz_bitmap := sta_dz_bitmap sp1 AND NOT 1\<rparr>, a)
        else Some (False, sp1, a) }
      else Some (False, sp, []))"

definition wakeup_sta_to_xmit :: "sta_priv \<Rightarrow> nat \<Rightarrow> (sta_priv \<times> rx_act list) option" where
  "wakeup_sta_to_xmit sp psta = do {
     psta_bmc \<leftarrow> rtw_get_bcmc_stainfo sp;
     s \<leftarrow> arr (pstainfo_buf sp) psta;
     (sp1, a1) \<leftarrow> wake_loop sp psta (sleep_q s);
     (m0, sp2) \<leftarrow> wake_done sp1 psta;
     (m1, sp3, a2) \<leftarrow> (case psta_bmc of None \<Rightarrow> Some (False, sp2, []) | Some bmc \<Rightarrow> wake_bmc sp2 bmc);
     Some (sp3, a1 @ a2 @ (if m0 \<or> m1 then [Update_beacon] else [])) }"

text \<open>A service period: only frames of trigger-enabled categories are sent; \<open>kept\<close> are the others.\<close>

fun delivery_loop :: "sta_priv \<Rightarrow> nat \<Rightarrow> xframe list \<Rightarrow> xframe list \<Rightarrow> (sta_priv \<times> rx_act list) option" where
  "delivery_loop sp i kept [] = Some (sp, [])"
| "delivery_loop sp i kept (f # fs) = do {
     s \<leftarrow> arr (pstainfo_buf sp) i;
     if uapsd_of s (x_priority f) AND 2 = 0 then delivery_loop sp i (kept @ [f]) fs
     else do {
       let acn = sleepq_ac_len s - 1;
       let f1 = (if acn > 0 then f\<lparr>x_mdata := 1, x_eosp := 0\<rparr> else f\<lparr>x_mdata := 0, x_eosp := 1\<rparr>);
       (ok, sp1, a) \<leftarrow> rtl8812au_hal_xmitframe_enqueue
         (sta_set sp i (s\<lparr>sleep_q := kept @ fs, sleepq_len := sleepq_len s - 1, sleepq_ac_len := acn\<rparr>)) (f1\<lparr>x_triggered := 1\<rparr>);
       s1 \<leftarrow> arr (pstainfo_buf sp1) i;
       (sp2, b) \<leftarrow> (if sleepq_ac_len s1 = 0 \<and> has_legacy_ac s1 = 0 then do {
            t \<leftarrow> aid_bit (aid s1);
            Some (sp1\<lparr>tim_bitmap := tim_bitmap sp1 AND NOT t\<rparr>, [Update_beacon]) }
          else Some (sp1, []));
       (sp3, c) \<leftarrow> delivery_loop sp2 i kept fs;
       Some (sp3, a @ b @ c) } }"

definition xmit_delivery_enabled_frames :: "sta_priv \<Rightarrow> nat \<Rightarrow> (sta_priv \<times> rx_act list) option" where
  "xmit_delivery_enabled_frames sp psta = do { s \<leftarrow> arr (pstainfo_buf sp) psta; delivery_loop sp psta [] (sleep_q s) }"

definition chk_bmc_sleepq_hdl :: "u8 \<Rightarrow> sta_priv \<Rightarrow> (sta_priv \<times> rx_act list) option" where
  "chk_bmc_sleepq_hdl hiq sp = do {
     psta_bmc \<leftarrow> rtw_get_bcmc_stainfo sp;
     case psta_bmc of None \<Rightarrow> Some (sp, [])
     | Some bmc \<Rightarrow> do {
         s \<leftarrow> arr (pstainfo_buf sp) bmc;
         if tim_bitmap sp AND 1 \<noteq> 0 \<and> sleepq_len s > 0 then do {
           (sp1, a) \<leftarrow> bmc_loop (Some hiq) sp bmc (sleep_q s);
           Some (sp1, a @ [Chk_hi_queue]) }
         else Some (sp, []) } }"

text \<open>The end of \<open>rtw_xmit\<close>, when \<open>update_attrib\<close> has filled in the attributes of the frame: the queue is chosen, then the frame is
  buffered or given to the chip driver. The answer is 1 when the frame was queued.\<close>

definition do_queue_select :: "xframe \<Rightarrow> xframe" where
  "do_queue_select f = f\<lparr>x_qsel := x_priority f\<rparr>"

definition rtw_xmit_send :: "bool \<Rightarrow> u8 \<Rightarrow> bool \<Rightarrow> bool \<Rightarrow> bool \<Rightarrow> sta_priv \<Rightarrow> xframe \<Rightarrow> (nat \<times> sta_priv \<times> rx_act list) option" where
  "rtw_xmit_send ap hiq busy xbuf direct sp f = do {
     (queued, f1, sp1, a) \<leftarrow> xmitframe_enqueue_for_sleeping_sta ap hiq sp (do_queue_select f);
     if queued then Some (1, sp1, a)
     else do { (r, sp2, b) \<leftarrow> pre_xmitframe busy xbuf direct sp1 f1; Some (if r then 0 else 1, sp2, a @ b) } }"

section \<open>Buffering one frame\<close>

lemma aid_bit_some: "a < 32 \<Longrightarrow> aid_bit a = Some (push_bit (unat a) 1)"
  by (simp add: aid_bit_def)

lemma sta_wf_aid: "sta_wf sp \<Longrightarrow> i < 32 \<Longrightarrow> aid (sta_at sp i) < 32"
  by (simp add: sta_wf_def)

lemma to_sta_mcast:
  assumes "sta_wf sp" "to_sta sp i f"
  shows "IS_MCAST (x_ra f) = Some (hwaddr (sta_at sp i) = bc_addr)"
proof -
  have len: "length (x_ra f) = 6" and tab: "sta_tab sp (sta_key (x_ra f)) = Some i"
    using assms(2) by (simp_all add: to_sta_def)
  then have hw: "hwaddr (sta_at sp i) = sta_key (x_ra f)"
    using sta_tab_Some [OF assms(1)] by simp
  have "(hd (x_ra f) AND 1 \<noteq> 0) \<longleftrightarrow> sta_key (x_ra f) = bc_addr"
    by (auto simp: sta_key_def bc_addr_def)
  then show ?thesis
    using len hw by (cases "x_ra f") (auto simp: IS_MCAST_def rd8_def)
qed

text \<open>Whether frames for a station are buffered.\<close>

definition buffers :: "bool \<Rightarrow> sta_priv \<Rightarrow> nat \<Rightarrow> bool" where
  "buffers ap sp i \<longleftrightarrow> (let s = sta_at sp i in ap \<and> sta_state s AND 1 \<noteq> 0 \<and>
     (if hwaddr s = bc_addr then sta_dz_bitmap sp \<noteq> 0 else sta_state s AND 4 \<noteq> 0 \<and> sta_dz_bitmap sp AND push_bit (unat (aid s)) 1 \<noteq> 0))"

definition sleep_push :: "sta_priv \<Rightarrow> nat \<Rightarrow> xframe \<Rightarrow> sta_priv" where
  "sleep_push sp i f = (let s = sta_at sp i; b = push_bit (unat (aid s)) 1; wmmps = (uapsd_of s (x_priority f) AND 1 \<noteq> 0) in
     if hwaddr s = bc_addr then (sta_set sp i (s\<lparr>sleep_q := sleep_q s @ [f], sleepq_len := sleepq_len s + 1\<rparr>))
       \<lparr>tim_bitmap := tim_bitmap sp OR 1, sta_dz_bitmap := sta_dz_bitmap sp OR 1\<rparr>
     else (sta_set sp i (s\<lparr>sleep_q := sleep_q s @ [f], sleepq_len := sleepq_len s + 1,
              sleepq_ac_len := (if wmmps then sleepq_ac_len s + 1 else sleepq_ac_len s)\<rparr>))
       \<lparr>tim_bitmap := (if (has_legacy_ac s \<noteq> 0) \<noteq> wmmps then tim_bitmap sp OR b else tim_bitmap sp)\<rparr>)"

lemma sleep_enqueue:
  assumes "sta_wf sp" "to_sta sp i f" "x_triggered f \<noteq> 1"
  shows "\<exists>a. xmitframe_enqueue_for_sleeping_sta ap hiq sp f = Some (if buffers ap sp i then (True, f, sleep_push sp i f, a) else (False, f, sp, []))"
  using to_sta_get [OF assms(1,2)] to_sta_mcast [OF assms(1,2)] sta_wf_buf(3) [OF assms(1), of i] sta_wf_aid [OF assms(1), of i] assms(3)
  by (auto simp: xmitframe_enqueue_for_sleeping_sta_def buffers_def sleep_push_def aid_bit_some Let_def)

lemma sleep_enqueue_triggered:
  assumes "sta_wf sp" "to_sta sp i f" "x_triggered f = 1"
  shows "\<exists>q. xmitframe_enqueue_for_sleeping_sta ap hiq sp f = Some (False, f\<lparr>x_qsel := q\<rparr>, sp, [])"
  using to_sta_get [OF assms(1,2)] to_sta_mcast [OF assms(1,2)] sta_wf_buf(3) [OF assms(1), of i] assms(3)
  by (cases "ap \<and> sta_state (sta_at sp i) AND 1 \<noteq> 0 \<and> hwaddr (sta_at sp i) = bc_addr \<and> xmitframe_hiq_filter hiq f")
    (auto simp: xmitframe_enqueue_for_sleeping_sta_def intro: exI [of _ "x_qsel f"] exI [of _ "0x11"])

text \<open>What the queues leave alone in a station.\<close>

definition sta_core :: "sta_info \<Rightarrow> sta_info" where
  "sta_core s = s\<lparr>txservq := [], sleep_q := [], sleepq_len := 0, sleepq_ac_len := 0\<rparr>"

lemma sta_core_same:
  "hwaddr (sta_core s) = hwaddr s" "aid (sta_core s) = aid s" "sta_state (sta_core s) = sta_state s" "has_legacy_ac (sta_core s) = has_legacy_ac s"
  "uapsd_of (sta_core s) = uapsd_of s" "mac_id (sta_core s) = mac_id s"
  by (simp_all add: sta_core_def uapsd_of_def fun_eq_iff)

lemma sta_core_fields:
  assumes "sta_core s' = sta_core s"
  shows "hwaddr s' = hwaddr s" "aid s' = aid s" "sta_state s' = sta_state s" "has_legacy_ac s' = has_legacy_ac s" "uapsd_of s' = uapsd_of s"
    "mac_id s' = mac_id s"
  using assms sta_core_same [of s] sta_core_same [of s'] by simp_all

lemma sta_core_upd [simp]:
  "sta_core (s\<lparr>sleep_q := x\<rparr>) = sta_core s" "sta_core (s\<lparr>sleepq_len := n\<rparr>) = sta_core s" "sta_core (s\<lparr>sleepq_ac_len := n\<rparr>) = sta_core s"
  "sta_core (servq_set s ac q) = sta_core s"
  by (simp_all add: sta_core_def servq_set_def)

text \<open>A change of the queues of one station: its counters fit, its frames are addressed to it, the hardware counters
  and links follow. It keeps the invariant, and the objects change as the station's objects do.\<close>

definition tx_change :: "sta_priv \<Rightarrow> nat \<Rightarrow> sta_priv \<Rightarrow> bool" where
  "tx_change sp i sp' \<longleftrightarrow> (\<forall>j. j \<noteq> i \<longrightarrow> sta_at sp' j = sta_at sp j) \<and> sta_core (sta_at sp' i) = sta_core (sta_at sp i) \<and>
     sta_tab sp' = sta_tab sp \<and> tx_wf sp'"

lemma tx_change_trans [trans]: "tx_change sp i sp1 \<Longrightarrow> tx_change sp1 i sp2 \<Longrightarrow> tx_change sp i sp2"
  by (simp add: tx_change_def)

lemma tx_change_buffers:
  assumes "tx_change sp i sp'" "sta_dz_bitmap sp' = sta_dz_bitmap sp"
  shows "buffers ap sp' j = buffers ap sp j"
proof -
  have "sta_core (sta_at sp' j) = sta_core (sta_at sp j)"
    using assms(1) by (cases "j = i") (simp_all add: tx_change_def)
  then show ?thesis
    using assms(2) sta_core_fields [of "sta_at sp' j" "sta_at sp j"] by (simp add: buffers_def Let_def)
qed

lemma sleep_push_form:
  "\<exists>n t d. sleep_push sp i f = sp\<lparr>pstainfo_buf := (pstainfo_buf sp)[i := (sta_at sp i)\<lparr>sleep_q := slp sp i @ [f], sleepq_len := sleepq_len (sta_at sp i) + 1,
      sleepq_ac_len := n\<rparr>], tim_bitmap := t, sta_dz_bitmap := d\<rparr>"
  by (intro exI [of _ "if hwaddr (sta_at sp i) = bc_addr \<or> uapsd_of (sta_at sp i) (x_priority f) AND 1 = 0 then sleepq_ac_len (sta_at sp i)
        else sleepq_ac_len (sta_at sp i) + 1"] exI [of _ "tim_bitmap (sleep_push sp i f)"] exI [of _ "sta_dz_bitmap (sleep_push sp i f)"])
    (simp add: sleep_push_def Let_def sta_set_def slp_def)

lemma sleep_push_dz: "sta_dz_bitmap (sleep_push sp i f) = (if hwaddr (sta_at sp i) = bc_addr then sta_dz_bitmap sp OR 1 else sta_dz_bitmap sp)"
  by (simp add: sleep_push_def Let_def)

lemma tim_fields [simp]:
  "sta_at (sp\<lparr>tim_bitmap := t\<rparr>) = sta_at sp" "sta_at (sp\<lparr>sta_dz_bitmap := t\<rparr>) = sta_at sp"
  "sta_tab (sp\<lparr>tim_bitmap := t\<rparr>) = sta_tab sp" "sta_tab (sp\<lparr>sta_dz_bitmap := t\<rparr>) = sta_tab sp"
  "tx_wf (sp\<lparr>tim_bitmap := t\<rparr>) = tx_wf sp" "tx_wf (sp\<lparr>sta_dz_bitmap := t\<rparr>) = tx_wf sp"
  "sta_wf (sp\<lparr>tim_bitmap := t\<rparr>) = sta_wf sp" "sta_wf (sp\<lparr>sta_dz_bitmap := t\<rparr>) = sta_wf sp"
  "tx_ids (sp\<lparr>tim_bitmap := t\<rparr>) = tx_ids sp" "tx_ids (sp\<lparr>sta_dz_bitmap := t\<rparr>) = tx_ids sp"
  "pend (sp\<lparr>tim_bitmap := t\<rparr>) = pend sp" "pend (sp\<lparr>sta_dz_bitmap := t\<rparr>) = pend sp"
  "slp (sp\<lparr>tim_bitmap := t\<rparr>) = slp sp" "slp (sp\<lparr>sta_dz_bitmap := t\<rparr>) = slp sp"
  "hwq (sp\<lparr>tim_bitmap := t\<rparr>) = hwq sp" "hwq (sp\<lparr>sta_dz_bitmap := t\<rparr>) = hwq sp"
  by (simp_all add: fun_eq_iff sta_at_def sta_tab_def live_def tx_wf_def sta_wf_def slp_def pend_def pend_cnt_def hwq_def hwcnt_def
      to_sta_def [abs_def] tx_ids_def)

lemma tx_put_change:
  assumes "tx_wf sp" "i < 32" "sta_core s = sta_core (sta_at sp i)" "length (txservq s) = 4"
    "sleepq_len s = of_nat (length (sleep_q s))" "list_all (to_sta sp i) (sleep_q s)"
    "\<And>ac. ac < 4 \<Longrightarrow> qcnt (txservq s ! ac) = int (length (sta_pending (txservq s ! ac))) \<and>
       list_all (\<lambda>f. to_sta sp i f \<and> rtw_get_sta_pending (x_priority f) = ac) (sta_pending (txservq s ! ac))"
    "length hs = 4"
    "\<And>ac. ac < 4 \<Longrightarrow> distinct (sta_queue (hs ! ac)) \<and> set (sta_queue (hs ! ac)) \<subseteq> {..<32} \<and> set (hwq sp ac) \<subseteq> insert i (set (sta_queue (hs ! ac))) \<and>
       accnt (hs ! ac) + pend_cnt sp i ac = qcnt (txservq s ! ac) + hwcnt sp ac \<and> (sta_pending (txservq s ! ac) \<noteq> [] \<longrightarrow> i \<in> set (sta_queue (hs ! ac)))"
    "sp' = sp\<lparr>pstainfo_buf := (pstainfo_buf sp)[i := s], xmitpriv := (xmitpriv sp)\<lparr>hwxmits := hs\<rparr>, tim_bitmap := t, sta_dz_bitmap := d\<rparr>"
  shows "tx_change sp i sp'" "tx_ids sp' + sta_ids (sta_at sp i) = tx_ids sp + sta_ids s"
    "pend sp' i = (\<lambda>ac. sta_pending (txservq s ! ac))" "slp sp' i = sleep_q s" "\<And>ac. hwq sp' ac = sta_queue (hs ! ac)" "sta_at sp' i = s"
proof -
  note wf = tx_wfD(1) [OF assms(1)]
  have at: "sta_at sp' j = (if j = i then s else sta_at sp j)" for j
    using assms(2) sta_wf_buf(1) [OF wf] by (simp add: assms(10) sta_at_def)
  show v: "pend sp' i = (\<lambda>ac. sta_pending (txservq s ! ac))" "slp sp' i = sleep_q s" "\<And>ac. hwq sp' ac = sta_queue (hs ! ac)" "sta_at sp' i = s"
    by (simp_all add: pend_def slp_def hwq_def at fun_eq_iff) (simp add: assms(10))
  have "list_all data_frame (sta_pending q)" if "q \<in> set (txservq s)" for q
    using that assms(4) assms(7) by (fastforce simp: in_set_conv_nth list_all_iff to_sta_def)
  then have "sta_tx_ok s"
    using assms(4,6) by (auto simp: sta_tx_ok_def list_all_iff to_sta_def)
  then have st: "sta_wf (sta_set sp i s)" "sta_tab (sta_set sp i s) = sta_tab sp"
    using sta_wf_set [OF wf assms(2), of s] sta_core_fields(1,2) [OF assms(3)] sta_wf_aid [OF wf assms(2)] by simp_all
  have tab: "sta_tab sp' = sta_tab sp"
    using st(2) by (simp add: sta_tab_def live_def assms(10) sta_set_def sta_at_def)
  have wf': "sta_wf sp'"
    using st(1) assms(8) by (simp add: sta_wf_def live_def assms(10) sta_set_def sta_at_def)
  have pool: "pool_wf (xmitpriv sp') = pool_wf (xmitpriv sp)" "pool_ids (xmitpriv sp') = pool_ids (xmitpriv sp)"
    by (simp_all add: assms(10) pool_wf_def pool_ids_def)
  have cnt: "pend_cnt sp' i ac = qcnt (txservq s ! ac)" "hwcnt sp' ac = accnt (hs ! ac)" for ac
    by (simp_all add: pend_cnt_def hwcnt_def at) (simp add: assms(10))
  have "tx_wf sp'"
    by (rule tx_wf_upd [OF assms(1,2) wf' _ tab]) (use assms(5-7,9) tx_wfD(2) [OF assms(1)] in \<open>simp_all add: v cnt at pool(1)\<close>)
  then show "tx_change sp i sp'"
    using tab at assms(3) by (simp add: tx_change_def)
  show "tx_ids sp' + sta_ids (sta_at sp i) = tx_ids sp + sta_ids s"
    using tx_ids_upd [OF assms(2), of sp' sp] at pool(2) by simp
qed

lemma to_sta_attr [simp]:
  "to_sta sp i (f\<lparr>x_triggered := v\<rparr>) = to_sta sp i f" "to_sta sp i (f\<lparr>x_qsel := v\<rparr>) = to_sta sp i f"
  "to_sta sp i (f\<lparr>x_mdata := v\<rparr>) = to_sta sp i f" "to_sta sp i (f\<lparr>x_eosp := v\<rparr>) = to_sta sp i f"
  by (simp_all add: to_sta_def data_frame_def)

lemma sta_ids_update:
  assumes "ac < length (txservq s)"
  shows "sta_ids (servq_set (s\<lparr>sleep_q := fs, sleepq_len := m, sleepq_ac_len := n\<rparr>) ac q) +
      image_mset xid (mset (sleep_q s @ sta_pending (txservq s ! ac))) = sta_ids s + image_mset xid (mset (fs @ sta_pending q))"
  using sta_ids_servq_set [OF assms, of q] by (simp add: sta_ids_def servq_set_def ac_simps)

lemma sleep_move_step:
  assumes "tx_wf sp" "i < 32" "ac < 4" "pend sp i ac = kept @ f # fs" "f' = f\<lparr>x_triggered := 0\<rparr>"
  shows "\<exists>sp2 sp3. set_pending (sleep_push sp i f') i ac (kept @ fs) = Some sp2 \<and> servq_dec sp2 i ac = Some sp3 \<and> tx_change sp i sp3 \<and>
    tx_ids sp3 = tx_ids sp \<and> pend sp3 i = (pend sp i)(ac := kept @ fs) \<and> slp sp3 i = slp sp i @ [f'] \<and> (\<forall>c < 4. hwq sp3 c = hwq sp c) \<and>
    sta_dz_bitmap sp3 = sta_dz_bitmap (sleep_push sp i f') \<and> tim_bitmap sp3 = tim_bitmap (sleep_push sp i f')"
proof -
  note wf = tx_wfD(1) [OF assms(1)]
  let ?s = "sta_at sp i" and ?q = "txservq (sta_at sp i) ! ac" and ?h = "hwxmits (xmitpriv sp) ! ac"
  obtain n t d where p: "sleep_push sp i f' = sp\<lparr>pstainfo_buf := (pstainfo_buf sp)[i := ?s\<lparr>sleep_q := slp sp i @ [f'], sleepq_len := sleepq_len ?s + 1,
      sleepq_ac_len := n\<rparr>], tim_bitmap := t, sta_dz_bitmap := d\<rparr>"
    using sleep_push_form by blast
  define s3 where "s3 = servq_set (?s\<lparr>sleep_q := slp sp i @ [f'], sleepq_len := sleepq_len ?s + 1, sleepq_ac_len := n\<rparr>) ac
    (?q\<lparr>sta_pending := kept @ fs, qcnt := qcnt ?q - 1\<rparr>)"
  define hs where "hs = (hwxmits (xmitpriv sp))[ac := ?h\<lparr>accnt := accnt ?h - 1\<rparr>]"
  define sp3 where "sp3 = sp\<lparr>pstainfo_buf := (pstainfo_buf sp)[i := s3], xmitpriv := (xmitpriv sp)\<lparr>hwxmits := hs\<rparr>,
    tim_bitmap := t, sta_dz_bitmap := d\<rparr>"
  have len: "length (pstainfo_buf sp) = 32" "length (txservq ?s) = 4" "length (hwxmits (xmitpriv sp)) = 4"
    using sta_wf_buf [OF wf] assms(2) by simp_all
  define sp2 where "sp2 = sp\<lparr>pstainfo_buf := (pstainfo_buf sp)[i := servq_set (?s\<lparr>sleep_q := slp sp i @ [f'], sleepq_len := sleepq_len ?s + 1,
      sleepq_ac_len := n\<rparr>) ac (?q\<lparr>sta_pending := kept @ fs\<rparr>)],
    tim_bitmap := t, sta_dz_bitmap := d\<rparr>"
  have "set_pending (sleep_push sp i f') i ac (kept @ fs) = Some sp2"
    unfolding p set_pending_def sp2_def using assms(2,3) len by (simp add: arr_def sta_set_def servq_set_def)
  moreover have "servq_dec sp2 i ac = Some sp3"
    using assms(2,3) len by (simp add: servq_dec_def sp2_def sp3_def arr_def sta_set_def servq_set_def hw_set_def s3_def hs_def)
  moreover have old: "list_all (to_sta sp i) (slp sp i)" "sleepq_len ?s = of_nat (length (slp sp i))" "to_sta sp i f"
    using tx_wfD(3,4) [OF assms(1,2)] tx_wfD(6) [OF assms(1-3)] assms(4) by simp_all
  have q3: "txservq s3 ! c = (if c = ac then ?q\<lparr>sta_pending := kept @ fs, qcnt := qcnt ?q - 1\<rparr> else txservq ?s ! c)" for c
    using assms(3) len(2) by (simp add: s3_def servq_set_def nth_list_update)
  have h3: "sta_queue (hs ! c) = hwq sp c" "accnt (hs ! c) = hwcnt sp c - (if c = ac then 1 else 0)" if "c < 4" for c
    using that assms(3) len(3) by (simp_all add: hs_def nth_list_update hwq_def hwcnt_def)
  note put = tx_put_change [OF assms(1,2) _ _ _ _ _ _ _ sp3_def]
  have c1: "sta_core s3 = sta_core ?s" "length (txservq s3) = 4" "sleepq_len s3 = of_nat (length (sleep_q s3))"
      "list_all (to_sta sp i) (sleep_q s3)" "length hs = 4"
    using len old assms(5) by (simp_all add: s3_def servq_set_def [of "_ :: sta_info"] hs_def)
      (simp_all add: sta_core_def)
  have c2: "qcnt (txservq s3 ! c) = int (length (sta_pending (txservq s3 ! c))) \<and>
      list_all (\<lambda>f. to_sta sp i f \<and> rtw_get_sta_pending (x_priority f) = c) (sta_pending (txservq s3 ! c))" if "c < 4" for c
    using tx_wfD(5,6) [OF assms(1,2) that] assms(4) by (auto simp: q3 pend_cnt_def pend_def)
  have c3: "distinct (sta_queue (hs ! c)) \<and> set (sta_queue (hs ! c)) \<subseteq> {..<32} \<and> set (hwq sp c) \<subseteq> insert i (set (sta_queue (hs ! c))) \<and>
       accnt (hs ! c) + pend_cnt sp i c = qcnt (txservq s3 ! c) + hwcnt sp c \<and> (sta_pending (txservq s3 ! c) \<noteq> [] \<longrightarrow> i \<in> set (sta_queue (hs ! c)))"
    if "c < 4" for c
    using tx_wfD(7,8) [OF assms(1) that] tx_wfD(10) [OF assms(1,2) that] assms(4) that by (auto simp: h3 q3 pend_cnt_def pend_def)
  note r = put [OF c1(1-4) c2 c1(5) c3]
  have "sta_ids s3 + image_mset xid (mset (slp sp i @ pend sp i ac)) = sta_ids ?s + image_mset xid (mset ((slp sp i @ [f']) @ kept @ fs))"
    using sta_ids_update [of ac ?s] assms(3) len(2) by (simp add: s3_def slp_def pend_def)
  then have "sta_ids s3 = sta_ids ?s"
    using assms(4,5) by (simp add: ac_simps)
  then have "tx_ids sp3 = tx_ids sp"
    using r(2) by simp
  moreover have "pend sp3 i = (pend sp i)(ac := kept @ fs)" "slp sp3 i = slp sp i @ [f']" "\<forall>c < 4. hwq sp3 c = hwq sp c"
    using r(3,4,5) h3(1) by (simp_all add: q3 fun_eq_iff pend_def) (simp add: s3_def servq_set_def)
  ultimately show ?thesis
    using r(1) p by (intro exI [of _ sp2] exI [of _ sp3]) (simp add: sp3_def)
qed

text \<open>The frames of a station that the TIM announces, and the bit that does it.\<close>

definition announces :: "sta_info \<Rightarrow> xframe \<Rightarrow> bool" where
  "announces s f \<longleftrightarrow> hwaddr s = bc_addr \<or> (has_legacy_ac s \<noteq> 0) \<noteq> (uapsd_of s (x_priority f) AND 1 \<noteq> 0)"

definition tim_bit :: "sta_info \<Rightarrow> u16" where
  "tim_bit s = (if hwaddr s = bc_addr then 1 else push_bit (unat (aid s)) 1)"

lemma sleep_push_tim:
  "tim_bitmap (sleep_push sp i f) = tim_bitmap sp OR (if announces (sta_at sp i) f then tim_bit (sta_at sp i) else 0)"
  by (auto simp: sleep_push_def announces_def tim_bit_def Let_def)

lemma announces_core: "sta_core s' = sta_core s \<Longrightarrow> announces s' f = announces s f \<and> tim_bit s' = tim_bit s"
  using sta_core_fields [of s' s] by (simp add: announces_def tim_bit_def)

lemma set_pending_step:
  assumes "tx_wf sp" "i < 32" "ac < 4" "pend sp i ac = kept @ f # fs" "to_sta sp i f'" "x_priority f' = x_priority f" "xid f' = xid f"
  shows "\<exists>sp2. set_pending sp i ac (kept @ f' # fs) = Some sp2 \<and> tx_change sp i sp2 \<and> tx_ids sp2 = tx_ids sp \<and>
    pend sp2 i = (pend sp i)(ac := kept @ f' # fs) \<and> slp sp2 i = slp sp i \<and> (\<forall>c. hwq sp2 c = hwq sp c) \<and>
    sta_dz_bitmap sp2 = sta_dz_bitmap sp \<and> tim_bitmap sp2 = tim_bitmap sp"
proof -
  note wf = tx_wfD(1) [OF assms(1)]
  let ?s = "sta_at sp i" and ?q = "txservq (sta_at sp i) ! ac"
  define s2 where "s2 = servq_set ?s ac (?q\<lparr>sta_pending := kept @ f' # fs\<rparr>)"
  define sp2 where "sp2 = sp\<lparr>pstainfo_buf := (pstainfo_buf sp)[i := s2], xmitpriv := (xmitpriv sp)\<lparr>hwxmits := hwxmits (xmitpriv sp)\<rparr>,
    tim_bitmap := tim_bitmap sp, sta_dz_bitmap := sta_dz_bitmap sp\<rparr>"
  have len: "length (pstainfo_buf sp) = 32" "length (txservq ?s) = 4" "length (hwxmits (xmitpriv sp)) = 4"
    using sta_wf_buf [OF wf] assms(2) by simp_all
  have set: "set_pending sp i ac (kept @ f' # fs) = Some sp2"
    using assms(2,3) len by (simp add: set_pending_def arr_def sta_set_def sp2_def s2_def sta_at_def)
  have q2: "txservq s2 ! c = (if c = ac then ?q\<lparr>sta_pending := kept @ f' # fs\<rparr> else txservq ?s ! c)" for c
    using assms(3) len(2) by (simp add: s2_def servq_set_def nth_list_update)
  have c1: "sta_core s2 = sta_core ?s" "length (txservq s2) = 4" "sleepq_len s2 = of_nat (length (sleep_q s2))" "list_all (to_sta sp i) (sleep_q s2)"
    using len tx_wfD(3,4) [OF assms(1,2)] by (simp_all add: s2_def) (simp_all add: servq_set_def slp_def)
  have c2: "qcnt (txservq s2 ! c) = int (length (sta_pending (txservq s2 ! c))) \<and>
      list_all (\<lambda>f. to_sta sp i f \<and> rtw_get_sta_pending (x_priority f) = c) (sta_pending (txservq s2 ! c))" if "c < 4" for c
    using tx_wfD(5,6) [OF assms(1,2) that] assms(4-6) by (auto simp: q2 pend_cnt_def pend_def)
  have c3: "distinct (sta_queue (hwxmits (xmitpriv sp) ! c)) \<and> set (sta_queue (hwxmits (xmitpriv sp) ! c)) \<subseteq> {..<32} \<and>
      set (hwq sp c) \<subseteq> insert i (set (sta_queue (hwxmits (xmitpriv sp) ! c))) \<and>
      accnt (hwxmits (xmitpriv sp) ! c) + pend_cnt sp i c = qcnt (txservq s2 ! c) + hwcnt sp c \<and>
      (sta_pending (txservq s2 ! c) \<noteq> [] \<longrightarrow> i \<in> set (sta_queue (hwxmits (xmitpriv sp) ! c)))" if "c < 4" for c
    using tx_wfD(7,8) [OF assms(1) that] tx_wfD(10) [OF assms(1,2) that] assms(4) that by (auto simp: q2 pend_cnt_def pend_def hwq_def hwcnt_def)
  note r = tx_put_change [OF assms(1,2) c1 c2 len(3) c3 sp2_def]
  have "sta_ids s2 = sta_ids ?s + {#}"
    unfolding s2_def by (rule sta_ids_servq_add) (use assms(3,4,7) len(2) in \<open>simp_all add: pend_def\<close>)
  then have "tx_ids sp2 = tx_ids sp"
    using r(2) by simp
  moreover have "pend sp2 i = (pend sp i)(ac := kept @ f' # fs)" "slp sp2 i = slp sp i" "\<forall>c. hwq sp2 c = hwq sp c"
    using r(3,4,5) by (simp_all add: q2 fun_eq_iff pend_def hwq_def) (simp add: s2_def servq_set_def slp_def)
  ultimately show ?thesis
    using r(1) set by (intro exI [of _ sp2]) (simp add: sp2_def)
qed

definition untrig :: "xframe \<Rightarrow> xframe" where
  "untrig f = f\<lparr>x_triggered := 0\<rparr>"

lemma untrig_same: "x_priority (untrig f) = x_priority f" "xid (untrig f) = xid f"
  by (simp_all add: untrig_def)

lemma buffers_again:
  assumes "tx_change sp i sp'" "sta_dz_bitmap sp' = (if hwaddr (sta_at sp i) = bc_addr then sta_dz_bitmap sp OR 1 else sta_dz_bitmap sp)" "buffers ap sp i"
  shows "buffers ap sp' i"
proof -
  have "sta_core (sta_at sp' i) = sta_core (sta_at sp i)"
    using assms(1) by (simp add: tx_change_def)
  then show ?thesis
    using assms(2,3) sta_core_fields [of "sta_at sp' i" "sta_at sp i"] by (simp add: buffers_def Let_def or_eq_0_iff split: if_splits)
qed

lemma deq_sleep_loop_keep:
  assumes "tx_wf sp" "i < 32" "ac < 4" "pend sp i ac = kept @ fs" "\<not> buffers ap sp i"
  shows "\<exists>sp'. deq_sleep_loop ap hiq sp i ac kept fs = Some (sp', []) \<and> tx_change sp i sp' \<and> tx_ids sp' = tx_ids sp \<and>
    (\<forall>c. pend sp' i c = (if c = ac then kept @ map untrig fs else pend sp i c)) \<and> slp sp' i = slp sp i \<and> (\<forall>c. hwq sp' c = hwq sp c) \<and>
    sta_dz_bitmap sp' = sta_dz_bitmap sp \<and> tim_bitmap sp' = tim_bitmap sp"
  using assms
proof (induction fs arbitrary: sp kept)
  case Nil
  then show ?case
    by (auto simp: tx_change_def)
next
  case (Cons f fs)
  have f: "to_sta sp i (untrig f)"
    using tx_wfD(6) [OF Cons.prems(1-3)] Cons.prems(4) by (simp add: untrig_def)
  have e: "xmitframe_enqueue_for_sleeping_sta ap hiq sp (untrig f) = Some (False, untrig f, sp, [])"
    using sleep_enqueue [OF tx_wfD(1) [OF Cons.prems(1)] f, of ap hiq] Cons.prems(5) by (auto simp: untrig_def)
  obtain sp2 where s2: "set_pending sp i ac (kept @ untrig f # fs) = Some sp2" "tx_change sp i sp2" "tx_ids sp2 = tx_ids sp"
    "(\<forall>c. pend sp2 i c = (if c = ac then kept @ untrig f # fs else pend sp i c))" "slp sp2 i = slp sp i" "\<forall>c. hwq sp2 c = hwq sp c"
    "sta_dz_bitmap sp2 = sta_dz_bitmap sp" "tim_bitmap sp2 = tim_bitmap sp"
    using set_pending_step [OF Cons.prems(1-4) f untrig_same] by (auto simp: fun_eq_iff)
  have b2: "\<not> buffers ap sp2 i" "tx_wf sp2" "pend sp2 i ac = (kept @ [untrig f]) @ fs"
    using tx_change_buffers [OF s2(2,7)] Cons.prems(5) s2(2,4) by (simp_all add: tx_change_def)
  from Cons.IH [OF b2(2) Cons.prems(2,3) b2(3,1)] obtain sp' where r: "deq_sleep_loop ap hiq sp2 i ac (kept @ [untrig f]) fs = Some (sp', [])" "tx_change sp2 i sp'" "tx_ids sp' = tx_ids sp2"
    "(\<forall>c. pend sp' i c = (if c = ac then (kept @ [untrig f]) @ map untrig fs else pend sp2 i c))" "slp sp' i = slp sp2 i" "\<forall>c. hwq sp' c = hwq sp2 c"
    "sta_dz_bitmap sp' = sta_dz_bitmap sp2" "tim_bitmap sp' = tim_bitmap sp2"
    by blast
  have "deq_sleep_loop ap hiq sp i ac kept (f # fs) = Some (sp', [])"
    using e s2(1) r(1) by (simp add: untrig_def)
  then show ?case
    using tx_change_trans [OF s2(2) r(2)] r(3-8) s2(3-8) by simp
qed

lemma deq_sleep_loop_move:
  assumes "tx_wf sp" "i < 32" "ac < 4" "pend sp i ac = kept @ fs" "buffers ap sp i"
  shows "\<exists>sp' a. deq_sleep_loop ap hiq sp i ac kept fs = Some (sp', a) \<and> tx_change sp i sp' \<and> tx_ids sp' = tx_ids sp \<and>
    (\<forall>c. pend sp' i c = (if c = ac then kept else pend sp i c)) \<and> slp sp' i = slp sp i @ map untrig fs \<and> (\<forall>c < 4. hwq sp' c = hwq sp c) \<and>
    sta_dz_bitmap sp' = sta_dz_bitmap sp OR (if hwaddr (sta_at sp i) = bc_addr \<and> fs \<noteq> [] then 1 else 0) \<and>
    tim_bitmap sp' = tim_bitmap sp OR (if \<exists>f \<in> set fs. announces (sta_at sp i) f then tim_bit (sta_at sp i) else 0) \<and> buffers ap sp' i"
  using assms
proof (induction fs arbitrary: sp)
  case Nil
  then show ?case
    by (auto simp: tx_change_def)
next
  case (Cons f fs)
  have f: "to_sta sp i (untrig f)" "rtw_get_sta_pending (x_priority f) = ac"
    using tx_wfD(6) [OF Cons.prems(1-3)] Cons.prems(4) by (simp_all add: untrig_def)
  obtain a where e: "xmitframe_enqueue_for_sleeping_sta ap hiq sp (untrig f) = Some (True, untrig f, sleep_push sp i (untrig f), a)"
    using sleep_enqueue [OF tx_wfD(1) [OF Cons.prems(1)] f(1), of ap hiq] Cons.prems(5) by (auto simp: untrig_def)
  obtain sp2 sp3 where s3: "set_pending (sleep_push sp i (untrig f)) i ac (kept @ fs) = Some sp2" "servq_dec sp2 i ac = Some sp3" "tx_change sp i sp3"
    "tx_ids sp3 = tx_ids sp" "(\<forall>c. pend sp3 i c = (if c = ac then kept @ fs else pend sp i c))" "slp sp3 i = slp sp i @ [untrig f]" "\<forall>c < 4. hwq sp3 c = hwq sp c"
    "sta_dz_bitmap sp3 = sta_dz_bitmap (sleep_push sp i (untrig f))" "tim_bitmap sp3 = tim_bitmap (sleep_push sp i (untrig f))"
    using sleep_move_step [OF Cons.prems(1-4) untrig_def] by (auto simp: fun_eq_iff)
  have core: "sta_core (sta_at sp3 i) = sta_core (sta_at sp i)" "tx_wf sp3"
    using s3(3) by (simp_all add: tx_change_def)
  have p3: "pend sp3 i ac = kept @ fs"
    using s3(5) by simp
  have b3: "buffers ap sp3 i"
    using buffers_again [OF s3(3) _ Cons.prems(5)] s3(8) by (simp add: sleep_push_dz)
  from Cons.IH [OF core(2) Cons.prems(2,3) p3 b3] obtain sp' b where r: "deq_sleep_loop ap hiq sp3 i ac kept fs = Some (sp', b)" "tx_change sp3 i sp'" "tx_ids sp' = tx_ids sp3"
    "(\<forall>c. pend sp' i c = (if c = ac then kept else pend sp3 i c))" "slp sp' i = slp sp3 i @ map untrig fs" "\<forall>c < 4. hwq sp' c = hwq sp3 c"
    "sta_dz_bitmap sp' = sta_dz_bitmap sp3 OR (if hwaddr (sta_at sp3 i) = bc_addr \<and> fs \<noteq> [] then 1 else 0)"
    "tim_bitmap sp' = tim_bitmap sp3 OR (if \<exists>f \<in> set fs. announces (sta_at sp3 i) f then tim_bit (sta_at sp3 i) else 0)" "buffers ap sp' i"
    by blast
  have loop: "deq_sleep_loop ap hiq sp i ac kept (f # fs) = Some (sp', a @ b)"
    using e s3(1,2) r(1) f(2) by (simp add: untrig_def)
  have "announces (sta_at sp i) (untrig f) = announces (sta_at sp i) f"
    by (simp add: announces_def untrig_def)
  then have "tim_bitmap sp' = tim_bitmap sp OR (if \<exists>f \<in> set (f # fs). announces (sta_at sp i) f then tim_bit (sta_at sp i) else 0)"
    using r(8) s3(9) announces_core [OF core(1)] by (auto simp: sleep_push_tim or.assoc)
  moreover have "sta_dz_bitmap sp' = sta_dz_bitmap sp OR (if hwaddr (sta_at sp i) = bc_addr \<and> f # fs \<noteq> [] then 1 else 0)"
    using r(7) s3(8) sta_core_fields(1) [OF core(1)] by (auto simp: sleep_push_dz or.assoc)
  ultimately show ?case
    using loop tx_change_trans [OF s3(3) r(2)] r(3-6,9) s3(4-7) by simp
qed

lemma hw_unlink_step:
  assumes "tx_wf sp" "i < 32" "ac < 4" "pend sp i ac = []"
  shows "\<exists>sp'. hw_unlink sp i ac = Some sp' \<and> tx_change sp i sp' \<and> tx_ids sp' = tx_ids sp \<and> (\<forall>c. pend sp' i c = pend sp i c) \<and> slp sp' i = slp sp i \<and>
    (\<forall>c < 4. hwq sp' c = (if c = ac then removeAll i (hwq sp c) else hwq sp c)) \<and> sta_dz_bitmap sp' = sta_dz_bitmap sp \<and> tim_bitmap sp' = tim_bitmap sp"
proof -
  note wf = tx_wfD(1) [OF assms(1)]
  let ?h = "hwxmits (xmitpriv sp) ! ac"
  define hs where "hs = (hwxmits (xmitpriv sp))[ac := ?h\<lparr>sta_queue := removeAll i (sta_queue ?h)\<rparr>]"
  define sp' where "sp' = sp\<lparr>pstainfo_buf := (pstainfo_buf sp)[i := sta_at sp i], xmitpriv := (xmitpriv sp)\<lparr>hwxmits := hs\<rparr>,
    tim_bitmap := tim_bitmap sp, sta_dz_bitmap := sta_dz_bitmap sp\<rparr>"
  have len: "length (hwxmits (xmitpriv sp)) = 4" "length (pstainfo_buf sp) = 32" "length (txservq (sta_at sp i)) = 4"
    using sta_wf_buf [OF wf] assms(2) by simp_all
  have un: "hw_unlink sp i ac = Some sp'"
    using assms(2,3) len by (simp add: hw_unlink_def arr_def hw_set_def sp'_def hs_def sta_at_def)
  have h: "sta_queue (hs ! c) = (if c = ac then removeAll i (hwq sp c) else hwq sp c)" "accnt (hs ! c) = hwcnt sp c" for c
    using assms(3) len(1) by (simp_all add: hs_def nth_list_update hwq_def hwcnt_def)
  have c1: "sleepq_len (sta_at sp i) = of_nat (length (sleep_q (sta_at sp i)))" "list_all (to_sta sp i) (sleep_q (sta_at sp i))" "length hs = 4"
    using tx_wfD(3,4) [OF assms(1,2)] len(1) by (simp_all add: slp_def hs_def)
  have c2: "qcnt (txservq (sta_at sp i) ! c) = int (length (sta_pending (txservq (sta_at sp i) ! c))) \<and>
      list_all (\<lambda>f. to_sta sp i f \<and> rtw_get_sta_pending (x_priority f) = c) (sta_pending (txservq (sta_at sp i) ! c))" if "c < 4" for c
    using tx_wfD(5,6) [OF assms(1,2) that] by (simp add: pend_def pend_cnt_def)
  have c3: "distinct (sta_queue (hs ! c)) \<and> set (sta_queue (hs ! c)) \<subseteq> {..<32} \<and> set (hwq sp c) \<subseteq> insert i (set (sta_queue (hs ! c))) \<and>
       accnt (hs ! c) + pend_cnt sp i c = qcnt (txservq (sta_at sp i) ! c) + hwcnt sp c \<and>
       (sta_pending (txservq (sta_at sp i) ! c) \<noteq> [] \<longrightarrow> i \<in> set (sta_queue (hs ! c)))" if "c < 4" for c
    using tx_wfD(7,8) [OF assms(1) that] tx_wfD(10) [OF assms(1,2) that] assms(4) by (auto simp: h pend_cnt_def pend_def distinct_removeAll)
  note r = tx_put_change [OF assms(1,2) refl len(3) c1(1,2) c2 c1(3) c3 sp'_def]
  show ?thesis
    using un r h(1) by (intro exI [of _ sp']) (simp add: pend_def slp_def, simp add: sp'_def)
qed

lemma stop_acs_move:
  assumes "tx_wf sp" "i < 32" "set acs \<subseteq> {..<4}" "distinct acs" "buffers ap sp i"
  shows "\<exists>sp' a. stop_acs ap hiq sp i acs = Some (sp', a) \<and> tx_change sp i sp' \<and> tx_ids sp' = tx_ids sp \<and>
    (\<forall>c. pend sp' i c = (if c \<in> set acs then [] else pend sp i c)) \<and> slp sp' i = slp sp i @ concat (map (\<lambda>c. map untrig (pend sp i c)) acs) \<and>
    (\<forall>c < 4. hwq sp' c = (if c \<in> set acs then removeAll i (hwq sp c) else hwq sp c)) \<and>
    (\<exists>d. sta_dz_bitmap sp' = sta_dz_bitmap sp OR d \<and> (hwaddr (sta_at sp i) \<noteq> bc_addr \<longrightarrow> d = 0)) \<and>
    tim_bitmap sp' = tim_bitmap sp OR (if \<exists>c \<in> set acs. \<exists>f \<in> set (pend sp i c). announces (sta_at sp i) f then tim_bit (sta_at sp i) else 0)"
  using assms
proof (induction acs arbitrary: sp)
  case Nil
  then show ?case
    by (auto simp: tx_change_def intro: exI [of _ 0])
next
  case (Cons ac acs)
  then have ac: "ac < 4" "ac \<notin> set acs"
    by simp_all
  obtain sp1 a where d: "deq_sleep_loop ap hiq sp i ac [] (pend sp i ac) = Some (sp1, a)" "tx_change sp i sp1" "tx_ids sp1 = tx_ids sp"
    "\<forall>c. pend sp1 i c = (if c = ac then [] else pend sp i c)" "slp sp1 i = slp sp i @ map untrig (pend sp i ac)" "\<forall>c < 4. hwq sp1 c = hwq sp c"
    "sta_dz_bitmap sp1 = sta_dz_bitmap sp OR (if hwaddr (sta_at sp i) = bc_addr \<and> pend sp i ac \<noteq> [] then 1 else 0)"
    "tim_bitmap sp1 = tim_bitmap sp OR (if \<exists>f \<in> set (pend sp i ac). announces (sta_at sp i) f then tim_bit (sta_at sp i) else 0)" "buffers ap sp1 i"
    using deq_sleep_loop_move [OF Cons.prems(1,2) ac(1) _ Cons.prems(5), of "[]" "pend sp i ac" hiq] by auto
  have wf1: "tx_wf sp1" "pend sp1 i ac = []"
    using d(2,4) by (simp_all add: tx_change_def)
  obtain sp2 where u: "hw_unlink sp1 i ac = Some sp2" "tx_change sp1 i sp2" "tx_ids sp2 = tx_ids sp1" "\<forall>c. pend sp2 i c = pend sp1 i c" "slp sp2 i = slp sp1 i"
    "\<forall>c < 4. hwq sp2 c = (if c = ac then removeAll i (hwq sp1 c) else hwq sp1 c)" "sta_dz_bitmap sp2 = sta_dz_bitmap sp1" "tim_bitmap sp2 = tim_bitmap sp1"
    using hw_unlink_step [OF wf1(1) Cons.prems(2) ac(1) wf1(2)] by blast
  have c2: "tx_change sp i sp2" "tx_wf sp2" "buffers ap sp2 i"
    using tx_change_trans [OF d(2) u(2)] u(2) tx_change_buffers [OF u(2,7)] d(9) by (simp_all add: tx_change_def)
  then have core: "sta_core (sta_at sp2 i) = sta_core (sta_at sp i)"
    by (simp add: tx_change_def)
  have sub: "set acs \<subseteq> {..<4}" "distinct acs"
    using Cons.prems(3,4) by simp_all
  from Cons.IH [OF c2(2) Cons.prems(2) sub c2(3)] obtain sp' b e where r: "stop_acs ap hiq sp2 i acs = Some (sp', b)" "tx_change sp2 i sp'"
    "tx_ids sp' = tx_ids sp2" "\<forall>c. pend sp' i c = (if c \<in> set acs then [] else pend sp2 i c)"
    "slp sp' i = slp sp2 i @ concat (map (\<lambda>c. map untrig (pend sp2 i c)) acs)" "\<forall>c < 4. hwq sp' c = (if c \<in> set acs then removeAll i (hwq sp2 c) else hwq sp2 c)"
    "sta_dz_bitmap sp' = sta_dz_bitmap sp2 OR e" "hwaddr (sta_at sp2 i) \<noteq> bc_addr \<longrightarrow> e = 0"
    "tim_bitmap sp' = tim_bitmap sp2 OR (if \<exists>c \<in> set acs. \<exists>f \<in> set (pend sp2 i c). announces (sta_at sp2 i) f then tim_bit (sta_at sp2 i) else 0)"
    by blast
  have p2: "pend sp2 i c = (if c = ac then [] else pend sp i c)" for c
    using d(4) u(4) by simp
  have same: "map (\<lambda>c. map untrig (pend sp2 i c)) acs = map (\<lambda>c. map untrig (pend sp i c)) acs"
    using ac(2) by (auto simp: p2)
  have "arr (pstainfo_buf sp) i = Some (sta_at sp i)" "arr (txservq (sta_at sp i)) ac = Some (txservq (sta_at sp i) ! ac)"
    using sta_wf_buf [OF tx_wfD(1) [OF Cons.prems(1)]] Cons.prems(2) ac(1) by (simp_all add: arr_def [of "txservq s" for s])
  then have "dequeue_xmitframes_to_sleeping_queue ap hiq sp i ac = Some (sp1, a)"
    using d(1) by (simp add: dequeue_xmitframes_to_sleeping_queue_def pend_def)
  then have "stop_acs ap hiq sp i (ac # acs) = Some (sp', a @ b)"
    using u(1) r(1) by simp
  moreover have "slp sp' i = slp sp i @ concat (map (\<lambda>c. map untrig (pend sp i c)) (ac # acs))"
    using r(5) u(5) d(5) same by simp
  moreover have "\<forall>c < 4. hwq sp' c = (if c \<in> set (ac # acs) then removeAll i (hwq sp c) else hwq sp c)"
    using r(6) u(6) d(6) by (auto simp: removeAll_filter_not_eq)
  moreover have "tim_bitmap sp' = tim_bitmap sp OR (if \<exists>c \<in> set (ac # acs). \<exists>f \<in> set (pend sp i c). announces (sta_at sp i) f then tim_bit (sta_at sp i) else 0)"
    using r(9) u(8) d(8) announces_core [OF core] ac(2) by (auto simp: p2 or.assoc)
  moreover have "\<exists>d. sta_dz_bitmap sp' = sta_dz_bitmap sp OR d \<and> (hwaddr (sta_at sp i) \<noteq> bc_addr \<longrightarrow> d = 0)"
    using r(7,8) u(7) d(7) sta_core_fields(1) [OF core] by (auto simp: or.assoc)
  ultimately show ?case
    using tx_change_trans [OF c2(1) r(2)] r(3,4) u(3) d(3) by (auto simp: p2)
qed

lemma tx_wf_sta_set:
  assumes "tx_wf sp" "i < 32" "hwaddr s = hwaddr (sta_at sp i)" "aid s < 32" "txservq s = txservq (sta_at sp i)" "sleep_q s = sleep_q (sta_at sp i)"
    "sleepq_len s = sleepq_len (sta_at sp i)"
  shows "tx_wf (sta_set sp i s)" "tx_ids (sta_set sp i s) = tx_ids sp" "sta_tab (sta_set sp i s) = sta_tab sp" "pend (sta_set sp i s) = pend sp"
    "slp (sta_set sp i s) = slp sp" "hwq (sta_set sp i s) = hwq sp" "\<And>j. sta_at (sta_set sp i s) j = (if j = i then s else sta_at sp j)"
proof -
  note wf = tx_wfD(1) [OF assms(1)]
  show at: "sta_at (sta_set sp i s) j = (if j = i then s else sta_at sp j)" for j
    using assms(2) sta_wf_buf(1) [OF wf] by (simp add: sta_at_set)
  show v: "pend (sta_set sp i s) = pend sp" "slp (sta_set sp i s) = slp sp" "hwq (sta_set sp i s) = hwq sp"
    using assms(5,6) by (auto simp: fun_eq_iff pend_def slp_def hwq_def at)
  have "sta_tx_ok s"
    using wf assms(2,5,6) by (simp add: sta_wf_def sta_tx_ok_def)
  note st = sta_wf_set [OF wf assms(2-4) this]
  show "sta_tab (sta_set sp i s) = sta_tab sp"
    by (rule st)
  have cnt: "pend_cnt (sta_set sp i s) = pend_cnt sp" "hwcnt (sta_set sp i s) = hwcnt sp" "to_sta (sta_set sp i s) = to_sta sp"
    using assms(5) st(2) by (auto simp: fun_eq_iff pend_cnt_def hwcnt_def at to_sta_def)
  show "tx_wf (sta_set sp i s)"
    using assms(1,7) st(1) unfolding tx_wf_def v cnt by (simp add: at)
  have "sta_ids s = sta_ids (sta_at sp i)"
    using assms(5,6) by (simp add: sta_ids_def)
  then show "tx_ids (sta_set sp i s) = tx_ids sp"
    using tx_ids_upd [OF assms(2), of "sta_set sp i s" sp] by (simp add: at)
qed

lemma aid_bit_nonzero: "a < 16 \<Longrightarrow> push_bit (unat (a :: u32)) (1 :: u16) \<noteq> 0"
  by (simp add: push_bit_eq_mult word_less_nat_alt)

lemma and_or_absorb: "(x OR b OR y) AND b = (b :: 'a::len word)" "(x OR b) AND b = b"
  by (auto simp: bit_eq_iff bit_simps)

lemma and_or_nonzero:
  assumes "b \<noteq> (0 :: 'a::len word)"
  shows "(x OR b OR y) AND b \<noteq> 0" "x OR b OR y \<noteq> 0" "(x OR b) AND b \<noteq> 0"
  using assms by (auto simp: and_or_absorb or_eq_0_iff)

section \<open>An example\<close>

lemma demo_waiting:
  "\<exists>sp. tx_wf sp \<and> sta_tab sp = [bc_addr \<mapsto> 0, demo_addr \<mapsto> 1] \<and> sta_state (sta_at sp 0) = 1 \<and> sta_state (sta_at sp 1) = 1 \<and> aid (sta_at sp 1) = 1 \<and>
    uapsd_vo (sta_at sp 1) = 0 \<and> sta_dz_bitmap sp = 0 \<and> slp sp 1 = [] \<and> pend sp 1 0 = [demo_xframe] \<and> pend sp 1 1 = [] \<and> pend sp 1 2 = [] \<and> pend sp 1 3 = []"
proof -
  obtain sp where d: "tx_wf sp" "fresh sp" "sta_tab sp = [bc_addr \<mapsto> 0, demo_addr \<mapsto> 1]" "sta_state (sta_at sp 0) = 1" "sta_state (sta_at sp 1) = 1"
    "aid (sta_at sp 1) = 1" "uapsd_vo (sta_at sp 1) = 0"
    using demo_ap by blast
  have i: "(1 :: nat) < 32"
    by simp
  note v = tx_push_views [OF tx_wfD(1) [OF d(1)] i, where f = demo_xframe] and at = tx_push_at [OF tx_wfD(1) [OF d(1)] i, of demo_xframe]
  note p = tx_push_wf [OF d(1) demo_to_sta(1) [OF d(3)]]
  have "uapsd_vo (sta_at (tx_push sp 1 demo_xframe) 1) = 0" "sta_dz_bitmap sp = 0"
    using d(2,7) by (simp_all add: at servq_set_def fresh_def del: One_nat_def)
  then show ?thesis
    using p d(3-6) fresh_views [OF d(2) i, of 0] fresh_views [OF d(2) i, of 1] fresh_views [OF d(2) i, of 2] fresh_views [OF d(2) i, of 3] demo_to_sta(2)
    by (intro exI [of _ "tx_push sp 1 demo_xframe"]) (simp add: v del: One_nat_def)
qed

section \<open>Falling asleep\<close>

lemma stop_sta_xmit_spec:
  assumes "tx_wf sp" "sta_tab sp a = Some i" "a \<noteq> bc_addr" "aid (sta_at sp i) < 16" "sta_state (sta_at sp i) AND 1 \<noteq> 0"
    "sta_tab sp bc_addr = Some b" "sta_state (sta_at sp b) AND 1 \<noteq> 0"
  shows "\<exists>sp' acts. stop_sta_xmit True hiq sp i = Some (sp', acts) \<and> tx_wf sp' \<and> tx_ids sp' = tx_ids sp \<and>
    sta_state (sta_at sp' i) = sta_state (sta_at sp i) OR 4 \<and> sta_dz_bitmap sp' AND push_bit (unat (aid (sta_at sp i))) 1 \<noteq> 0 \<and>
    (\<forall>ac < 4. pend sp' i ac = [] \<and> i \<notin> set (hwq sp' ac)) \<and>
    slp sp' i = slp sp i @ concat (map (\<lambda>ac. map untrig (pend sp i ac)) [0, 1, 2, 3]) \<and>
    ((\<exists>ac < 4. \<exists>f \<in> set (pend sp i ac). announces (sta_at sp i) f) \<longrightarrow> tim_bitmap sp' AND push_bit (unat (aid (sta_at sp i))) 1 \<noteq> 0) \<and>
    (\<forall>j. j \<noteq> i \<and> j \<noteq> b \<longrightarrow> sta_at sp' j = sta_at sp j) \<and>
    sta_tab sp' = sta_tab sp \<and> sta_core (sta_at sp' i) = sta_core ((sta_at sp i)\<lparr>sta_state := sta_state (sta_at sp i) OR 4\<rparr>) \<and>
    sta_core (sta_at sp' b) = sta_core (sta_at sp b) \<and> (\<exists>d. sta_dz_bitmap sp' = sta_dz_bitmap sp OR push_bit (unat (aid (sta_at sp i))) 1 OR d)"
proof -
  note wf = tx_wfD(1) [OF assms(1)]
  let ?s = "sta_at sp i" and ?t = "push_bit (unat (aid (sta_at sp i))) 1 :: u16"
  have i: "i < 32" "hwaddr ?s = a" and b: "b < 32" "hwaddr (sta_at sp b) = bc_addr" "i \<noteq> b"
    using sta_tab_lt [OF wf] sta_tab_Some [OF wf] assms(2,3,6) by auto
  have t: "?t \<noteq> 0" "aid_bit (aid ?s) = Some ?t"
    using aid_bit_nonzero [OF assms(4)] assms(4) by (auto simp: aid_bit_def word_less_nat_alt)
  define s0 where "s0 = ?s\<lparr>sta_state := sta_state ?s OR 4\<rparr>"
  define sp0 where "sp0 = (sta_set sp i s0)\<lparr>sta_dz_bitmap := sta_dz_bitmap sp OR ?t\<rparr>"
  have same: "hwaddr s0 = hwaddr ?s" "aid s0 < 32" "txservq s0 = txservq ?s" "sleep_q s0 = sleep_q ?s" "sleepq_len s0 = sleepq_len ?s"
    using sta_wf_aid [OF wf i(1)] by (simp_all add: s0_def)
  note st = tx_wf_sta_set [OF assms(1) i(1) same]
  have at0: "sta_at sp0 j = (if j = i then s0 else sta_at sp j)" for j
    by (simp add: sp0_def st)
  have sp0: "tx_wf sp0" "tx_ids sp0 = tx_ids sp" "pend sp0 = pend sp" "slp sp0 = slp sp" "hwq sp0 = hwq sp" "sta_dz_bitmap sp0 = sta_dz_bitmap sp OR ?t"
    "tim_bitmap sp0 = tim_bitmap sp"
    by (simp_all add: sp0_def st)
  have "(sta_state ?s OR 4) AND 1 \<noteq> 0" "(sta_state ?s OR 4) AND 4 \<noteq> 0"
    using assms(5) and_or_nonzero(3) [of 4 "sta_state ?s"] by (simp_all add: bit.conj_disj_distrib2)
  then have "buffers True sp0 i"
    using assms(3) i(2) and_or_nonzero(1) [OF t(1), of "sta_dz_bitmap sp" 0] by (simp add: buffers_def at0 s0_def sp0(6) Let_def)
  then obtain sp1 a1 where r: "stop_acs True hiq sp0 i [0, 1, 2, 3] = Some (sp1, a1)" "tx_change sp0 i sp1" "tx_ids sp1 = tx_ids sp"
    "\<forall>c. pend sp1 i c = (if c \<in> {0, 1, 2, 3} then [] else pend sp i c)" "slp sp1 i = slp sp i @ concat (map (\<lambda>c. map untrig (pend sp i c)) [0, 1, 2, 3])"
    "\<forall>c < 4. hwq sp1 c = (if c \<in> {0, 1, 2, 3} then removeAll i (hwq sp c) else hwq sp c)" "sta_dz_bitmap sp1 = sta_dz_bitmap sp OR ?t"
    "tim_bitmap sp1 = tim_bitmap sp OR (if \<exists>c \<in> {0, 1, 2, 3}. \<exists>f \<in> set (pend sp i c). announces s0 f then tim_bit s0 else 0)"
    using stop_acs_move [OF sp0(1) i(1), of "[0, 1, 2, 3]" True hiq] assms(3) i(2) by (auto simp: sp0 at0 same)
  have c1: "tx_wf sp1" "sta_at sp1 b = sta_at sp b" "sta_core (sta_at sp1 i) = sta_core s0" "\<forall>j. j \<noteq> i \<longrightarrow> sta_at sp1 j = sta_at sp j"
    using r(2) b(3) by (simp_all add: tx_change_def at0)
  have "buffers True sp1 b"
    using b(2) assms(7) c1(2) r(7) t(1) and_or_nonzero(2) [of ?t "sta_dz_bitmap sp" 0] by (simp add: buffers_def Let_def)
  then obtain sp2 a2 d where q: "stop_acs True hiq sp1 b [2] = Some (sp2, a2)" "tx_change sp1 b sp2" "tx_ids sp2 = tx_ids sp1"
    "\<forall>c < 4. hwq sp2 c = (if c \<in> {2} then removeAll b (hwq sp1 c) else hwq sp1 c)" "sta_dz_bitmap sp2 = sta_dz_bitmap sp1 OR d"
    "\<exists>e. tim_bitmap sp2 = tim_bitmap sp1 OR e"
    using stop_acs_move [OF c1(1) b(1), of "[2]" True hiq] by auto
  have i2: "sta_at sp2 i = sta_at sp1 i" "tx_wf sp2" "\<forall>j. j \<noteq> b \<longrightarrow> sta_at sp2 j = sta_at sp1 j"
    using q(2) b(3) by (simp_all add: tx_change_def)
  have p2: "pend sp2 i c = pend sp1 i c" "slp sp2 i = slp sp1 i" for c
    using i2(1) by (simp_all add: pend_def slp_def)
  have "rtw_get_bcmc_stainfo sp = Some (Some b)"
    using rtw_get_stainfo_tab [OF wf, of bc_addr] assms(6) by (simp add: rtw_get_bcmc_stainfo_def sta_key_def bc_addr_def)
  then have run: "stop_sta_xmit True hiq sp i = Some (sp2, a1 @ a2)"
    using sta_wf_buf(3) [OF wf i(1)] t(2) r(1) q(1)
    by (simp add: stop_sta_xmit_def flip: s0_def del: stop_acs.simps push_bit_of_1) (simp flip: sp0_def del: stop_acs.simps push_bit_of_1)
  have ann: "announces s0 f = announces ?s f" "tim_bit s0 = ?t" for f
    using assms(3) i(2) by (simp_all add: announces_def tim_bit_def s0_def uapsd_of_def)
  have tim: "tim_bitmap sp2 AND ?t \<noteq> 0" if "\<exists>ac < 4. \<exists>f \<in> set (pend sp i ac). announces ?s f"
  proof -
    have "\<exists>c \<in> {0, 1, 2, 3}. \<exists>f \<in> set (pend sp i c). announces ?s f"
      using that by (auto simp: numeral_eq_Suc less_Suc_eq)
    then have "tim_bitmap sp1 = tim_bitmap sp OR ?t"
      using r(8) by (simp only: ann) simp
    with q(6) obtain e where "tim_bitmap sp2 = tim_bitmap sp OR ?t OR e"
      by (auto simp: or.assoc)
    then show ?thesis
      using and_or_nonzero(1) [OF t(1)] by (simp only: or.assoc not_False_eq_True)
  qed
  have "i \<notin> set (hwq sp2 c)" "pend sp2 i c = []" if "c < 4" for c
    using that q(4) r(4,6) p2(1) by (auto simp: numeral_eq_Suc less_Suc_eq)
  moreover have "sta_dz_bitmap sp2 AND ?t \<noteq> 0"
    using q(5) r(7) and_or_nonzero(1) [OF t(1)] by (simp only: or.assoc not_False_eq_True)
  moreover have "sta_state (sta_at sp2 i) = sta_state ?s OR 4"
    using sta_core_fields(3) [OF c1(3)] i2(1) by (simp add: s0_def)
  moreover have "sta_tab sp2 = sta_tab sp" "sta_core (sta_at sp2 i) = sta_core s0" "sta_core (sta_at sp2 b) = sta_core (sta_at sp b)"
    "\<exists>d. sta_dz_bitmap sp2 = sta_dz_bitmap sp OR ?t OR d"
    using q(2,5) r(2,7) c1(2,3) i2(1) st(3) by (auto simp: tx_change_def sp0_def or.assoc)
  ultimately show ?thesis
    unfolding s0_def using run i2 q(3) r(3,5) p2(2) c1(4) tim by (intro exI [of _ sp2] exI [of _ "a1 @ a2"]) (simp only: simp_thms, auto)
qed

text \<open>C12. A station that goes to sleep is silenced and loses nothing: in access point mode, for a linked station with
  an association id below 16, \<open>stop_sta_xmit\<close> always returns; it marks the station as sleeping, moves all frames that wait for
  it, in the order voice, video, best effort, background, to the end of its sleep queue, takes it out of the four
  hardware queues, sets its TIM bit when one of the frames is to be announced, touches no other unicast station, and every
  frame object stays accounted for.\<close>

theorem stop_sta_xmit_correct:
  assumes "tx_wf sp" "sta_tab sp a = Some i" "a \<noteq> bc_addr" "aid (sta_at sp i) < 16" "sta_state (sta_at sp i) AND 1 \<noteq> 0"
    "sta_tab sp bc_addr = Some b" "sta_state (sta_at sp b) AND 1 \<noteq> 0"
  shows "\<exists>sp' acts. stop_sta_xmit True hiq sp i = Some (sp', acts) \<and> tx_wf sp' \<and> tx_ids sp' = tx_ids sp \<and>
    sta_state (sta_at sp' i) = sta_state (sta_at sp i) OR 4 \<and> sta_dz_bitmap sp' AND push_bit (unat (aid (sta_at sp i))) 1 \<noteq> 0 \<and>
    (\<forall>ac < 4. pend sp' i ac = [] \<and> i \<notin> set (hwq sp' ac)) \<and>
    slp sp' i = slp sp i @ concat (map (\<lambda>ac. map untrig (pend sp i ac)) [0, 1, 2, 3]) \<and>
    ((\<exists>ac < 4. \<exists>f \<in> set (pend sp i ac). announces (sta_at sp i) f) \<longrightarrow> tim_bitmap sp' AND push_bit (unat (aid (sta_at sp i))) 1 \<noteq> 0) \<and>
    (\<forall>j. j \<noteq> i \<and> j \<noteq> b \<longrightarrow> sta_at sp' j = sta_at sp j)"
  using stop_sta_xmit_spec [OF assms, of hiq] by blast

theorem stop_sta_xmit_correct_witness:
  "\<exists>sp sp' acts. tx_wf sp \<and> pend sp 1 0 = [demo_xframe] \<and> stop_sta_xmit True 0 sp 1 = Some (sp', acts) \<and> tx_wf sp' \<and> pend sp' 1 0 = [] \<and>
    slp sp' 1 = [untrig demo_xframe] \<and> sta_dz_bitmap sp' AND 2 \<noteq> 0"
proof -
  obtain sp where d: "tx_wf sp" "sta_tab sp = [bc_addr \<mapsto> 0, demo_addr \<mapsto> 1]" "sta_state (sta_at sp 0) = 1" "sta_state (sta_at sp 1) = 1"
    "aid (sta_at sp 1) = 1" "slp sp 1 = []" "pend sp 1 0 = [demo_xframe]" "pend sp 1 1 = []" "pend sp 1 2 = []" "pend sp 1 3 = []"
    using demo_waiting by blast
  have a: "sta_tab sp demo_addr = Some 1" "demo_addr \<noteq> bc_addr" "aid (sta_at sp 1) < 16" "sta_state (sta_at sp 1) AND 1 \<noteq> 0"
    "sta_tab sp bc_addr = Some 0" "sta_state (sta_at sp 0) AND 1 \<noteq> 0"
    using d(2-5) by (simp_all add: demo_addr_def bc_addr_def)
  from stop_sta_xmit_correct [OF d(1) a, of 0] obtain sp' acts where r: "stop_sta_xmit True 0 sp 1 = Some (sp', acts)" "tx_wf sp'"
    "sta_dz_bitmap sp' AND push_bit (unat (aid (sta_at sp 1))) 1 \<noteq> 0" "\<forall>ac < 4. pend sp' 1 ac = [] \<and> 1 \<notin> set (hwq sp' ac)"
    "slp sp' 1 = slp sp 1 @ concat (map (\<lambda>ac. map untrig (pend sp 1 ac)) [0, 1, 2, 3])"
    by blast
  have "slp sp' 1 = [untrig demo_xframe]" "pend sp' 1 0 = []" "sta_dz_bitmap sp' AND 2 \<noteq> 0"
    using r(3-5) d(5-10) by (simp_all del: One_nat_def)
  then show ?thesis
    using d(1,7) r(1,2) by blast
qed

section \<open>Waking up\<close>

text \<open>A frame up to the fields that say how it is sent.\<close>

definition frame_core :: "xframe \<Rightarrow> xframe" where
  "frame_core f = f\<lparr>x_mdata := 0, x_eosp := 0, x_triggered := 0, x_qsel := 0\<rparr>"

lemma frame_core_upd [simp]:
  "frame_core (f\<lparr>x_mdata := v\<rparr>) = frame_core f" "frame_core (f\<lparr>x_eosp := v\<rparr>) = frame_core f"
  "frame_core (f\<lparr>x_triggered := v\<rparr>) = frame_core f" "frame_core (f\<lparr>x_qsel := w\<rparr>) = frame_core f"
  by (simp_all add: frame_core_def)

lemma frame_core_eqD:
  assumes "frame_core g = frame_core f"
  shows "xid g = xid f" "x_priority g = x_priority f" "to_sta sp i g = to_sta sp i f"
proof -
  have "xid (frame_core h) = xid h" "x_priority (frame_core h) = x_priority h" "to_sta sp i (frame_core h) = to_sta sp i h" for h
    by (simp_all add: frame_core_def)
  then show "xid g = xid f" "x_priority g = x_priority f" "to_sta sp i g = to_sta sp i f"
    using assms by metis+
qed

text \<open>One buffered frame leaves the sleep queue and is queued for transmission.\<close>

lemma sleep_pop:
  assumes "tx_wf sp" "i < 32" "slp sp i = kept @ f # fs"
    "sp1 = sta_set sp i ((sta_at sp i)\<lparr>sleep_q := kept @ fs, sleepq_len := sleepq_len (sta_at sp i) - 1, sleepq_ac_len := n\<rparr>)"
  shows "tx_change sp i sp1" "tx_ids sp = add_mset (xid f) (tx_ids sp1)" "pend sp1 i = pend sp i" "slp sp1 i = kept @ fs" "to_sta sp i f"
    "tim_bitmap sp1 = tim_bitmap sp" "sta_dz_bitmap sp1 = sta_dz_bitmap sp"
proof -
  note wf = tx_wfD(1) [OF assms(1)]
  let ?s = "sta_at sp i"
  define s where "s = ?s\<lparr>sleep_q := kept @ fs, sleepq_len := sleepq_len ?s - 1, sleepq_ac_len := n\<rparr>"
  have sp1: "sp1 = sp\<lparr>pstainfo_buf := (pstainfo_buf sp)[i := s], xmitpriv := (xmitpriv sp)\<lparr>hwxmits := hwxmits (xmitpriv sp)\<rparr>,
      tim_bitmap := tim_bitmap sp, sta_dz_bitmap := sta_dz_bitmap sp\<rparr>"
    by (simp add: assms(4) s_def sta_set_def)
  have old: "list_all (to_sta sp i) (kept @ f # fs)" "sleepq_len ?s = of_nat (length (kept @ f # fs))"
    using tx_wfD(3,4) [OF assms(1,2)] assms(3) by simp_all
  have c1: "sta_core s = sta_core ?s" "length (txservq s) = 4" "sleepq_len s = of_nat (length (sleep_q s))" "list_all (to_sta sp i) (sleep_q s)"
    using old sta_wf_buf(4) [OF wf assms(2)] by (simp_all add: s_def)
  have c2: "qcnt (txservq s ! c) = int (length (sta_pending (txservq s ! c))) \<and>
      list_all (\<lambda>f. to_sta sp i f \<and> rtw_get_sta_pending (x_priority f) = c) (sta_pending (txservq s ! c))" if "c < 4" for c
    using tx_wfD(5,6) [OF assms(1,2) that] by (simp add: s_def pend_cnt_def pend_def)
  have c3: "distinct (sta_queue (hwxmits (xmitpriv sp) ! c)) \<and> set (sta_queue (hwxmits (xmitpriv sp) ! c)) \<subseteq> {..<32} \<and>
      set (hwq sp c) \<subseteq> insert i (set (sta_queue (hwxmits (xmitpriv sp) ! c))) \<and>
      accnt (hwxmits (xmitpriv sp) ! c) + pend_cnt sp i c = qcnt (txservq s ! c) + hwcnt sp c \<and>
      (sta_pending (txservq s ! c) \<noteq> [] \<longrightarrow> i \<in> set (sta_queue (hwxmits (xmitpriv sp) ! c)))" if "c < 4" for c
    using tx_wfD(7,8) [OF assms(1) that] tx_wfD(10) [OF assms(1,2) that] by (auto simp: s_def hwq_def hwcnt_def pend_def pend_cnt_def)
  note r = tx_put_change [OF assms(1,2) c1 c2 sta_wf_buf(2) [OF wf] c3 sp1]
  show "tx_change sp i sp1" "pend sp1 i = pend sp i" "slp sp1 i = kept @ fs" "to_sta sp i f"
    using r old by (simp_all add: s_def pend_def fun_eq_iff)
  have "sta_ids ?s = add_mset (xid f) (sta_ids s)"
    using assms(3) by (simp add: sta_ids_def s_def slp_def)
  then show "tx_ids sp = add_mset (xid f) (tx_ids sp1)"
    using r(2) by simp
  show "tim_bitmap sp1 = tim_bitmap sp" "sta_dz_bitmap sp1 = sta_dz_bitmap sp"
    by (simp_all add: assms(4))
qed

lemma tx_push_change: "tx_wf sp \<Longrightarrow> to_sta sp i f \<Longrightarrow> tx_change sp i (tx_push sp i f)"
  using tx_push_wf [of sp i f] to_sta_get [of sp i f] by (simp add: tx_change_def tx_wfD(1) tx_push_at)

lemma wake_step:
  assumes "tx_wf sp" "i < 32" "slp sp i = kept @ f # fs" "sta_state (sta_at sp i) AND 1 \<noteq> 0" "frame_core g = frame_core f"
  shows "\<exists>sp' a. rtl8812au_hal_xmitframe_enqueue
      (sta_set sp i ((sta_at sp i)\<lparr>sleep_q := kept @ fs, sleepq_len := sleepq_len (sta_at sp i) - 1, sleepq_ac_len := n\<rparr>)) g = Some (True, sp', a) \<and>
    tx_change sp i sp' \<and> tx_ids sp' = tx_ids sp \<and> slp sp' i = kept @ fs \<and>
    (\<forall>c. pend sp' i c = pend sp i c @ (if rtw_get_sta_pending (x_priority g) = c then [g] else [])) \<and>
    tim_bitmap sp' = tim_bitmap sp \<and> sta_dz_bitmap sp' = sta_dz_bitmap sp \<and> sleepq_ac_len (sta_at sp' i) = n"
proof -
  define sp1 where "sp1 = sta_set sp i ((sta_at sp i)\<lparr>sleep_q := kept @ fs, sleepq_len := sleepq_len (sta_at sp i) - 1, sleepq_ac_len := n\<rparr>)"
  note p = sleep_pop [OF assms(1-3) sp1_def]
  have wf1: "tx_wf sp1" "sta_wf sp1" and to: "to_sta sp1 i g" and st: "sta_state (sta_at sp1 i) AND 1 \<noteq> 0" and n: "sleepq_ac_len (sta_at sp1 i) = n"
    using p(1,5) frame_core_eqD(3) [OF assms(5)] assms(2,4) sta_wf_buf(1) [OF tx_wfD(1) [OF assms(1)]]
    by (auto simp: tx_change_def tx_wfD(1) to_sta_def sta_at_set sp1_def)
  obtain sp' a where e: "rtl8812au_hal_xmitframe_enqueue sp1 g = Some (True, sp', a)" "sp' = tx_push sp1 i g"
    using hal_enqueue_wf [OF wf1(1) to] st by auto
  have "tx_change sp i sp'" "tx_ids sp' = tx_ids sp"
    using tx_change_trans [OF p(1) tx_push_change [OF wf1(1) to]] tx_push_wf(2) [OF wf1(1) to] p(2) frame_core_eqD(1) [OF assms(5)] by (simp_all add: e(2))
  moreover have "sleepq_ac_len (sta_at sp' i) = n"
    using n by (simp add: e(2) tx_push_at [OF wf1(2) assms(2)] servq_set_def)
  ultimately show ?thesis
    using e(1) p(3,4,6,7) tx_push_views [OF wf1(2) assms(2), where f = g] by (intro exI [of _ sp'] exI [of _ a]) (auto simp: e(2) simp flip: sp1_def)
qed

text \<open>The frames as \<open>wakeup_sta_to_xmit\<close> sends them.\<close>

fun woken :: "sta_info \<Rightarrow> u32 \<Rightarrow> xframe list \<Rightarrow> xframe list" where
  "woken s n [] = []"
| "woken s n (f # fs) = (let trig = (uapsd_of s (x_priority f) AND 2 \<noteq> 0); m = (if trig then n - 1 else n) in
     wake_frame trig (of_nat (length fs)) m f # woken s m fs)"

lemma wake_frame_core [simp]: "frame_core (wake_frame trig n m f) = frame_core f" "x_triggered (wake_frame trig n m f) = 1"
  by (simp_all add: wake_frame_def Let_def)

lemma woken_core: "map frame_core (woken s n fs) = map frame_core fs" "\<forall>g \<in> set (woken s n fs). x_triggered g = 1" "length (woken s n fs) = length fs"
  by (induction fs arbitrary: n) (simp_all add: Let_def)

text \<open>Without trigger-enabled categories the more-data bit is on all frames but the last.\<close>

lemma woken_more_data:
  assumes "\<forall>f \<in> set fs. uapsd_of s (x_priority f) AND 2 = 0" "length fs < 2 ^ 32" "k < length fs"
  shows "x_mdata (woken s n fs ! k) = (if Suc k < length fs then 1 else 0)"
  using assms
proof (induction fs arbitrary: k)
  case (Cons f fs)
  show ?case
  proof (cases k)
    case 0
    have "(0 :: u32) < of_nat (length fs) \<longleftrightarrow> fs \<noteq> []"
      using Cons.prems(2) by (auto simp: word_gt_0 word_of_nat_eq_0_iff dest: dvd_imp_le)
    then show ?thesis
      using 0 Cons.prems(1) by (simp add: Let_def wake_frame_def)
  next
    case (Suc m)
    then show ?thesis
      using Cons by (simp add: Let_def)
  qed
qed simp

lemma wake_loop_spec:
  assumes "tx_wf sp" "i < 32" "slp sp i = fs" "sta_state (sta_at sp i) AND 1 \<noteq> 0"
  shows "\<exists>sp' a. wake_loop sp i fs = Some (sp', a) \<and> tx_change sp i sp' \<and> tx_ids sp' = tx_ids sp \<and> slp sp' i = [] \<and>
    (\<forall>c. pend sp' i c = pend sp i c @ filter (\<lambda>g. rtw_get_sta_pending (x_priority g) = c) (woken (sta_at sp i) (sleepq_ac_len (sta_at sp i)) fs)) \<and>
    tim_bitmap sp' = tim_bitmap sp \<and> sta_dz_bitmap sp' = sta_dz_bitmap sp"
  using assms
proof (induction fs arbitrary: sp)
  case Nil
  then show ?case
    by (simp add: tx_change_def)
next
  case (Cons f fs)
  let ?s = "sta_at sp i"
  define trig where "trig \<longleftrightarrow> uapsd_of ?s (x_priority f) AND 2 \<noteq> 0"
  define n where "n = (if trig then sleepq_ac_len ?s - 1 else sleepq_ac_len ?s)"
  define g where "g = wake_frame trig (sleepq_len ?s - 1) n f"
  have g: "frame_core g = frame_core f" "sleepq_len ?s - 1 = of_nat (length fs)"
    using tx_wfD(3) [OF Cons.prems(1,2)] Cons.prems(3) by (simp_all add: g_def)
  obtain sp1 a where e: "rtl8812au_hal_xmitframe_enqueue (sta_set sp i (?s\<lparr>sleep_q := fs, sleepq_len := sleepq_len ?s - 1, sleepq_ac_len := n\<rparr>)) g = Some (True, sp1, a)"
    "tx_change sp i sp1" "tx_ids sp1 = tx_ids sp" "slp sp1 i = fs" "tim_bitmap sp1 = tim_bitmap sp" "sta_dz_bitmap sp1 = sta_dz_bitmap sp"
    "\<forall>c. pend sp1 i c = pend sp i c @ (if rtw_get_sta_pending (x_priority g) = c then [g] else [])" "sleepq_ac_len (sta_at sp1 i) = n"
    using wake_step [OF Cons.prems(1,2), of "[]" f fs g n] Cons.prems(3,4) g(1) by auto
  have core: "sta_core (sta_at sp1 i) = sta_core ?s" and wf1: "tx_wf sp1"
    using e(2) by (simp_all add: tx_change_def)
  have st: "sta_state (sta_at sp1 i) AND 1 \<noteq> 0"
    using sta_core_fields(3) [OF core] Cons.prems(4) by simp
  have same: "woken (sta_at sp1 i) m gs = woken ?s m gs" for m gs
    by (induction gs arbitrary: m) (simp_all add: sta_core_fields(5) [OF core])
  from Cons.IH [OF wf1 Cons.prems(2) e(4) st] obtain sp' b where r: "wake_loop sp1 i fs = Some (sp', b)" "tx_change sp1 i sp'" "tx_ids sp' = tx_ids sp1"
    "slp sp' i = []" "\<forall>c. pend sp' i c = pend sp1 i c @ filter (\<lambda>g. rtw_get_sta_pending (x_priority g) = c) (woken ?s n fs)"
    "tim_bitmap sp' = tim_bitmap sp1" "sta_dz_bitmap sp' = sta_dz_bitmap sp1"
    using same e(8) by auto
  have "woken ?s (sleepq_ac_len ?s) (f # fs) = g # woken ?s n fs"
    using g(2) by (simp add: Let_def g_def n_def trig_def)
  moreover have "wake_loop sp i (f # fs) = Some (sp', a @ b)"
    using sta_wf_buf(3) [OF tx_wfD(1) [OF Cons.prems(1)] Cons.prems(2)] e(1) r(1) by (simp add: Let_def flip: trig_def n_def g_def)
  ultimately show ?case
    using tx_change_trans [OF e(2) r(2)] r(3-7) e(3,5-7) by simp
qed

text \<open>The broadcast queue: as \<open>wake_loop\<close>, with the high queue for some frames.\<close>

lemma bmc_loop_spec:
  assumes "tx_wf sp" "i < 32" "slp sp i = fs" "sta_state (sta_at sp i) AND 1 \<noteq> 0"
  shows "\<exists>sp' a gs. bmc_loop hiq sp i fs = Some (sp', a) \<and> tx_change sp i sp' \<and> tx_ids sp' = tx_ids sp \<and> slp sp' i = [] \<and>
    map frame_core gs = map frame_core fs \<and> (\<forall>g \<in> set gs. x_triggered g = 1) \<and>
    (\<forall>c. pend sp' i c = pend sp i c @ filter (\<lambda>g. rtw_get_sta_pending (x_priority g) = c) gs) \<and>
    tim_bitmap sp' = tim_bitmap sp \<and> sta_dz_bitmap sp' = sta_dz_bitmap sp"
  using assms
proof (induction fs arbitrary: sp)
  case Nil
  then show ?case
    by (simp add: tx_change_def)
next
  case (Cons f fs)
  let ?s = "sta_at sp i"
  define f1 where "f1 = wake_frame False (sleepq_len ?s - 1) 0 f"
  define g where "g = (case hiq of None \<Rightarrow> f1 | Some h \<Rightarrow> if xmitframe_hiq_filter h f1 then f1\<lparr>x_qsel := 0x11\<rparr> else f1)"
  have g: "frame_core g = frame_core f" "x_triggered g = 1"
    by (simp_all add: g_def f1_def split: option.split)
  have ac: "s\<lparr>sleep_q := fs, sleepq_len := m\<rparr> = s\<lparr>sleep_q := fs, sleepq_len := m, sleepq_ac_len := sleepq_ac_len s\<rparr>" for s :: sta_info and m
    by simp
  obtain sp1 a where e: "rtl8812au_hal_xmitframe_enqueue (sta_set sp i (?s\<lparr>sleep_q := fs, sleepq_len := sleepq_len ?s - 1\<rparr>)) g = Some (True, sp1, a)"
    "tx_change sp i sp1" "tx_ids sp1 = tx_ids sp" "slp sp1 i = fs" "tim_bitmap sp1 = tim_bitmap sp" "sta_dz_bitmap sp1 = sta_dz_bitmap sp"
    "\<forall>c. pend sp1 i c = pend sp i c @ (if rtw_get_sta_pending (x_priority g) = c then [g] else [])"
    using wake_step [OF Cons.prems(1,2), of "[]" f fs g "sleepq_ac_len ?s"] Cons.prems(3,4) g(1) unfolding ac [symmetric] by auto
  have wf1: "tx_wf sp1" and st: "sta_state (sta_at sp1 i) AND 1 \<noteq> 0"
    using e(2) sta_core_fields(3) [of "sta_at sp1 i" ?s] Cons.prems(4) by (simp_all add: tx_change_def)
  from Cons.IH [OF wf1 Cons.prems(2) e(4) st] obtain sp' b gs where r: "bmc_loop hiq sp1 i fs = Some (sp', b)" "tx_change sp1 i sp'" "tx_ids sp' = tx_ids sp1"
    "slp sp' i = []" "map frame_core gs = map frame_core fs" "\<forall>g \<in> set gs. x_triggered g = 1"
    "\<forall>c. pend sp' i c = pend sp1 i c @ filter (\<lambda>g. rtw_get_sta_pending (x_priority g) = c) gs"
    "tim_bitmap sp' = tim_bitmap sp1" "sta_dz_bitmap sp' = sta_dz_bitmap sp1"
    by blast
  have "bmc_loop hiq sp i (f # fs) = Some (sp', a @ b)"
    using sta_wf_buf(3) [OF tx_wfD(1) [OF Cons.prems(1)] Cons.prems(2)] e(1) [unfolded g_def f1_def] r(1) by (simp add: Let_def)
  then show ?case
    using tx_change_trans [OF e(2) r(2)] r(3-9) e(3,5-7) g by (intro exI [of _ sp'] exI [of _ "a @ b"] exI [of _ "g # gs"]) simp
qed

lemma clear_flag:
  fixes x :: "'a::len word"
  shows "(if x AND 2 ^ n \<noteq> 0 then x XOR 2 ^ n else x) = x AND NOT (2 ^ n)"
proof (rule bit_word_eqI)
  fix m
  assume "m < LENGTH('a)"
  then show "bit (if x AND 2 ^ n \<noteq> 0 then x XOR 2 ^ n else x) m = bit (x AND NOT (2 ^ n)) m"
    using bit_iff_and_push_bit_not_eq_0 [of x n] by (auto simp: bit_and_iff bit_xor_iff bit_not_iff bit_exp_iff)
qed

lemma wake_done_spec:
  assumes "tx_wf sp" "i < 32" "slp sp i = []"
  shows "\<exists>m sp'. wake_done sp i = Some (m, sp') \<and> tx_wf sp' \<and> tx_ids sp' = tx_ids sp \<and> sta_tab sp' = sta_tab sp \<and> pend sp' = pend sp \<and> slp sp' = slp sp \<and>
    (\<forall>j. j \<noteq> i \<longrightarrow> sta_at sp' j = sta_at sp j) \<and> sta_state (sta_at sp' i) = sta_state (sta_at sp i) AND NOT 0x404 \<and>
    hwaddr (sta_at sp' i) = hwaddr (sta_at sp i) \<and> aid (sta_at sp' i) = aid (sta_at sp i) \<and>
    tim_bitmap sp' = tim_bitmap sp AND NOT (push_bit (unat (aid (sta_at sp i))) 1) \<and>
    sta_dz_bitmap sp' = sta_dz_bitmap sp AND NOT (push_bit (unat (aid (sta_at sp i))) 1)"
proof -
  note wf = tx_wfD(1) [OF assms(1)]
  let ?s = "sta_at sp i" and ?b = "push_bit (unat (aid (sta_at sp i))) 1 :: u16"
  define s1 where "s1 = (if sta_state ?s AND 4 \<noteq> 0 then ?s\<lparr>sta_state := sta_state ?s XOR 4\<rparr> else ?s)"
  define s2 where "s2 = (if sta_state s1 AND 0x400 \<noteq> 0 then s1\<lparr>expire_to := sp_expire_to sp, sta_state := sta_state s1 XOR 0x400\<rparr> else s1)"
  have "sta_state s1 = sta_state ?s AND NOT 4" "sta_state s2 = sta_state s1 AND NOT 0x400"
    using clear_flag [of "sta_state ?s" 2] clear_flag [of "sta_state s1" 10] by (auto simp: s1_def s2_def)
  then have st: "sta_state s2 = sta_state ?s AND NOT 0x404"
    by (simp add: and.assoc)
  have aid2: "aid s2 = aid ?s"
    by (simp add: s1_def s2_def)
  have same: "hwaddr s2 = hwaddr ?s" "aid s2 < 32" "txservq s2 = txservq ?s" "sleep_q s2 = sleep_q ?s" "sleepq_len s2 = sleepq_len ?s"
    using sta_wf_aid [OF wf assms(2)] by (simp_all add: s1_def s2_def)
  note p = tx_wf_sta_set [OF assms(1,2) same]
  have "wake_done sp i = Some (tim_bitmap sp AND ?b \<noteq> 0, (sta_set sp i s2)\<lparr>tim_bitmap := tim_bitmap sp AND NOT ?b, sta_dz_bitmap := sta_dz_bitmap sp AND NOT ?b\<rparr>)"
    using sta_wf_buf(3) [OF wf assms(2)] sta_wf_aid [OF wf assms(2)] tx_wfD(3) [OF assms(1,2)] assms(3)
    by (simp add: wake_done_def aid_bit_def s1_def s2_def Let_def)
  then show ?thesis
    using p st aid2 same(1) by (intro exI) (rule conjI, assumption, simp)
qed

lemma wake_bmc_spec:
  assumes "tx_wf sp" "b < 32" "sta_state (sta_at sp b) AND 1 \<noteq> 0"
  shows "\<exists>m sp' a. wake_bmc sp b = Some (m, sp', a) \<and> tx_change sp b sp' \<and> tx_ids sp' = tx_ids sp \<and>
    (if sta_dz_bitmap sp AND 0xfffe = 0 then slp sp' b = [] \<and> sta_dz_bitmap sp' = 0 \<and> tim_bitmap sp' = tim_bitmap sp AND NOT 1 else sp' = sp)"
proof (cases "sta_dz_bitmap sp AND 0xfffe = 0")
  case True
  obtain sp1 a where r: "bmc_loop None sp b (slp sp b) = Some (sp1, a)" "tx_change sp b sp1" "tx_ids sp1 = tx_ids sp" "slp sp1 b = []"
    "tim_bitmap sp1 = tim_bitmap sp" "sta_dz_bitmap sp1 = sta_dz_bitmap sp"
    using bmc_loop_spec [OF assms(1,2) refl assms(3), of None] by blast
  have wf1: "tx_wf sp1" "sleepq_len (sta_at sp1 b) = 0"
    using r(2,4) tx_wfD(3) [of sp1 b] assms(2) by (simp_all add: tx_change_def)
  have "sta_dz_bitmap sp AND NOT 1 = 0"
  proof -
    have "(0xfffe :: u16) = NOT 1"
      by simp
    then show ?thesis
      using True by (simp only:)
  qed
  then show ?thesis
    using True r wf1 sta_wf_buf(3) [OF tx_wfD(1) [OF assms(1)] assms(2)] sta_wf_buf(3) [OF tx_wfD(1) [OF wf1(1)] assms(2)]
    by (auto simp: wake_bmc_def slp_def tx_change_def)
next
  case False
  then show ?thesis
    using assms(1) by (intro exI [of _ False]) (simp add: wake_bmc_def tx_change_def)
qed

lemma wakeup_sta_to_xmit_spec:
  assumes "tx_wf sp" "sta_tab sp a = Some i" "a \<noteq> bc_addr" "sta_state (sta_at sp i) AND 1 \<noteq> 0"
    "sta_tab sp bc_addr = Some b" "sta_state (sta_at sp b) AND 1 \<noteq> 0" "t = push_bit (unat (aid (sta_at sp i))) 1"
  shows "\<exists>sp' acts gs. wakeup_sta_to_xmit sp i = Some (sp', acts) \<and> tx_wf sp' \<and> tx_ids sp' = tx_ids sp \<and>
    slp sp' i = [] \<and> map frame_core gs = map frame_core (slp sp i) \<and> (\<forall>g \<in> set gs. x_triggered g = 1) \<and>
    (\<forall>ac < 4. pend sp' i ac = pend sp i ac @ filter (\<lambda>g. rtw_get_sta_pending (x_priority g) = ac) gs) \<and>
    (length (slp sp i) < 2 ^ 32 \<and> (\<forall>f \<in> set (slp sp i). uapsd_of (sta_at sp i) (x_priority f) AND 2 = 0) \<longrightarrow>
       (\<forall>k < length gs. x_mdata (gs ! k) = (if Suc k < length gs then 1 else 0))) \<and>
    sta_state (sta_at sp' i) = sta_state (sta_at sp i) AND NOT 0x404 \<and> sta_dz_bitmap sp' AND t = 0 \<and> tim_bitmap sp' AND t = 0 \<and>
    (sta_dz_bitmap sp AND NOT t AND 0xfffe = 0 \<longrightarrow> slp sp' b = [] \<and> sta_dz_bitmap sp' = 0) \<and>
    (\<forall>j. j \<noteq> i \<and> j \<noteq> b \<longrightarrow> sta_at sp' j = sta_at sp j) \<and> sta_tab sp' = sta_tab sp \<and>
    hwaddr (sta_at sp' i) = hwaddr (sta_at sp i) \<and> aid (sta_at sp' i) = aid (sta_at sp i) \<and>
    sta_core (sta_at sp' b) = sta_core (sta_at sp b) \<and>
    (sta_dz_bitmap sp AND NOT t AND 0xfffe \<noteq> 0 \<longrightarrow> sta_dz_bitmap sp' = sta_dz_bitmap sp AND NOT t)"
proof -
  note wf = tx_wfD(1) [OF assms(1)]
  have i: "i < 32" and b: "b < 32" "i \<noteq> b"
    using sta_tab_lt [OF wf] sta_tab_Some [OF wf] assms(2,3,5) by auto
  define gs where "gs = woken (sta_at sp i) (sleepq_ac_len (sta_at sp i)) (slp sp i)"
  obtain sp1 a1 where l: "wake_loop sp i (slp sp i) = Some (sp1, a1)" "tx_change sp i sp1" "tx_ids sp1 = tx_ids sp" "slp sp1 i = []"
    "\<forall>c. pend sp1 i c = pend sp i c @ filter (\<lambda>g. rtw_get_sta_pending (x_priority g) = c) gs"
    "tim_bitmap sp1 = tim_bitmap sp" "sta_dz_bitmap sp1 = sta_dz_bitmap sp"
    using wake_loop_spec [OF assms(1) i refl assms(4)] unfolding gs_def by blast
  have c1: "tx_wf sp1" "sta_core (sta_at sp1 i) = sta_core (sta_at sp i)" "\<forall>j. j \<noteq> i \<longrightarrow> sta_at sp1 j = sta_at sp j"
    using l(2) by (simp_all add: tx_change_def)
  obtain m0 sp2 where d: "wake_done sp1 i = Some (m0, sp2)" "tx_wf sp2" "tx_ids sp2 = tx_ids sp1" "pend sp2 = pend sp1" "slp sp2 = slp sp1"
    "\<forall>j. j \<noteq> i \<longrightarrow> sta_at sp2 j = sta_at sp1 j" "sta_state (sta_at sp2 i) = sta_state (sta_at sp1 i) AND NOT 0x404"
    "tim_bitmap sp2 = tim_bitmap sp1 AND NOT t" "sta_dz_bitmap sp2 = sta_dz_bitmap sp1 AND NOT t"
    "sta_tab sp2 = sta_tab sp1" "hwaddr (sta_at sp2 i) = hwaddr (sta_at sp1 i)" "aid (sta_at sp2 i) = aid (sta_at sp1 i)"
    using wake_done_spec [OF c1(1) i l(4)] sta_core_fields(2) [OF c1(2)] unfolding assms(7) by auto
  have "sta_state (sta_at sp2 b) AND 1 \<noteq> 0"
    using d(6) c1(3) b(2) assms(6) by simp
  then obtain m1 sp3 a2 where q: "wake_bmc sp2 b = Some (m1, sp3, a2)" "tx_change sp2 b sp3" "tx_ids sp3 = tx_ids sp2"
    "if sta_dz_bitmap sp2 AND 0xfffe = 0 then slp sp3 b = [] \<and> sta_dz_bitmap sp3 = 0 \<and> tim_bitmap sp3 = tim_bitmap sp2 AND NOT 1 else sp3 = sp2"
    using wake_bmc_spec [OF d(2) b(1)] by blast
  have c3: "tx_wf sp3" "sta_at sp3 i = sta_at sp2 i" "\<forall>j. j \<noteq> b \<longrightarrow> sta_at sp3 j = sta_at sp2 j"
    using q(2) b(2) by (simp_all add: tx_change_def)
  then have v3: "pend sp3 i c = pend sp1 i c" "slp sp3 i = []" for c
    using d(4,5) l(4) by (simp_all add: pend_def slp_def fun_eq_iff)
  have "rtw_get_bcmc_stainfo sp = Some (Some b)"
    using rtw_get_stainfo_tab [OF wf, of bc_addr] assms(5) by (simp add: rtw_get_bcmc_stainfo_def sta_key_def bc_addr_def)
  then have run: "wakeup_sta_to_xmit sp i = Some (sp3, a1 @ a2 @ (if m0 \<or> m1 then [Update_beacon] else []))"
    using sta_wf_buf(3) [OF wf i] l(1) d(1) q(1) by (simp add: wakeup_sta_to_xmit_def slp_def)
  have off: "(x AND NOT y) AND y = 0" "((x AND NOT y) AND NOT 1) AND y = 0" for x y :: u16
    by (auto simp: bit_eq_iff bit_simps)
  have "sta_dz_bitmap sp3 AND t = 0" "tim_bitmap sp3 AND t = 0"
    using q(4) d(8,9) off by (auto split: if_splits)
  moreover have "sta_dz_bitmap sp AND NOT t AND 0xfffe = 0 \<longrightarrow> slp sp3 b = [] \<and> sta_dz_bitmap sp3 = 0"
    using q(4) d(9) l(7) by (auto simp: and.assoc split: if_splits)
  moreover have "sta_state (sta_at sp3 i) = sta_state (sta_at sp i) AND NOT 0x404"
    using c3(2) d(7) sta_core_fields(3) [OF c1(2)] by simp
  moreover have "\<forall>j. j \<noteq> i \<and> j \<noteq> b \<longrightarrow> sta_at sp3 j = sta_at sp j"
    using c3(3) d(6) c1(3) by simp
  moreover have "length (slp sp i) < 2 ^ 32 \<and> (\<forall>f \<in> set (slp sp i). uapsd_of (sta_at sp i) (x_priority f) AND 2 = 0) \<longrightarrow>
      (\<forall>k < length gs. x_mdata (gs ! k) = (if Suc k < length gs then 1 else 0))"
    using woken_more_data by (simp add: gs_def woken_core(3))
  moreover have "map frame_core gs = map frame_core (slp sp i)" "\<forall>g \<in> set gs. x_triggered g = 1"
    unfolding gs_def by (rule woken_core)+
  moreover have "sta_tab sp3 = sta_tab sp" "sta_core (sta_at sp3 b) = sta_core (sta_at sp b)"
    "hwaddr (sta_at sp3 i) = hwaddr (sta_at sp i)" "aid (sta_at sp3 i) = aid (sta_at sp i)"
    using q(2) d(6,10-12) l(2) c1(3) c3(2) b(2) sta_core_fields(1,2) [OF c1(2)] by (simp_all add: tx_change_def)
  moreover have "sta_dz_bitmap sp AND NOT t AND 0xfffe \<noteq> 0 \<longrightarrow> sta_dz_bitmap sp3 = sta_dz_bitmap sp AND NOT t"
    using q(4) d(9) l(7) by (auto simp: and.assoc split: if_splits)
  ultimately show ?thesis
    using run c3(1) q(3) d(3) l(3,5) v3
    by (intro exI [of _ sp3] exI [of _ "a1 @ a2 @ (if m0 \<or> m1 then [Update_beacon] else [])"] exI [of _ gs]) (intro conjI, simp_all only: simp_thms)
qed

text \<open>C11. Waking up delivers everything, once and in order: for a linked station \<open>wakeup_sta_to_xmit\<close> always returns; all frames of
  its sleep queue are queued behind those that wait already, in the order in which they were buffered, marked as
  answers to the station, and, when its categories are not trigger-enabled, with the more-data bit on all but the last; the
  station is awake and out of both bit maps afterwards; when nobody else sleeps the broadcast queue is emptied
  too; every frame object stays accounted for.\<close>

theorem wakeup_sta_to_xmit_correct:
  assumes "tx_wf sp" "sta_tab sp a = Some i" "a \<noteq> bc_addr" "sta_state (sta_at sp i) AND 1 \<noteq> 0"
    "sta_tab sp bc_addr = Some b" "sta_state (sta_at sp b) AND 1 \<noteq> 0" "t = push_bit (unat (aid (sta_at sp i))) 1" "length (slp sp i) < 2 ^ 32"
  shows "\<exists>sp' acts gs. wakeup_sta_to_xmit sp i = Some (sp', acts) \<and> tx_wf sp' \<and> tx_ids sp' = tx_ids sp \<and>
    slp sp' i = [] \<and> map frame_core gs = map frame_core (slp sp i) \<and> (\<forall>g \<in> set gs. x_triggered g = 1) \<and>
    (\<forall>ac < 4. pend sp' i ac = pend sp i ac @ filter (\<lambda>g. rtw_get_sta_pending (x_priority g) = ac) gs) \<and>
    ((\<forall>f \<in> set (slp sp i). uapsd_of (sta_at sp i) (x_priority f) AND 2 = 0) \<longrightarrow>
       (\<forall>k < length gs. x_mdata (gs ! k) = (if Suc k < length gs then 1 else 0))) \<and>
    sta_state (sta_at sp' i) = sta_state (sta_at sp i) AND NOT 0x404 \<and> sta_dz_bitmap sp' AND t = 0 \<and> tim_bitmap sp' AND t = 0 \<and>
    (sta_dz_bitmap sp AND NOT t AND 0xfffe = 0 \<longrightarrow> slp sp' b = [] \<and> sta_dz_bitmap sp' = 0) \<and>
    (\<forall>j. j \<noteq> i \<and> j \<noteq> b \<longrightarrow> sta_at sp' j = sta_at sp j)"
  using wakeup_sta_to_xmit_spec [OF assms(1-7)] assms(8) by blast

theorem wakeup_sta_to_xmit_correct_witness:
  "\<exists>sp sp' acts g. tx_wf sp \<and> slp sp 1 = [untrig demo_xframe] \<and> wakeup_sta_to_xmit sp 1 = Some (sp', acts) \<and> slp sp' 1 = [] \<and> pend sp' 1 0 = [g] \<and>
    frame_core g = frame_core demo_xframe \<and> x_triggered g = 1 \<and> x_mdata g = 0 \<and> sta_state (sta_at sp' 1) = 1"
proof -
  obtain sp0 where d: "tx_wf sp0" "sta_tab sp0 = [bc_addr \<mapsto> 0, demo_addr \<mapsto> 1]" "sta_state (sta_at sp0 0) = 1" "sta_state (sta_at sp0 1) = 1"
    "aid (sta_at sp0 1) = 1" "slp sp0 1 = []" "pend sp0 1 0 = [demo_xframe]" "pend sp0 1 1 = []" "pend sp0 1 2 = []" "pend sp0 1 3 = []" "uapsd_vo (sta_at sp0 1) = 0"
    using demo_waiting by blast
  have a: "sta_tab sp0 demo_addr = Some 1" "demo_addr \<noteq> bc_addr" "aid (sta_at sp0 1) < 16" "sta_state (sta_at sp0 1) AND 1 \<noteq> 0"
    "sta_tab sp0 bc_addr = Some 0" "sta_state (sta_at sp0 0) AND 1 \<noteq> 0"
    using d(2-5) by (simp_all add: demo_addr_def bc_addr_def)
  from stop_sta_xmit_spec [OF d(1) a, of 0] obtain sp acts0 where r: "stop_sta_xmit True 0 sp0 1 = Some (sp, acts0)" "tx_wf sp" "\<forall>ac < 4. pend sp 1 ac = [] \<and> 1 \<notin> set (hwq sp ac)"
    "slp sp 1 = slp sp0 1 @ concat (map (\<lambda>ac. map untrig (pend sp0 1 ac)) [0, 1, 2, 3])" "sta_tab sp = sta_tab sp0"
    "sta_core (sta_at sp 1) = sta_core ((sta_at sp0 1)\<lparr>sta_state := sta_state (sta_at sp0 1) OR 4\<rparr>)" "sta_core (sta_at sp 0) = sta_core (sta_at sp0 0)"
    by blast
  have s: "slp sp 1 = [untrig demo_xframe]" "pend sp 1 0 = []"
    using r(3,4) d(6-10) by (simp_all del: One_nat_def)
  have st: "sta_state (sta_at sp 1) = 5" "sta_state (sta_at sp 0) = 1" "uapsd_of (sta_at sp 1) 6 = 0"
    using sta_core_fields [OF r(6)] sta_core_fields [OF r(7)] d(3,4,11) by (simp_all add: uapsd_of_def del: One_nat_def)
  have b: "sta_tab sp demo_addr = Some 1" "sta_state (sta_at sp 1) AND 1 \<noteq> 0" "sta_tab sp bc_addr = Some 0" "sta_state (sta_at sp 0) AND 1 \<noteq> 0" "length (slp sp 1) < 2 ^ 32"
    using r(5) a st s(1) by (simp_all del: One_nat_def)
  from wakeup_sta_to_xmit_correct [OF r(2) b(1) a(2) b(2-4) refl b(5)] obtain sp' acts gs where w: "wakeup_sta_to_xmit sp 1 = Some (sp', acts)" "slp sp' 1 = []"
    "map frame_core gs = map frame_core (slp sp 1)" "\<forall>g \<in> set gs. x_triggered g = 1" "\<forall>ac < 4. pend sp' 1 ac = pend sp 1 ac @ filter (\<lambda>g. rtw_get_sta_pending (x_priority g) = ac) gs"
    "(\<forall>f \<in> set (slp sp 1). uapsd_of (sta_at sp 1) (x_priority f) AND 2 = 0) \<longrightarrow> (\<forall>k < length gs. x_mdata (gs ! k) = (if Suc k < length gs then 1 else 0))"
    "sta_state (sta_at sp' 1) = sta_state (sta_at sp 1) AND NOT 0x404"
    by blast
  obtain g where g: "gs = [g]" "frame_core g = frame_core demo_xframe"
    using w(3) s(1) by (cases gs) (auto simp: untrig_def simp del: One_nat_def)
  have "pend sp' 1 0 = [g]" "x_mdata g = 0" "sta_state (sta_at sp' 1) = 1"
    using w(5-7) g s st frame_core_eqD(2) [OF g(2)] demo_to_sta(2) by (simp_all add: untrig_def demo_xframe_def pool_frame_def del: One_nat_def)
  then show ?thesis
    using r(2) s(1) w(1,2,4) g by auto
qed

end
