(* ===== verification/Ap_Run.thy ===== *)
theory Ap_Run
  imports Ap_Sleep
begin

text \<open>
  The access point at work: service periods, the broadcast handler and the sending of one frame (\<open>xmit_delivery_enabled_frames\<close>,
  \<open>chk_bmc_sleepq_hdl\<close>, the end of \<open>rtw_xmit\<close>), and the relation \<open>ap_step\<close> of all transmit operations in any order. In every
  state that they reach each frame object is in one place and nothing but answers to a request waits for a station that sleeps.
\<close>

section \<open>Service periods and the broadcast handler\<close>

definition trig_enabled :: "sta_info \<Rightarrow> xframe \<Rightarrow> bool" where
  "trig_enabled s f \<longleftrightarrow> uapsd_of s (x_priority f) AND 2 \<noteq> 0"

lemma tx_change_tim [simp]: "tx_change sp i (sp'\<lparr>tim_bitmap := t\<rparr>) = tx_change sp i sp'"
  by (simp add: tx_change_def)

lemma delivery_loop_spec:
  assumes "tx_wf sp" "i < 32" "slp sp i = kept @ fs" "sta_state (sta_at sp i) AND 1 \<noteq> 0"
  shows "\<exists>sp' a gs. delivery_loop sp i kept fs = Some (sp', a) \<and> tx_change sp i sp' \<and> tx_ids sp' = tx_ids sp \<and>
    slp sp' i = kept @ filter (\<lambda>f. \<not> trig_enabled (sta_at sp i) f) fs \<and>
    map frame_core gs = map frame_core (filter (trig_enabled (sta_at sp i)) fs) \<and> (\<forall>g \<in> set gs. x_triggered g = 1) \<and>
    (\<forall>c. pend sp' i c = pend sp i c @ filter (\<lambda>g. rtw_get_sta_pending (x_priority g) = c) gs) \<and> sta_dz_bitmap sp' = sta_dz_bitmap sp"
  using assms
proof (induction fs arbitrary: sp kept)
  case Nil
  then show ?case
    by (simp add: tx_change_def)
next
  case (Cons f fs)
  let ?s = "sta_at sp i"
  note buf = sta_wf_buf(3) [OF tx_wfD(1) [OF Cons.prems(1)] Cons.prems(2)]
  show ?case
  proof (cases "trig_enabled ?s f")
    case False
    have "slp sp i = (kept @ [f]) @ fs"
      using Cons.prems(3) by simp
    from Cons.IH [OF Cons.prems(1,2) this Cons.prems(4)] show ?thesis
      using False buf by (simp add: trig_enabled_def)
  next
    case True
    define n where "n = sleepq_ac_len ?s - 1"
    define g where "g = (if n > 0 then f\<lparr>x_mdata := 1, x_eosp := 0\<rparr> else f\<lparr>x_mdata := 0, x_eosp := 1\<rparr>)\<lparr>x_triggered := 1\<rparr>"
    have g: "frame_core g = frame_core f" "x_triggered g = 1"
      by (simp_all add: g_def)
    obtain sp1 a where e: "rtl8812au_hal_xmitframe_enqueue
        (sta_set sp i (?s\<lparr>sleep_q := kept @ fs, sleepq_len := sleepq_len ?s - 1, sleepq_ac_len := n\<rparr>)) g = Some (True, sp1, a)"
      "tx_change sp i sp1" "tx_ids sp1 = tx_ids sp" "slp sp1 i = kept @ fs" "sta_dz_bitmap sp1 = sta_dz_bitmap sp"
      "\<forall>c. pend sp1 i c = pend sp i c @ (if rtw_get_sta_pending (x_priority g) = c then [g] else [])"
      using wake_step [OF Cons.prems(1-4) g(1), of n] by blast
    have core: "sta_core (sta_at sp1 i) = sta_core ?s" and wf1: "tx_wf sp1"
      using e(2) by (simp_all add: tx_change_def)
    note buf1 = sta_wf_buf(3) [OF tx_wfD(1) [OF wf1] Cons.prems(2)] and aid1 = sta_wf_aid [OF tx_wfD(1) [OF wf1] Cons.prems(2)]
    define sp2 where "sp2 = (if sleepq_ac_len (sta_at sp1 i) = 0 \<and> has_legacy_ac (sta_at sp1 i) = 0
      then sp1\<lparr>tim_bitmap := tim_bitmap sp1 AND NOT (push_bit (unat (aid (sta_at sp1 i))) 1)\<rparr> else sp1)"
    have s2: "tx_wf sp2" "slp sp2 i = kept @ fs" "sta_at sp2 i = sta_at sp1 i" "tx_change sp i sp2" "tx_ids sp2 = tx_ids sp" "sta_dz_bitmap sp2 = sta_dz_bitmap sp"
      "\<forall>c. pend sp2 i c = pend sp i c @ (if rtw_get_sta_pending (x_priority g) = c then [g] else [])"
      using wf1 e(2-6) by (simp_all add: sp2_def)
    have st: "sta_state (sta_at sp2 i) AND 1 \<noteq> 0" and tr: "trig_enabled (sta_at sp2 i) = trig_enabled ?s"
      using s2(3) sta_core_fields(3,5) [OF core] Cons.prems(4) by (simp_all add: trig_enabled_def fun_eq_iff)
    from Cons.IH [OF s2(1) Cons.prems(2) s2(2) st] obtain sp' b gs where r: "delivery_loop sp2 i kept fs = Some (sp', b)" "tx_change sp2 i sp'"
      "tx_ids sp' = tx_ids sp2" "slp sp' i = kept @ filter (\<lambda>f. \<not> trig_enabled ?s f) fs" "map frame_core gs = map frame_core (filter (trig_enabled ?s) fs)"
      "\<forall>g \<in> set gs. x_triggered g = 1" "\<forall>c. pend sp' i c = pend sp2 i c @ filter (\<lambda>g. rtw_get_sta_pending (x_priority g) = c) gs"
      "sta_dz_bitmap sp' = sta_dz_bitmap sp2"
      unfolding tr by blast
    have "\<exists>c. delivery_loop sp i kept (f # fs) = Some (sp', c)"
      using True buf buf1 aid1 e(1) r(1)
      by (cases "0 < n"; cases "sleepq_ac_len (sta_at sp1 i) = 0 \<and> has_legacy_ac (sta_at sp1 i) = 0")
        (simp_all add: trig_enabled_def Let_def aid_bit_def sp2_def g_def flip: n_def, (rule impI, blast)+)
    then show ?thesis
      using True tx_change_trans [OF s2(4) r(2)] r(3-8) s2(5-7) g by (elim exE) (rule exI [of _ sp'], rule exI, rule exI [of _ "g # gs"], simp)
  qed
qed

text \<open>C23. A service period sends what is asked for and nothing else: for a linked station \<open>xmit_delivery_enabled_frames\<close> always
  returns; the frames of trigger-enabled categories leave the sleep queue in their order and are queued behind those that
  wait already, marked as answers; the other frames stay buffered, in their order; no other station changes and
  every frame object stays accounted for.\<close>

theorem xmit_delivery_enabled_frames_correct:
  assumes "tx_wf sp" "i < 32" "sta_state (sta_at sp i) AND 1 \<noteq> 0"
  shows "\<exists>sp' acts gs. xmit_delivery_enabled_frames sp i = Some (sp', acts) \<and> tx_wf sp' \<and> tx_ids sp' = tx_ids sp \<and>
    slp sp' i = filter (\<lambda>f. \<not> trig_enabled (sta_at sp i) f) (slp sp i) \<and>
    map frame_core gs = map frame_core (filter (trig_enabled (sta_at sp i)) (slp sp i)) \<and> (\<forall>g \<in> set gs. x_triggered g = 1) \<and>
    (\<forall>ac < 4. pend sp' i ac = pend sp i ac @ filter (\<lambda>g. rtw_get_sta_pending (x_priority g) = ac) gs) \<and>
    (\<forall>j. j \<noteq> i \<longrightarrow> sta_at sp' j = sta_at sp j)"
proof -
  have "xmit_delivery_enabled_frames sp i = delivery_loop sp i [] (slp sp i)"
    using sta_wf_buf(3) [OF tx_wfD(1) [OF assms(1)] assms(2)] by (simp add: xmit_delivery_enabled_frames_def slp_def)
  then show ?thesis
    using delivery_loop_spec [OF assms(1,2), of "[]" "slp sp i"] assms(3) by (auto simp: tx_change_def)
qed

theorem xmit_delivery_enabled_frames_correct_witness:
  "\<exists>sp sp' acts g. tx_wf sp \<and> slp sp 1 = [untrig demo_xframe] \<and> xmit_delivery_enabled_frames sp 1 = Some (sp', acts) \<and> slp sp' 1 = [] \<and> pend sp' 1 0 = [g] \<and>
    frame_core g = frame_core demo_xframe \<and> x_triggered g = 1"
proof -
  obtain sp0 where d: "tx_wf sp0" "sta_tab sp0 = [bc_addr \<mapsto> 0, demo_addr \<mapsto> 1]" "sta_state (sta_at sp0 0) = 1" "sta_state (sta_at sp0 1) = 1"
    "aid (sta_at sp0 1) = 1" "slp sp0 1 = []" "pend sp0 1 0 = [demo_xframe]" "pend sp0 1 1 = []" "pend sp0 1 2 = []" "pend sp0 1 3 = []"
    using demo_waiting by blast
  have a: "sta_tab sp0 demo_addr = Some 1" "demo_addr \<noteq> bc_addr" "aid (sta_at sp0 1) < 16" "sta_state (sta_at sp0 1) AND 1 \<noteq> 0"
    "sta_tab sp0 bc_addr = Some 0" "sta_state (sta_at sp0 0) AND 1 \<noteq> 0"
    using d(2-5) by (simp_all add: demo_addr_def bc_addr_def)
  from stop_sta_xmit_spec [OF d(1) a, of 0] obtain sp1 where r: "tx_wf sp1" "\<forall>ac < 4. pend sp1 1 ac = [] \<and> 1 \<notin> set (hwq sp1 ac)"
    "slp sp1 1 = slp sp0 1 @ concat (map (\<lambda>ac. map untrig (pend sp0 1 ac)) [0, 1, 2, 3])"
    "sta_core (sta_at sp1 1) = sta_core ((sta_at sp0 1)\<lparr>sta_state := sta_state (sta_at sp0 1) OR 4\<rparr>)"
    by blast
  define s where "s = (sta_at sp1 1)\<lparr>uapsd_vo := 2\<rparr>"
  have one: "(1 :: nat) < 32"
    by simp
  have same: "hwaddr s = hwaddr (sta_at sp1 1)" "aid s < 32" "txservq s = txservq (sta_at sp1 1)" "sleep_q s = sleep_q (sta_at sp1 1)"
    "sleepq_len s = sleepq_len (sta_at sp1 1)"
    using sta_wf_aid [OF tx_wfD(1) [OF r(1)] one] by (simp_all add: s_def)
  note st = tx_wf_sta_set [OF r(1) one same]
  define sp where "sp = sta_set sp1 1 s"
  have s1: "slp sp 1 = [untrig demo_xframe]" "pend sp 1 0 = []" "sta_at sp 1 = s"
    using r(2,3) d(6-10) st by (simp_all add: sp_def del: One_nat_def)
  have lk: "sta_state (sta_at sp 1) AND 1 \<noteq> 0"
    using sta_core_fields(3) [OF r(4)] d(4) by (simp add: s1(3) s_def del: One_nat_def)
  have tr: "trig_enabled s (untrig demo_xframe)"
    by (simp add: trig_enabled_def s_def uapsd_of_def untrig_def demo_xframe_def)
  from xmit_delivery_enabled_frames_correct [OF st(1) [folded sp_def] one lk] obtain sp' acts gs where w: "xmit_delivery_enabled_frames sp 1 = Some (sp', acts)"
    "slp sp' 1 = filter (\<lambda>f. \<not> trig_enabled (sta_at sp 1) f) (slp sp 1)" "map frame_core gs = map frame_core (filter (trig_enabled (sta_at sp 1)) (slp sp 1))"
    "\<forall>g \<in> set gs. x_triggered g = 1" "\<forall>ac < 4. pend sp' 1 ac = pend sp 1 ac @ filter (\<lambda>g. rtw_get_sta_pending (x_priority g) = ac) gs"
    by blast
  obtain g where g: "gs = [g]" "frame_core g = frame_core demo_xframe"
    using w(3) s1 tr by (cases gs) (auto simp: untrig_def simp del: One_nat_def)
  have "slp sp' 1 = []" "pend sp' 1 0 = [g]"
    using w(2,5) g s1 tr frame_core_eqD(2) [OF g(2)] demo_to_sta(2) by (simp_all del: One_nat_def)
  then show ?thesis
    using st(1) s1(1) w(1,4) g by (auto simp: sp_def)
qed

lemma chk_bmc_sleepq_hdl_spec:
  assumes "tx_wf sp" "sta_tab sp bc_addr = Some b" "sta_state (sta_at sp b) AND 1 \<noteq> 0"
  shows "\<exists>sp' a. chk_bmc_sleepq_hdl hiq sp = Some (sp', a) \<and> tx_change sp b sp' \<and> tx_ids sp' = tx_ids sp \<and>
    (tim_bitmap sp AND 1 \<noteq> 0 \<and> length (slp sp b) < 2 ^ 32 \<longrightarrow> slp sp' b = []) \<and> sta_dz_bitmap sp' = sta_dz_bitmap sp"
proof -
  note wf = tx_wfD(1) [OF assms(1)]
  have b: "b < 32"
    using sta_tab_lt [OF wf assms(2)] .
  have get: "rtw_get_bcmc_stainfo sp = Some (Some b)"
    using rtw_get_stainfo_tab [OF wf, of bc_addr] assms(2) by (simp add: rtw_get_bcmc_stainfo_def sta_key_def bc_addr_def)
  have zero: "length (slp sp b) < 2 ^ 32 \<Longrightarrow> \<not> sleepq_len (sta_at sp b) > 0 \<Longrightarrow> slp sp b = []"
    using tx_wfD(3) [OF assms(1) b] by (auto simp: word_gt_0 word_of_nat_eq_0_iff dest: dvd_imp_le)
  obtain sp1 a where l: "bmc_loop (Some hiq) sp b (slp sp b) = Some (sp1, a)" "tx_change sp b sp1" "tx_ids sp1 = tx_ids sp" "slp sp1 b = []"
    "sta_dz_bitmap sp1 = sta_dz_bitmap sp"
    using bmc_loop_spec [OF assms(1) b refl assms(3), of "Some hiq"] by blast
  show ?thesis
  proof (cases "tim_bitmap sp AND 1 \<noteq> 0 \<and> sleepq_len (sta_at sp b) > 0")
    case True
    then show ?thesis
      using get sta_wf_buf(3) [OF wf b] l by (simp add: chk_bmc_sleepq_hdl_def slp_def)
  next
    case False
    then have "chk_bmc_sleepq_hdl hiq sp = Some (sp, [])"
      using get sta_wf_buf(3) [OF wf b] by (auto simp: chk_bmc_sleepq_hdl_def)
    then show ?thesis
      using False zero assms(1) by (auto simp: tx_change_def)
  qed
qed

section \<open>Sending one frame\<close>

lemma sleep_push_wf:
  assumes "tx_wf sp" "to_sta sp i f"
  shows "tx_change sp i (sleep_push sp i f)" "tx_ids (sleep_push sp i f) = add_mset (xid f) (tx_ids sp)" "pend (sleep_push sp i f) i = pend sp i"
    "slp (sleep_push sp i f) i = slp sp i @ [f]"
proof -
  note wf = tx_wfD(1) [OF assms(1)]
  let ?s = "sta_at sp i"
  have i: "i < 32"
    using to_sta_get [OF wf assms(2)] by simp
  obtain n t d where "sleep_push sp i f = sp\<lparr>pstainfo_buf := (pstainfo_buf sp)[i := ?s\<lparr>sleep_q := slp sp i @ [f], sleepq_len := sleepq_len ?s + 1,
      sleepq_ac_len := n\<rparr>], tim_bitmap := t, sta_dz_bitmap := d\<rparr>"
    using sleep_push_form by blast
  then have eq: "sleep_push sp i f = sp\<lparr>pstainfo_buf := (pstainfo_buf sp)[i := ?s\<lparr>sleep_q := slp sp i @ [f], sleepq_len := sleepq_len ?s + 1,
      sleepq_ac_len := n\<rparr>], xmitpriv := (xmitpriv sp)\<lparr>hwxmits := hwxmits (xmitpriv sp)\<rparr>, tim_bitmap := t, sta_dz_bitmap := d\<rparr>"
    by simp
  define s where "s = ?s\<lparr>sleep_q := slp sp i @ [f], sleepq_len := sleepq_len ?s + 1, sleepq_ac_len := n\<rparr>"
  have c1: "sta_core s = sta_core ?s" "length (txservq s) = 4" "sleepq_len s = of_nat (length (sleep_q s))" "list_all (to_sta sp i) (sleep_q s)"
    using tx_wfD(3,4) [OF assms(1) i] assms(2) sta_wf_buf(4) [OF wf i] by (simp_all add: s_def)
  have c2: "qcnt (txservq s ! c) = int (length (sta_pending (txservq s ! c))) \<and>
      list_all (\<lambda>f. to_sta sp i f \<and> rtw_get_sta_pending (x_priority f) = c) (sta_pending (txservq s ! c))" if "c < 4" for c
    using tx_wfD(5,6) [OF assms(1) i that] by (simp add: s_def pend_cnt_def pend_def)
  have c3: "distinct (sta_queue (hwxmits (xmitpriv sp) ! c)) \<and> set (sta_queue (hwxmits (xmitpriv sp) ! c)) \<subseteq> {..<32} \<and>
      set (hwq sp c) \<subseteq> insert i (set (sta_queue (hwxmits (xmitpriv sp) ! c))) \<and>
      accnt (hwxmits (xmitpriv sp) ! c) + pend_cnt sp i c = qcnt (txservq s ! c) + hwcnt sp c \<and>
      (sta_pending (txservq s ! c) \<noteq> [] \<longrightarrow> i \<in> set (sta_queue (hwxmits (xmitpriv sp) ! c)))" if "c < 4" for c
    using tx_wfD(7,8) [OF assms(1) that] tx_wfD(10) [OF assms(1) i that] by (auto simp: s_def hwq_def hwcnt_def pend_def pend_cnt_def)
  note r = tx_put_change [OF assms(1) i c1 c2 sta_wf_buf(2) [OF wf] c3 eq [folded s_def]]
  show "tx_change sp i (sleep_push sp i f)" "pend (sleep_push sp i f) i = pend sp i" "slp (sleep_push sp i f) i = slp sp i @ [f]"
    using r by (simp_all add: s_def pend_def fun_eq_iff)
  have "sta_ids s = add_mset (xid f) (sta_ids ?s)"
    by (simp add: sta_ids_def s_def slp_def)
  then show "tx_ids (sleep_push sp i f) = add_mset (xid f) (tx_ids sp)"
    using r(2) by simp
qed

lemma xmitpriv_change:
  assumes "tx_wf sp" "pool_wf xp" "hwxmits xp = hwxmits (xmitpriv sp)"
  shows "tx_change sp i (sp\<lparr>xmitpriv := xp\<rparr>)" "sta_at (sp\<lparr>xmitpriv := xp\<rparr>) j = sta_at sp j"
    "tx_ids (sp\<lparr>xmitpriv := xp\<rparr>) + pool_ids (xmitpriv sp) = tx_ids sp + pool_ids xp"
proof -
  let ?sp = "sp\<lparr>xmitpriv := xp\<rparr>"
  have at: "sta_at ?sp j = sta_at sp j" "sta_tab ?sp = sta_tab sp" for j
    by (simp_all add: sta_at_def sta_tab_def live_def)
  have "sta_wf ?sp"
    using tx_wfD(1) [OF assms(1)] assms(3) by (simp add: sta_wf_def at live_def)
  then have "tx_wf ?sp"
    using assms by (simp add: tx_wf_def pend_def pend_cnt_def slp_def hwq_def hwcnt_def to_sta_def [abs_def] at)
  then show "tx_change sp i ?sp" "sta_at ?sp j = sta_at sp j" "tx_ids ?sp + pool_ids (xmitpriv sp) = tx_ids sp + pool_ids xp"
    by (simp_all add: tx_change_def at tx_ids_def ac_simps)
qed

lemma free_xmitframe_wf:
  assumes "tx_wf sp" "data_frame f"
  shows "\<exists>xp a. rtw_free_xmitframe (xmitpriv sp) (Some f) = Some (xp, a) \<and> tx_change sp i (sp\<lparr>xmitpriv := xp\<rparr>) \<and>
    (\<forall>j. sta_at (sp\<lparr>xmitpriv := xp\<rparr>) j = sta_at sp j) \<and> tx_ids (sp\<lparr>xmitpriv := xp\<rparr>) = add_mset (xid f) (tx_ids sp)"
proof -
  obtain xp a where x: "rtw_free_xmitframe (xmitpriv sp) (Some f) = Some (xp, a)" "pool_ids xp = add_mset (xid f) (pool_ids (xmitpriv sp))"
    "hwxmits xp = hwxmits (xmitpriv sp)" "pool_wf xp"
    using rtw_free_xmitframe_pool [OF assms(2), of "xmitpriv sp"] tx_wfD(2) [OF assms(1)] by blast
  show ?thesis
    using x(1,2) xmitpriv_change [OF assms(1) x(4,3)] by auto
qed

text \<open>Sending one frame: it is buffered, queued, freed or handed to the hardware, and nothing else.\<close>

lemma pre_xmitframe_spec:
  assumes "tx_wf sp" "to_sta sp i f" "sta_state (sta_at sp i) AND 1 \<noteq> 0"
  shows "\<exists>r sp' a. pre_xmitframe busy xbuf direct sp f = Some (r, sp', a) \<and> tx_change sp i sp' \<and> sta_dz_bitmap sp' = sta_dz_bitmap sp \<and>
    (sp' = tx_push sp i f \<and> tx_ids sp' = add_mset (xid f) (tx_ids sp) \<and> a = [] \<or>
     (\<forall>j. sta_at sp' j = sta_at sp j) \<and> (if direct then sp' = sp \<and> a = [Xmit_direct (xid f)]
        else tx_ids sp' = add_mset (xid f) (tx_ids sp) \<and> Xmit_direct (xid f) \<notin> set a))"
proof -
  note wf = tx_wfD(1) [OF assms(1)]
  have i: "i < 32" and get: "rtw_get_stainfo sp (Some (x_ra f)) = Some (Some i)" "x_psta f = Some i"
    using to_sta_get [OF wf assms(2)] by simp_all
  have n: "rtw_txframes_sta_ac_pending sp f = Some (pend_cnt sp i (rtw_get_sta_pending (x_priority f)))"
    using get sta_wf_buf(3,4) [OF wf i] assms(3) by (simp add: rtw_txframes_sta_ac_pending_def pend_cnt_def arr_def [of "txservq s" for s])
  have q: "rtw_xmitframe_enqueue sp f = Some (True, tx_push sp i f)"
    using rtw_xmit_classifier_to_sta [OF wf assms(2)] assms(3) by (simp add: rtw_xmitframe_enqueue_def)
  show ?thesis
  proof (cases "pend_cnt sp i (rtw_get_sta_pending (x_priority f)) > 0 \<or> busy \<or> \<not> xbuf")
    case True
    then show ?thesis
      using n q tx_push_change [OF assms(1,2)] tx_push_wf(2) [OF assms(1,2)] tx_push_views(9) [OF wf i]
      by (intro exI [of _ False]) (simp add: pre_xmitframe_def)
  next
    case F: False
    show ?thesis
    proof (cases direct)
      case True
      then show ?thesis
        using F n assms(1) by (intro exI [of _ True]) (simp add: pre_xmitframe_def tx_change_def)
    next
      case False
      have "data_frame f"
        using assms(2) by (simp add: to_sta_def)
      then obtain xp a where x: "rtw_free_xmitframe (xmitpriv sp) (Some f) = Some (xp, a)" "tx_change sp i (sp\<lparr>xmitpriv := xp\<rparr>)"
        "\<forall>j. sta_at (sp\<lparr>xmitpriv := xp\<rparr>) j = sta_at sp j" "tx_ids (sp\<lparr>xmitpriv := xp\<rparr>) = add_mset (xid f) (tx_ids sp)"
        using free_xmitframe_wf [OF assms(1)] by blast
      moreover have "Xmit_direct (xid f) \<notin> set a"
        using x(1) by (auto simp: rtw_free_xmitframe_def Let_def split: if_splits option.splits)
      ultimately show ?thesis
        using F False n by (intro exI [of _ True]) (simp add: pre_xmitframe_def)
    qed
  qed
qed

lemma rtw_xmit_send_spec:
  assumes "tx_wf sp" "to_sta sp i f" "sta_state (sta_at sp i) AND 1 \<noteq> 0" "x_triggered f \<noteq> 1"
  shows "\<exists>r sp' a. rtw_xmit_send True hiq busy xbuf direct sp f = Some (r, sp', a) \<and> tx_change sp i sp' \<and>
    (if buffers True sp i then sp' = sleep_push sp i (do_queue_select f) \<and> tx_ids sp' = add_mset (xid f) (tx_ids sp) \<and> Xmit_direct (xid f) \<notin> set a
     else sta_dz_bitmap sp' = sta_dz_bitmap sp \<and>
       (sp' = sp \<and> a = [Xmit_direct (xid f)] \<or> tx_ids sp' = add_mset (xid f) (tx_ids sp) \<and> Xmit_direct (xid f) \<notin> set a))"
proof -
  let ?f = "do_queue_select f"
  have f: "to_sta sp i ?f" "x_triggered ?f \<noteq> 1" "xid ?f = xid f"
    using assms(2,4) by (simp_all add: do_queue_select_def)
  obtain a where e: "xmitframe_enqueue_for_sleeping_sta True hiq sp ?f =
      Some (if buffers True sp i then (True, ?f, sleep_push sp i ?f, a) else (False, ?f, sp, []))"
    using sleep_enqueue [OF tx_wfD(1) [OF assms(1)] f(1,2)] by blast
  show ?thesis
  proof (cases "buffers True sp i")
    case True
    have "Xmit_direct k \<notin> set a" for k
      using e True by (auto simp: xmitframe_enqueue_for_sleeping_sta_def Let_def bind_eq_Some_conv split: if_splits option.splits)
    then show ?thesis
      using e True sleep_push_wf [OF assms(1) f(1)] f(3) by (simp add: rtw_xmit_send_def)
  next
    case False
    obtain r sp' b where p: "pre_xmitframe busy xbuf direct sp ?f = Some (r, sp', b)" "tx_change sp i sp'" "sta_dz_bitmap sp' = sta_dz_bitmap sp"
      "sp' = tx_push sp i ?f \<and> tx_ids sp' = add_mset (xid f) (tx_ids sp) \<and> b = [] \<or>
       (\<forall>j. sta_at sp' j = sta_at sp j) \<and> (if direct then sp' = sp \<and> b = [Xmit_direct (xid f)]
          else tx_ids sp' = add_mset (xid f) (tx_ids sp) \<and> Xmit_direct (xid f) \<notin> set b)"
      using pre_xmitframe_spec [OF assms(1) f(1) assms(3), of busy xbuf direct] unfolding f(3) by blast
    then show ?thesis
      using e False by (intro exI [of _ "if r then 0 else 1"] exI [of _ sp'] exI [of _ b]) (auto simp: rtw_xmit_send_def split: if_splits)
  qed
qed

section \<open>All operations together\<close>

text \<open>A linked unicast station of the table, and one of them that sleeps.\<close>

definition uni :: "sta_priv \<Rightarrow> nat \<Rightarrow> bool" where
  "uni sp i \<longleftrightarrow> (\<exists>a. a \<noteq> bc_addr \<and> sta_tab sp a = Some i) \<and> sta_state (sta_at sp i) AND 1 \<noteq> 0"

definition asleep :: "sta_priv \<Rightarrow> nat \<Rightarrow> bool" where
  "asleep sp i \<longleftrightarrow> sta_state (sta_at sp i) AND 4 \<noteq> 0"

text \<open>The invariant: the queues are consistent, the broadcast station \<open>b\<close> is linked, association ids are between 1 and 15 and
  unique, and a station that sleeps has its bit in \<open>sta_dz_bitmap\<close> and nothing but triggered frames in its queues.\<close>

definition silent :: "sta_priv \<Rightarrow> nat \<Rightarrow> bool" where
  "silent sp i \<longleftrightarrow> sta_dz_bitmap sp AND push_bit (unat (aid (sta_at sp i))) 1 \<noteq> 0 \<and> (\<forall>ac < 4. \<forall>f \<in> set (pend sp i ac). x_triggered f = 1)"

definition ps_wf :: "nat \<Rightarrow> sta_priv \<Rightarrow> bool" where
  "ps_wf b sp \<longleftrightarrow> tx_wf sp \<and> sta_tab sp bc_addr = Some b \<and> sta_state (sta_at sp b) AND 1 \<noteq> 0 \<and>
     (\<forall>i. uni sp i \<longrightarrow> 0 < aid (sta_at sp i) \<and> aid (sta_at sp i) < 16 \<and> (asleep sp i \<longrightarrow> silent sp i)) \<and>
     inj_on (\<lambda>i. aid (sta_at sp i)) {i. uni sp i}"

lemma ps_wfD:
  assumes "ps_wf b sp"
  shows "tx_wf sp" "sta_tab sp bc_addr = Some b" "sta_state (sta_at sp b) AND 1 \<noteq> 0" "uni sp i \<Longrightarrow> 0 < aid (sta_at sp i)"
    "uni sp i \<Longrightarrow> aid (sta_at sp i) < 16" "uni sp i \<Longrightarrow> asleep sp i \<Longrightarrow> silent sp i" "uni sp i \<Longrightarrow> uni sp j \<Longrightarrow> i \<noteq> j \<Longrightarrow> aid (sta_at sp i) \<noteq> aid (sta_at sp j)"
  using assms by (auto simp: ps_wf_def dest: inj_onD)

lemma ps_wf_upd:
  assumes "ps_wf b sp" "tx_wf sp'" "sta_tab sp' = sta_tab sp"
    "\<And>j. aid (sta_at sp' j) = aid (sta_at sp j) \<and> sta_state (sta_at sp' j) AND 1 = sta_state (sta_at sp j) AND 1"
    "\<And>j. uni sp j \<Longrightarrow> asleep sp' j \<Longrightarrow> silent sp' j"
  shows "ps_wf b sp'"
proof -
  have "uni sp' = uni sp"
    using assms(3,4) by (simp add: fun_eq_iff uni_def)
  then show ?thesis
    using assms by (simp add: ps_wf_def)
qed

text \<open>A change of one station's queues keeps the invariant when it does not wake others and adds only triggered frames for a
  station that sleeps.\<close>

lemma ps_wf_change:
  assumes "ps_wf b sp" "tx_change sp i sp'" "\<And>t. sta_dz_bitmap sp AND t \<noteq> 0 \<Longrightarrow> sta_dz_bitmap sp' AND t \<noteq> 0"
    "\<And>ac f. uni sp i \<Longrightarrow> asleep sp i \<Longrightarrow> ac < 4 \<Longrightarrow> f \<in> set (pend sp' i ac) \<Longrightarrow> f \<in> set (pend sp i ac) \<or> x_triggered f = 1"
  shows "ps_wf b sp'"
proof (rule ps_wf_upd [OF assms(1)])
  have core: "sta_core (sta_at sp' j) = sta_core (sta_at sp j)" for j
    using assms(2) by (cases "j = i") (simp_all add: tx_change_def)
  show "aid (sta_at sp' j) = aid (sta_at sp j) \<and> sta_state (sta_at sp' j) AND 1 = sta_state (sta_at sp j) AND 1" for j
    using sta_core_fields [OF core] by simp
  show "silent sp' j" if "uni sp j" "asleep sp' j" for j
  proof -
    have sl: "asleep sp j" "silent sp j"
      using ps_wfD(6) [OF assms(1) that(1)] that(2) sta_core_fields(3) [OF core, of j] by (simp_all add: asleep_def)
    have "pend sp' j = pend sp j" if "j \<noteq> i"
      using assms(2) that by (simp add: tx_change_def pend_def fun_eq_iff)
    then show ?thesis
      using sl assms(3,4) that(1) sta_core_fields(2) [OF core, of j] by (cases "j = i") (simp_all add: silent_def, blast)
  qed
qed (use assms(2) in \<open>simp_all add: tx_change_def\<close>)

text \<open>The operations in any order. The second component are the objects that are in the hands of their users: allocated and not yet sent,
  or taken out for transmission.\<close>

inductive ap_step :: "u8 \<Rightarrow> sta_priv \<times> nat multiset \<Rightarrow> sta_priv \<times> nat multiset \<Rightarrow> bool" for hiq where
  alloc: "rtw_alloc_xmitframe (xmitpriv sp) = (Some f, xp) \<Longrightarrow> ap_step hiq (sp, fl) (sp\<lparr>xmitpriv := xp\<rparr>, add_mset (xid f) fl)"
| send: "to_sta sp i f \<Longrightarrow> sta_state (sta_at sp i) AND 1 \<noteq> 0 \<Longrightarrow> x_triggered f = 0 \<Longrightarrow> xid f \<in># fl \<Longrightarrow>
    rtw_xmit_send True hiq busy xbuf direct sp f = Some (r, sp', a) \<Longrightarrow>
    ap_step hiq (sp, fl) (sp', if Xmit_direct (xid f) \<in> set a then fl else fl - {#xid f#})"
| dequeue: "set (wmm_para_seq (xmitpriv sp)) \<subseteq> {..<4} \<Longrightarrow> rtw_dequeue_xframe wifi_spec sp n = Some (Some f, sp') \<Longrightarrow>
    ap_step hiq (sp, fl) (sp', add_mset (xid f) fl)"
| free: "data_frame f \<Longrightarrow> xid f \<in># fl \<Longrightarrow> rtw_free_xmitframe (xmitpriv sp) (Some f) = Some (xp, a) \<Longrightarrow>
    ap_step hiq (sp, fl) (sp\<lparr>xmitpriv := xp\<rparr>, fl - {#xid f#})"
| sleep: "uni sp i \<Longrightarrow> stop_sta_xmit True hiq sp i = Some (sp', a) \<Longrightarrow> ap_step hiq (sp, fl) (sp', fl)"
| wake: "uni sp i \<Longrightarrow> wakeup_sta_to_xmit sp i = Some (sp', a) \<Longrightarrow> ap_step hiq (sp, fl) (sp', fl)"
| trigger: "uni sp i \<Longrightarrow> xmit_delivery_enabled_frames sp i = Some (sp', a) \<Longrightarrow> ap_step hiq (sp, fl) (sp', fl)"
| bmc: "chk_bmc_sleepq_hdl hiq sp = Some (sp', a) \<Longrightarrow> ap_step hiq (sp, fl) (sp', fl)"

inductive_cases ap_stepE [consumes 1, case_names alloc send dequeue free sleep wake trigger bmc]: "ap_step hiq (sp, fl) (sp', fl')"

lemma tx_pop_change: "tx_wf sp \<Longrightarrow> i < 32 \<Longrightarrow> ac < 4 \<Longrightarrow> pend sp i ac = f # fs \<Longrightarrow> tx_change sp i (tx_pop sp i ac)"
  using tx_pop_wf [of sp i ac f fs] tx_pop_at [of sp i ac] by (simp add: tx_change_def tx_wfD(1))

lemma dequeue_change:
  assumes "tx_wf sp" "set (wmm_para_seq (xmitpriv sp)) \<subseteq> {..<4}" "rtw_dequeue_xframe wifi_spec sp n = Some (Some f, sp')"
  shows "\<exists>i. tx_change sp i sp' \<and> tx_ids sp = add_mset (xid f) (tx_ids sp') \<and> sta_dz_bitmap sp' = sta_dz_bitmap sp \<and>
    (\<forall>ac. set (pend sp' i ac) \<subseteq> set (pend sp i ac))"
proof -
  define order where "order = take n (if wifi_spec then wmm_para_seq (xmitpriv sp) else [0, 1, 2, 3])"
  have sub: "set order \<subseteq> {..<4}"
    using assms(2) by (auto simp: order_def dest!: in_set_takeD)
  obtain k i where k: "k < length order" "i \<in> set (hwq sp (order ! k))" "sp' = tx_pop sp i (order ! k)" "hd (pend sp i (order ! k)) = f" "pend sp i (order ! k) \<noteq> []"
    using dequeue_acs_spec [OF assms(1) sub] assms(3) by (auto simp: rtw_dequeue_xframe_def order_def)
  have ac: "order ! k < 4"
    using sub nth_mem [OF k(1)] by auto
  then have i: "i < 32"
    using k(2) tx_wfD(8) [OF assms(1)] by auto
  obtain fs where fs: "pend sp i (order ! k) = f # fs"
    using k(4,5) by (cases "pend sp i (order ! k)") auto
  show ?thesis
    using tx_pop_change [OF assms(1) i ac fs] tx_pop_wf(2) [OF assms(1) i ac fs] tx_pop_views(1,8) [OF tx_wfD(1) [OF assms(1)] i ac] fs
    by (intro exI [of _ i]) (auto simp: k(3))
qed

lemma uni_idx: "ps_wf b sp \<Longrightarrow> uni sp i \<Longrightarrow> i < 32 \<and> i \<noteq> b \<and> hwaddr (sta_at sp i) \<noteq> bc_addr"
  using sta_tab_lt [OF tx_wfD(1) [OF ps_wfD(1)]] sta_tab_Some [OF tx_wfD(1) [OF ps_wfD(1)]] ps_wfD(2) by (fastforce simp: uni_def)

lemma uni_buffers: "ps_wf b sp \<Longrightarrow> uni sp i \<Longrightarrow> asleep sp i \<Longrightarrow> buffers True sp i"
  using ps_wfD(6) [of b sp i] uni_idx [of b sp i] by (simp add: uni_def asleep_def buffers_def Let_def silent_def)

lemma or_keep: "x AND t \<noteq> 0 \<Longrightarrow> (x OR y) AND t \<noteq> (0 :: 'a::len word)"
  by (simp add: bit.conj_disj_distrib2 or_eq_0_iff)

lemma ps_sleep:
  assumes "ps_wf b sp" "uni sp i" "stop_sta_xmit True hiq sp i = Some (sp', a)"
  shows "ps_wf b sp' \<and> tx_ids sp' = tx_ids sp"
proof -
  let ?t = "push_bit (unat (aid (sta_at sp i))) 1 :: u16"
  obtain m where m: "sta_tab sp m = Some i" "m \<noteq> bc_addr" "sta_state (sta_at sp i) AND 1 \<noteq> 0"
    using assms(2) by (auto simp: uni_def)
  obtain d where s: "tx_wf sp'" "tx_ids sp' = tx_ids sp" "\<forall>ac < 4. pend sp' i ac = []" "sta_tab sp' = sta_tab sp"
    "sta_core (sta_at sp' i) = sta_core ((sta_at sp i)\<lparr>sta_state := sta_state (sta_at sp i) OR 4\<rparr>)" "sta_core (sta_at sp' b) = sta_core (sta_at sp b)"
    "\<forall>j. j \<noteq> i \<and> j \<noteq> b \<longrightarrow> sta_at sp' j = sta_at sp j" "sta_dz_bitmap sp' = sta_dz_bitmap sp OR ?t OR d" "sta_dz_bitmap sp' AND ?t \<noteq> 0"
    using stop_sta_xmit_spec [OF ps_wfD(1) [OF assms(1)] m(1,2) ps_wfD(5) [OF assms(1,2)] m(3) ps_wfD(2,3) [OF assms(1)], of hiq] assms(3)
    by (auto simp del: push_bit_of_1)
  have "ps_wf b sp'"
  proof (rule ps_wf_upd [OF assms(1) s(1,4)])
    show core: "aid (sta_at sp' j) = aid (sta_at sp j) \<and> sta_state (sta_at sp' j) AND 1 = sta_state (sta_at sp j) AND 1" for j
      using sta_core_fields(2,3) [OF s(5)] sta_core_fields(2,3) [OF s(6)] s(7) by (cases "j = i"; cases "j = b") (simp_all add: bit.conj_disj_distrib2)
    show "silent sp' j" if "uni sp j" "asleep sp' j" for j
    proof (cases "j = i")
      case True
      then show ?thesis
        using s(3,9) core [of i] by (simp add: silent_def del: push_bit_of_1)
    next
      case False
      then have eq: "sta_at sp' j = sta_at sp j"
        using uni_idx [OF assms(1) that(1)] s(7) by simp
      then have "silent sp j"
        using ps_wfD(6) [OF assms(1) that(1)] that(2) by (simp add: asleep_def)
      then show ?thesis
        using eq or_keep [of "sta_dz_bitmap sp" _ "?t OR d"] by (simp add: silent_def pend_def s(8) or.assoc del: push_bit_of_1)
    qed
  qed
  then show ?thesis
    using s(2) by simp
qed

text \<open>Waking one station leaves the bits of the others.\<close>

lemma bit_and_push: "n < LENGTH('a) \<Longrightarrow> x AND push_bit n 1 \<noteq> 0 \<longleftrightarrow> bit (x :: 'a::len word) n"
  by (simp add: bit_iff_and_push_bit_not_eq_0)

lemma dz_other:
  assumes "x AND push_bit (unat (c :: u32)) 1 \<noteq> (0 :: u16)" "c \<noteq> d" "0 < c" "c < 16"
  shows "(x AND NOT (push_bit (unat d) 1)) AND push_bit (unat c) 1 \<noteq> 0" "x AND NOT (push_bit (unat d) 1) AND 0xfffe \<noteq> 0"
proof -
  have c: "unat c < 16" "unat c \<noteq> unat d" "unat c \<noteq> 0"
    using assms(2-4) by (simp_all add: word_less_nat_alt word_unat_eq_iff)
  then have b: "bit (x AND NOT (push_bit (unat d) 1)) (unat c)"
    using assms(1) bit_and_push [of "unat c" x] by (auto simp: bit_and_iff bit_not_iff bit_push_bit_iff bit_1_iff simp del: push_bit_of_1)
  then show "(x AND NOT (push_bit (unat d) 1)) AND push_bit (unat c) 1 \<noteq> 0"
    using c(1) by (simp add: bit_and_push del: push_bit_of_1)
  have "(0xfffe :: u16) = NOT 1"
    by simp
  then have "bit (x AND NOT (push_bit (unat d) 1) AND 0xfffe) (unat c)"
    using b c(3) by (simp only: bit_and_iff bit_not_iff bit_1_iff) (simp add: c(1))
  then show "x AND NOT (push_bit (unat d) 1) AND 0xfffe \<noteq> 0"
    by (metis bit_0_eq bot_apply bot_bool_def)
qed

lemma ps_wake:
  assumes "ps_wf b sp" "uni sp i" "wakeup_sta_to_xmit sp i = Some (sp', a)"
  shows "ps_wf b sp' \<and> tx_ids sp' = tx_ids sp"
proof -
  let ?t = "push_bit (unat (aid (sta_at sp i))) 1 :: u16"
  obtain m where m: "sta_tab sp m = Some i" "m \<noteq> bc_addr" "sta_state (sta_at sp i) AND 1 \<noteq> 0"
    using assms(2) by (auto simp: uni_def)
  have s: "tx_wf sp'" "tx_ids sp' = tx_ids sp" "sta_tab sp' = sta_tab sp" "sta_state (sta_at sp' i) = sta_state (sta_at sp i) AND NOT 0x404"
    "aid (sta_at sp' i) = aid (sta_at sp i)" "sta_core (sta_at sp' b) = sta_core (sta_at sp b)" "\<forall>j. j \<noteq> i \<and> j \<noteq> b \<longrightarrow> sta_at sp' j = sta_at sp j"
    "sta_dz_bitmap sp AND NOT ?t AND 0xfffe \<noteq> 0 \<longrightarrow> sta_dz_bitmap sp' = sta_dz_bitmap sp AND NOT ?t"
    using wakeup_sta_to_xmit_spec [OF ps_wfD(1) [OF assms(1)] m ps_wfD(2,3) [OF assms(1)] refl] assms(3)
    by (auto simp del: push_bit_of_1)
  have bits: "sta_state (sta_at sp' i) AND 1 = sta_state (sta_at sp i) AND 1" "sta_state (sta_at sp' i) AND 4 = 0"
    by (simp_all add: s(4) and.assoc)
  have "ps_wf b sp'"
  proof (rule ps_wf_upd [OF assms(1) s(1,3)])
    show "aid (sta_at sp' j) = aid (sta_at sp j) \<and> sta_state (sta_at sp' j) AND 1 = sta_state (sta_at sp j) AND 1" for j
      using s(5,7) bits(1) sta_core_fields(2,3) [OF s(6)] by (cases "j = i"; cases "j = b") simp_all
    show "silent sp' j" if "uni sp j" "asleep sp' j" for j
    proof -
      have j: "j \<noteq> i" "sta_at sp' j = sta_at sp j"
        using uni_idx [OF assms(1) that(1)] s(7) that(2) bits(2) by (auto simp: asleep_def)
      then have sl: "silent sp j"
        using ps_wfD(6) [OF assms(1) that(1)] that(2) by (simp add: asleep_def)
      then have "sta_dz_bitmap sp' AND push_bit (unat (aid (sta_at sp j))) 1 \<noteq> 0"
        using dz_other [of "sta_dz_bitmap sp" "aid (sta_at sp j)" "aid (sta_at sp i)"] s(8) ps_wfD(4,5) [OF assms(1) that(1)]
          ps_wfD(7) [OF assms(1) that(1) assms(2) j(1)] by (simp add: silent_def del: push_bit_of_1)
      then show ?thesis
        using sl j(2) by (simp add: silent_def pend_def)
    qed
  qed
  then show ?thesis
    using s(2) by simp
qed

lemma ps_send:
  assumes "ps_wf b sp" "to_sta sp i f" "sta_state (sta_at sp i) AND 1 \<noteq> 0" "x_triggered f = 0"
    "rtw_xmit_send True hiq busy xbuf direct sp f = Some (r, sp', a)"
  shows "ps_wf b sp' \<and> tx_ids sp' + (if Xmit_direct (xid f) \<in> set a then {#xid f#} else {#}) = add_mset (xid f) (tx_ids sp)"
proof -
  have s: "tx_change sp i sp'" "if buffers True sp i then sp' = sleep_push sp i (do_queue_select f) \<and> tx_ids sp' = add_mset (xid f) (tx_ids sp) \<and>
       Xmit_direct (xid f) \<notin> set a
     else sta_dz_bitmap sp' = sta_dz_bitmap sp \<and>
       (sp' = sp \<and> a = [Xmit_direct (xid f)] \<or> tx_ids sp' = add_mset (xid f) (tx_ids sp) \<and> Xmit_direct (xid f) \<notin> set a)"
    using rtw_xmit_send_spec [OF ps_wfD(1) [OF assms(1)] assms(2,3), of hiq busy xbuf direct] assms(4,5) by auto
  have f: "to_sta sp i (do_queue_select f)"
    using assms(2) by (simp add: do_queue_select_def)
  have "ps_wf b sp'"
  proof (rule ps_wf_change [OF assms(1) s(1)])
    show "sta_dz_bitmap sp' AND t \<noteq> 0" if "sta_dz_bitmap sp AND t \<noteq> 0" for t
      using s(2) that or_keep [OF that] by (auto simp: sleep_push_dz split: if_splits)
    show "g \<in> set (pend sp i ac) \<or> x_triggered g = 1" if "uni sp i" "asleep sp i" "ac < 4" "g \<in> set (pend sp' i ac)" for ac g
      using uni_buffers [OF assms(1) that(1,2)] s(2) sleep_push_wf(3) [OF ps_wfD(1) [OF assms(1)] f] that(4) by simp
  qed
  then show ?thesis
    using s(2) by (auto split: if_splits)
qed

lemma ap_step_keeps:
  assumes "ap_step hiq (sp, fl) (sp', fl')" "ps_wf b sp"
  shows "ps_wf b sp' \<and> tx_ids sp' + fl' = tx_ids sp + fl"
  using assms(1)
proof (cases rule: ap_stepE)
  case (alloc f xp)
  have "pool_wf xp \<and> hwxmits xp = hwxmits (xmitpriv sp) \<and> pool_ids (xmitpriv sp) = add_mset (xid f) (pool_ids xp)"
    using rtw_alloc_xmitframe_pool [OF tx_wfD(2) [OF ps_wfD(1) [OF assms(2)]] alloc(1)] by simp
  then have x: "pool_wf xp" "hwxmits xp = hwxmits (xmitpriv sp)" "pool_ids (xmitpriv sp) = add_mset (xid f) (pool_ids xp)"
    by simp_all
  note c = xmitpriv_change [OF ps_wfD(1) [OF assms(2)] x(1,2)]
  have "ps_wf b (sp\<lparr>xmitpriv := xp\<rparr>)"
    by (rule ps_wf_change [OF assms(2) c(1) [of 0]]) (simp_all add: pend_def c(2))
  then show ?thesis
    using alloc c(3) x(3) by simp
next
  case (send i f busy xbuf direct r a)
  then show ?thesis
    using ps_send [OF assms(2) send(2-4,6)] by (auto split: if_splits simp: multi_member_split)
next
  case (dequeue wifi_spec n f)
  obtain i where d: "tx_change sp i sp'" "tx_ids sp = add_mset (xid f) (tx_ids sp')" "sta_dz_bitmap sp' = sta_dz_bitmap sp"
    "\<forall>ac. set (pend sp' i ac) \<subseteq> set (pend sp i ac)"
    using dequeue_change [OF ps_wfD(1) [OF assms(2)] dequeue(2,3)] by blast
  have "ps_wf b sp'"
    by (rule ps_wf_change [OF assms(2) d(1)]) (use d(3,4) in auto)
  then show ?thesis
    using dequeue(1) d(2) by simp
next
  case (free f xp a)
  then have x: "tx_change sp 0 (sp\<lparr>xmitpriv := xp\<rparr>)" "\<forall>j. sta_at (sp\<lparr>xmitpriv := xp\<rparr>) j = sta_at sp j" "tx_ids (sp\<lparr>xmitpriv := xp\<rparr>) = add_mset (xid f) (tx_ids sp)"
    using free_xmitframe_wf [OF ps_wfD(1) [OF assms(2)] free(1), of 0] by auto
  have "ps_wf b (sp\<lparr>xmitpriv := xp\<rparr>)"
    by (rule ps_wf_change [OF assms(2) x(1)]) (use x(2) in \<open>simp_all add: pend_def\<close>)
  then show ?thesis
    using free x(3) by simp
next
  case (sleep i a)
  then show ?thesis
    using ps_sleep [OF assms(2)] by simp
next
  case (wake i a)
  then show ?thesis
    using ps_wake [OF assms(2)] by simp
next
  case (trigger i a)
  have i: "i < 32" "sta_state (sta_at sp i) AND 1 \<noteq> 0"
    using uni_idx [OF assms(2) trigger(2)] trigger(2) by (simp_all add: uni_def)
  have "delivery_loop sp i [] (slp sp i) = Some (sp', a)"
    using trigger(3) sta_wf_buf(3) [OF tx_wfD(1) [OF ps_wfD(1) [OF assms(2)]] i(1)] by (simp add: xmit_delivery_enabled_frames_def slp_def)
  then obtain gs where d: "tx_change sp i sp'" "tx_ids sp' = tx_ids sp" "sta_dz_bitmap sp' = sta_dz_bitmap sp" "\<forall>g \<in> set gs. x_triggered g = 1"
    "\<forall>c. pend sp' i c = pend sp i c @ filter (\<lambda>g. rtw_get_sta_pending (x_priority g) = c) gs"
    using delivery_loop_spec [OF ps_wfD(1) [OF assms(2)] i(1), of "[]" "slp sp i"] i(2) by auto
  have "ps_wf b sp'"
    by (rule ps_wf_change [OF assms(2) d(1)]) (use d(3-5) in auto)
  then show ?thesis
    using trigger(1) d(2) by simp
next
  case (bmc a)
  have d: "tx_change sp b sp'" "tx_ids sp' = tx_ids sp" "sta_dz_bitmap sp' = sta_dz_bitmap sp"
    using chk_bmc_sleepq_hdl_spec [OF ps_wfD(1-3) [OF assms(2)], of hiq] bmc(2) by auto
  have "ps_wf b sp'"
    by (rule ps_wf_change [OF assms(2) d(1)]) (use d(3) uni_idx [OF assms(2), of b] in auto)
  then show ?thesis
    using bmc(1) d(2) by simp
qed

lemma demo_ps:
  "\<exists>sp. ps_wf 0 sp \<and> uni sp 1 \<and> pend sp 1 0 = [demo_xframe] \<and> sta_tab sp demo_addr = Some 1 \<and> aid (sta_at sp 1) = 1 \<and> slp sp 1 = [] \<and>
    (\<forall>ac. ac < 4 \<and> ac \<noteq> 0 \<longrightarrow> pend sp 1 ac = [])"
proof -
  obtain sp where d: "tx_wf sp" "sta_tab sp = [bc_addr \<mapsto> 0, demo_addr \<mapsto> 1]" "sta_state (sta_at sp 0) = 1" "sta_state (sta_at sp 1) = 1"
    "aid (sta_at sp 1) = 1" "pend sp 1 0 = [demo_xframe]" "slp sp 1 = []" "pend sp 1 1 = []" "pend sp 1 2 = []" "pend sp 1 3 = []"
    using demo_waiting by blast
  have p: "pend sp 1 ac = []" if "ac < 4 \<and> ac \<noteq> 0" for ac
  proof -
    have "ac = 1 \<or> ac = 2 \<or> ac = 3"
      using that by linarith
    then show ?thesis
      using d(8-10) by blast
  qed
  have a: "demo_addr \<noteq> bc_addr"
    by (simp add: demo_addr_def bc_addr_def)
  then have u: "uni sp i \<longleftrightarrow> i = 1" for i
    using d(2,4) by (auto simp: uni_def split: if_splits)
  show ?thesis
    using d a p by (intro exI [of _ sp]) (simp add: ps_wf_def u asleep_def del: One_nat_def)
qed

text \<open>C8. The access point never loses a frame and never disturbs a station that sleeps: from a state that satisfies the
  invariant, after any sequence of allocations, transmissions, dequeues, frees, falling asleep, waking up,
  service periods and broadcast deliveries, the invariant holds, each frame object is in exactly one place (a free queue, a sleep
  queue, a transmit queue or a user's hands), and only frames a sleeping station asked for wait in its transmit queues.\<close>

theorem ap_run_safe:
  assumes "(ap_step hiq)\<^sup>*\<^sup>* (sp0, {#}) (sp, fl)" "ps_wf b sp0"
  shows "ps_wf b sp \<and> tx_ids sp + fl = tx_ids sp0 \<and>
    (\<forall>i. uni sp i \<and> asleep sp i \<longrightarrow> (\<forall>ac < 4. \<forall>f \<in> set (pend sp i ac). x_triggered f = 1))"
proof -
  have "ps_wf b sp \<and> tx_ids sp + fl = tx_ids sp0"
    using assms(1)
  proof (induction "(sp, fl)" arbitrary: sp fl rule: rtranclp_induct)
    case base
    then show ?case
      using assms(2) by simp
  next
    case (step y sp fl)
    obtain sp1 fl1 where y: "y = (sp1, fl1)"
      by (cases y)
    have "ps_wf b sp1 \<and> tx_ids sp1 + fl1 = tx_ids sp0"
      using step(3) y by simp
    then show ?case
      using ap_step_keeps [of hiq sp1 fl1 sp fl b] step(2) y by simp
  qed
  then show ?thesis
    using ps_wfD(6) by (auto simp: silent_def)
qed

theorem ap_run_safe_witness:
  "\<exists>sp0 sp. (ap_step 0)\<^sup>*\<^sup>* (sp0, {#}) (sp, {#}) \<and> pend sp0 1 0 = [demo_xframe] \<and> ps_wf 0 sp \<and> tx_ids sp = tx_ids sp0 \<and> pend sp 1 0 = []"
proof -
  obtain sp0 where p: "ps_wf 0 sp0" "uni sp0 1" "pend sp0 1 0 = [demo_xframe]"
    using demo_ps by blast
  obtain m where m: "sta_tab sp0 m = Some 1" "m \<noteq> bc_addr" "sta_state (sta_at sp0 1) AND 1 \<noteq> 0"
    using p(2) by (auto simp: uni_def)
  from stop_sta_xmit_spec [OF ps_wfD(1) [OF p(1)] m(1,2) ps_wfD(5) [OF p(1,2)] m(3) ps_wfD(2,3) [OF p(1)], of 0]
  obtain sp acts where s: "stop_sta_xmit True 0 sp0 1 = Some (sp, acts)" "\<forall>ac < 4. pend sp 1 ac = [] \<and> 1 \<notin> set (hwq sp ac)"
    by blast
  have run: "(ap_step 0)\<^sup>*\<^sup>* (sp0, {#}) (sp, {#})"
    using ap_step.sleep [OF p(2) s(1)] by blast
  show ?thesis
    using ap_run_safe [OF run p(1)] run p(3) s(2) by (intro exI [of _ sp0] exI [of _ sp]) simp
qed

text \<open>C24. No transmit operation of the access point faults: in every state of the invariant \<open>rtw_xmit\<close> (for a linked station),
  \<open>rtw_dequeue_xframe\<close>, \<open>stop_sta_xmit\<close>, \<open>wakeup_sta_to_xmit\<close>, \<open>xmit_delivery_enabled_frames\<close> and \<open>chk_bmc_sleepq_hdl\<close> return: they follow no NULL
  pointer, index inside their arrays and shift by less than the width.\<close>

theorem ap_ops_return:
  assumes "ps_wf b sp"
  shows "(\<forall>i. uni sp i \<longrightarrow> stop_sta_xmit True hiq sp i \<noteq> None \<and> wakeup_sta_to_xmit sp i \<noteq> None \<and> xmit_delivery_enabled_frames sp i \<noteq> None) \<and>
    chk_bmc_sleepq_hdl hiq sp \<noteq> None \<and> rtw_dequeue_xframe False sp 4 \<noteq> None \<and>
    (\<forall>i f. to_sta sp i f \<and> sta_state (sta_at sp i) AND 1 \<noteq> 0 \<and> x_triggered f = 0 \<longrightarrow> rtw_xmit_send True hiq busy xbuf direct sp f \<noteq> None)"
proof -
  note wf = ps_wfD(1) [OF assms]
  have "stop_sta_xmit True hiq sp i \<noteq> None \<and> wakeup_sta_to_xmit sp i \<noteq> None \<and> xmit_delivery_enabled_frames sp i \<noteq> None" if "uni sp i" for i
  proof -
    from that obtain m where m: "sta_tab sp m = Some i" "m \<noteq> bc_addr" "sta_state (sta_at sp i) AND 1 \<noteq> 0"
      by (auto simp: uni_def)
    have i: "i < 32"
      using uni_idx [OF assms that] by simp
    have "xmit_delivery_enabled_frames sp i = delivery_loop sp i [] (slp sp i)"
      using sta_wf_buf(3) [OF tx_wfD(1) [OF wf] i] by (simp add: xmit_delivery_enabled_frames_def slp_def)
    then show ?thesis
      using stop_sta_xmit_spec [OF wf m(1,2) ps_wfD(5) [OF assms that] m(3) ps_wfD(2,3) [OF assms], of hiq]
        wakeup_sta_to_xmit_spec [OF wf m ps_wfD(2,3) [OF assms] refl] delivery_loop_spec [OF wf i, of "[]" "slp sp i"] m(3) by auto
  qed
  moreover have "chk_bmc_sleepq_hdl hiq sp \<noteq> None"
    using chk_bmc_sleepq_hdl_spec [OF wf ps_wfD(2,3) [OF assms], of hiq] by auto
  moreover have "rtw_dequeue_xframe False sp 4 \<noteq> None"
    using dequeue_acs_spec [OF wf, of "[0, 1, 2, 3]"] by (auto simp: rtw_dequeue_xframe_def)
  moreover have "rtw_xmit_send True hiq busy xbuf direct sp f \<noteq> None"
    if "to_sta sp i f" "sta_state (sta_at sp i) AND 1 \<noteq> 0" "x_triggered f = 0" for i f
    using rtw_xmit_send_spec [OF wf that(1,2), of hiq busy xbuf direct] that(3) by auto
  ultimately show ?thesis
    by blast
qed

theorem ap_ops_return_witness:
  "\<exists>sp. pend sp 1 0 = [demo_xframe] \<and> stop_sta_xmit True 0 sp 1 \<noteq> None \<and> wakeup_sta_to_xmit sp 1 \<noteq> None"
proof -
  obtain sp where p: "ps_wf 0 sp" "uni sp 1" "pend sp 1 0 = [demo_xframe]"
    using demo_ps by blast
  show ?thesis
    using ap_ops_return [OF p(1), of 0] p(2,3) by blast
qed

end
