(* ===== verification/Recv_Check.thy ===== *)
theory Recv_Check
  imports Recv_Path Ap_Run
begin

text \<open>
  The header checks of \<^verbatim>\<open>core/rtw_recv.c\<close>: \<open>validate_recv_frame\<close> with the checks for data, control and management frames, and the
  power management and trigger handling of an access point (\<open>process_pwrbit_data\<close>, \<open>process_wmmps_data\<close>, PS-Poll in
  \<open>validate_recv_ctrl_frame\<close>). The theorems say which frames pass and what the power bit and a PS-Poll do to the queues of \<open>Ap_Sleep\<close>.
\<close>

section \<open>Header fields\<close>

definition fc_flag :: "u16 \<Rightarrow> nat \<Rightarrow> u8" where
  "fc_flag fc n = (if bit fc n then 1 else 0)"

definition GetFrameSubType :: "mem \<Rightarrow> nat \<Rightarrow> u16 option" where
  "GetFrameSubType m p = map_option (\<lambda>v. v AND 0xfc) (RTW_GET_LE16 m p)"

definition get_tofr_ds :: "u16 \<Rightarrow> u8" where
  "get_tofr_ds fc = push_bit 1 (fc_flag fc 8) OR fc_flag fc 9"

text \<open>Where the addresses of a frame are: destination, source, network.\<close>

definition get_da :: "u8 \<Rightarrow> nat" where
  "get_da tofr = (if tofr = 0 \<or> tofr = 1 then 4 else 16)"

definition get_sa :: "u8 \<Rightarrow> nat" where
  "get_sa tofr = (if tofr = 0 \<or> tofr = 2 then 10 else if tofr = 1 then 16 else 24)"

definition get_hdr_bssid :: "u8 \<Rightarrow> nat" where
  "get_hdr_bssid tofr = (if tofr = 0 then 16 else if tofr = 1 then 10 else 4)"

datatype rx_ret = RxSuccess | RxFail | RxHandled

definition check_fwstate :: "rx_adapter \<Rightarrow> u32 \<Rightarrow> bool" where
  "check_fwstate ad st \<longleftrightarrow> fw_state ad AND st \<noteq> 0"

definition zero_addr :: mem where
  "zero_addr = replicate 6 0"

section \<open>Power saving of a station\<close>

definition process_pwrbit_data :: "rx_adapter \<Rightarrow> rframe \<Rightarrow> (rx_adapter \<times> rx_act list) option" where
  "process_pwrbit_data ad f = do {
     psta \<leftarrow> rtw_get_stainfo (stapriv ad) (Some (a_src (fattr f)));
     p \<leftarrow> at_off (rx_data f);
     fc \<leftarrow> RTW_GET_LE16 (fbuf f) p;
     case psta of None \<Rightarrow> Some (ad, [])
     | Some i \<Rightarrow> do {
         s \<leftarrow> arr (pstainfo_buf (stapriv ad)) i;
         if bit fc 12 then
           (if sta_state s AND 4 = 0 then do {
              (sp, a) \<leftarrow> stop_sta_xmit (check_fwstate ad 0x10) (hiq_filter ad) (stapriv ad) i;
              Some (ad\<lparr>stapriv := sp\<rparr>, a) }
            else Some (ad, []))
         else if sta_state s AND 4 \<noteq> 0 then do {
           (sp, a) \<leftarrow> wakeup_sta_to_xmit (stapriv ad) i;
           Some (ad\<lparr>stapriv := sp\<rparr>, a) }
         else Some (ad, []) } }"

definition process_wmmps_data :: "rx_adapter \<Rightarrow> rframe \<Rightarrow> (rx_adapter \<times> rx_act list) option" where
  "process_wmmps_data ad f = do {
     psta \<leftarrow> rtw_get_stainfo (stapriv ad) (Some (a_src (fattr f)));
     case psta of None \<Rightarrow> Some (ad, [])
     | Some i \<Rightarrow> do {
         s \<leftarrow> arr (pstainfo_buf (stapriv ad)) i;
         if qos_option s = 0 \<or> qos_info s AND 0xf = 0 \<or> sta_state s AND 4 = 0 \<or> uapsd_of s (a_priority (fattr f)) AND 2 = 0 then Some (ad, [])
         else if sleepq_ac_len s > 0 then do {
           (sp, a) \<leftarrow> xmit_delivery_enabled_frames (stapriv ad) i;
           Some (ad\<lparr>stapriv := sp\<rparr>, a) }
         else Some (ad, [Issue_qos_nulldata (hwaddr s) (ucast (a_priority (fattr f)))]) } }"

section \<open>Data frames by direction\<close>

text \<open>In the test mode the addresses are taken from the header.\<close>

definition mp_addrs :: "rframe \<Rightarrow> nat \<Rightarrow> rframe option" where
  "mp_addrs f p = do {
     a1 \<leftarrow> rd_bytes (fbuf f) (p + 4) 6; a2 \<leftarrow> rd_bytes (fbuf f) (p + 10) 6; a3 \<leftarrow> rd_bytes (fbuf f) (p + 16) 6;
     Some (f\<lparr>fattr := (fattr f)\<lparr>a_dst := a1, a_src := a2, a_bssid := a3, a_ra := a1, a_ta := a2\<rparr>\<rparr>) }"

text \<open>Neither to nor from an access point. \<open>None\<close> as the inner result: dropped; otherwise the address of the station, if any.\<close>

definition sta2sta_addr :: "rx_adapter \<Rightarrow> rframe \<Rightarrow> bool \<Rightarrow> ((rx_ret \<times> mem option \<times> rframe) option) option" where
  "sta2sta_addr ad f bmcast = (let a = fattr f; me = myid (stapriv ad); bss = bss_mac ad in
     if check_fwstate ad 0x20 \<or> check_fwstate ad 0x40 then
       Some (if me = a_src a \<or> (me \<noteq> a_dst a \<and> \<not> bmcast) \<or> a_bssid a = zero_addr \<or> bss = zero_addr \<or> a_bssid a \<noteq> bss then None
             else Some (RxSuccess, Some (a_src a), f))
     else if check_fwstate ad 8 then
       Some (if a_bssid a \<noteq> a_src a then None else Some (RxSuccess, Some (a_bssid a), f))
     else if check_fwstate ad 0x10 then
       (if bmcast then do { m \<leftarrow> IS_MCAST (a_bssid a); Some (if m then Some (RxSuccess, None, f) else None) }
        else Some (if a_bssid a \<noteq> a_dst a then None else Some (RxSuccess, Some (a_src a), f)))
     else if check_fwstate ad 0x10000 then do {
       p \<leftarrow> at_off (rx_data f);
       f1 \<leftarrow> mp_addrs f p;
       Some (Some (RxSuccess, Some bss, f1)) }
     else Some (Some (RxFail, None, f)))"

definition sta2sta_data_frame :: "rx_adapter \<Rightarrow> rframe \<Rightarrow> (rx_ret \<times> nat option \<times> rframe \<times> rx_adapter \<times> rx_act list) option" where
  "sta2sta_data_frame ad f = do {
     bmcast \<leftarrow> IS_MCAST (a_dst (fattr f));
     r \<leftarrow> sta2sta_addr ad f bmcast;
     case r of None \<Rightarrow> Some (RxFail, None, f, ad, [])
     | Some (ret, sta_addr, f1) \<Rightarrow> do {
         psta \<leftarrow> (if bmcast then rtw_get_bcmc_stainfo (stapriv ad) else rtw_get_stainfo (stapriv ad) sta_addr);
         case psta of None \<Rightarrow> Some (RxFail, None, f1, if mp_mode ad = 1 \<and> check_fwstate ad 0x10000 then ad\<lparr>rx_pktloss := rx_pktloss ad + 1\<rparr> else ad, [])
         | Some i \<Rightarrow> Some (ret, Some i, f1, ad, []) } }"

text \<open>A frame without data is counted and ends here.\<close>

definition no_data :: "rx_adapter \<Rightarrow> rframe \<Rightarrow> nat \<Rightarrow> rx_act list \<Rightarrow> (rx_ret \<times> nat option \<times> rframe \<times> rx_adapter \<times> rx_act list) option" where
  "no_data ad f i acts = do {
     p \<leftarrow> at_off (rx_data f);
     st \<leftarrow> GetFrameSubType (fbuf f) p;
     if st AND 0x40 \<noteq> 0 then do { ad1 \<leftarrow> count_rx_stats ad f (Some i); Some (RxHandled, Some i, f, ad1, acts) }
     else Some (RxSuccess, Some i, f, ad, acts) }"

text \<open>The test mode, both directions.\<close>

definition mp_data_frame :: "rx_adapter \<Rightarrow> rframe \<Rightarrow> (rx_ret \<times> nat option \<times> rframe \<times> rx_adapter \<times> rx_act list) option" where
  "mp_data_frame ad f = do {
     p \<leftarrow> at_off (rx_data f);
     f1 \<leftarrow> mp_addrs f p;
     let f2 = (if bRTWSmbCfg ad then f1 else f1\<lparr>fattr := (fattr f1)\<lparr>a_bssid := bss_mac ad\<rparr>\<rparr>);
     psta \<leftarrow> rtw_get_stainfo (stapriv ad) (Some (a_bssid (fattr f2)));
     Some (if psta = None then RxFail else RxSuccess, psta, f2, ad, []) }"

definition ap2sta_data_frame :: "rx_adapter \<Rightarrow> rframe \<Rightarrow> (rx_ret \<times> nat option \<times> rframe \<times> rx_adapter \<times> rx_act list) option" where
  "ap2sta_data_frame ad f = (let a = fattr f; me = myid (stapriv ad); bss = bss_mac ad in do {
     bmcast \<leftarrow> IS_MCAST (a_dst a);
     if check_fwstate ad 8 \<and> (check_fwstate ad 1 \<or> check_fwstate ad 0x80) then
       (if me = a_src a \<or> (me \<noteq> a_dst a \<and> \<not> bmcast) then Some (RxFail, None, f, ad, [])
        else if a_bssid a = zero_addr \<or> bss = zero_addr \<or> a_bssid a \<noteq> bss then
          Some (RxFail, None, f, ad, if bmcast then [] else [Issue_deauth (a_bssid a) 7])
        else do {
          psta \<leftarrow> (if bmcast then rtw_get_bcmc_stainfo (stapriv ad) else rtw_get_stainfo (stapriv ad) (Some (a_bssid a)));
          case psta of None \<Rightarrow> Some (RxFail, None, f, ad, []) | Some i \<Rightarrow> no_data ad f i [] })
     else if check_fwstate ad 0x10000 \<and> check_fwstate ad 1 then mp_data_frame ad f
     else if check_fwstate ad 0x10 then Some (RxHandled, None, f, ad, [])
     else if me = a_dst a \<and> \<not> bmcast then do {
       psta \<leftarrow> rtw_get_stainfo (stapriv ad) (Some (a_bssid a));
       if psta = None \<and> (passing_ms ad (send_issue_deauth_time ad) > 10000 \<or> send_issue_deauth_time ad = 0) then
         Some (RxFail, psta, f, ad\<lparr>send_issue_deauth_time := cur_time ad\<rparr>, [Issue_deauth (a_bssid a) 7])
       else Some (RxFail, psta, f, ad, []) }
     else Some (RxFail, None, f, ad, []) })"

definition sta2ap_data_frame :: "rx_adapter \<Rightarrow> rframe \<Rightarrow> (rx_ret \<times> nat option \<times> rframe \<times> rx_adapter \<times> rx_act list) option" where
  "sta2ap_data_frame ad f = (let a = fattr f in
     if check_fwstate ad 0x10 then
       (if a_bssid a \<noteq> bss_mac ad then Some (RxFail, None, f, ad, [])
        else do {
          psta \<leftarrow> rtw_get_stainfo (stapriv ad) (Some (a_src a));
          case psta of None \<Rightarrow> Some (RxHandled, None, f, ad, [Issue_deauth (a_src a) 7])
          | Some i \<Rightarrow> do {
              (ad1, a1) \<leftarrow> process_pwrbit_data ad f;
              p \<leftarrow> at_off (rx_data f);
              st \<leftarrow> GetFrameSubType (fbuf f) p;
              (ad2, a2) \<leftarrow> (if st AND 0x88 = 0x88 then process_wmmps_data ad1 f else Some (ad1, []));
              no_data ad2 f i (a1 @ a2) } })
     else if check_fwstate ad 0x10000 \<and> check_fwstate ad 1 then mp_data_frame ad f
     else if a_ra a \<noteq> myid (stapriv ad) then Some (RxHandled, None, f, ad, [])
     else Some (RxHandled, None, f, ad, [Issue_deauth (a_src a) 7]))"

section \<open>Control frames\<close>

text \<open>A PS-Poll asks for one buffered frame. The oldest one is sent; without one the TIM is corrected.\<close>

definition pspoll_send :: "sta_priv \<Rightarrow> nat \<Rightarrow> u16 \<Rightarrow> (sta_priv \<times> rx_act list) option" where
  "pspoll_send sp i b = do {
     s \<leftarrow> arr (pstainfo_buf sp) i;
     case sleep_q s of
       f # fs \<Rightarrow> do {
         (ok, sp1, a) \<leftarrow> rtl8812au_hal_xmitframe_enqueue (sta_set sp i (s\<lparr>sleep_q := fs, sleepq_len := sleepq_len s - 1\<rparr>))
            (wake_frame False (sleepq_len s - 1) 0 f);
         s1 \<leftarrow> arr (pstainfo_buf sp1) i;
         if sleepq_len s1 = 0 then Some (sp1\<lparr>tim_bitmap := tim_bitmap sp1 AND NOT b\<rparr>, a @ [Update_beacon])
         else Some (sp1, a) }
     | [] \<Rightarrow>
         if tim_bitmap sp AND b \<noteq> 0 then
           (if sleepq_len s = 0 then Some (sp\<lparr>tim_bitmap := tim_bitmap sp AND NOT b\<rparr>, [Issue_nulldata (hwaddr s), Update_beacon])
            else Some ((sta_set sp i (s\<lparr>sleepq_len := 0\<rparr>))\<lparr>tim_bitmap := tim_bitmap sp AND NOT b\<rparr>, [Update_beacon]))
         else Some (sp, []) }"

definition pspoll :: "sta_priv \<Rightarrow> nat \<Rightarrow> u16 \<Rightarrow> u8 \<Rightarrow> (sta_priv \<times> rx_act list) option" where
  "pspoll sp i aid_field prio = do {
     s \<leftarrow> arr (pstainfo_buf sp) i;
     if aid s \<noteq> ucast aid_field \<or> uapsd_of s prio AND 1 \<noteq> 0 then Some (sp, [])
     else do {
       let s1 = (if sta_state s AND 0x400 \<noteq> 0 then s\<lparr>expire_to := sp_expire_to sp, sta_state := sta_state s XOR 0x400\<rparr> else s);
       let sp1 = sta_set sp i s1;
       if sta_state s1 AND 4 \<noteq> 0 then do {
         b \<leftarrow> aid_bit (aid s1);
         if sta_dz_bitmap sp1 AND b \<noteq> 0 then pspoll_send sp1 i b else Some (sp1, []) }
       else Some (sp1, []) } }"

definition validate_recv_ctrl_frame :: "rx_adapter \<Rightarrow> rframe \<Rightarrow> (rx_adapter \<times> rx_act list) option" where
  "validate_recv_ctrl_frame ad f = do {
     p \<leftarrow> at_off (rx_data f);
     t \<leftarrow> GetFrameType (fbuf f) p;
     if t \<noteq> 4 then Some (ad, [])
     else do {
       a1 \<leftarrow> rd_bytes (fbuf f) (p + 4) 6;
       if a1 \<noteq> myid (stapriv ad) then Some (ad, [])
       else do {
         a2 \<leftarrow> rd_bytes (fbuf f) (p + 10) 6;
         psta \<leftarrow> rtw_get_stainfo (stapriv ad) (Some a2);
         case psta of None \<Rightarrow> Some (ad, [])
         | Some i \<Rightarrow> do {
             s \<leftarrow> arr (pstainfo_buf (stapriv ad)) i;
             let ad1 = upd_sta ad i (s\<lparr>sta_stats := (sta_stats s)\<lparr>st_rx_ctrl_pkts := st_rx_ctrl_pkts (sta_stats s) + 1\<rparr>\<rparr>);
             st \<leftarrow> GetFrameSubType (fbuf f) p;
             if st = 0xa4 then do {
               v \<leftarrow> RTW_GET_LE16 (fbuf f) (p + 2);
               (sp, a) \<leftarrow> pspoll (stapriv ad1) i (v AND 0x3fff) (a_priority (fattr f));
               Some (ad1\<lparr>stapriv := sp\<rparr>, a) }
             else if st = 0x54 then Some (ad1, [Get_ndpa f])
             else Some (ad1, []) } } } }"

section \<open>Management frames\<close>

definition mgnt_stats :: "mem \<Rightarrow> u16 \<Rightarrow> mem \<Rightarrow> stainfo_stats \<Rightarrow> stainfo_stats" where
  "mgnt_stats me st a1 s = (let s1 = s\<lparr>st_rx_mgnt_pkts := st_rx_mgnt_pkts s + 1\<rparr> in
     if st = 0x80 then s1\<lparr>st_rx_beacon_pkts := st_rx_beacon_pkts s1 + 1\<rparr>
     else if st = 0x40 then s1\<lparr>st_rx_probereq_pkts := st_rx_probereq_pkts s1 + 1\<rparr>
     else if st = 0x50 then
       (if me = a1 then s1\<lparr>st_rx_probersp_pkts := st_rx_probersp_pkts s1 + 1\<rparr>
        else if a1 = bc_addr \<or> hd a1 AND 1 \<noteq> 0 \<and> hd a1 \<noteq> 0xff then s1\<lparr>st_rx_probersp_bm_pkts := st_rx_probersp_bm_pkts s1 + 1\<rparr>
        else s1\<lparr>st_rx_probersp_uo_pkts := st_rx_probersp_uo_pkts s1 + 1\<rparr>)
     else s1)"

definition mgnt_count :: "rx_adapter \<Rightarrow> rframe \<Rightarrow> rx_adapter option" where
  "mgnt_count ad f = do {
     p \<leftarrow> at_off (rx_data f);
     a2 \<leftarrow> rd_bytes (fbuf f) (p + 10) 6;
     psta \<leftarrow> rtw_get_stainfo (stapriv ad) (Some a2);
     case psta of None \<Rightarrow> Some ad
     | Some i \<Rightarrow> do {
         s \<leftarrow> arr (pstainfo_buf (stapriv ad)) i;
         st \<leftarrow> GetFrameSubType (fbuf f) p;
         a1 \<leftarrow> rd_bytes (fbuf f) (p + 4) 6;
         Some (upd_sta ad i (s\<lparr>sta_stats := mgnt_stats (myid (stapriv ad)) st a1 (sta_stats s)\<rparr>)) } }"

definition validate_recv_mgnt_frame :: "rx_adapter \<Rightarrow> rframe \<Rightarrow> (rx_adapter \<times> rx_act list) run" where
  "validate_recv_mgnt_frame ad f =
     run_bind (recvframe_chk_defrag ad f) (\<lambda>(r, ad1, acts1).
       case r of None \<Rightarrow> Some (Some (ad1, acts1))
       | Some g \<Rightarrow> run_bind (Some (mgnt_count ad1 g)) (\<lambda>ad2. Some (Some (ad2, acts1 @ [Mgt_dispatcher g]))))"

section \<open>Data frames\<close>

definition GET_ENCRY_ALGO :: "rx_adapter \<Rightarrow> sta_info \<Rightarrow> u8 \<Rightarrow> bool \<Rightarrow> u8" where
  "GET_ENCRY_ALGO ad s old bmcst =
     (if dot11AuthAlgrthm ad \<in> {0, 1, 3, 4} then ucast (dot11PrivacyAlgrthm ad)
      else if dot11AuthAlgrthm ad = 2 then (if bmcst then ucast (dot118021XGrpPrivacy ad) else ucast (dot118021XPrivacy s))
      else old)"

definition SET_ICE_IV_LEN :: "u8 \<Rightarrow> u8 \<times> u8" where
  "SET_ICE_IV_LEN enc = (if enc = WEP40 \<or> enc = WEP104 then (4, 4) else if enc = TKIP then (8, 4) else if enc = AES then (8, 8)
     else if enc = 6 then (18, 16) else (0, 0))"

text \<open>The addresses, then the check for the direction.\<close>

definition data_direction :: "rx_adapter \<Rightarrow> rframe \<Rightarrow> nat \<Rightarrow> (rx_ret \<times> nat option \<times> rframe \<times> rx_adapter \<times> rx_act list) option" where
  "data_direction ad f p = do {
     fc \<leftarrow> RTW_GET_LE16 (fbuf f) p;
     let tofr = get_tofr_ds fc;
     da \<leftarrow> rd_bytes (fbuf f) (p + get_da tofr) 6;
     sa \<leftarrow> rd_bytes (fbuf f) (p + get_sa tofr) 6;
     bss \<leftarrow> rd_bytes (fbuf f) (p + get_hdr_bssid tofr) 6;
     let a = (fattr f)\<lparr>a_dst := da, a_src := sa, a_bssid := bss\<rparr>;
     if a_to_fr_ds a = 0 then sta2sta_data_frame ad (f\<lparr>fattr := a\<lparr>a_ra := da, a_ta := sa\<rparr>\<rparr>)
     else if a_to_fr_ds a = 1 then ap2sta_data_frame ad (f\<lparr>fattr := a\<lparr>a_ra := da, a_ta := bss\<rparr>\<rparr>)
     else if a_to_fr_ds a = 2 then sta2ap_data_frame ad (f\<lparr>fattr := a\<lparr>a_ra := bss, a_ta := sa\<rparr>\<rparr>)
     else if a_to_fr_ds a = 3 then do {
       a1 \<leftarrow> rd_bytes (fbuf f) (p + 4) 6;
       a2 \<leftarrow> rd_bytes (fbuf f) (p + 10) 6;
       Some (RxFail, None, f\<lparr>fattr := a\<lparr>a_ra := a1, a_ta := a2\<rparr>\<rparr>, ad, []) }
     else Some (RxFail, None, f\<lparr>fattr := a\<rparr>, ad, []) }"

text \<open>The QoS control field and the length of the header.\<close>

definition qos_fields :: "rframe \<Rightarrow> nat \<Rightarrow> rframe option" where
  "qos_fields f p = (let a = (fattr f)\<lparr>a_amsdu := 0, a_ack_policy := 0\<rparr>; a4 = (a_to_fr_ds a = 3); ht = (if a_order a \<noteq> 0 then 4 else 0) in
     if a_qos a = 1 then do {
       qc \<leftarrow> RTW_GET_LE16 (fbuf f) (p + 24);
       Some (f\<lparr>fattr := a\<lparr>a_priority := ucast (qc AND 0xf), a_ack_policy := ucast (drop_bit 5 qc AND 3), a_amsdu := ucast (drop_bit 7 qc AND 1),
         a_hdrlen := (if a4 then 32 else 26) + ht\<rparr>\<rparr>) }
     else Some (f\<lparr>fattr := a\<lparr>a_priority := 0, a_hdrlen := (if a4 then 30 else 24) + ht\<rparr>\<rparr>))"

definition set_encrypt :: "rx_adapter \<Rightarrow> sta_info \<Rightarrow> rx_attr \<Rightarrow> rx_attr option" where
  "set_encrypt ad s a = (if a_privacy a \<noteq> 0 then do {
       mc \<leftarrow> IS_MCAST (a_ra a);
       let e = GET_ENCRY_ALGO ad s (a_encrypt a) mc;
       Some (a\<lparr>a_encrypt := e, a_iv_len := fst (SET_ICE_IV_LEN e), a_icv_len := snd (SET_ICE_IV_LEN e)\<rparr>) }
     else Some (a\<lparr>a_encrypt := 0, a_iv_len := 0, a_icv_len := 0\<rparr>))"

definition validate_recv_data_frame :: "rx_adapter \<Rightarrow> rframe \<Rightarrow> (rx_ret \<times> rframe \<times> rx_adapter \<times> rx_act list) option" where
  "validate_recv_data_frame ad f = do {
     p \<leftarrow> at_off (rx_data f);
     (r, psta, f1, ad1, acts) \<leftarrow> data_direction ad f p;
     if r \<noteq> RxSuccess then Some (r, f1, ad1, acts)
     else case psta of None \<Rightarrow> Some (RxFail, f1, ad1, acts)
     | Some i \<Rightarrow> do {
         f2 \<leftarrow> qos_fields (f1\<lparr>f_psta := Some i\<rparr>) p;
         let ad2 = (if a_qos (fattr f2) = 1 then ad1\<lparr>bIsAnyNonBEPkts := (a_priority (fattr f2) \<noteq> 0 \<and> a_priority (fattr f2) \<noteq> 3)\<rparr> else ad1);
         s \<leftarrow> arr (pstainfo_buf (stapriv ad2)) i;
         (ok, seqs) \<leftarrow> recv_decache (fattr f2) (tid_rxseq s);
         if \<not> ok then Some (RxFail, f2, ad2, acts)
         else do {
           let s1 = s\<lparr>tid_rxseq := seqs\<rparr>;
           a \<leftarrow> set_encrypt ad2 s1 (fattr f2);
           Some (RxSuccess, f2\<lparr>fattr := a\<rparr>, upd_sta ad2 i s1, acts) } } }"

section \<open>All frames\<close>

definition set_attribs :: "rframe \<Rightarrow> nat \<Rightarrow> rframe option" where
  "set_attribs f p = do {
     fc \<leftarrow> RTW_GET_LE16 (fbuf f) p;
     sc \<leftarrow> RTW_GET_LE16 (fbuf f) (p + 22);
     Some (f\<lparr>fattr := (fattr f)\<lparr>a_to_fr_ds := get_tofr_ds fc, a_frag_num := ucast (sc AND 0xf), a_seq_num := drop_bit 4 sc,
       a_pw_save := fc_flag fc 12, a_mfrag := fc_flag fc 10, a_mdata := fc_flag fc 13, a_privacy := fc_flag fc 14, a_order := fc_flag fc 15\<rparr>\<rparr>) }"

definition validate_recv_frame :: "rx_adapter \<Rightarrow> rframe \<Rightarrow> (rx_ret \<times> rframe \<times> rx_adapter \<times> rx_act list) run" where
  "validate_recv_frame ad f =
     run_bind (Some (at_off (rx_data f))) (\<lambda>p.
     run_bind (Some (rd8 (fbuf f) p)) (\<lambda>b0.
     if b0 AND 3 \<noteq> 0 then Some (Some (RxFail, f, ad, []))
     else run_bind (Some (GetFrameType (fbuf f) p)) (\<lambda>t.
       run_bind (Some (GetFrameSubType (fbuf f) p)) (\<lambda>st.
       run_bind (Some (set_attribs f p)) (\<lambda>f1.
       if t = 0 then run_bind (validate_recv_mgnt_frame ad f1) (\<lambda>(ad1, acts). Some (Some (RxFail, f1, ad1, acts)))
       else if t = 4 then run_bind (Some (validate_recv_ctrl_frame ad f1)) (\<lambda>(ad1, acts). Some (Some (RxFail, f1, ad1, acts)))
       else if t = 8 then
         run_bind (Some (validate_recv_data_frame ad (f1\<lparr>fattr := (fattr f1)\<lparr>a_qos := (if st AND 0x80 \<noteq> 0 then 1 else 0)\<rparr>\<rparr>))) (\<lambda>(r, f2, ad1, acts).
           Some (Some (r, f2, if r = RxFail then ad1\<lparr>rx_drop := rx_drop ad1 + 1\<rparr> else ad1, acts)))
       else Some (Some (RxFail, f1, ad, [])))))))"

section \<open>The power state of a station\<close>

lemma unicast_key:
  assumes "hd a AND 1 = (0 :: u8)"
  shows "sta_key a = a" "a \<noteq> bc_addr"
  using assms by (auto simp: sta_key_def bc_addr_def)

lemma get_stainfo_unicast:
  assumes "tx_wf sp" "length a = 6" "hd a AND 1 = 0"
  shows "rtw_get_stainfo sp (Some a) = Some (sta_tab sp a)"
  using rtw_get_stainfo_tab [OF tx_wfD(1) [OF assms(1)] assms(2)] unicast_key(1) [OF assms(3)] by simp

text \<open>Changes of a station outside its queues, address and state keep the invariant of the access point.\<close>

lemma ps_wf_sta_set:
  assumes "ps_wf b sp" "i < 32" "hwaddr s = hwaddr (sta_at sp i)" "aid s = aid (sta_at sp i)" "txservq s = txservq (sta_at sp i)"
    "sleep_q s = sleep_q (sta_at sp i)" "sleepq_len s = sleepq_len (sta_at sp i)" "sta_state s AND 5 = sta_state (sta_at sp i) AND 5"
  shows "ps_wf b (sta_set sp i s)" "tx_ids (sta_set sp i s) = tx_ids sp" "sta_tab (sta_set sp i s) = sta_tab sp"
    "\<And>j. sta_at (sta_set sp i s) j = (if j = i then s else sta_at sp j)" "\<And>j. uni (sta_set sp i s) j = uni sp j" "\<And>j. asleep (sta_set sp i s) j = asleep sp j"
proof -
  have "aid s < 32"
    using sta_wf_aid [OF tx_wfD(1) [OF ps_wfD(1) [OF assms(1)]] assms(2)] assms(4) by simp
  note t = tx_wf_sta_set [OF ps_wfD(1) [OF assms(1)] assms(2,3) this assms(5-7)]
  show "tx_ids (sta_set sp i s) = tx_ids sp" "sta_tab (sta_set sp i s) = sta_tab sp" "\<And>j. sta_at (sta_set sp i s) j = (if j = i then s else sta_at sp j)"
    using t by simp_all
  have "(sta_state s AND 5) AND 1 = (sta_state (sta_at sp i) AND 5) AND 1" "(sta_state s AND 5) AND 4 = (sta_state (sta_at sp i) AND 5) AND 4"
    by (simp_all only: assms(8))
  then have b: "sta_state s AND 1 = sta_state (sta_at sp i) AND 1" "sta_state s AND 4 = sta_state (sta_at sp i) AND 4"
    by (simp_all add: and.assoc)
  have dz: "sta_dz_bitmap (sta_set sp i s) = sta_dz_bitmap sp"
    by (simp add: sta_set_def)
  show as: "asleep (sta_set sp i s) j = asleep sp j" for j
    using b(2) by (simp add: asleep_def t(7))
  show "uni (sta_set sp i s) j = uni sp j" for j
    using b(1) by (simp add: uni_def t(3,7))
  show "ps_wf b (sta_set sp i s)"
  proof (rule ps_wf_upd [OF assms(1) t(1,3)])
    show "aid (sta_at (sta_set sp i s) j) = aid (sta_at sp j) \<and> sta_state (sta_at (sta_set sp i s) j) AND 1 = sta_state (sta_at sp j) AND 1" for j
      using b(1) assms(4) by (simp add: t(7))
    show "silent (sta_set sp i s) j" if "uni sp j" "asleep (sta_set sp i s) j" for j
      using ps_wfD(6) [OF assms(1) that(1)] that(2) assms(4) unfolding as by (cases "j = i") (simp_all add: silent_def t(4,7) dz)
  qed
qed

text \<open>A linked station that sends a unicast frame, and the frame.\<close>

definition from_sta :: "rx_adapter \<Rightarrow> nat \<Rightarrow> nat \<Rightarrow> rframe \<Rightarrow> bool" where
  "from_sta ad b i f \<longleftrightarrow> ps_wf b (stapriv ad) \<and> check_fwstate ad 0x10 \<and> length (a_src (fattr f)) = 6 \<and> hd (a_src (fattr f)) AND 1 = 0 \<and>
     sta_tab (stapriv ad) (a_src (fattr f)) = Some i \<and> sta_state (sta_at (stapriv ad) i) AND 1 \<noteq> 0"

lemma from_staD:
  assumes "from_sta ad b i f"
  shows "ps_wf b (stapriv ad)" "check_fwstate ad 0x10" "rtw_get_stainfo (stapriv ad) (Some (a_src (fattr f))) = Some (Some i)"
    "uni (stapriv ad) i" "i < 32" "arr (pstainfo_buf (stapriv ad)) i = Some (sta_at (stapriv ad) i)"
proof -
  show ps: "ps_wf b (stapriv ad)" and "check_fwstate ad 0x10"
    using assms by (simp_all add: from_sta_def)
  show "rtw_get_stainfo (stapriv ad) (Some (a_src (fattr f))) = Some (Some i)"
    using get_stainfo_unicast [OF ps_wfD(1) [OF ps]] assms by (simp add: from_sta_def)
  show u: "uni (stapriv ad) i"
    using assms unicast_key(2) by (auto simp: from_sta_def uni_def)
  show i: "i < 32"
    using uni_idx [OF ps u] by simp
  show "arr (pstainfo_buf (stapriv ad)) i = Some (sta_at (stapriv ad) i)"
    using sta_wf_buf(3) [OF tx_wfD(1) [OF ps_wfD(1) [OF ps]] i] .
qed

lemma from_sta_upd:
  assumes "from_sta ad b i f" "ps_wf b sp'" "sta_tab sp' = sta_tab (stapriv ad)" "sta_state (sta_at sp' i) AND 1 \<noteq> 0"
  shows "from_sta (ad\<lparr>stapriv := sp'\<rparr>) b i f"
  using assms by (simp add: from_sta_def check_fwstate_def)

lemma pwrbit_spec:
  assumes "from_sta ad b i f" "at_off (rx_data f) = Some p" "RTW_GET_LE16 (fbuf f) p = Some fc"
  shows "\<exists>sp' acts. process_pwrbit_data ad f = Some (ad\<lparr>stapriv := sp'\<rparr>, acts) \<and> from_sta (ad\<lparr>stapriv := sp'\<rparr>) b i f \<and> tx_ids sp' = tx_ids (stapriv ad) \<and>
    (asleep sp' i \<longleftrightarrow> bit fc 12)"
proof -
  note d = from_staD [OF assms(1)]
  let ?sp = "stapriv ad"
  obtain m where m: "sta_tab ?sp m = Some i" "m \<noteq> bc_addr" "sta_state (sta_at ?sp i) AND 1 \<noteq> 0"
    using d(4) by (auto simp: uni_def)
  note w = ps_wfD(1) [OF d(1)] and bc = ps_wfD(2,3) [OF d(1)]
  show ?thesis
  proof (cases "asleep ?sp i = bit fc 12")
    case True
    then have "process_pwrbit_data ad f = Some (ad\<lparr>stapriv := ?sp\<rparr>, [])"
      using assms(2,3) d(3,6) by (cases "bit fc 12") (simp_all add: process_pwrbit_data_def asleep_def)
    then show ?thesis
      using True assms(1) by (intro exI [of _ ?sp] exI [of _ "[]"]) simp
  next
    case False
    show ?thesis
    proof (cases "bit fc 12")
      case True
      obtain sp' a where s: "stop_sta_xmit True (hiq_filter ad) ?sp i = Some (sp', a)" "sta_state (sta_at sp' i) = sta_state (sta_at ?sp i) OR 4" "sta_tab sp' = sta_tab ?sp"
        using stop_sta_xmit_spec [OF w m(1,2) ps_wfD(5) [OF d(1,4)] m(3) bc, of "hiq_filter ad"] by blast
      have st: "sta_state (sta_at sp' i) AND 1 \<noteq> 0" "asleep sp' i"
        using m(3) by (simp_all add: asleep_def s(2) bit.conj_disj_distrib2)
      have "process_pwrbit_data ad f = Some (ad\<lparr>stapriv := sp'\<rparr>, a)"
        using assms(2,3) d(2,3,6) s(1) True False by (simp add: process_pwrbit_data_def asleep_def)
      then show ?thesis
        using True st(2) ps_sleep [OF d(1,4) s(1)] from_sta_upd [OF assms(1) _ s(3) st(1)] by blast
    next
      case no: False
      obtain sp' a where s: "wakeup_sta_to_xmit ?sp i = Some (sp', a)" "sta_state (sta_at sp' i) = sta_state (sta_at ?sp i) AND NOT 0x404" "sta_tab sp' = sta_tab ?sp"
        using wakeup_sta_to_xmit_spec [OF w m bc refl] by blast
      have st: "sta_state (sta_at sp' i) AND 1 \<noteq> 0" "\<not> asleep sp' i"
        using m(3) by (simp_all add: asleep_def s(2) and.assoc)
      have "process_pwrbit_data ad f = Some (ad\<lparr>stapriv := sp'\<rparr>, a)"
        using assms(2,3) d(3,6) s(1) no False by (simp add: process_pwrbit_data_def asleep_def)
      then show ?thesis
        using no st(2) ps_wake [OF d(1,4) s(1)] from_sta_upd [OF assms(1) _ s(3) st(1)] by blast
    qed
  qed
qed

lemma wmmps_spec:
  assumes "from_sta ad b i f"
  shows "\<exists>sp' acts. process_wmmps_data ad f = Some (ad\<lparr>stapriv := sp'\<rparr>, acts) \<and> from_sta (ad\<lparr>stapriv := sp'\<rparr>) b i f \<and> tx_ids sp' = tx_ids (stapriv ad) \<and>
    asleep sp' i = asleep (stapriv ad) i"
proof -
  note d = from_staD [OF assms]
  let ?sp = "stapriv ad" and ?s = "sta_at (stapriv ad) i"
  define skip where "skip \<longleftrightarrow> qos_option ?s = 0 \<or> qos_info ?s AND 0xf = 0 \<or> sta_state ?s AND 4 = 0 \<or> uapsd_of ?s (a_priority (fattr f)) AND 2 = 0"
  have run: "process_wmmps_data ad f = (if skip then Some (ad, []) else if sleepq_ac_len ?s > 0
      then do { (sp, a) \<leftarrow> xmit_delivery_enabled_frames ?sp i; Some (ad\<lparr>stapriv := sp\<rparr>, a) }
      else Some (ad, [Issue_qos_nulldata (hwaddr ?s) (ucast (a_priority (fattr f)))]))"
    unfolding process_wmmps_data_def d(3) bind.bind_lunit option.case d(6) skip_def ..
  show ?thesis
  proof (cases "\<not> skip \<and> sleepq_ac_len ?s > 0")
    case True
    have del: "xmit_delivery_enabled_frames ?sp i = delivery_loop ?sp i [] (slp ?sp i)" and up: "sta_state ?s AND 1 \<noteq> 0"
      using d(4,6) by (simp_all add: xmit_delivery_enabled_frames_def slp_def uni_def)
    obtain sp' a where e: "xmit_delivery_enabled_frames ?sp i = Some (sp', a)" "tx_change ?sp i sp'"
      using delivery_loop_spec [OF ps_wfD(1) [OF d(1)] d(5), of "[]" "slp ?sp i"] up unfolding del append_Nil by blast
    have core: "sta_state (sta_at sp' i) = sta_state ?s" "sta_tab sp' = sta_tab ?sp"
      using e(2) sta_core_fields(3) [of "sta_at sp' i" ?s] by (simp_all add: tx_change_def)
    have "process_wmmps_data ad f = Some (ad\<lparr>stapriv := sp'\<rparr>, a)"
      unfolding run using True e(1) by simp
    moreover have "ps_wf b sp' \<and> tx_ids sp' = tx_ids ?sp"
      using ap_step_keeps [OF ap_step.trigger [OF d(4) e(1), of 0 "{#}"] d(1)] by simp
    moreover have "asleep sp' i = asleep ?sp i" "sta_state (sta_at sp' i) AND 1 \<noteq> 0"
      using up by (simp_all add: asleep_def core(1))
    ultimately show ?thesis
      using from_sta_upd [OF assms _ core(2)] by blast
  next
    case False
    then have "\<exists>a. process_wmmps_data ad f = Some (ad\<lparr>stapriv := ?sp\<rparr>, a)"
      unfolding run by (cases skip) simp_all
    then show ?thesis
      using assms by (elim exE, intro exI [of _ ?sp] exI) (rule conjI, assumption, simp)
  qed
qed

lemma count_rx_stats_spec:
  assumes "from_sta ad b i f" "length (a_dst (fattr f)) = 6"
  shows "\<exists>ad'. count_rx_stats ad f (Some i) = Some ad' \<and> ps_wf b (stapriv ad') \<and> tx_ids (stapriv ad') = tx_ids (stapriv ad) \<and>
    asleep (stapriv ad') i = asleep (stapriv ad) i"
proof -
  note d = from_staD [OF assms(1)]
  obtain mc where mc: "IS_MCAST (a_dst (fattr f)) = Some mc"
    using assms(2) by (simp add: IS_MCAST_def rd8_def)
  define s where "s = (sta_at (stapriv ad) i)\<lparr>sta_stats := (sta_stats (sta_at (stapriv ad) i))\<lparr>
    st_rx_data_pkts := st_rx_data_pkts (sta_stats (sta_at (stapriv ad) i)) + 1, st_rx_bytes := st_rx_bytes (sta_stats (sta_at (stapriv ad) i)) + ucast (flen f)\<rparr>\<rparr>"
  have "\<exists>ad'. count_rx_stats ad f (Some i) = Some ad' \<and> stapriv ad' = sta_set (stapriv ad) i s"
    using mc d(6) by (simp add: count_rx_stats_def upd_sta_def sta_set_def s_def Let_def)
  then show ?thesis
    using ps_wf_sta_set(1,2,6) [OF d(1,5), of s] by (auto simp: s_def)
qed

text \<open>C5. The access point follows the power state that a station announces: for a to-network data frame of a linked station,
  addressed to this network, \<open>sta2ap_data_frame\<close> always returns; afterwards the station counts as asleep exactly when the power management
  bit of the header is set, the invariant of the transmit queues holds and every transmit frame object is still accounted for,
  whatever was flushed, buffered or delivered in a service period; the frame is accepted unless it carries no data.\<close>

theorem sta2ap_power_state:
  assumes "from_sta ad b i f" "a_bssid (fattr f) = bss_mac ad" "length (a_dst (fattr f)) = 6" "at_off (rx_data f) = Some p" "RTW_GET_LE16 (fbuf f) p = Some fc"
  shows "\<exists>ad' acts. sta2ap_data_frame ad f = Some (if bit fc 6 then RxHandled else RxSuccess, Some i, f, ad', acts) \<and>
    (asleep (stapriv ad') i \<longleftrightarrow> bit fc 12) \<and> ps_wf b (stapriv ad') \<and> tx_ids (stapriv ad') = tx_ids (stapriv ad)"
proof -
  note d = from_staD [OF assms(1)]
  obtain sp1 a1 where p: "process_pwrbit_data ad f = Some (ad\<lparr>stapriv := sp1\<rparr>, a1)" "from_sta (ad\<lparr>stapriv := sp1\<rparr>) b i f" "tx_ids sp1 = tx_ids (stapriv ad)"
    "asleep sp1 i \<longleftrightarrow> bit fc 12"
    using pwrbit_spec [OF assms(1,4,5)] by blast
  define sub where "sub = fc AND 0xfc"
  have st: "GetFrameSubType (fbuf f) p = Some sub"
    using assms(5) by (simp add: GetFrameSubType_def sub_def)
  obtain sp2 a2 where q: "(if sub AND 0x88 = 0x88 then process_wmmps_data (ad\<lparr>stapriv := sp1\<rparr>) f else Some (ad\<lparr>stapriv := sp1\<rparr>, [])) = Some (ad\<lparr>stapriv := sp2\<rparr>, a2)"
    "from_sta (ad\<lparr>stapriv := sp2\<rparr>) b i f" "tx_ids sp2 = tx_ids sp1" "asleep sp2 i = asleep sp1 i"
  proof (cases "sub AND 0x88 = 0x88")
    case True
    then show thesis
      using wmmps_spec [OF p(2)] that by auto
  next
    case False
    then show thesis
      using p(2) that by simp
  qed
  obtain ad3 where c: "count_rx_stats (ad\<lparr>stapriv := sp2\<rparr>) f (Some i) = Some ad3" "ps_wf b (stapriv ad3)" "tx_ids (stapriv ad3) = tx_ids sp2"
    "asleep (stapriv ad3) i = asleep sp2 i"
    using count_rx_stats_spec [OF q(2) assms(3)] by auto
  have b6: "sub AND 0x40 \<noteq> 0 \<longleftrightarrow> bit fc 6"
    using bit_and_push [of 6 fc] by (simp add: sub_def and.assoc)
  show ?thesis
  proof (cases "bit fc 6")
    case True
    then have "sta2ap_data_frame ad f = Some (RxHandled, Some i, f, ad3, a1 @ a2)"
      using d(2,3) assms(2,4) p(1) st q(1) c(1) b6 by (simp add: sta2ap_data_frame_def no_data_def Let_def)
    then show ?thesis
      using True p(3,4) q(3,4) c by auto
  next
    case False
    then have "sta2ap_data_frame ad f = Some (RxSuccess, Some i, f, ad\<lparr>stapriv := sp2\<rparr>, a1 @ a2)"
      using d(2,3) assms(2,4) p(1) st q(1) b6 by (simp add: sta2ap_data_frame_def no_data_def Let_def)
    then show ?thesis
      using False p(3,4) q(2-4) from_staD(1) [OF q(2)] by auto
  qed
qed

definition demo_null :: rframe where
  "demo_null = \<lparr>fid = 7, fattr = demo_attr\<lparr>a_src := demo_addr, a_bssid := [2, 0, 0, 0, 0, 2], a_dst := [2, 0, 0, 0, 0, 2]\<rparr>,
     flen = 24, fbuf = [0x48, 0x11] @ replicate 28 0, rx_data = 0, rx_tail = 24, rx_end = 30, f_psta = None\<rparr>"

lemma demo_from_sta:
  assumes "ps_wf 0 sp" "uni sp 1" "sta_tab sp demo_addr = Some 1"
  shows "from_sta ((demo_ad False)\<lparr>stapriv := sp, fw_state := 0x11\<rparr>) 0 1 demo_null"
  using assms by (simp add: from_sta_def uni_def check_fwstate_def demo_null_def demo_addr_def del: One_nat_def)

theorem sta2ap_power_state_witness:
  "\<exists>ad ad' acts. \<not> asleep (stapriv ad) 1 \<and> pend (stapriv ad) 1 0 = [demo_xframe] \<and>
    sta2ap_data_frame ad demo_null = Some (RxHandled, Some 1, demo_null, ad', acts) \<and> asleep (stapriv ad') 1 \<and> ps_wf 0 (stapriv ad')"
proof -
  obtain sp where p: "ps_wf 0 sp" "uni sp 1" "pend sp 1 0 = [demo_xframe]" "sta_tab sp demo_addr = Some 1"
    using demo_ps by blast
  let ?ad = "(demo_ad False)\<lparr>stapriv := sp, fw_state := 0x11\<rparr>"
  have "\<not> asleep sp 1"
    using ps_wfD(6) [OF p(1,2)] p(3) by (force simp: silent_def demo_xframe_def pool_frame_def simp del: One_nat_def)
  moreover have h: "a_bssid (fattr demo_null) = bss_mac ?ad" "length (a_dst (fattr demo_null)) = 6" "at_off (rx_data demo_null) = Some 0"
    "RTW_GET_LE16 (fbuf demo_null) 0 = Some 0x1148"
    by (simp_all add: demo_null_def demo_ad_def at_off_def RTW_GET_LE16_def rd8_def le16_def)
  moreover obtain ad' acts where "sta2ap_data_frame ?ad demo_null = Some (RxHandled, Some 1, demo_null, ad', acts)" "asleep (stapriv ad') 1" "ps_wf 0 (stapriv ad')"
    using sta2ap_power_state [OF demo_from_sta [OF p(1,2,4)] h] by auto
  ultimately show ?thesis
    using p(3) by (intro exI [of _ ?ad] exI [of _ ad'] exI [of _ acts]) simp
qed

section \<open>PS-Poll\<close>

lemma sleepq_len_0:
  assumes "tx_wf sp" "i < 32" "length (slp sp i) < 2 ^ 32"
  shows "sleepq_len (sta_at sp i) = 0 \<longleftrightarrow> slp sp i = []"
  using tx_wfD(3) [OF assms(1,2)] assms(3) by (auto simp: word_of_nat_eq_0_iff dest: dvd_imp_le)

lemma pspoll_send_spec:
  assumes "ps_wf b sp" "uni sp i" "t = push_bit (unat (aid (sta_at sp i))) 1" "length (slp sp i) < 2 ^ 32"
  shows "\<exists>sp' acts. pspoll_send sp i t = Some (sp', acts) \<and> ps_wf b sp' \<and> tx_ids sp' = tx_ids sp \<and> sta_state (sta_at sp' i) = sta_state (sta_at sp i) \<and>
    (\<forall>j. j \<noteq> i \<longrightarrow> sta_at sp' j = sta_at sp j) \<and> sta_dz_bitmap sp' = sta_dz_bitmap sp \<and> slp sp' i = tl (slp sp i) \<and>
    tim_bitmap sp' = (if length (slp sp i) \<le> 1 then tim_bitmap sp AND NOT t else tim_bitmap sp) \<and>
    (tim_bitmap sp' \<noteq> tim_bitmap sp \<longrightarrow> Update_beacon \<in> set acts) \<and>
    (case slp sp i of [] \<Rightarrow> pend sp' = pend sp \<and> (tim_bitmap sp AND t \<noteq> 0 \<longrightarrow> Issue_nulldata (hwaddr (sta_at sp i)) \<in> set acts)
     | f # fs \<Rightarrow> \<exists>g. frame_core g = frame_core f \<and> x_triggered g = 1 \<and> x_mdata g = (if fs = [] then 0 else 1) \<and>
         (\<forall>ac. pend sp' i ac = pend sp i ac @ (if rtw_get_sta_pending (x_priority g) = ac then [g] else [])))"
proof -
  let ?s = "sta_at sp i"
  note w = ps_wfD(1) [OF assms(1)]
  have i: "i < 32" and up: "sta_state ?s AND 1 \<noteq> 0"
    using uni_idx [OF assms(1,2)] assms(2) by (simp_all add: uni_def)
  note buf = sta_wf_buf(3) [OF tx_wfD(1) [OF w] i]
  show ?thesis
  proof (cases "slp sp i")
    case Nil
    have l0: "sleepq_len ?s = 0"
      using sleepq_len_0 [OF w i assms(4)] Nil by simp
    have same: "tim_bitmap sp AND NOT t = tim_bitmap sp" if "tim_bitmap sp AND t = 0"
    proof (rule bit_eqI)
      show "bit (tim_bitmap sp AND NOT t) n = bit (tim_bitmap sp) n" for n
        using arg_cong [OF that, of "\<lambda>x. bit x n"] by (auto simp: bit_simps dest: bit_imp_le_length)
    qed
    define sp' where "sp' = sp\<lparr>tim_bitmap := tim_bitmap sp AND NOT t\<rparr>"
    have "ps_wf b sp'"
      by (rule ps_wf_change [OF assms(1), of 0]) (use w in \<open>simp_all add: sp'_def tx_change_def\<close>)
    moreover have "pspoll_send sp i t = Some (sp', if tim_bitmap sp AND t \<noteq> 0 then [Issue_nulldata (hwaddr ?s), Update_beacon] else [])"
      using buf Nil l0 same by (simp add: pspoll_send_def slp_def sp'_def)
    moreover have "tx_ids sp' = tx_ids sp" "sta_at sp' = sta_at sp" "slp sp' = slp sp" "pend sp' = pend sp" "sta_dz_bitmap sp' = sta_dz_bitmap sp"
      "tim_bitmap sp' = tim_bitmap sp AND NOT t"
      by (simp_all add: sp'_def fun_eq_iff)
    ultimately show ?thesis
      using Nil same by auto
  next
    case (Cons f fs)
    define g where "g = wake_frame False (sleepq_len ?s - 1) 0 f"
    have "sleepq_len ?s - 1 = of_nat (length fs)" "(0 :: u32) < of_nat (length fs) \<longleftrightarrow> fs \<noteq> []"
      using tx_wfD(3) [OF w i] Cons assms(4) by (auto simp: word_gt_0 word_of_nat_eq_0_iff dest: dvd_imp_le)
    then have g: "frame_core g = frame_core f" "x_triggered g = 1" "x_mdata g = (if fs = [] then 0 else 1)"
      by (simp_all add: g_def) (simp add: wake_frame_def)
    obtain sp1 a where e: "rtl8812au_hal_xmitframe_enqueue
        (sta_set sp i (?s\<lparr>sleep_q := fs, sleepq_len := sleepq_len ?s - 1, sleepq_ac_len := sleepq_ac_len ?s\<rparr>)) g = Some (True, sp1, a)"
      "tx_change sp i sp1" "tx_ids sp1 = tx_ids sp" "slp sp1 i = fs" "tim_bitmap sp1 = tim_bitmap sp" "sta_dz_bitmap sp1 = sta_dz_bitmap sp"
      "\<forall>ac. pend sp1 i ac = pend sp i ac @ (if rtw_get_sta_pending (x_priority g) = ac then [g] else [])"
      using wake_step [OF w i, of "[]" f fs g "sleepq_ac_len ?s"] Cons up g(1) by auto
    have c: "tx_wf sp1" "sta_state (sta_at sp1 i) = sta_state ?s" "\<forall>j. j \<noteq> i \<longrightarrow> sta_at sp1 j = sta_at sp j"
      using e(2) sta_core_fields(3) [of "sta_at sp1 i" ?s] by (simp_all add: tx_change_def)
    have l1: "sleepq_len (sta_at sp1 i) = 0 \<longleftrightarrow> fs = []"
      using sleepq_len_0 [OF c(1) i] e(4) assms(4) Cons by simp
    define sp' where "sp' = (if fs = [] then sp1\<lparr>tim_bitmap := tim_bitmap sp1 AND NOT t\<rparr> else sp1)"
    have v: "tx_change sp i sp'" "tx_ids sp' = tx_ids sp" "slp sp' i = fs" "sta_dz_bitmap sp' = sta_dz_bitmap sp" "sta_at sp' = sta_at sp1" "pend sp' = pend sp1"
      using e(2-6) by (simp_all add: sp'_def fun_eq_iff)
    have "ps_wf b sp'"
      by (rule ps_wf_change [OF assms(1) v(1)]) (use v(4,6) e(7) g(2) in \<open>auto split: if_splits\<close>)
    moreover have "?s\<lparr>sleep_q := fs, sleepq_len := sleepq_len ?s - 1, sleepq_ac_len := sleepq_ac_len ?s\<rparr> = ?s\<lparr>sleep_q := fs, sleepq_len := sleepq_len ?s - 1\<rparr>"
      by simp
    then have "pspoll_send sp i t = Some (sp', if fs = [] then a @ [Update_beacon] else a)"
      using buf Cons e(1) l1 sta_wf_buf(3) [OF tx_wfD(1) [OF c(1)] i] by (simp add: pspoll_send_def slp_def sp'_def flip: g_def)
    moreover have "tim_bitmap sp' = (if length (slp sp i) \<le> 1 then tim_bitmap sp AND NOT t else tim_bitmap sp)"
      using e(5) Cons by (simp add: sp'_def)
    ultimately show ?thesis
      using Cons c(2,3) v g e(7) by auto
  qed
qed

text \<open>C9. A PS-Poll delivers one frame: when a linked station that sleeps polls with its own association id (and its category is not
  delivery-enabled), the handler always returns; the oldest buffered frame, and no other, is queued behind those that wait already,
  marked as an answer and with the more-data bit exactly when more frames are buffered; the station's TIM bit is cleared exactly when nothing is
  left, and the beacon is updated; without a buffered frame a null frame answers a wrong TIM bit. The station stays asleep, no
  other station changes, and the invariant of the transmit queues holds.\<close>

theorem pspoll_correct:
  assumes "ps_wf b sp" "uni sp i" "asleep sp i" "aid (sta_at sp i) = ucast fld" "uapsd_of (sta_at sp i) prio AND 1 = 0" "length (slp sp i) < 2 ^ 32"
    "t = push_bit (unat (aid (sta_at sp i))) 1"
  shows "\<exists>sp' acts. pspoll sp i fld prio = Some (sp', acts) \<and> ps_wf b sp' \<and> tx_ids sp' = tx_ids sp \<and> asleep sp' i \<and>
    (\<forall>j. j \<noteq> i \<longrightarrow> sta_at sp' j = sta_at sp j) \<and> slp sp' i = tl (slp sp i) \<and>
    tim_bitmap sp' = (if length (slp sp i) \<le> 1 then tim_bitmap sp AND NOT t else tim_bitmap sp) \<and>
    (tim_bitmap sp' \<noteq> tim_bitmap sp \<longrightarrow> Update_beacon \<in> set acts) \<and>
    (case slp sp i of [] \<Rightarrow> pend sp' = pend sp \<and> (tim_bitmap sp AND t \<noteq> 0 \<longrightarrow> Issue_nulldata (hwaddr (sta_at sp i)) \<in> set acts)
     | f # fs \<Rightarrow> \<exists>g. frame_core g = frame_core f \<and> x_triggered g = 1 \<and> x_mdata g = (if fs = [] then 0 else 1) \<and>
         (\<forall>ac. pend sp' i ac = pend sp i ac @ (if rtw_get_sta_pending (x_priority g) = ac then [g] else [])))"
proof -
  let ?s = "sta_at sp i"
  define s where "s = (if sta_state ?s AND 0x400 \<noteq> 0 then ?s\<lparr>expire_to := sp_expire_to sp, sta_state := sta_state ?s XOR 0x400\<rparr> else ?s)"
  define sp1 where "sp1 = sta_set sp i s"
  have i: "i < 32"
    using uni_idx [OF assms(1,2)] by simp
  have five: "(x XOR 0x400) AND 5 = x AND 5" for x :: u32
    by (simp add: bit.conj_xor_distrib2)
  have f: "hwaddr s = hwaddr ?s" "aid s = aid ?s" "txservq s = txservq ?s" "sleep_q s = sleep_q ?s" "sleepq_len s = sleepq_len ?s" "sta_state s AND 5 = sta_state ?s AND 5"
    by (simp_all add: s_def five)
  note st = ps_wf_sta_set [OF assms(1) i f, folded sp1_def]
  have at1: "sta_at sp1 i = s"
    using st(4) by simp
  have v: "slp sp1 = slp sp" "pend sp1 = pend sp" "tim_bitmap sp1 = tim_bitmap sp" "sta_dz_bitmap sp1 = sta_dz_bitmap sp"
    using f(3,4) st(4) by (simp_all add: slp_def pend_def fun_eq_iff) (simp_all add: sp1_def sta_set_def)
  have u1: "uni sp1 i" and a1: "asleep sp1 i"
    using st(5,6) assms(2,3) by simp_all
  have t1: "t = push_bit (unat (aid (sta_at sp1 i))) 1" "length (slp sp1 i) < 2 ^ 32"
    using assms(6,7) at1 f(2) v(1) by simp_all
  obtain sp' acts where e: "pspoll_send sp1 i t = Some (sp', acts)" "ps_wf b sp'" "tx_ids sp' = tx_ids sp1" "sta_state (sta_at sp' i) = sta_state (sta_at sp1 i)"
    "\<forall>j. j \<noteq> i \<longrightarrow> sta_at sp' j = sta_at sp1 j" "slp sp' i = tl (slp sp1 i)"
    "tim_bitmap sp' = (if length (slp sp1 i) \<le> 1 then tim_bitmap sp1 AND NOT t else tim_bitmap sp1)"
    "tim_bitmap sp' \<noteq> tim_bitmap sp1 \<longrightarrow> Update_beacon \<in> set acts"
    "case slp sp1 i of [] \<Rightarrow> pend sp' = pend sp1 \<and> (tim_bitmap sp1 AND t \<noteq> 0 \<longrightarrow> Issue_nulldata (hwaddr (sta_at sp1 i)) \<in> set acts)
     | f # fs \<Rightarrow> \<exists>g. frame_core g = frame_core f \<and> x_triggered g = 1 \<and> x_mdata g = (if fs = [] then 0 else 1) \<and>
         (\<forall>ac. pend sp' i ac = pend sp1 i ac @ (if rtw_get_sta_pending (x_priority g) = ac then [g] else []))"
    using pspoll_send_spec [OF st(1) u1 t1] by blast
  have "aid s < 32"
    using order.strict_trans [OF ps_wfD(5) [OF st(1) u1], of 32] by (simp add: at1)
  then have dz: "sta_dz_bitmap sp1 AND t \<noteq> 0" and bit: "aid_bit (aid s) = Some t" and sl: "sta_state s AND 4 \<noteq> 0"
    using ps_wfD(6) [OF st(1) u1 a1] a1 by (simp_all add: silent_def asleep_def at1 t1(1) aid_bit_some)
  have "pspoll sp i fld prio = Some (sp', acts)"
    using sta_wf_buf(3) [OF tx_wfD(1) [OF ps_wfD(1) [OF assms(1)]] i] assms(4,5) e(1) dz bit sl unfolding pspoll_def
    by (simp add: Let_def flip: s_def sp1_def)
  moreover have "asleep sp' i"
    using a1 e(4) by (simp add: asleep_def)
  moreover have "\<forall>j. j \<noteq> i \<longrightarrow> sta_at sp' j = sta_at sp j"
    using e(5) st(4) by simp
  ultimately show ?thesis
    using e(2,3,6-9) unfolding v at1 f(1) st(2) by blast
qed

lemma demo_asleep:
  "\<exists>sp. ps_wf 0 sp \<and> uni sp 1 \<and> asleep sp 1 \<and> slp sp 1 = [untrig demo_xframe] \<and> pend sp 1 0 = [] \<and> sta_tab sp demo_addr = Some 1 \<and> aid (sta_at sp 1) = 1"
proof -
  obtain sp0 where p: "ps_wf 0 sp0" "uni sp0 1" "pend sp0 1 0 = [demo_xframe]" "sta_tab sp0 demo_addr = Some 1" "aid (sta_at sp0 1) = 1" "slp sp0 1 = []"
    "\<forall>ac. ac < 4 \<and> ac \<noteq> 0 \<longrightarrow> pend sp0 1 ac = []"
    using demo_ps by blast
  have m: "demo_addr \<noteq> bc_addr" "sta_state (sta_at sp0 1) AND 1 \<noteq> 0"
    using p(2) by (simp_all add: demo_addr_def bc_addr_def uni_def)
  obtain sp a where s: "stop_sta_xmit True 0 sp0 1 = Some (sp, a)" "sta_state (sta_at sp 1) = sta_state (sta_at sp0 1) OR 4" "\<forall>ac < 4. pend sp 1 ac = [] \<and> 1 \<notin> set (hwq sp ac)"
    "slp sp 1 = slp sp0 1 @ concat (map (\<lambda>ac. map untrig (pend sp0 1 ac)) [0, 1, 2, 3])" "sta_tab sp = sta_tab sp0"
    "sta_core (sta_at sp 1) = sta_core ((sta_at sp0 1)\<lparr>sta_state := sta_state (sta_at sp0 1) OR 4\<rparr>)"
    using stop_sta_xmit_spec [OF ps_wfD(1) [OF p(1)] p(4) m(1) ps_wfD(5) [OF p(1,2)] m(2) ps_wfD(2,3) [OF p(1)], of 0] by blast
  have "asleep sp 1" "uni sp 1" "aid (sta_at sp 1) = 1"
    using m p(4,5) sta_core_fields(2) [OF s(6)] by (auto simp: asleep_def uni_def s(2,5) bit.conj_disj_distrib2 simp del: One_nat_def)
  moreover have "slp sp 1 = [untrig demo_xframe]" "pend sp 1 0 = []"
    using s(3,4) p(3,6,7) by (simp_all del: One_nat_def)
  ultimately show ?thesis
    using ps_sleep [OF p(1,2) s(1)] s(5) p(4) by auto
qed

theorem pspoll_correct_witness:
  "\<exists>sp sp' acts g. slp sp 1 = [untrig demo_xframe] \<and> pspoll sp 1 1 0 = Some (sp', acts) \<and> slp sp' 1 = [] \<and> pend sp' 1 0 = [g] \<and> frame_core g = frame_core demo_xframe \<and>
    x_triggered g = 1 \<and> x_mdata g = 0 \<and> tim_bitmap sp' AND 2 = 0 \<and> asleep sp' 1"
proof -
  obtain sp where p: "ps_wf 0 sp" "uni sp 1" "asleep sp 1" "slp sp 1 = [untrig demo_xframe]" "pend sp 1 0 = []" "aid (sta_at sp 1) = 1"
    using demo_asleep by blast
  define s where "s = (sta_at sp 1)\<lparr>uapsd_be := 0\<rparr>"
  define sp0 where "sp0 = sta_set sp 1 s"
  have one: "(1 :: nat) < 32"
    by simp
  note st = ps_wf_sta_set [OF p(1) one, of s, folded sp0_def]
  have v: "slp sp0 1 = [untrig demo_xframe]" "pend sp0 1 0 = []" "sta_at sp0 1 = s"
    using st(4) p(4,5) by (simp_all add: slp_def pend_def s_def del: One_nat_def)
  have h: "ps_wf 0 sp0" "uni sp0 1" "asleep sp0 1" "aid (sta_at sp0 1) = ucast (1 :: u16)" "uapsd_of (sta_at sp0 1) 0 AND 1 = 0" "length (slp sp0 1) < 2 ^ 32"
    "2 = push_bit (unat (aid (sta_at sp0 1))) (1 :: u16)"
    using st p v by (simp_all add: s_def uapsd_of_def del: One_nat_def)
  obtain sp' acts g where r: "pspoll sp0 1 1 0 = Some (sp', acts)" "asleep sp' 1" "slp sp' 1 = []" "tim_bitmap sp' = tim_bitmap sp0 AND NOT 2"
    "frame_core g = frame_core (untrig demo_xframe)" "x_triggered g = 1" "x_mdata g = 0"
    "\<forall>ac. pend sp' 1 ac = pend sp0 1 ac @ (if rtw_get_sta_pending (x_priority g) = ac then [g] else [])"
    using pspoll_correct [OF h] v(1) by auto
  have "pend sp' 1 0 = [g]" "tim_bitmap sp' AND 2 = 0" "frame_core g = frame_core demo_xframe"
    using r(4,5,8) v(2) frame_core_eqD(2) [OF r(5)] demo_to_sta(2) by (simp_all add: untrig_def and.assoc del: One_nat_def)
  then show ?thesis
    using r v(1) by blast
qed

section \<open>What is accepted\<close>

text \<open>A data frame goes past the checks on these conditions on its addresses, by direction. \<open>i\<close> is the station the
  frame is attributed to. The test mode is left out.\<close>

definition for_me :: "rx_adapter \<Rightarrow> rx_attr \<Rightarrow> bool" where
  "for_me ad a \<longleftrightarrow> a_src a \<noteq> myid (stapriv ad) \<and> (a_dst a = myid (stapriv ad) \<or> IS_MCAST (a_dst a) = Some True) \<and> a_bssid a = bss_mac ad \<and> bss_mac ad \<noteq> zero_addr"

definition sta_lookup :: "rx_adapter \<Rightarrow> rx_attr \<Rightarrow> mem \<Rightarrow> nat \<Rightarrow> bool" where
  "sta_lookup ad a addr i \<longleftrightarrow> (if IS_MCAST (a_dst a) = Some True then rtw_get_bcmc_stainfo (stapriv ad) else rtw_get_stainfo (stapriv ad) (Some addr)) = Some (Some i)"

definition acceptable :: "rx_adapter \<Rightarrow> rx_attr \<Rightarrow> nat \<Rightarrow> bool" where
  "acceptable ad a i \<longleftrightarrow>
     (if a_to_fr_ds a = 2 then check_fwstate ad 0x10 \<and> a_bssid a = bss_mac ad \<and> rtw_get_stainfo (stapriv ad) (Some (a_src a)) = Some (Some i)
      else if a_to_fr_ds a = 1 then check_fwstate ad 8 \<and> (check_fwstate ad 1 \<or> check_fwstate ad 0x80) \<and> for_me ad a \<and> sta_lookup ad a (a_bssid a) i
      else a_to_fr_ds a = 0 \<and>
        (if check_fwstate ad 0x20 \<or> check_fwstate ad 0x40 then for_me ad a \<and> sta_lookup ad a (a_src a) i
         else if check_fwstate ad 8 then a_src a = a_bssid a \<and> sta_lookup ad a (a_bssid a) i
         else check_fwstate ad 0x10 \<and> sta_lookup ad a (a_src a) i \<and>
           (if IS_MCAST (a_dst a) = Some True then IS_MCAST (a_bssid a) = Some True else a_bssid a = a_dst a)))"

lemma sta2sta_accept:
  assumes "sta2sta_data_frame ad f = Some (RxSuccess, psta, f', ad', acts)" "\<not> check_fwstate ad 0x10000" "a_to_fr_ds (fattr f) = 0"
  shows "f' = f \<and> ad' = ad \<and> acts = [] \<and> (\<exists>i. psta = Some i \<and> acceptable ad (fattr f) i)"
proof -
  obtain bm where bm: "IS_MCAST (a_dst (fattr f)) = Some bm"
    using assms(1) by (auto simp: sta2sta_data_frame_def bind_eq_Some_conv)
  obtain sta_addr where a: "sta2sta_addr ad f bm = Some (Some (RxSuccess, sta_addr, f))" "f' = f" "ad' = ad" "acts = []"
    and p: "\<exists>i. psta = Some i \<and> (if bm then rtw_get_bcmc_stainfo (stapriv ad) else rtw_get_stainfo (stapriv ad) sta_addr) = Some (Some i)"
  proof -
    have "r = None \<or> (\<exists>ret sa. r = Some (ret, sa, f))" if "sta2sta_addr ad f bm = Some r" for r
      using that assms(2) by (auto simp: sta2sta_addr_def Let_def bind_eq_Some_conv split: if_splits)
    then show thesis
      using assms(1) bm that by (auto simp: sta2sta_data_frame_def bind_eq_Some_conv split: option.splits)
  qed
  show ?thesis
    using a p bm assms(2,3)
    by (auto simp: sta2sta_addr_def acceptable_def for_me_def sta_lookup_def Let_def bind_eq_Some_conv split: if_splits)
qed

lemma no_data_accept:
  assumes "no_data ad f i acts = Some (RxSuccess, psta, f', ad', acts')"
  shows "f' = f \<and> ad' = ad \<and> psta = Some i \<and> acts' = acts"
  using assms by (auto simp: no_data_def bind_eq_Some_conv split: if_splits)

lemma ap2sta_accept:
  assumes "ap2sta_data_frame ad f = Some (RxSuccess, psta, f', ad', acts)" "\<not> check_fwstate ad 0x10000" "a_to_fr_ds (fattr f) = 1"
  shows "f' = f \<and> ad' = ad \<and> acts = [] \<and> (\<exists>i. psta = Some i \<and> acceptable ad (fattr f) i)"
proof -
  obtain bm where bm: "IS_MCAST (a_dst (fattr f)) = Some bm"
    using assms(1) by (auto simp: ap2sta_data_frame_def Let_def bind_eq_Some_conv)
  have st: "check_fwstate ad 8 \<and> (check_fwstate ad 1 \<or> check_fwstate ad 0x80)"
    using assms(1,2) bm by (auto simp: ap2sta_data_frame_def Let_def bind_eq_Some_conv split: if_splits)
  show ?thesis
    using assms(1,3) bm st no_data_accept
    by (fastforce simp: ap2sta_data_frame_def acceptable_def for_me_def sta_lookup_def Let_def bind_eq_Some_conv split: if_splits option.splits)
qed

lemma sta2ap_accept:
  assumes "sta2ap_data_frame ad f = Some (RxSuccess, psta, f', ad', acts)" "\<not> check_fwstate ad 0x10000" "a_to_fr_ds (fattr f) = 2"
  shows "f' = f \<and> (\<exists>i. psta = Some i \<and> acceptable ad (fattr f) i)"
  using assms no_data_accept
  by (fastforce simp: sta2ap_data_frame_def acceptable_def Let_def bind_eq_Some_conv split: if_splits option.splits)

text \<open>The addresses of the header, as the attributes record them.\<close>

definition addrs_of :: "rframe \<Rightarrow> nat \<Rightarrow> u8 \<Rightarrow> rx_attr \<Rightarrow> bool" where
  "addrs_of f p tofr a \<longleftrightarrow> rd_bytes (fbuf f) (p + get_da tofr) 6 = Some (a_dst a) \<and> rd_bytes (fbuf f) (p + get_sa tofr) 6 = Some (a_src a) \<and>
     rd_bytes (fbuf f) (p + get_hdr_bssid tofr) 6 = Some (a_bssid a) \<and>
     (a_ra a, a_ta a) = (if tofr = 0 then (a_dst a, a_src a) else if tofr = 1 then (a_dst a, a_bssid a) else (a_bssid a, a_src a))"

lemma data_direction_accept:
  assumes "data_direction ad f p = Some (RxSuccess, psta, f', ad', acts)" "\<not> check_fwstate ad 0x10000" "RTW_GET_LE16 (fbuf f) p = Some fc" "a_to_fr_ds (fattr f) = get_tofr_ds fc"
  shows "\<exists>da sa bss ra ta i. psta = Some i \<and> f' = f\<lparr>fattr := (fattr f)\<lparr>a_dst := da, a_src := sa, a_bssid := bss, a_ra := ra, a_ta := ta\<rparr>\<rparr> \<and>
    acceptable ad (fattr f') i \<and> addrs_of f p (get_tofr_ds fc) (fattr f')"
proof -
  obtain da sa bss where h: "rd_bytes (fbuf f) (p + get_da (get_tofr_ds fc)) 6 = Some da" "rd_bytes (fbuf f) (p + get_sa (get_tofr_ds fc)) 6 = Some sa"
    "rd_bytes (fbuf f) (p + get_hdr_bssid (get_tofr_ds fc)) 6 = Some bss"
    using assms(1,3) by (auto simp: data_direction_def Let_def bind_eq_Some_conv)
  note run = assms(1) [unfolded data_direction_def assms(3) bind.bind_lunit Let_def h]
  let ?a = "(fattr f)\<lparr>a_dst := da, a_src := sa, a_bssid := bss\<rparr>"
  consider (ss) "get_tofr_ds fc = 0" "sta2sta_data_frame ad (f\<lparr>fattr := ?a\<lparr>a_ra := da, a_ta := sa\<rparr>\<rparr>) = Some (RxSuccess, psta, f', ad', acts)"
    | (as) "get_tofr_ds fc = 1" "ap2sta_data_frame ad (f\<lparr>fattr := ?a\<lparr>a_ra := da, a_ta := bss\<rparr>\<rparr>) = Some (RxSuccess, psta, f', ad', acts)"
    | (sa) "get_tofr_ds fc = 2" "sta2ap_data_frame ad (f\<lparr>fattr := ?a\<lparr>a_ra := bss, a_ta := sa\<rparr>\<rparr>) = Some (RxSuccess, psta, f', ad', acts)"
  proof -
    have d: "a_to_fr_ds ?a = get_tofr_ds fc"
      using assms(4) by simp
    have "get_tofr_ds fc = 0 \<or> get_tofr_ds fc = 1 \<or> get_tofr_ds fc = 2"
    proof (rule ccontr)
      assume "\<not> ?thesis"
      then show False
        using run unfolding d by (cases "get_tofr_ds fc = 3") (simp_all add: bind_eq_Some_conv)
    qed
    then show thesis
      using run that unfolding d by (elim disjE) simp_all
  qed
  then show ?thesis
  proof cases
    case ss
    have d: "a_to_fr_ds (fattr (f\<lparr>fattr := ?a\<lparr>a_ra := da, a_ta := sa\<rparr>\<rparr>)) = get_tofr_ds fc"
      using assms(4) by simp
    obtain i where f': "f' = f\<lparr>fattr := ?a\<lparr>a_ra := da, a_ta := sa\<rparr>\<rparr>" and i: "psta = Some i" "acceptable ad (fattr (f\<lparr>fattr := ?a\<lparr>a_ra := da, a_ta := sa\<rparr>\<rparr>)) i"
      using sta2sta_accept [OF ss(2) assms(2) d [unfolded ss(1)]] by blast
    have "addrs_of f p (get_tofr_ds fc) (fattr f')"
      using h by (simp add: addrs_of_def ss(1) f')
    then show ?thesis
      using i unfolding f' by blast
  next
    case as
    have d: "a_to_fr_ds (fattr (f\<lparr>fattr := ?a\<lparr>a_ra := da, a_ta := bss\<rparr>\<rparr>)) = get_tofr_ds fc"
      using assms(4) by simp
    obtain i where f': "f' = f\<lparr>fattr := ?a\<lparr>a_ra := da, a_ta := bss\<rparr>\<rparr>" and i: "psta = Some i" "acceptable ad (fattr (f\<lparr>fattr := ?a\<lparr>a_ra := da, a_ta := bss\<rparr>\<rparr>)) i"
      using ap2sta_accept [OF as(2) assms(2) d [unfolded as(1)]] by blast
    have "addrs_of f p (get_tofr_ds fc) (fattr f')"
      using h by (simp add: addrs_of_def as(1) f')
    then show ?thesis
      using i unfolding f' by blast
  next
    case sa
    have d: "a_to_fr_ds (fattr (f\<lparr>fattr := ?a\<lparr>a_ra := bss, a_ta := sa\<rparr>\<rparr>)) = get_tofr_ds fc"
      using assms(4) by simp
    obtain i where f': "f' = f\<lparr>fattr := ?a\<lparr>a_ra := bss, a_ta := sa\<rparr>\<rparr>" and i: "psta = Some i" "acceptable ad (fattr (f\<lparr>fattr := ?a\<lparr>a_ra := bss, a_ta := sa\<rparr>\<rparr>)) i"
      using sta2ap_accept [OF sa(2) assms(2) d [unfolded sa(1)]] by blast
    have "addrs_of f p (get_tofr_ds fc) (fattr f')"
      using h by (simp add: addrs_of_def sa(1) f')
    then show ?thesis
      using i unfolding f' by blast
  qed
qed

lemma acceptable_cong:
  assumes "a_to_fr_ds b = a_to_fr_ds a" "a_dst b = a_dst a" "a_src b = a_src a" "a_bssid b = a_bssid a"
  shows "acceptable ad b i = acceptable ad a i"
  by (simp add: acceptable_def for_me_def sta_lookup_def assms)

lemma low_nibble: "ucast (qc AND 0xf) < (16 :: u8)" for qc :: u16
proof -
  have "ucast (qc AND 0xf) = (ucast qc :: u8) AND 0xf"
    by (simp add: unsigned_and_eq)
  also have "\<dots> \<le> 0xf"
    by (rule word_and_le1)
  also have "\<dots> < 16"
    by simp
  finally show ?thesis .
qed

lemma one_bit: "ucast (drop_bit n qc AND 1) = (if bit qc n then 1 else (0 :: u8))" for qc :: u16
  by (simp add: bit_iff_odd_drop_bit and_one_eq odd_iff_mod_2_eq_one)

lemma qos_fields_cases:
  assumes "qos_fields f p = Some f'" "a_to_fr_ds (fattr f) \<noteq> 3"
  obtains (qos) qc where "a_qos (fattr f) = 1" "RTW_GET_LE16 (fbuf f) (p + 24) = Some qc"
      "f' = f\<lparr>fattr := (fattr f)\<lparr>a_priority := ucast (qc AND 0xf), a_ack_policy := ucast (drop_bit 5 qc AND 3), a_amsdu := (if bit qc 7 then 1 else 0),
         a_hdrlen := 26 + (if a_order (fattr f) \<noteq> 0 then 4 else 0)\<rparr>\<rparr>"
    | (plain) "a_qos (fattr f) \<noteq> 1"
      "f' = f\<lparr>fattr := (fattr f)\<lparr>a_priority := 0, a_ack_policy := 0, a_amsdu := 0, a_hdrlen := 24 + (if a_order (fattr f) \<noteq> 0 then 4 else 0)\<rparr>\<rparr>"
proof (cases "a_qos (fattr f) = 1")
  case True
  then obtain qc where qc: "RTW_GET_LE16 (fbuf f) (p + 24) = Some qc"
    using assms(1) by (auto simp: qos_fields_def Let_def bind_eq_Some_conv)
  show thesis
    by (rule qos [OF True qc]) (use assms True qc one_bit [of 7 qc] in \<open>simp add: qos_fields_def Let_def\<close>)
next
  case False
  show thesis
    by (rule plain [OF False]) (use assms False in \<open>auto simp: qos_fields_def Let_def\<close>)
qed

lemma qos_fields_attr:
  assumes "qos_fields f p = Some f'" "a_to_fr_ds (fattr f) \<noteq> 3"
  shows "a_hdrlen (fattr f') = (if a_qos (fattr f) = 1 then 26 else 24) + (if a_order (fattr f) \<noteq> 0 then 4 else 0)" "a_priority (fattr f') < 16" "amsdu_ok f'"
    "a_dst (fattr f') = a_dst (fattr f)" "a_src (fattr f') = a_src (fattr f)" "a_bssid (fattr f') = a_bssid (fattr f)" "a_ra (fattr f') = a_ra (fattr f)"
    "a_ta (fattr f') = a_ta (fattr f)" "a_to_fr_ds (fattr f') = a_to_fr_ds (fattr f)" "a_mfrag (fattr f') = a_mfrag (fattr f)"
    "a_frag_num (fattr f') = a_frag_num (fattr f)" "a_seq_num (fattr f') = a_seq_num (fattr f)" "a_privacy (fattr f') = a_privacy (fattr f)" "a_qos (fattr f') = a_qos (fattr f)"
    "f_psta f' = f_psta f" "fid f' = fid f" "fbuf f' = fbuf f" "rx_data f' = rx_data f"
  by (rule qos_fields_cases [OF assms]; simp add: amsdu_ok_def low_nibble)+

lemma set_encrypt_attr:
  assumes "set_encrypt ad s a = Some a'"
  shows "a' = a\<lparr>a_encrypt := a_encrypt a', a_iv_len := a_iv_len a', a_icv_len := a_icv_len a'\<rparr>" "(a_iv_len a', a_icv_len a') = SET_ICE_IV_LEN (a_encrypt a')"
    "a_privacy a = 0 \<Longrightarrow> a_encrypt a' = 0"
proof -
  have zero: "SET_ICE_IV_LEN 0 = (0, 0)"
    by (simp add: SET_ICE_IV_LEN_def)
  show "a' = a\<lparr>a_encrypt := a_encrypt a', a_iv_len := a_iv_len a', a_icv_len := a_icv_len a'\<rparr>" "(a_iv_len a', a_icv_len a') = SET_ICE_IV_LEN (a_encrypt a')"
    "a_privacy a = 0 \<Longrightarrow> a_encrypt a' = 0"
    using assms zero by (auto simp: set_encrypt_def Let_def bind_eq_Some_conv split: if_splits)
qed

text \<open>The steps of an accepted frame.\<close>

definition hdr_attr :: "rx_attr \<Rightarrow> u16 \<Rightarrow> u16 \<Rightarrow> rx_attr" where
  "hdr_attr a fc sc = a\<lparr>a_to_fr_ds := get_tofr_ds fc, a_frag_num := ucast (sc AND 0xf), a_seq_num := drop_bit 4 sc,
     a_pw_save := fc_flag fc 12, a_mfrag := fc_flag fc 10, a_mdata := fc_flag fc 13, a_privacy := fc_flag fc 14, a_order := fc_flag fc 15,
     a_qos := fc_flag fc 7\<rparr>"

lemma validate_acceptE:
  assumes "validate_recv_frame ad f = Some (Some (RxSuccess, f', ad', acts))"
  obtains p b0 fc sc where "at_off (rx_data f) = Some p" "rd8 (fbuf f) p = Some b0" "b0 AND 3 = 0" "RTW_GET_LE16 (fbuf f) p = Some fc" "fc AND 0xc = 8"
    "RTW_GET_LE16 (fbuf f) (p + 22) = Some sc" "validate_recv_data_frame ad (f\<lparr>fattr := hdr_attr (fattr f) fc sc\<rparr>) = Some (RxSuccess, f', ad', acts)"
proof -
  obtain p where p: "at_off (rx_data f) = Some p"
    using assms by (auto simp: validate_recv_frame_def run_bind_eq_ret)
  obtain b0 where b0: "rd8 (fbuf f) p = Some b0" "b0 AND 3 = 0"
    using assms p by (auto simp: validate_recv_frame_def run_bind_eq_ret split: if_splits)
  obtain fc where fc: "RTW_GET_LE16 (fbuf f) p = Some fc"
    using assms p b0 by (auto simp: validate_recv_frame_def run_bind_eq_ret GetFrameType_def)
  obtain sc where sc: "RTW_GET_LE16 (fbuf f) (p + 22) = Some sc"
    using assms p b0 fc by (auto simp: validate_recv_frame_def run_bind_eq_ret set_attribs_def bind_eq_Some_conv)
  have q: "(if (fc AND 0xfc) AND 0x80 \<noteq> 0 then 1 else 0) = fc_flag fc 7"
    using bit_and_push [of 7 fc] by (simp add: fc_flag_def and.assoc)
  define f1 where "f1 = f\<lparr>fattr := (fattr f)\<lparr>a_to_fr_ds := get_tofr_ds fc, a_frag_num := ucast (sc AND 0xf), a_seq_num := drop_bit 4 sc,
     a_pw_save := fc_flag fc 12, a_mfrag := fc_flag fc 10, a_mdata := fc_flag fc 13, a_privacy := fc_flag fc 14, a_order := fc_flag fc 15\<rparr>\<rparr>"
  have f1: "set_attribs f p = Some f1" "f1\<lparr>fattr := (fattr f1)\<lparr>a_qos := fc_flag fc 7\<rparr>\<rparr> = f\<lparr>fattr := hdr_attr (fattr f) fc sc\<rparr>"
    by (simp_all add: set_attribs_def fc sc f1_def hdr_attr_def)
  have ty: "GetFrameType (fbuf f) p = Some (fc AND 0xc)" "GetFrameSubType (fbuf f) p = Some (fc AND 0xfc)"
    by (simp_all add: GetFrameType_def GetFrameSubType_def fc)
  note run = assms [unfolded validate_recv_frame_def p b0(1) ty f1(1) run_bind_simps q f1(2)]
  have t8: "fc AND 0xc = 8"
    using run b0(2) by (simp add: run_bind_eq_ret split: if_splits prod.splits)
  have "validate_recv_data_frame ad (f\<lparr>fattr := hdr_attr (fattr f) fc sc\<rparr>) = Some (RxSuccess, f', ad', acts)"
    using run unfolding t8 by (simp add: b0(2) run_bind_eq_ret split: if_splits prod.splits)
  then show thesis
    by (rule that [OF p b0 fc t8 sc])
qed

lemma validate_data_acceptE:
  assumes "validate_recv_data_frame ad f = Some (RxSuccess, f', ad', acts)" "at_off (rx_data f) = Some p"
  obtains i f1 ad1 f2 ad2 s seqs a where "data_direction ad f p = Some (RxSuccess, Some i, f1, ad1, acts)" "qos_fields (f1\<lparr>f_psta := Some i\<rparr>) p = Some f2"
    "stapriv ad2 = stapriv ad1" "arr (pstainfo_buf (stapriv ad1)) i = Some s" "recv_decache (fattr f2) (tid_rxseq s) = Some (True, seqs)"
    "set_encrypt ad2 (s\<lparr>tid_rxseq := seqs\<rparr>) (fattr f2) = Some a" "f' = f2\<lparr>fattr := a\<rparr>" "ad' = upd_sta ad2 i (s\<lparr>tid_rxseq := seqs\<rparr>)"
    "rx_env_of ad2 = rx_env_of ad1" "uc_swdec_pending_queue ad2 = uc_swdec_pending_queue ad1"
proof -
  obtain r psta f1 ad1 acts1 where d: "data_direction ad f p = Some (r, psta, f1, ad1, acts1)"
    using assms by (auto simp: validate_recv_data_frame_def bind_eq_Some_conv)
  have r: "r = RxSuccess"
    using assms d by (auto simp: validate_recv_data_frame_def split: if_splits)
  obtain i where i: "psta = Some i"
    using assms d r by (cases psta) (auto simp: validate_recv_data_frame_def)
  obtain f2 where f2: "qos_fields (f1\<lparr>f_psta := Some i\<rparr>) p = Some f2"
    using assms d r i by (auto simp: validate_recv_data_frame_def bind_eq_Some_conv)
  define ad2 where "ad2 = (if a_qos (fattr f2) = 1 then ad1\<lparr>bIsAnyNonBEPkts := (a_priority (fattr f2) \<noteq> 0 \<and> a_priority (fattr f2) \<noteq> 3)\<rparr> else ad1)"
  have same: "stapriv ad2 = stapriv ad1" "rx_env_of ad2 = rx_env_of ad1" "uc_swdec_pending_queue ad2 = uc_swdec_pending_queue ad1"
    by (simp_all add: ad2_def)
  obtain s where s: "arr (pstainfo_buf (stapriv ad1)) i = Some s"
    using assms(1) by (auto simp: validate_recv_data_frame_def assms(2) d r i f2 Let_def bind_eq_Some_conv ad2_def [symmetric] same)
  obtain ok seqs where q: "recv_decache (fattr f2) (tid_rxseq s) = Some (ok, seqs)"
    using assms(1) by (auto simp: validate_recv_data_frame_def assms(2) d r i f2 Let_def bind_eq_Some_conv ad2_def [symmetric] same s)
  have ok: "ok"
    using assms(1) by (auto simp: validate_recv_data_frame_def assms(2) d r i f2 Let_def ad2_def [symmetric] same s q split: if_splits)
  obtain a where a: "set_encrypt ad2 (s\<lparr>tid_rxseq := seqs\<rparr>) (fattr f2) = Some a" "f' = f2\<lparr>fattr := a\<rparr>" "ad' = upd_sta ad2 i (s\<lparr>tid_rxseq := seqs\<rparr>)" "acts1 = acts"
    using assms(1) ok by (auto simp: validate_recv_data_frame_def assms(2) d r i f2 Let_def bind_eq_Some_conv ad2_def [symmetric] same s q)
  show thesis
    using that [OF _ f2 same(1) s _ a(1-3) same(2,3)] d q ok r i a(4) by simp
qed

lemma recv_decache_cached:
  assumes "recv_decache a seqs = Some (True, seqs')"
  shows "arr seqs' (unat (a_priority a)) = Some (seq_ctrl_of a)" "arr seqs (unat (a_priority a)) \<noteq> Some (seq_ctrl_of a)"
  using assms by (auto simp: recv_decache_def arr_def bind_eq_Some_conv split: if_splits)

lemma validate_accepts_spec:
  assumes "validate_recv_frame ad f = Some (Some (RxSuccess, f', ad', acts))" "\<not> check_fwstate ad 0x10000"
  shows "\<exists>p b0 fc sc i s. at_off (rx_data f) = Some p \<and> rd8 (fbuf f) p = Some b0 \<and> b0 AND 3 = 0 \<and> RTW_GET_LE16 (fbuf f) p = Some fc \<and> fc AND 0xc = 8 \<and>
    RTW_GET_LE16 (fbuf f) (p + 22) = Some sc \<and> a_to_fr_ds (fattr f') = get_tofr_ds fc \<and> addrs_of f p (get_tofr_ds fc) (fattr f') \<and> acceptable ad (fattr f') i \<and>
    f_psta f' = Some i \<and> fid f' = fid f \<and> fbuf f' = fbuf f \<and> rx_data f' = rx_data f \<and>
    a_hdrlen (fattr f') = (if bit fc 7 then 26 else 24) + (if bit fc 15 then 4 else 0) \<and>
    a_priority (fattr f') < 16 \<and> amsdu_ok f' \<and> a_frag_num (fattr f') = ucast (sc AND 0xf) \<and> a_seq_num (fattr f') = drop_bit 4 sc \<and> a_mfrag (fattr f') = fc_flag fc 10 \<and>
    (a_iv_len (fattr f'), a_icv_len (fattr f')) = SET_ICE_IV_LEN (a_encrypt (fattr f')) \<and> (\<not> bit fc 14 \<longrightarrow> a_encrypt (fattr f') = 0) \<and>
    arr (pstainfo_buf (stapriv ad')) i = Some s \<and> arr (tid_rxseq s) (unat (a_priority (fattr f'))) = Some (seq_ctrl_of (fattr f'))"
proof -
  from assms(1) obtain p b0 fc sc where h: "at_off (rx_data f) = Some p" "rd8 (fbuf f) p = Some b0" "b0 AND 3 = 0" "RTW_GET_LE16 (fbuf f) p = Some fc"
    "fc AND 0xc = 8" "RTW_GET_LE16 (fbuf f) (p + 22) = Some sc" and v: "validate_recv_data_frame ad (f\<lparr>fattr := hdr_attr (fattr f) fc sc\<rparr>) = Some (RxSuccess, f', ad', acts)"
    by (rule validate_acceptE)
  let ?f = "f\<lparr>fattr := hdr_attr (fattr f) fc sc\<rparr>"
  have "at_off (rx_data ?f) = Some p"
    using h(1) by simp
  from v this obtain i f1 ad1 f2 ad2 s seqs a where e: "data_direction ad ?f p = Some (RxSuccess, Some i, f1, ad1, acts)" "qos_fields (f1\<lparr>f_psta := Some i\<rparr>) p = Some f2"
    "stapriv ad2 = stapriv ad1" "arr (pstainfo_buf (stapriv ad1)) i = Some s" "recv_decache (fattr f2) (tid_rxseq s) = Some (True, seqs)"
    "set_encrypt ad2 (s\<lparr>tid_rxseq := seqs\<rparr>) (fattr f2) = Some a" "f' = f2\<lparr>fattr := a\<rparr>" "ad' = upd_sta ad2 i (s\<lparr>tid_rxseq := seqs\<rparr>)"
    by (rule validate_data_acceptE)
  have t: "RTW_GET_LE16 (fbuf ?f) p = Some fc" "a_to_fr_ds (fattr ?f) = get_tofr_ds fc"
    using h(4) by (simp_all add: hdr_attr_def)
  obtain da sa bss ra ta where d: "f1 = ?f\<lparr>fattr := (fattr ?f)\<lparr>a_dst := da, a_src := sa, a_bssid := bss, a_ra := ra, a_ta := ta\<rparr>\<rparr>"
    "acceptable ad (fattr f1) i" "addrs_of ?f p (get_tofr_ds fc) (fattr f1)"
    using data_direction_accept [OF e(1) assms(2) t] by blast
  let ?g = "f1\<lparr>f_psta := Some i\<rparr>"
  have g: "a_to_fr_ds (fattr ?g) = get_tofr_ds fc" "a_qos (fattr ?g) = fc_flag fc 7" "a_order (fattr ?g) = fc_flag fc 15" "a_mfrag (fattr ?g) = fc_flag fc 10"
    "a_frag_num (fattr ?g) = ucast (sc AND 0xf)" "a_seq_num (fattr ?g) = drop_bit 4 sc" "a_privacy (fattr ?g) = fc_flag fc 14" "f_psta ?g = Some i"
    "fid ?g = fid f" "fbuf ?g = fbuf f" "rx_data ?g = rx_data f"
    by (simp_all add: d(1) hdr_attr_def)
  have n3: "a_to_fr_ds (fattr ?g) \<noteq> 3"
    using d(2) g(1) by (auto simp: acceptable_def split: if_splits)
  note q = qos_fields_attr [OF e(2) n3] and c = set_encrypt_attr [OF e(6)]
  have keep: "a_to_fr_ds a = a_to_fr_ds (fattr f2)" "a_dst a = a_dst (fattr f2)" "a_src a = a_src (fattr f2)" "a_bssid a = a_bssid (fattr f2)" "a_ra a = a_ra (fattr f2)"
    "a_ta a = a_ta (fattr f2)" "a_hdrlen a = a_hdrlen (fattr f2)" "a_priority a = a_priority (fattr f2)" "a_amsdu a = a_amsdu (fattr f2)" "a_mfrag a = a_mfrag (fattr f2)"
    "a_frag_num a = a_frag_num (fattr f2)" "a_seq_num a = a_seq_num (fattr f2)"
    by (subst c(1), simp)+
  have at: "i < length (pstainfo_buf (stapriv ad1))"
    using e(4) by (simp add: arr_def split: if_splits)
  have "acceptable ad a i"
    using d(2) acceptable_cong [of a "fattr f1" ad i] keep(1-4) q(4-6,9) by simp
  moreover have "addrs_of f p (get_tofr_ds fc) a"
    using d(3) keep(2-6) q(4-8) by (simp add: addrs_of_def)
  moreover have "a_hdrlen a = (if bit fc 7 then 26 else 24) + (if bit fc 15 then 4 else 0)"
    using keep(7) q(1) g(2,3) by (simp add: fc_flag_def)
  moreover have "arr (pstainfo_buf (stapriv ad')) i = Some (s\<lparr>tid_rxseq := seqs\<rparr>)"
    using at e(3) by (simp add: e(8) upd_sta_def arr_def)
  moreover have "arr seqs (unat (a_priority a)) = Some (seq_ctrl_of a)"
    using recv_decache_cached(1) [OF e(5)] keep(8,11,12) by (simp add: seq_ctrl_of_def)
  moreover have "\<not> bit fc 14 \<longrightarrow> a_encrypt a = 0"
    using c(3) q(13) g(7) by (simp add: fc_flag_def)
  moreover have "a_priority a < 16" "amsdu_ok f'" "f_psta f' = Some i" "fid f' = fid f" "fbuf f' = fbuf f" "rx_data f' = rx_data f" "fattr f' = a"
    "a_to_fr_ds a = get_tofr_ds fc" "a_frag_num a = ucast (sc AND 0xf)" "a_seq_num a = drop_bit 4 sc" "a_mfrag a = fc_flag fc 10"
    using q(2,3,9-12,15-18) keep g e(7) by (simp_all add: amsdu_ok_def)
  ultimately show ?thesis
    using h c(2) by (intro exI [of _ p] exI [of _ b0] exI [of _ fc] exI [of _ sc] exI [of _ i] exI [of _ "s\<lparr>tid_rxseq := seqs\<rparr>"]) simp
qed


text \<open>A frame from the access point to the demo station.\<close>

definition demo_rx :: "u8 \<Rightarrow> rframe" where
  "demo_rx sub = \<lparr>fid = 0, fattr = demo_attr, flen = 32,
     fbuf = [sub, 2, 0, 0, 2, 0, 0, 0, 0, 1, 2, 0, 0, 0, 0, 2, 2, 0, 0, 0, 0, 3, 0x10, 0, 0xaa, 0xaa, 3, 0, 0, 0, 0x88, 0x8e],
     rx_data = 0, rx_tail = 32, rx_end = 32, f_psta = None\<rparr>"

lemma demo_rx_hdr:
  "at_off (rx_data (demo_rx sub)) = Some 0" "rd8 (fbuf (demo_rx sub)) 0 = Some sub" "RTW_GET_LE16 (fbuf (demo_rx sub)) 0 = Some (le16 sub 2)"
  "RTW_GET_LE16 (fbuf (demo_rx sub)) 22 = Some 0x10" "rd_bytes (fbuf (demo_rx sub)) 4 6 = Some [2, 0, 0, 0, 0, 1]"
  "rd_bytes (fbuf (demo_rx sub)) 10 6 = Some [2, 0, 0, 0, 0, 2]" "rd_bytes (fbuf (demo_rx sub)) 16 6 = Some [2, 0, 0, 0, 0, 3]"
  by (simp_all add: demo_rx_def at_off_def RTW_GET_LE16_def rd8_def le16_def rd_bytes_def)

lemma demo_lookup: "rtw_get_stainfo (stapriv (demo_ad stop)) (Some [2, 0, 0, 0, 0, 2]) = Some (Some 0)" "arr (pstainfo_buf (stapriv (demo_ad stop))) 0 = Some demo_sta"
  by (simp_all add: rtw_get_stainfo_def IS_MCAST_def rd8_def wifi_mac_hash_def demo_ad_def demo_sta_def sta_alloc_def arr_def Let_def)

lemma zero_list: "zero_addr = [0, 0, 0, 0, 0, 0]"
  by (simp add: zero_addr_def numeral_eq_Suc)

lemma demo_rx_ap2sta:
  assumes "sub = 8 \<or> sub = 0x48" "fbuf f = fbuf (demo_rx sub)" "rx_data f = 0" "a_dst (fattr f) = [2, 0, 0, 0, 0, 1]" "a_src (fattr f) = [2, 0, 0, 0, 0, 3]"
    "a_bssid (fattr f) = [2, 0, 0, 0, 0, 2]"
  shows "\<exists>ad'. ap2sta_data_frame (demo_ad False) f = Some (if sub = 8 then RxSuccess else RxHandled, Some 0, f, if sub = 8 then demo_ad False else ad', [])"
proof -
  have m: "IS_MCAST (a_dst (fattr f)) = Some False" "myid (stapriv (demo_ad False)) = [2, 0, 0, 0, 0, 1]" "bss_mac (demo_ad False) = [2, 0, 0, 0, 0, 2]" "fw_state (demo_ad False) = 9"
    by (simp_all add: assms(4) IS_MCAST_def rd8_def demo_ad_def demo_sp_def)
  have st: "GetFrameSubType (fbuf f) 0 = Some (ucast sub)" "at_off (rx_data f) = Some 0"
    using assms(1) by (auto simp: GetFrameSubType_def assms(2,3) demo_rx_hdr(3) le16_def at_off_def)
  obtain ad' where c: "count_rx_stats (demo_ad False) f (Some 0) = Some ad'"
    using m(1) demo_lookup(2) [of False] by (simp add: count_rx_stats_def Let_def)
  have "ap2sta_data_frame (demo_ad False) f = no_data (demo_ad False) f 0 []"
    using m demo_lookup(1) [of False] by (simp add: ap2sta_data_frame_def assms(4-6) check_fwstate_def zero_list Let_def)
  then show ?thesis
    using assms(1) st c by (auto simp: no_data_def)
qed

lemma demo_rx_direction:
  assumes "sub = 8 \<or> sub = 0x48"
  shows "\<exists>f1 ad'. data_direction (demo_ad False) ((demo_rx sub)\<lparr>fattr := hdr_attr demo_attr (le16 sub 2) 0x10\<rparr>) 0 =
      Some (if sub = 8 then RxSuccess else RxHandled, Some 0, f1, if sub = 8 then demo_ad False else ad', []) \<and> a_qos (fattr f1) = 0 \<and> a_to_fr_ds (fattr f1) = 1 \<and>
    a_seq_num (fattr f1) = 1 \<and> a_frag_num (fattr f1) = 0 \<and> a_privacy (fattr f1) = 0"
proof -
  have t: "get_tofr_ds (le16 sub 2) = 1" "get_da 1 = 4" "get_sa 1 = 16" "get_hdr_bssid 1 = 10"
    using assms by (auto simp: get_tofr_ds_def fc_flag_def le16_def bit_iff_odd get_da_def get_sa_def get_hdr_bssid_def)
  define f1 where "f1 = (demo_rx sub)\<lparr>fattr := (hdr_attr demo_attr (le16 sub 2) 0x10)\<lparr>a_dst := [2, 0, 0, 0, 0, 1], a_src := [2, 0, 0, 0, 0, 3], a_bssid := [2, 0, 0, 0, 0, 2],
    a_ra := [2, 0, 0, 0, 0, 1], a_ta := [2, 0, 0, 0, 0, 2]\<rparr>\<rparr>"
  have f1: "a_qos (fattr f1) = 0" "a_to_fr_ds (fattr f1) = 1" "a_seq_num (fattr f1) = 1" "a_frag_num (fattr f1) = 0" "a_privacy (fattr f1) = 0"
    using assms t(1) by (auto simp: f1_def hdr_attr_def fc_flag_def le16_def bit_iff_odd)
  have "\<exists>ad'. ap2sta_data_frame (demo_ad False) f1 = Some (if sub = 8 then RxSuccess else RxHandled, Some 0, f1, if sub = 8 then demo_ad False else ad', [])"
    by (rule demo_rx_ap2sta [OF assms]) (simp_all add: f1_def demo_rx_def)
  moreover have "data_direction (demo_ad False) ((demo_rx sub)\<lparr>fattr := hdr_attr demo_attr (le16 sub 2) 0x10\<rparr>) 0 = ap2sta_data_frame (demo_ad False) f1"
    using t demo_rx_hdr [of sub] by (simp add: data_direction_def f1_def Let_def) (simp add: hdr_attr_def)
  ultimately show ?thesis
    using f1 by auto
qed

lemma demo_rx_validate:
  assumes "sub = 8 \<or> sub = 0x48"
  shows "\<exists>f' ad'. validate_recv_frame (demo_ad False) (demo_rx sub) = Some (Some (if sub = 8 then RxSuccess else RxHandled, f', ad', []))"
proof -
  let ?f = "(demo_rx sub)\<lparr>fattr := hdr_attr demo_attr (le16 sub 2) 0x10\<rparr>"
  obtain f1 ad1 where d: "data_direction (demo_ad False) ?f 0 = Some (if sub = 8 then RxSuccess else RxHandled, Some 0, f1, if sub = 8 then demo_ad False else ad1, [])"
    "a_qos (fattr f1) = 0" "a_to_fr_ds (fattr f1) = 1" "a_seq_num (fattr f1) = 1" "a_frag_num (fattr f1) = 0" "a_privacy (fattr f1) = 0"
    using demo_rx_direction [OF assms] by blast
  define f2 where "f2 = f1\<lparr>f_psta := Some 0, fattr := (fattr f1)\<lparr>a_amsdu := 0, a_ack_policy := 0, a_priority := 0, a_hdrlen := 24 + (if a_order (fattr f1) \<noteq> 0 then 4 else 0)\<rparr>\<rparr>"
  have f2: "qos_fields (f1\<lparr>f_psta := Some 0\<rparr>) 0 = Some f2"
    using d(2,3) by (simp add: qos_fields_def Let_def f2_def)
  have a2: "a_qos (fattr f2) = 0" "a_priority (fattr f2) = 0" "seq_ctrl_of (fattr f2) = 0x10" "a_privacy (fattr f2) = 0"
    using d(2,4-6) by (simp_all add: f2_def seq_ctrl_of_def)
  have tid: "tid_rxseq demo_sta = replicate 16 0xffff"
    by (simp add: demo_sta_def sta_alloc_def)
  have seq: "recv_decache (fattr f2) (tid_rxseq demo_sta) = Some (True, (tid_rxseq demo_sta)[0 := 0x10])"
    using a2(2,3) unfolding tid by (simp add: recv_decache_def arr_def)
  have at: "at_off (rx_data ?f) = Some 0"
    using demo_rx_hdr(1) by simp
  have v: "\<exists>f' ad'. validate_recv_data_frame (demo_ad False) ?f = Some (if sub = 8 then RxSuccess else RxHandled, f', ad', [])"
    using at d(1) f2 a2 seq demo_lookup(2) [of False] by (cases "sub = 8") (simp_all add: validate_recv_data_frame_def set_encrypt_def Let_def)
  have c: "sub AND 3 = 0" "le16 sub 2 AND 0xc = 8" "(if (le16 sub 2 AND 0xfc) AND 0x80 \<noteq> 0 then 1 else 0) = fc_flag (le16 sub 2) 7"
    using assms by (auto simp: le16_def fc_flag_def bit_iff_odd)
  have "(demo_rx sub)\<lparr>fattr := (fattr (demo_rx sub))\<lparr>a_to_fr_ds := get_tofr_ds (le16 sub 2), a_frag_num := ucast (0x10 AND 0xf :: u16), a_seq_num := drop_bit 4 0x10,
     a_pw_save := fc_flag (le16 sub 2) 12, a_mfrag := fc_flag (le16 sub 2) 10, a_mdata := fc_flag (le16 sub 2) 13, a_privacy := fc_flag (le16 sub 2) 14,
     a_order := fc_flag (le16 sub 2) 15, a_qos := fc_flag (le16 sub 2) 7\<rparr>\<rparr> = ?f"
    by (simp add: hdr_attr_def demo_rx_def)
  then show ?thesis
    using v c demo_rx_hdr [of sub] by (cases "sub = 8") (auto simp: validate_recv_frame_def GetFrameType_def GetFrameSubType_def set_attribs_def)
qed


end
