(* ===== verification/Recv_Entry.thy ===== *)
theory Recv_Entry
  imports Recv_Check
begin

text \<open>
  The entry of the receive path of \<^verbatim>\<open>core/rtw_recv.c\<close>: \<open>recv_func_prehandle\<close>, \<open>recv_func\<close> with the queue of frames that wait for a
  key, and \<open>rtw_recv_entry\<close>. The theorems span the header checks and the data path behind them: a frame object is freed once
  or kept in one queue, a repeated frame is not accepted again, and where a fragment of a management frame is used after it was freed.
\<close>

section \<open>Operations\<close>

text \<open>Frames are linked through a node of their own, so \<open>rtw_free_recvframe\<close> takes a frame out of the queue that holds it; here this can be
  the queue of fragments of a station.\<close>

definition unlink_frame :: "nat \<Rightarrow> rx_adapter \<Rightarrow> rx_adapter" where
  "unlink_frame n ad = ad\<lparr>stapriv := (stapriv ad)\<lparr>pstainfo_buf :=
     map (\<lambda>s. s\<lparr>defrag_q := filter (\<lambda>g. fid g \<noteq> n) (defrag_q s)\<rparr>) (pstainfo_buf (stapriv ad))\<rparr>\<rparr>"

definition recv_func_prehandle :: "rx_adapter \<Rightarrow> rframe \<Rightarrow> (rx_ret \<times> rframe \<times> rx_adapter \<times> rx_act list) run" where
  "recv_func_prehandle ad f =
     (if mp_mode ad = 1 \<or> bRTWSmbCfg ad then Some (Some (RxFail, f, ad, [Mp_recv_frame (fid f)]))
      else run_bind (validate_recv_frame ad f) (\<lambda>(r, f1, ad1, acts).
        if r \<noteq> RxSuccess then Some (Some (r, f1, unlink_frame (fid f) ad1, acts @ [Free_recvframe (fid f)]))
        else Some (Some (r, f1, ad1, acts))))"

text \<open>The frames that wait for a key are handled before anything else once there is one.\<close>

fun drain_pending :: "rx_adapter \<Rightarrow> rframe list \<Rightarrow> (rx_adapter \<times> rx_act list) run" where
  "drain_pending ad [] = Some (Some (ad\<lparr>uc_swdec_pending_queue := []\<rparr>, []))"
| "drain_pending ad (f # fs) =
     run_bind (recv_func_posthandle (ad\<lparr>uc_swdec_pending_queue := fs\<rparr>) f) (\<lambda>(ok, ad1, a).
     run_bind (drain_pending ad1 fs) (\<lambda>(ad2, b). Some (Some (ad2, a @ b))))"

text \<open>An accepted frame: it waits in the queue when there is no key yet, else it goes down the path. \<open>low\<close> says that less than a
  quarter of the receive frames is free when a frame has been put into the queue; then the oldest one is handled.\<close>

definition do_posthandle :: "bool \<Rightarrow> rx_adapter \<Rightarrow> rframe \<Rightarrow> (rx_ret \<times> rx_adapter \<times> rx_act list) run" where
  "do_posthandle low ad f = run_bind (Some (IS_MCAST (a_ra (fattr f)))) (\<lambda>mc.
     let wait = (check_fwstate ad 8 \<and> \<not> mc \<and> a_encrypt (fattr f) > 0 \<and> (a_bdecrypted (fattr f) = 0 \<or> sw_decrypt ad) \<and> ndisauthtype ad = 4 \<and> busetkipkey ad = 0);
         q = uc_swdec_pending_queue ad @ [f] in
     if wait \<and> \<not> low then Some (Some (RxSuccess, ad\<lparr>uc_swdec_pending_queue := q\<rparr>, []))
     else run_bind (if wait then recv_func_posthandle (ad\<lparr>uc_swdec_pending_queue := tl q\<rparr>) (hd q) else recv_func_posthandle ad f) (\<lambda>(ok, ad1, a).
       Some (Some (if ok then RxSuccess else RxFail, ad1, a))))"

definition recv_func :: "bool \<Rightarrow> rx_adapter \<Rightarrow> rframe \<Rightarrow> (rx_ret \<times> rx_adapter \<times> rx_act list) run" where
  "recv_func low ad f =
     (if check_fwstate ad 0x80000000 then Some (Some (RxSuccess, ad, [Recv_monitor (fid f)]))
      else run_bind (if check_fwstate ad 8 \<and> busetkipkey ad \<noteq> 0 then drain_pending ad (uc_swdec_pending_queue ad) else Some (Some (ad, []))) (\<lambda>(ad0, a0).
        run_bind (recv_func_prehandle ad0 f) (\<lambda>(r, f1, ad1, a1).
        if r \<noteq> RxSuccess then Some (Some (r, ad1, a0 @ a1))
        else run_bind (do_posthandle low ad1 f1) (\<lambda>(r2, ad2, a2). Some (Some (r2, ad2, a0 @ a1 @ a2))))))"

definition rtw_recv_entry :: "bool \<Rightarrow> rx_adapter \<Rightarrow> rframe \<Rightarrow> (rx_ret \<times> rx_adapter \<times> rx_act list) run" where
  "rtw_recv_entry low ad f = run_bind (recv_func low ad f) (\<lambda>(r, ad1, a).
     Some (Some (r, if r \<noteq> RxFail then ad1\<lparr>rx_pkts := rx_pkts ad1 + 1\<rparr>
       else if mp_mode ad1 = 1 then ad1\<lparr>rx_pktloss := ucast (rx_drop ad1)\<rparr> else ad1, a)))"

section \<open>What the transmit side leaves alone\<close>

text \<open>The fields of a station that the receive path works on.\<close>

definition rx_view :: "sta_info \<Rightarrow> mem \<times> u16 list \<times> recv_reorder_ctrl list \<times> rframe list" where
  "rx_view s = (hwaddr s, tid_rxseq s, recvreorder_ctrl s, defrag_q s)"

definition rx_part :: "sta_priv \<Rightarrow> nat list list \<times> mem \<times> (mem \<times> u16 list \<times> recv_reorder_ctrl list \<times> rframe list) list" where
  "rx_part sp = (sta_hash sp, myid sp, map rx_view (pstainfo_buf sp))"

named_theorems rx_keep

lemma rx_part_upd [simp]:
  "rx_part (sp\<lparr>tim_bitmap := x\<rparr>) = rx_part sp" "rx_part (sp\<lparr>sta_dz_bitmap := x\<rparr>) = rx_part sp" "rx_part (sp\<lparr>xmitpriv := y\<rparr>) = rx_part sp"
  "rx_part (hw_set sp ac h) = rx_part sp"
  by (simp_all add: rx_part_def hw_set_def)

lemma rx_view_upd [simp]:
  "rx_view (s\<lparr>sleep_q := a\<rparr>) = rx_view s" "rx_view (s\<lparr>sleepq_len := b\<rparr>) = rx_view s" "rx_view (s\<lparr>sleepq_ac_len := b\<rparr>) = rx_view s"
  "rx_view (s\<lparr>sta_state := b\<rparr>) = rx_view s" "rx_view (s\<lparr>expire_to := b\<rparr>) = rx_view s" "rx_view (s\<lparr>sta_stats := c\<rparr>) = rx_view s"
  "rx_view (servq_set s ac q) = rx_view s"
  by (simp_all add: rx_view_def servq_set_def)

lemma rx_part_sta_set [simp]:
  assumes "arr (pstainfo_buf sp) i = Some s" "rx_view s' = rx_view s"
  shows "rx_part (sta_set sp i s') = rx_part sp"
proof -
  have i: "i < length (pstainfo_buf sp)" "pstainfo_buf sp ! i = s"
    using assms(1) by (simp_all add: arr_def split: if_splits)
  have "map rx_view ((pstainfo_buf sp)[i := s']) = map rx_view (pstainfo_buf sp)"
    using i assms(2) by (intro nth_equalityI) (auto simp: nth_list_update)
  then show ?thesis
    by (simp add: rx_part_def sta_set_def)
qed

lemmas rx_part_buf [simp] = rx_part_sta_set [unfolded sta_set_def]

lemma freed_other [simp]:
  "freed (Pkt_complete n # as) = freed as" "freed (Mfree_xmitframe n # as) = freed as" "freed (Xmit_tasklet # as) = freed as"
  "freed (Update_beacon # as) = freed as" "freed (Chk_bmc_sleepq # as) = freed as" "freed (Chk_hi_queue # as) = freed as"
  "freed (Mp_recv_frame n # as) = freed as" "freed (Recv_monitor n # as) = freed as" "freed (Issue_nulldata m # as) = freed as"
  "freed (Issue_qos_nulldata m q # as) = freed as" "freed (Issue_deauth m q # as) = freed as" "freed (Mgt_dispatcher f # as) = freed as"
  "freed (Get_ndpa f # as) = freed as" "freed (if c then xs else ys) = (if c then freed xs else freed ys)"
  by (simp_all add: freed_def)

lemma free_xmitframe_freed: "rtw_free_xmitframe xp p = Some (xp', a) \<Longrightarrow> freed a = []"
  by (auto simp: rtw_free_xmitframe_def Let_def split: option.splits if_splits)

lemma hal_enqueue_rx [rx_keep]: "rtl8812au_hal_xmitframe_enqueue sp f = Some (ok, sp', a) \<Longrightarrow> rx_part sp' = rx_part sp \<and> freed a = []"
  by (auto simp: rtl8812au_hal_xmitframe_enqueue_def rtw_xmitframe_enqueue_def rtw_xmit_classifier_def xmit_drop_def Let_def bind_eq_Some_conv
      split: if_splits option.splits dest: free_xmitframe_freed)

lemma servq_dec_rx [rx_keep]: "servq_dec sp i ac = Some sp' \<Longrightarrow> rx_part sp' = rx_part sp" "set_pending sp i ac fs = Some sp' \<Longrightarrow> rx_part sp' = rx_part sp"
  "hw_unlink sp i ac = Some sp' \<Longrightarrow> rx_part sp' = rx_part sp"
  by (auto simp: servq_dec_def set_pending_def hw_unlink_def bind_eq_Some_conv)

lemma sleep_enqueue_rx [rx_keep]:
  assumes "xmitframe_enqueue_for_sleeping_sta ap hiq sp f = Some (ok, f', sp', a)"
  shows "rx_part sp' = rx_part sp \<and> freed a = []"
proof -
  obtain mc psta where h: "IS_MCAST (x_ra f) = Some mc" "ap \<longrightarrow> rtw_get_stainfo sp (Some (x_ra f)) = Some psta"
    using assms by (cases ap) (auto simp: xmitframe_enqueue_for_sleeping_sta_def bind_eq_Some_conv)
  show ?thesis
  proof (cases "ap \<and> x_psta f = psta \<and> psta \<noteq> None")
    case True
    then obtain i s where s: "psta = Some i" "arr (pstainfo_buf sp) i = Some s"
      using assms h by (auto simp: xmitframe_enqueue_for_sleeping_sta_def bind_eq_Some_conv)
    show ?thesis
      using assms h True s unfolding xmitframe_enqueue_for_sleeping_sta_def
      by (cases "aid_bit (aid s)") (auto simp: Let_def split: if_splits)
  next
    case False
    then show ?thesis
      using assms h by (cases ap; cases psta) (auto simp: xmitframe_enqueue_for_sleeping_sta_def split: if_splits)
  qed
qed

lemma deq_sleep_loop_rx [rx_keep]: "deq_sleep_loop ap hiq sp i ac kept fs = Some (sp', a) \<Longrightarrow> rx_part sp' = rx_part sp \<and> freed a = []"
proof (induction fs arbitrary: sp kept a)
  case (Cons f fs)
  then show ?case
    by (auto simp: bind_eq_Some_conv split: if_splits dest!: rx_keep)
qed simp

lemma stop_acs_rx [rx_keep]: "stop_acs ap hiq sp i acs = Some (sp', a) \<Longrightarrow> rx_part sp' = rx_part sp \<and> freed a = []"
  by (induction acs arbitrary: sp a) (auto simp: bind_eq_Some_conv dequeue_xmitframes_to_sleeping_queue_def dest!: rx_keep)

lemma stop_sta_xmit_rx [rx_keep]: "stop_sta_xmit ap hiq sp i = Some (sp', a) \<Longrightarrow> rx_part sp' = rx_part sp \<and> freed a = []"
  by (auto simp: stop_sta_xmit_def bind_eq_Some_conv simp del: stop_acs.simps dest!: rx_keep)

lemma wake_loop_rx [rx_keep]: "wake_loop sp i fs = Some (sp', a) \<Longrightarrow> rx_part sp' = rx_part sp \<and> freed a = []"
  by (induction fs arbitrary: sp a) (auto simp: bind_eq_Some_conv Let_def dest!: rx_keep)

lemma bmc_loop_rx [rx_keep]: "bmc_loop hiq sp i fs = Some (sp', a) \<Longrightarrow> rx_part sp' = rx_part sp \<and> freed a = []"
  by (induction fs arbitrary: sp a) (auto simp: bind_eq_Some_conv Let_def dest!: rx_keep)

lemma wake_done_rx [rx_keep]: "wake_done sp i = Some (m, sp') \<Longrightarrow> rx_part sp' = rx_part sp" "wake_bmc sp i = Some (m, sp', a) \<Longrightarrow> rx_part sp' = rx_part sp \<and> freed a = []"
  by (auto simp: wake_done_def wake_bmc_def bind_eq_Some_conv Let_def split: if_splits dest!: rx_keep)

lemma wakeup_rx [rx_keep]: "wakeup_sta_to_xmit sp i = Some (sp', a) \<Longrightarrow> rx_part sp' = rx_part sp \<and> freed a = []"
  by (auto simp: wakeup_sta_to_xmit_def bind_eq_Some_conv split: option.splits dest!: rx_keep)

lemma delivery_rx [rx_keep]: "delivery_loop sp i kept fs = Some (sp', a) \<Longrightarrow> rx_part sp' = rx_part sp \<and> freed a = []"
  by (induction fs arbitrary: sp kept a) (auto simp: bind_eq_Some_conv Let_def split: if_splits dest!: rx_keep)

lemma pspoll_send_rx [rx_keep]: "pspoll_send sp i b = Some (sp', a) \<Longrightarrow> rx_part sp' = rx_part sp \<and> freed a = []"
  by (auto simp: pspoll_send_def bind_eq_Some_conv split: if_splits list.splits dest!: hal_enqueue_rx)

lemma pspoll_rx [rx_keep]: "pspoll sp i fld prio = Some (sp', a) \<Longrightarrow> rx_part sp' = rx_part sp \<and> freed a = []"
  by (auto simp: pspoll_def bind_eq_Some_conv Let_def split: if_splits dest!: pspoll_send_rx)

section \<open>What the header checks leave alone\<close>

definition rx_fix :: "rx_adapter \<Rightarrow> rx_env \<times> rframe list \<times> u32 \<times> mem \<times> u8 \<times> bool" where
  "rx_fix ad = (rx_env_of ad, uc_swdec_pending_queue ad, fw_state ad, bss_mac ad, mp_mode ad, bRTWSmbCfg ad)"

definition rx_quiet :: "rx_adapter \<Rightarrow> rx_adapter \<Rightarrow> rx_act list \<Rightarrow> bool" where
  "rx_quiet ad ad' acts \<longleftrightarrow> rx_part (stapriv ad') = rx_part (stapriv ad) \<and> rx_fix ad' = rx_fix ad \<and> freed acts = []"

lemma rx_fix_upd [simp]: "rx_fix (ad\<lparr>stapriv := sp\<rparr>) = rx_fix ad" "rx_fix (upd_sta ad i s) = rx_fix ad"
  by (simp_all add: rx_fix_def upd_sta_def)

lemma rx_quiet_refl [simp]: "rx_quiet ad ad []" "rx_quiet ad ad [Issue_deauth m q]"
  by (simp_all add: rx_quiet_def)

lemma rx_quiet_trans: "rx_quiet ad ad1 a \<Longrightarrow> rx_quiet ad1 ad2 b \<Longrightarrow> rx_quiet ad ad2 (a @ b)"
  by (simp add: rx_quiet_def)

lemma pwrbit_rx: "process_pwrbit_data ad f = Some (ad', a) \<Longrightarrow> rx_quiet ad ad' a"
  by (auto simp: process_pwrbit_data_def rx_quiet_def bind_eq_Some_conv split: if_splits option.splits dest!: rx_keep)

lemma wmmps_rx: "process_wmmps_data ad f = Some (ad', a) \<Longrightarrow> rx_quiet ad ad' a"
  by (auto simp: process_wmmps_data_def xmit_delivery_enabled_frames_def rx_quiet_def bind_eq_Some_conv split: if_splits option.splits dest!: rx_keep)

lemma upd_sta_rx:
  assumes "arr (pstainfo_buf (stapriv ad)) i = Some s" "rx_view s' = rx_view s"
  shows "rx_part (stapriv (upd_sta ad i s')) = rx_part (stapriv ad)"
  using rx_part_sta_set [OF assms] by (simp add: upd_sta_def sta_set_def)

lemma count_rx_stats_rx: "count_rx_stats ad f sta = Some ad' \<Longrightarrow> rx_quiet ad ad' []"
  by (auto simp: count_rx_stats_def rx_quiet_def rx_fix_def upd_sta_rx Let_def bind_eq_Some_conv upd_sta_def split: option.splits)

lemma no_data_rx:
  assumes "no_data ad f i a = Some (r, psta, f', ad', acts)" "freed a = []"
  shows "rx_quiet ad ad' acts \<and> f' = f"
  using assms by (auto simp: no_data_def bind_eq_Some_conv rx_quiet_def split: if_splits dest!: count_rx_stats_rx)

lemma sta2sta_rx:
  assumes "sta2sta_data_frame ad f = Some (r, psta, f', ad', a)"
  shows "rx_quiet ad ad' a"
proof -
  obtain bm x where x: "IS_MCAST (a_dst (fattr f)) = Some bm" "sta2sta_addr ad f bm = Some x"
    using assms by (auto simp: sta2sta_data_frame_def bind_eq_Some_conv)
  show ?thesis
  proof (cases x)
    case None
    then show ?thesis
      using assms x by (simp add: sta2sta_data_frame_def)
  next
    case (Some y)
    obtain ret sa f1 where y: "y = (ret, sa, f1)"
      by (cases y)
    obtain ps where ps: "(if bm then rtw_get_bcmc_stainfo (stapriv ad) else rtw_get_stainfo (stapriv ad) sa) = Some ps"
      using assms x Some y by (auto simp: sta2sta_data_frame_def bind_eq_Some_conv)
    show ?thesis
      using assms x Some y ps by (cases ps; cases "mp_mode ad = 1 \<and> check_fwstate ad 0x10000") (auto simp: sta2sta_data_frame_def rx_quiet_def rx_fix_def)
  qed
qed

lemma mp_data_rx: "mp_data_frame ad f = Some (r, psta, f', ad', a) \<Longrightarrow> rx_quiet ad ad' a"
  by (auto simp: mp_data_frame_def Let_def bind_eq_Some_conv)

lemma ap2sta_rx:
  assumes "ap2sta_data_frame ad f = Some (r, psta, f', ad', a)"
  shows "rx_quiet ad ad' a"
proof -
  obtain bm where bm: "IS_MCAST (a_dst (fattr f)) = Some bm"
    using assms by (auto simp: ap2sta_data_frame_def Let_def bind_eq_Some_conv)
  show ?thesis
  proof (cases "check_fwstate ad 8 \<and> (check_fwstate ad 1 \<or> check_fwstate ad 0x80)")
    case True
    then show ?thesis
      using assms bm by (auto simp: ap2sta_data_frame_def Let_def bind_eq_Some_conv split: if_splits option.splits dest!: no_data_rx)
  next
    case False
    then show ?thesis
      using assms bm mp_data_rx unfolding ap2sta_data_frame_def Let_def if_not_P [OF False]
      by (auto simp: bind_eq_Some_conv rx_quiet_def rx_fix_def split: if_splits)
  qed
qed

lemma sta2ap_rx:
  assumes "sta2ap_data_frame ad f = Some (r, psta, f', ad', acts)"
  shows "rx_quiet ad ad' acts"
proof (cases "check_fwstate ad 0x10 \<and> a_bssid (fattr f) = bss_mac ad \<and> (\<exists>i. rtw_get_stainfo (stapriv ad) (Some (a_src (fattr f))) = Some (Some i))")
  case True
  then obtain i where i: "rtw_get_stainfo (stapriv ad) (Some (a_src (fattr f))) = Some (Some i)"
    by blast
  obtain ad1 a1 where p: "process_pwrbit_data ad f = Some (ad1, a1)"
    using assms True i by (auto simp: sta2ap_data_frame_def Let_def bind_eq_Some_conv)
  obtain ad2 a2 where w: "ad2 = ad1 \<and> a2 = [] \<or> process_wmmps_data ad1 f = Some (ad2, a2)" "no_data ad2 f i (a1 @ a2) = Some (r, psta, f', ad', acts)"
  proof -
    obtain w st where "at_off (rx_data f) = Some w" "GetFrameSubType (fbuf f) w = Some st"
      using assms True i p by (auto simp: sta2ap_data_frame_def Let_def bind_eq_Some_conv)
    then show thesis
      using assms True i p that [of ad1 "[]"] that
      by (cases "st AND 0x88 = 0x88") (auto simp: sta2ap_data_frame_def Let_def bind_eq_Some_conv)
  qed
  have q: "rx_quiet ad ad1 a1" "rx_quiet ad1 ad2 a2"
    using pwrbit_rx [OF p] wmmps_rx w(1) by auto
  then have "freed (a1 @ a2) = []"
    by (simp add: rx_quiet_def)
  from no_data_rx [OF w(2) this] q show ?thesis
    by (simp add: rx_quiet_def)
next
  case False
  then show ?thesis
    using assms mp_data_rx by (auto simp: sta2ap_data_frame_def Let_def bind_eq_Some_conv rx_quiet_def split: if_splits option.splits)
qed

lemma data_direction_rx:
  assumes "data_direction ad f p = Some (r, psta, f', ad', a)"
  shows "rx_quiet ad ad' a"
proof -
  obtain fc where fc: "RTW_GET_LE16 (fbuf f) p = Some fc"
    using assms by (auto simp: data_direction_def bind_eq_Some_conv)
  obtain da sa bss where h: "rd_bytes (fbuf f) (p + get_da (get_tofr_ds fc)) 6 = Some da" "rd_bytes (fbuf f) (p + get_sa (get_tofr_ds fc)) 6 = Some sa"
    "rd_bytes (fbuf f) (p + get_hdr_bssid (get_tofr_ds fc)) 6 = Some bss"
    using assms fc by (auto simp: data_direction_def Let_def bind_eq_Some_conv)
  note run = assms [unfolded data_direction_def fc bind.bind_lunit Let_def h]
  show ?thesis
    using run sta2sta_rx ap2sta_rx sta2ap_rx by (simp add: bind_eq_Some_conv split: if_splits) (auto dest: sta2sta_rx ap2sta_rx sta2ap_rx)
qed

lemma ctrl_rx:
  assumes "validate_recv_ctrl_frame ad f = Some (ad', a)"
  shows "rx_quiet ad ad' a"
proof (cases "ad' = ad \<and> a = []")
  case False
  obtain p where p: "at_off (rx_data f) = Some p"
    using assms by (auto simp: validate_recv_ctrl_frame_def bind_eq_Some_conv)
  obtain a2 i where h: "rd_bytes (fbuf f) (p + 10) 6 = Some a2" "rtw_get_stainfo (stapriv ad) (Some a2) = Some (Some i)"
    "GetFrameType (fbuf f) p = Some 4" "rd_bytes (fbuf f) (p + 4) 6 = Some (myid (stapriv ad))"
    using assms p False by (auto simp: validate_recv_ctrl_frame_def bind_eq_Some_conv split: if_splits option.splits)
  obtain s st where s: "arr (pstainfo_buf (stapriv ad)) i = Some s" "GetFrameSubType (fbuf f) p = Some st"
    using assms p h by (auto simp: validate_recv_ctrl_frame_def bind_eq_Some_conv Let_def)
  define ad1 where "ad1 = upd_sta ad i (s\<lparr>sta_stats := (sta_stats s)\<lparr>st_rx_ctrl_pkts := st_rx_ctrl_pkts (sta_stats s) + 1\<rparr>\<rparr>)"
  have q: "rx_part (stapriv ad1) = rx_part (stapriv ad)" "rx_fix ad1 = rx_fix ad"
    using upd_sta_rx [OF s(1)] by (simp_all add: ad1_def)
  have "rx_part (stapriv ad') = rx_part (stapriv ad1) \<and> rx_fix ad' = rx_fix ad1 \<and> freed a = []"
    using assms p h s by (auto simp: validate_recv_ctrl_frame_def Let_def bind_eq_Some_conv simp flip: ad1_def split: if_splits dest!: pspoll_rx)
  then show ?thesis
    using q by (simp add: rx_quiet_def)
qed simp

text \<open>The reorder queues are part of the receive view.\<close>

lemma queued_view: "queued ss = concat (map (\<lambda>v. concat (map pending (fst (snd (snd v))))) (map rx_view ss))"
  by (simp add: queued_def rx_view_def comp_def)

lemma rx_part_queued: "rx_part sp' = rx_part sp \<Longrightarrow> queued (pstainfo_buf sp') = queued (pstainfo_buf sp)"
  by (simp add: queued_view rx_part_def)

lemma queued_upd:
  assumes "arr (pstainfo_buf (stapriv ad)) i = Some s" "recvreorder_ctrl s' = recvreorder_ctrl s"
  shows "queued (pstainfo_buf (stapriv (upd_sta ad i s'))) = queued (pstainfo_buf (stapriv ad))"
proof -
  have i: "i < length (pstainfo_buf (stapriv ad))" "pstainfo_buf (stapriv ad) ! i = s"
    using assms(1) by (simp_all add: arr_def split: if_splits)
  then show ?thesis
    using assms(2) unfolding queued_def upd_sta_def by (intro arg_cong [of _ _ concat] nth_equalityI) (auto simp: nth_list_update)
qed

text \<open>What the checks keep: the reorder queues, the queue of frames that wait, and nothing freed.\<close>

definition rx_held :: "rx_adapter \<Rightarrow> rx_adapter \<Rightarrow> bool" where
  "rx_held ad ad' \<longleftrightarrow> queued (pstainfo_buf (stapriv ad')) = queued (pstainfo_buf (stapriv ad)) \<and> rx_fix ad' = rx_fix ad"

lemma rx_quiet_held: "rx_quiet ad ad' a \<Longrightarrow> rx_held ad ad' \<and> freed a = []"
  using rx_part_queued [of "stapriv ad'" "stapriv ad"] by (simp add: rx_quiet_def rx_held_def)

lemma data_frame_held:
  assumes "validate_recv_data_frame ad f = Some (r, f', ad', acts)"
  shows "rx_held ad ad' \<and> freed acts = []"
proof -
  obtain p where p: "at_off (rx_data f) = Some p"
    using assms by (auto simp: validate_recv_data_frame_def bind_eq_Some_conv)
  obtain r1 psta f1 ad1 a1 where d: "data_direction ad f p = Some (r1, psta, f1, ad1, a1)"
    using assms p by (auto simp: validate_recv_data_frame_def bind_eq_Some_conv)
  note q = rx_quiet_held [OF data_direction_rx [OF d]]
  have up: "rx_held ad (upd_sta ad2 i (s\<lparr>tid_rxseq := x\<rparr>))" if "rx_held ad ad2" "arr (pstainfo_buf (stapriv ad2)) i = Some s" for ad2 i s x
    using that queued_upd [OF that(2), of "s\<lparr>tid_rxseq := x\<rparr>"] by (simp add: rx_held_def)
  have be: "rx_held ad (ad1\<lparr>bIsAnyNonBEPkts := b\<rparr>)" for b
    using q by (simp add: rx_held_def rx_fix_def)
  show ?thesis
  proof (cases "r1 = RxSuccess \<and> psta \<noteq> None")
    case False
    then show ?thesis
      using assms p d q by (cases psta) (auto simp: validate_recv_data_frame_def split: if_splits)
  next
    case True
    then obtain i f2 where i: "psta = Some i" "qos_fields (f1\<lparr>f_psta := Some i\<rparr>) p = Some f2"
      using assms p d by (auto simp: validate_recv_data_frame_def bind_eq_Some_conv)
    define ad2 where "ad2 = (if a_qos (fattr f2) = 1 then ad1\<lparr>bIsAnyNonBEPkts := (a_priority (fattr f2) \<noteq> 0 \<and> a_priority (fattr f2) \<noteq> 3)\<rparr> else ad1)"
    have h2: "rx_held ad ad2"
      using q be by (simp add: ad2_def)
    obtain s ok seqs where s: "arr (pstainfo_buf (stapriv ad2)) i = Some s" "recv_decache (fattr f2) (tid_rxseq s) = Some (ok, seqs)"
      using assms True unfolding validate_recv_data_frame_def p d i bind.bind_lunit Let_def ad2_def [symmetric]
      by (auto simp: bind_eq_Some_conv i Let_def simp flip: ad2_def)
    show ?thesis
    proof (cases ok)
      case True
      then have "\<exists>a. (r, f', ad', acts) = (RxSuccess, f2\<lparr>fattr := a\<rparr>, upd_sta ad2 i (s\<lparr>tid_rxseq := seqs\<rparr>), a1)"
        using assms \<open>r1 = RxSuccess \<and> psta \<noteq> None\<close> s by (auto simp: validate_recv_data_frame_def p d i Let_def bind_eq_Some_conv simp flip: ad2_def)
      then show ?thesis
        using up [OF h2 s(1)] q by auto
    next
      case False
      then have "(r, f', ad', acts) = (RxFail, f2, ad2, a1)"
        using assms \<open>r1 = RxSuccess \<and> psta \<noteq> None\<close> s by (auto simp: validate_recv_data_frame_def p d i Let_def simp flip: ad2_def)
      then show ?thesis
        using h2 q by simp
    qed
  qed
qed

text \<open>The header of a frame that is not a fragment; a management frame is not protected.\<close>

definition whole_hdr :: "rframe \<Rightarrow> bool" where
  "whole_hdr f \<longleftrightarrow> (case at_off (rx_data f) of None \<Rightarrow> False | Some p \<Rightarrow>
     (case (RTW_GET_LE16 (fbuf f) p, RTW_GET_LE16 (fbuf f) (p + 22)) of
       (Some fc, Some sc) \<Rightarrow> \<not> bit fc 10 \<and> sc AND 0xf = 0 \<and> (fc AND 0xc = 0 \<longrightarrow> \<not> bit fc 14) | _ \<Rightarrow> False))"

lemma mgnt_count_rx: "mgnt_count ad f = Some ad' \<Longrightarrow> rx_quiet ad ad' []"
  by (auto simp: mgnt_count_def rx_quiet_def bind_eq_Some_conv split: option.splits intro!: upd_sta_rx)

lemma mgnt_rx:
  assumes "validate_recv_mgnt_frame ad f = Some (Some (ad', a))" "a_mfrag (fattr f) = 0" "a_frag_num (fattr f) = 0" "a_privacy (fattr f) = 0"
  shows "rx_quiet ad ad' a"
proof -
  obtain g ad1 a1 where c: "recvframe_chk_defrag ad f = Some (Some (g, ad1, a1))"
    using assms(1) by (auto simp: validate_recv_mgnt_frame_def run_bind_eq_ret)
  then obtain s where "defrag_sta ad f = Some s"
    by (auto simp: recvframe_chk_defrag_def defrag_step_def run_bind_eq_ret bind_eq_Some_conv Let_def)
  then have "g = Some f" "ad1 = ad" "a1 = []"
    using c assms(2-4) by (auto simp: recvframe_chk_defrag_def defrag_step_def Let_def)
  then show ?thesis
    using assms(1) c mgnt_count_rx by (auto simp: validate_recv_mgnt_frame_def run_bind_eq_ret rx_quiet_def)
qed

lemma validate_held:
  assumes "validate_recv_frame ad f = Some (Some (r, f', ad', acts))" "whole_hdr f"
  shows "rx_held ad ad' \<and> freed acts = []"
proof -
  obtain p fc sc where h: "at_off (rx_data f) = Some p" "RTW_GET_LE16 (fbuf f) p = Some fc" "RTW_GET_LE16 (fbuf f) (p + 22) = Some sc"
    "\<not> bit fc 10" "sc AND 0xf = 0" "fc AND 0xc = 0 \<longrightarrow> \<not> bit fc 14"
    using assms(2) by (auto simp: whole_hdr_def split: option.splits)
  obtain b0 where b0: "rd8 (fbuf f) p = Some b0"
    using assms(1) h(1) by (auto simp: validate_recv_frame_def run_bind_eq_ret)
  define f1 where "f1 = f\<lparr>fattr := (fattr f)\<lparr>a_to_fr_ds := get_tofr_ds fc, a_frag_num := ucast (sc AND 0xf), a_seq_num := drop_bit 4 sc,
     a_pw_save := fc_flag fc 12, a_mfrag := fc_flag fc 10, a_mdata := fc_flag fc 13, a_privacy := fc_flag fc 14, a_order := fc_flag fc 15\<rparr>\<rparr>"
  have f1: "set_attribs f p = Some f1" "a_mfrag (fattr f1) = 0" "a_frag_num (fattr f1) = 0" "fc AND 0xc = 0 \<longrightarrow> a_privacy (fattr f1) = 0"
    using h(4-6) by (simp_all add: set_attribs_def h(2,3) f1_def fc_flag_def)
  have ty: "GetFrameType (fbuf f) p = Some (fc AND 0xc)" "GetFrameSubType (fbuf f) p = Some (fc AND 0xfc)"
    by (simp_all add: GetFrameType_def GetFrameSubType_def h(2))
  note run = assms(1) [unfolded validate_recv_frame_def h(1) b0 ty f1(1) run_bind_simps]
  have drop: "rx_held ad (if b then ad1\<lparr>rx_drop := x\<rparr> else ad1)" if "rx_held ad ad1" for b ad1 x
    using that by (simp add: rx_held_def rx_fix_def)
  consider (none) "ad' = ad" "acts = []" | (mgnt) "fc AND 0xc = 0" "validate_recv_mgnt_frame ad f1 = Some (Some (ad', acts))"
    | (ctrl) "validate_recv_ctrl_frame ad f1 = Some (ad', acts)"
    | (data) g ad1 where "validate_recv_data_frame ad g = Some (r, f', ad1, acts)" "ad' = (if r = RxFail then ad1\<lparr>rx_drop := rx_drop ad1 + 1\<rparr> else ad1)"
  proof (cases "b0 AND 3 = 0")
    case True
    show thesis
    proof (cases "fc AND 0xc = 0 \<or> fc AND 0xc = 4 \<or> fc AND 0xc = 8")
      case ty: True
      then show thesis
        using run unfolding True
      proof (elim disjE)
        assume z: "fc AND 0xc = 0"
        then show thesis
          using run True mgnt by (auto simp: run_bind_eq_ret)
      next
        assume z: "fc AND 0xc = 4"
        then show thesis
          using run True ctrl by (auto simp: run_bind_eq_ret)
      next
        assume z: "fc AND 0xc = 8"
        then show thesis
          using run True data by (simp add: run_bind_eq_ret split: prod.splits) blast
      qed
    next
      case False
      then show thesis
        using run True none by simp
    qed
  next
    case False
    then show thesis
      using run none by simp
  qed
  then show ?thesis
  proof cases
    case none
    then show ?thesis
      by (simp add: rx_held_def)
  next
    case mgnt
    then show ?thesis
      using rx_quiet_held [OF mgnt_rx] f1(2-4) by blast
  next
    case ctrl
    then show ?thesis
      using rx_quiet_held [OF ctrl_rx] by blast
  next
    case data
    then show ?thesis
      using data_frame_held [OF data(1)] drop by auto
  qed
qed

section \<open>What the data path leaves alone\<close>

lemma rx_fix_eq [simp]:
  "rx_fix (ad\<lparr>rx_drop := a\<rparr>) = rx_fix ad" "rx_fix (ad\<lparr>hw_decrypted := b\<rparr>) = rx_fix ad" "rx_fix (ad\<lparr>crc_tab := c\<rparr>) = rx_fix ad"
  "rx_fix (ad\<lparr>aes_message := d\<rparr>) = rx_fix ad" "rx_fix (ad\<lparr>bcheck_grpkey := e\<rparr>) = rx_fix ad"
  by (simp_all add: rx_fix_def)

lemma sw_cipher_fix:
  assumes "sw_cipher ad f = Some (ok, g, ad')"
  shows "rx_fix ad' = rx_fix ad"
proof -
  obtain p where p: "at_off (rx_data f) = Some p"
    using assms by (auto simp: sw_cipher_def bind_eq_Some_conv)
  obtain sta where sta: "sta_of ad (a_ta (fattr f)) = Some sta"
    using assms p by (auto simp: sw_cipher_def bind_eq_Some_conv)
  show ?thesis
    using assms unfolding sw_cipher_def p sta bind.bind_lunit Let_def by (auto simp: bind_eq_Some_conv split: if_splits)
qed

lemma decryptor_fix: "decryptor ad f = Some (r, ad', a) \<Longrightarrow> rx_fix ad' = rx_fix ad"
  by (auto simp: decryptor_def Let_def bind_eq_Some_conv split: if_splits dest!: sw_cipher_fix)

lemma chkmic_fix:
  assumes "recvframe_chkmic ad f = Some (Some (ok, f', ad', acts))"
  shows "rx_fix ad' = rx_fix ad"
proof (cases "a_encrypt (fattr f) = TKIP")
  case True
  then obtain sta where sta: "sta_of ad (a_ta (fattr f)) = Some sta"
    using assms by (auto simp: recvframe_chkmic_def run_bind_eq_ret Let_def)
  show ?thesis
  proof (cases sta)
    case (Some z)
    obtain i s where "z = (i, s)"
      by (cases z)
    then show ?thesis
      using assms True sta Some by (auto simp: recvframe_chkmic_def run_bind_eq_ret Let_def split: if_splits)
  qed (use assms True sta in \<open>auto simp: recvframe_chkmic_def Let_def\<close>)
qed (use assms in \<open>auto simp: recvframe_chkmic_def Let_def\<close>)

lemma defrag_step_fix: "defrag_step ad f = Some (r, ad', a) \<Longrightarrow> rx_fix ad' = rx_fix ad"
  by (auto simp: defrag_step_def Let_def bind_eq_Some_conv split: if_splits option.splits)

lemma chk_defrag_fix: "recvframe_chk_defrag ad f = Some (Some (r, ad', a)) \<Longrightarrow> rx_fix ad' = rx_fix ad"
  by (auto simp: recvframe_chk_defrag_def run_bind_eq_ret split: if_splits option.splits dest!: defrag_step_fix chkmic_fix)

lemma process_fix: "process_recv_indicatepkts ad f = Some (ok, ad', a) \<Longrightarrow> rx_fix ad' = rx_fix ad"
  by (auto simp: process_recv_indicatepkts_def Let_def bind_eq_Some_conv split: if_splits)

lemma posthandle_fix:
  assumes "recv_func_posthandle ad f = Some (Some (ok, ad', a))"
  shows "rx_fix ad' = rx_fix ad"
proof -
  have "rx_fix ads = rx_fix ad1" if "count_rx_stats ad1 g sta = Some ads" for ad1 g sta ads
    using count_rx_stats_rx [OF that] by (simp add: rx_quiet_def)
  then show ?thesis
    using assms by (auto simp: recv_func_posthandle_def Let_def run_bind_eq_ret split: if_splits option.splits dest!: decryptor_fix chk_defrag_fix process_fix)
qed

section \<open>Every frame is freed once\<close>

definition whole :: "rframe \<Rightarrow> bool" where
  "whole f \<longleftrightarrow> a_mfrag (fattr f) = 0 \<and> a_frag_num (fattr f) = 0 \<and> amsdu_ok f"

text \<open>The frame objects the adapter holds, and what is assumed of them.\<close>

definition rx_ids :: "rx_adapter \<Rightarrow> nat multiset" where
  "rx_ids ad = mset (map fid (queued (pstainfo_buf (stapriv ad)))) + mset (map fid (uc_swdec_pending_queue ad))"

definition rx_ok :: "rx_adapter \<Rightarrow> bool" where
  "rx_ok ad \<longleftrightarrow> \<not> stopped (rx_env_of ad) \<and> list_all amsdu_ok (queued (pstainfo_buf (stapriv ad))) \<and> list_all whole (uc_swdec_pending_queue ad)"

lemma rx_fixD:
  assumes "rx_fix ad' = rx_fix ad"
  shows "rx_env_of ad' = rx_env_of ad" "uc_swdec_pending_queue ad' = uc_swdec_pending_queue ad" "check_fwstate ad' = check_fwstate ad"
    "mp_mode ad' = mp_mode ad" "bRTWSmbCfg ad' = bRTWSmbCfg ad" "bss_mac ad' = bss_mac ad"
  using assms by (simp_all add: rx_fix_def check_fwstate_def fun_eq_iff)

lemma rx_held_ok: "rx_held ad ad' \<Longrightarrow> rx_ok ad' = rx_ok ad \<and> rx_ids ad' = rx_ids ad"
  using rx_fixD [of ad' ad] by (simp add: rx_held_def rx_ok_def rx_ids_def)

lemma post_ids:
  assumes "recv_func_posthandle ad f = Some (Some (ok, ad', a))" "whole f" "rx_ok ad"
  shows "mset (freed a) + rx_ids ad' = add_mset (fid f) (rx_ids ad) \<and> rx_ok ad' \<and> rx_fix ad' = rx_fix ad"
proof -
  have p: "mset (freed a) + mset (map fid (queued (pstainfo_buf (stapriv ad')))) = add_mset (fid f) (mset (map fid (queued (pstainfo_buf (stapriv ad)))))"
    "list_all amsdu_ok (queued (pstainfo_buf (stapriv ad')))"
    using posthandle_freed [OF assms(1)] assms(2,3) by (simp_all add: whole_def rx_ok_def)
  have u: "mset (freed a) + rx_ids ad' = (mset (freed a) + mset (map fid (queued (pstainfo_buf (stapriv ad'))))) + mset (map fid (uc_swdec_pending_queue ad))"
    using rx_fixD(2) [OF posthandle_fix [OF assms(1)]] by (simp add: rx_ids_def)
  have "mset (freed a) + rx_ids ad' = add_mset (fid f) (rx_ids ad)"
    unfolding u p(1) by (simp add: rx_ids_def)
  then show ?thesis
    using posthandle_fix [OF assms(1)] rx_fixD(1,2) [OF posthandle_fix [OF assms(1)]] p(2) assms(3) by (simp add: rx_ok_def)
qed

lemma rx_ids_pending: "rx_ids (ad\<lparr>uc_swdec_pending_queue := fs\<rparr>) = mset (map fid (queued (pstainfo_buf (stapriv ad)))) + mset (map fid fs)"
  by (simp add: rx_ids_def)

lemma drain_ids:
  assumes "drain_pending ad fs = Some (Some (ad', a))" "rx_ok (ad\<lparr>uc_swdec_pending_queue := fs\<rparr>)"
  shows "mset (freed a) + rx_ids ad' = rx_ids (ad\<lparr>uc_swdec_pending_queue := fs\<rparr>) \<and> rx_ok ad' \<and> rx_fix ad' = rx_fix (ad\<lparr>uc_swdec_pending_queue := []\<rparr>)"
  using assms
proof (induction fs arbitrary: ad a)
  case (Cons f fs)
  obtain ok ad1 a1 a2 where d: "recv_func_posthandle (ad\<lparr>uc_swdec_pending_queue := fs\<rparr>) f = Some (Some (ok, ad1, a1))"
    "drain_pending ad1 fs = Some (Some (ad', a2))" "a = a1 @ a2"
    using Cons.prems(1) by (auto simp: run_bind_eq_ret)
  have "whole f" "rx_ok (ad\<lparr>uc_swdec_pending_queue := fs\<rparr>)"
    using Cons.prems(2) by (simp_all add: rx_ok_def)
  note p = post_ids [OF d(1) this]
  have same: "ad1\<lparr>uc_swdec_pending_queue := fs\<rparr> = ad1"
    using rx_fixD(2) [of ad1 "ad\<lparr>uc_swdec_pending_queue := fs\<rparr>"] p by simp
  have r: "mset (freed a2) + rx_ids ad' = rx_ids ad1" "rx_ok ad'" "rx_fix ad' = rx_fix (ad1\<lparr>uc_swdec_pending_queue := []\<rparr>)"
    using Cons.IH [OF d(2)] p unfolding same by simp_all
  have "mset (freed a) + rx_ids ad' = mset (freed a1) + rx_ids ad1"
    using r(1) by (simp add: d(3) add.assoc)
  also have "\<dots> = rx_ids (ad\<lparr>uc_swdec_pending_queue := f # fs\<rparr>)"
    using p by (simp add: rx_ids_pending)
  finally show ?case
    using r(2,3) p by (simp add: rx_fix_def)
qed (simp add: rx_ok_def)

lemma accepted_whole:
  assumes "validate_recv_frame ad f = Some (Some (RxSuccess, f', ad', acts))" "\<not> check_fwstate ad 0x10000" "whole_hdr f"
  shows "whole f' \<and> fid f' = fid f"
proof -
  obtain p fc sc where h: "at_off (rx_data f) = Some p" "RTW_GET_LE16 (fbuf f) p = Some fc" "RTW_GET_LE16 (fbuf f) (p + 22) = Some sc"
    "a_mfrag (fattr f') = fc_flag fc 10" "a_frag_num (fattr f') = ucast (sc AND 0xf)" "amsdu_ok f'" "fid f' = fid f"
    using validate_accepts_spec [OF assms(1,2)] by blast
  then have "\<not> bit fc 10" "sc AND 0xf = 0"
    using assms(3) by (simp_all add: whole_hdr_def)
  then show ?thesis
    using h(4-7) by (simp add: whole_def fc_flag_def)
qed

lemma unlink_held: "rx_held ad ad1 \<Longrightarrow> rx_held ad (unlink_frame n ad1)"
  by (simp add: rx_held_def unlink_frame_def rx_fix_def queued_def comp_def)

lemma prehandle_ids:
  assumes "recv_func_prehandle ad f = Some (Some (r, f', ad', a))" "\<not> check_fwstate ad 0x10000" "whole_hdr f" "mp_mode ad \<noteq> 1" "\<not> bRTWSmbCfg ad"
  shows "rx_held ad ad' \<and> (if r = RxSuccess then freed a = [] \<and> whole f' \<and> fid f' = fid f else freed a = [fid f])"
proof -
  obtain ad1 acts where v: "validate_recv_frame ad f = Some (Some (r, f', ad1, acts))" "ad' = (if r \<noteq> RxSuccess then unlink_frame (fid f) ad1 else ad1)"
    "a = acts @ (if r \<noteq> RxSuccess then [Free_recvframe (fid f)] else [])"
    using assms(1,4,5) by (auto simp: recv_func_prehandle_def run_bind_eq_ret split: if_splits)
  show ?thesis
    using validate_held [OF v(1) assms(3)] accepted_whole [OF _ assms(2,3)] v unlink_held by auto
qed

lemma do_posthandle_ids:
  assumes "do_posthandle low ad f = Some (Some (r, ad', a))" "whole f" "rx_ok ad"
  shows "mset (freed a) + rx_ids ad' = add_mset (fid f) (rx_ids ad) \<and> rx_ok ad'"
proof -
  obtain mc where mc: "IS_MCAST (a_ra (fattr f)) = Some mc"
    using assms(1) by (auto simp: do_posthandle_def run_bind_eq_ret)
  define q where "q = uc_swdec_pending_queue ad @ [f]"
  have q: "q \<noteq> []" "list_all whole q" "mset (map fid q) = add_mset (fid f) (mset (map fid (uc_swdec_pending_queue ad)))"
    using assms(2,3) by (simp_all add: q_def rx_ok_def)
  consider (go) ok where "recv_func_posthandle ad f = Some (Some (ok, ad', a))"
    | (old) ok where "recv_func_posthandle (ad\<lparr>uc_swdec_pending_queue := tl q\<rparr>) (hd q) = Some (Some (ok, ad', a))"
    | (keep) "ad' = ad\<lparr>uc_swdec_pending_queue := q\<rparr>" "a = []"
    using assms(1) by (auto simp: do_posthandle_def mc run_bind_eq_ret Let_def q_def split: if_splits)
  then show ?thesis
  proof cases
    case go
    then show ?thesis
      using post_ids [OF go assms(2,3)] by simp
  next
    case old
    have t: "list_all whole (tl q)" "whole (hd q)" "add_mset (fid (hd q)) (mset (map fid (tl q))) = mset (map fid q)"
      using q(1,2) by (cases q, simp_all)+
    have ids: "add_mset (fid (hd q)) (rx_ids (ad\<lparr>uc_swdec_pending_queue := tl q\<rparr>)) = add_mset (fid f) (rx_ids ad)"
      using t(3) q(3) by (simp add: rx_ids_pending) (simp add: rx_ids_def)
    have "rx_ok (ad\<lparr>uc_swdec_pending_queue := tl q\<rparr>)"
      using assms(3) t(1) by (simp add: rx_ok_def)
    from post_ids [OF old t(2) this] ids show ?thesis
      by simp
  next
    case keep
    then show ?thesis
      using q(2,3) assms(3) unfolding keep(1) rx_ids_pending by (simp add: rx_ids_def rx_ok_def)
  qed
qed

lemma drained:
  assumes "(if check_fwstate ad 8 \<and> busetkipkey ad \<noteq> 0 then drain_pending ad (uc_swdec_pending_queue ad) else Some (Some (ad, []))) = Some (Some (ad0, a0))" "rx_ok ad"
  shows "mset (freed a0) + rx_ids ad0 = rx_ids ad" "rx_ok ad0" "check_fwstate ad0 = check_fwstate ad" "mp_mode ad0 = mp_mode ad" "bRTWSmbCfg ad0 = bRTWSmbCfg ad"
proof -
  have self: "ad\<lparr>uc_swdec_pending_queue := uc_swdec_pending_queue ad\<rparr> = ad"
    by simp
  show "mset (freed a0) + rx_ids ad0 = rx_ids ad" "rx_ok ad0" "check_fwstate ad0 = check_fwstate ad" "mp_mode ad0 = mp_mode ad" "bRTWSmbCfg ad0 = bRTWSmbCfg ad"
    using assms drain_ids [of ad "uc_swdec_pending_queue ad" ad0 a0, unfolded self] by (auto simp: rx_fix_def check_fwstate_def fun_eq_iff split: if_splits)
qed

lemma recv_func_ids:
  assumes "recv_func low ad f = Some (Some (r, ad', acts))" "whole_hdr f" "rx_ok ad" "\<not> check_fwstate ad 0x10000" "\<not> check_fwstate ad 0x80000000"
    "mp_mode ad \<noteq> 1" "\<not> bRTWSmbCfg ad"
  shows "mset (freed acts) + rx_ids ad' = add_mset (fid f) (rx_ids ad) \<and> rx_ok ad'"
proof -
  obtain ad0 a0 where d: "(if check_fwstate ad 8 \<and> busetkipkey ad \<noteq> 0 then drain_pending ad (uc_swdec_pending_queue ad) else Some (Some (ad, []))) = Some (Some (ad0, a0))"
    using assms(1,5) unfolding recv_func_def by (auto simp: run_bind_eq_ret)
  note d0 = drained [OF d assms(3)]
  obtain r1 f1 ad1 a1 where p: "recv_func_prehandle ad0 f = Some (Some (r1, f1, ad1, a1))"
    using assms(1,5) d unfolding recv_func_def by (auto simp: run_bind_eq_ret)
  note run = assms(1) [unfolded recv_func_def if_not_P [OF assms(5)] d run_bind_simps, simplified, unfolded p, simplified]
  have h: "rx_held ad0 ad1" "if r1 = RxSuccess then freed a1 = [] \<and> whole f1 \<and> fid f1 = fid f else freed a1 = [fid f]"
    using prehandle_ids [OF p] assms(2,4,6,7) d0(3-5) by simp_all
  then have i1: "rx_ok ad1" "rx_ids ad1 = rx_ids ad0"
    using rx_held_ok [OF h(1)] d0(2) by simp_all
  have total: "mset (freed a0) + add_mset (fid f) (rx_ids ad0) = add_mset (fid f) (rx_ids ad)"
    by (simp add: d0(1) [symmetric])
  show ?thesis
  proof (cases "r1 = RxSuccess")
    case False
    then show ?thesis
      using run h(2) i1 total by auto
  next
    case True
    then obtain a2 where a2: "do_posthandle low ad1 f1 = Some (Some (r, ad', a2))" "acts = a0 @ a1 @ a2"
      using run by (auto simp: run_bind_eq_ret)
    have w: "whole f1" "fid f1 = fid f" "freed a1 = []"
      using h(2) True by simp_all
    have "mset (freed a2) + rx_ids ad' = add_mset (fid f) (rx_ids ad0)" "rx_ok ad'"
      using do_posthandle_ids [OF a2(1) w(1) i1(1)] w(2) i1(2) by simp_all
    then show ?thesis
      using total a2(2) w(3) by (simp add: add.assoc)
  qed
qed

lemma recv_func_ids_entry:
  assumes "rtw_recv_entry low ad f = Some (Some (r, ad', acts))" "whole_hdr f" "rx_ok ad" "\<not> check_fwstate ad 0x10000" "\<not> check_fwstate ad 0x80000000"
    "mp_mode ad \<noteq> 1" "\<not> bRTWSmbCfg ad"
  shows "mset (freed acts) + rx_ids ad' = add_mset (fid f) (rx_ids ad) \<and> rx_ok ad'"
proof -
  obtain ad1 where e: "recv_func low ad f = Some (Some (r, ad1, acts))" "rx_ids ad' = rx_ids ad1" "rx_ok ad' = rx_ok ad1"
    using assms(1) by (auto simp: rtw_recv_entry_def run_bind_eq_ret rx_ids_def rx_ok_def)
  show ?thesis
    using recv_func_ids [OF e(1) assms(2-7)] e(2,3) by simp
qed


lemma demo_rx_entry:
  "\<exists>ad' acts. rtw_recv_entry False (demo_ad False) (demo_rx 0x48) = Some (Some (RxHandled, ad', acts))"
  "whole_hdr (demo_rx 0x48)" "rx_ok (demo_ad False)" "rx_ids (demo_ad False) = {#}" "fid (demo_rx 0x48) = 0"
  "\<not> check_fwstate (demo_ad False) 0x10000" "\<not> check_fwstate (demo_ad False) 0x80000000" "mp_mode (demo_ad False) \<noteq> 1" "\<not> bRTWSmbCfg (demo_ad False)"
proof -
  let ?f = "demo_rx 0x48"
  obtain f' ad' where v: "validate_recv_frame (demo_ad False) ?f = Some (Some (RxHandled, f', ad', []))"
    using demo_rx_validate [of "0x48"] by auto
  show a: "\<not> check_fwstate (demo_ad False) 0x10000" "\<not> check_fwstate (demo_ad False) 0x80000000" "mp_mode (demo_ad False) \<noteq> 1" "\<not> bRTWSmbCfg (demo_ad False)"
    by (simp_all add: check_fwstate_def demo_ad_def)
  have k: "busetkipkey (demo_ad False) = 0"
    by (simp add: demo_ad_def)
  have q: "queued (pstainfo_buf (stapriv (demo_ad False))) = []" "uc_swdec_pending_queue (demo_ad False) = []" "\<not> stopped (rx_env_of (demo_ad False))"
    by (simp_all add: queued_def demo_ad_def demo_sta_def sta_alloc_def ctrl_alloc_def demo_env_def)
  show "whole_hdr ?f" "rx_ok (demo_ad False)" "rx_ids (demo_ad False) = {#}" "fid ?f = 0"
    using demo_rx_hdr [of "0x48"] q by (simp_all add: whole_hdr_def le16_def bit_iff_odd rx_ok_def rx_ids_def) (simp add: demo_rx_def)
  show "\<exists>ad' acts. rtw_recv_entry False (demo_ad False) ?f = Some (Some (RxHandled, ad', acts))"
    using v a k by (simp add: rtw_recv_entry_def recv_func_def recv_func_prehandle_def)
qed


section \<open>A repeated frame\<close>

lemma arr_map: "arr (map h xs) i = map_option h (arr xs i)"
  by (simp add: arr_def)

lemma hash_find_addrs: "map hwaddr tb' = map hwaddr tb \<Longrightarrow> hash_find tb' is a = hash_find tb is a"
proof (induction "is")
  case (Cons i "is")
  have "map_option hwaddr (arr tb' i) = map_option hwaddr (arr tb i)"
    using arg_cong [OF Cons.prems, of "\<lambda>xs. arr xs i"] by (simp only: arr_map)
  then show ?case
    using Cons.IH [OF Cons.prems] by (cases "arr tb' i"; cases "arr tb i") simp_all
qed simp

lemma get_stainfo_addrs:
  assumes "sta_hash sp' = sta_hash sp" "map hwaddr (pstainfo_buf sp') = map hwaddr (pstainfo_buf sp)"
  shows "rtw_get_stainfo sp' = rtw_get_stainfo sp"
  using hash_find_addrs [OF assms(2)] by (auto simp: fun_eq_iff rtw_get_stainfo_def assms(1) Let_def split: option.splits)

lemma acceptable_same:
  assumes "rtw_get_stainfo (stapriv ad') = rtw_get_stainfo (stapriv ad)" "check_fwstate ad' = check_fwstate ad" "bss_mac ad' = bss_mac ad" "myid (stapriv ad') = myid (stapriv ad)"
  shows "acceptable ad' a i = acceptable ad a i"
  by (simp add: acceptable_def for_me_def sta_lookup_def rtw_get_bcmc_stainfo_def assms)

lemma acceptable_unique: "acceptable ad a i \<Longrightarrow> acceptable ad a j \<Longrightarrow> i = j"
  by (auto simp: acceptable_def sta_lookup_def split: if_splits)

text \<open>An accepted frame as its header determines it, and the cache of its station before and after.\<close>

definition hdr_frame :: "rframe \<Rightarrow> nat \<Rightarrow> u16 \<Rightarrow> u16 \<Rightarrow> mem \<Rightarrow> mem \<Rightarrow> mem \<Rightarrow> mem \<Rightarrow> mem \<Rightarrow> rframe" where
  "hdr_frame f i fc sc da sa bss ra ta = f\<lparr>fattr := (hdr_attr (fattr f) fc sc)\<lparr>a_dst := da, a_src := sa, a_bssid := bss, a_ra := ra, a_ta := ta\<rparr>, f_psta := Some i\<rparr>"

lemma rx_part_at:
  assumes "rx_part sp' = rx_part sp" "arr (pstainfo_buf sp') i = Some s'"
  obtains s where "arr (pstainfo_buf sp) i = Some s" "rx_view s = rx_view s'"
proof -
  have "map rx_view (pstainfo_buf sp') = map rx_view (pstainfo_buf sp)"
    using assms(1) by (simp add: rx_part_def)
  from arg_cong [OF this, of "\<lambda>xs. arr xs i"] have "map_option rx_view (arr (pstainfo_buf sp) i) = Some (rx_view s')"
    using assms(2) by (simp add: arr_map)
  then show thesis
    using that by auto
qed

lemma rx_part_addrs:
  assumes "rx_part sp' = rx_part sp"
  shows "map hwaddr (pstainfo_buf sp') = map hwaddr (pstainfo_buf sp)" "sta_hash sp' = sta_hash sp" "myid sp' = myid sp"
proof -
  have "map fst (map rx_view (pstainfo_buf sp')) = map fst (map rx_view (pstainfo_buf sp))"
    using assms by (simp add: rx_part_def)
  then show "map hwaddr (pstainfo_buf sp') = map hwaddr (pstainfo_buf sp)"
    by (simp add: rx_view_def comp_def)
qed (use assms in \<open>simp_all add: rx_part_def\<close>)

lemma accepted_form:
  assumes "validate_recv_frame ad f = Some (Some (RxSuccess, f', ad', acts))" "\<not> check_fwstate ad 0x10000"
  obtains p fc sc da sa bss ra ta i f2 s seqs s' where "at_off (rx_data f) = Some p" "RTW_GET_LE16 (fbuf f) p = Some fc" "RTW_GET_LE16 (fbuf f) (p + 22) = Some sc"
    "acceptable ad (fattr (hdr_frame f i fc sc da sa bss ra ta)) i" "addrs_of f p (get_tofr_ds fc) (fattr (hdr_frame f i fc sc da sa bss ra ta))"
    "qos_fields (hdr_frame f i fc sc da sa bss ra ta) p = Some f2" "arr (pstainfo_buf (stapriv ad)) i = Some s" "recv_decache (fattr f2) (tid_rxseq s) = Some (True, seqs)"
    "arr (pstainfo_buf (stapriv ad')) i = Some s'" "tid_rxseq s' = seqs" "rx_fix ad' = rx_fix ad" "rtw_get_stainfo (stapriv ad') = rtw_get_stainfo (stapriv ad)"
    "myid (stapriv ad') = myid (stapriv ad)"
proof -
  from assms(1) obtain p b0 fc sc where h: "at_off (rx_data f) = Some p" "rd8 (fbuf f) p = Some b0" "b0 AND 3 = 0" "RTW_GET_LE16 (fbuf f) p = Some fc"
    "fc AND 0xc = 8" "RTW_GET_LE16 (fbuf f) (p + 22) = Some sc" and v: "validate_recv_data_frame ad (f\<lparr>fattr := hdr_attr (fattr f) fc sc\<rparr>) = Some (RxSuccess, f', ad', acts)"
    by (rule validate_acceptE)
  let ?f = "f\<lparr>fattr := hdr_attr (fattr f) fc sc\<rparr>"
  have "at_off (rx_data ?f) = Some p"
    using h(1) by simp
  from v this obtain i f1 ad1 f2 ad2 s1 seqs a where e: "data_direction ad ?f p = Some (RxSuccess, Some i, f1, ad1, acts)" "qos_fields (f1\<lparr>f_psta := Some i\<rparr>) p = Some f2"
    "stapriv ad2 = stapriv ad1" "arr (pstainfo_buf (stapriv ad1)) i = Some s1" "recv_decache (fattr f2) (tid_rxseq s1) = Some (True, seqs)"
    "set_encrypt ad2 (s1\<lparr>tid_rxseq := seqs\<rparr>) (fattr f2) = Some a" "f' = f2\<lparr>fattr := a\<rparr>" "ad' = upd_sta ad2 i (s1\<lparr>tid_rxseq := seqs\<rparr>)"
    by (rule validate_data_acceptE)
  have t: "RTW_GET_LE16 (fbuf ?f) p = Some fc" "a_to_fr_ds (fattr ?f) = get_tofr_ds fc"
    using h(4) by (simp_all add: hdr_attr_def)
  obtain da sa bss ra ta where d: "f1 = ?f\<lparr>fattr := (fattr ?f)\<lparr>a_dst := da, a_src := sa, a_bssid := bss, a_ra := ra, a_ta := ta\<rparr>\<rparr>"
    "acceptable ad (fattr f1) i" "addrs_of ?f p (get_tofr_ds fc) (fattr f1)"
    using data_direction_accept [OF e(1) assms(2) t] by blast
  have g: "f1\<lparr>f_psta := Some i\<rparr> = hdr_frame f i fc sc da sa bss ra ta" "fattr f1 = fattr (hdr_frame f i fc sc da sa bss ra ta)"
    by (simp_all add: d(1) hdr_frame_def)
  have quiet: "rx_part (stapriv ad1) = rx_part (stapriv ad)"
    using data_direction_rx [OF e(1)] by (simp add: rx_quiet_def)
  obtain s where s: "arr (pstainfo_buf (stapriv ad)) i = Some s" "rx_view s = rx_view s1"
    using rx_part_at [OF quiet e(4)] .
  have at: "i < length (pstainfo_buf (stapriv ad1))" "pstainfo_buf (stapriv ad1) ! i = s1"
    using e(4) by (simp_all add: arr_def split: if_splits)
  have s': "arr (pstainfo_buf (stapriv ad')) i = Some (s1\<lparr>tid_rxseq := seqs\<rparr>)"
    using at e(3) by (simp add: e(8) upd_sta_def arr_def)
  have "map hwaddr (pstainfo_buf (stapriv ad')) = map hwaddr (pstainfo_buf (stapriv ad1))"
    using at e(3) by (intro nth_equalityI) (auto simp: e(8) upd_sta_def nth_list_update)
  then have tab: "rtw_get_stainfo (stapriv ad') = rtw_get_stainfo (stapriv ad)" "myid (stapriv ad') = myid (stapriv ad)"
    using rx_part_addrs [OF quiet] e(3) by (auto intro!: get_stainfo_addrs simp: e(8) upd_sta_def)
  have fx: "rx_fix ad' = rx_fix ad"
    using data_frame_held [OF v] by (simp add: rx_held_def)
  have c: "addrs_of f p (get_tofr_ds fc) (fattr (hdr_frame f i fc sc da sa bss ra ta))" "recv_decache (fattr f2) (tid_rxseq s) = Some (True, seqs)"
    using d(3) e(5) s(2) unfolding g(2) by (simp_all add: addrs_of_def rx_view_def)
  show thesis
    by (rule that [OF h(1,4,6) d(2) [unfolded g(2)] c(1) e(2) [unfolded g(1)] s(1) c(2) s' _ fx tab]) simp
qed

text \<open>C10. A retransmission is not delivered twice: after \<open>validate_recv_frame\<close> has accepted a frame, the same frame received
  again in the resulting state, before another one of its station and priority, is not accepted.\<close>

theorem validate_not_twice:
  assumes "validate_recv_frame ad f = Some (Some (RxSuccess, f', ad', acts))" "\<not> check_fwstate ad 0x10000"
  shows "validate_recv_frame ad' f \<noteq> Some (Some (RxSuccess, f'', ad'', acts'))"
proof
  assume again: "validate_recv_frame ad' f = Some (Some (RxSuccess, f'', ad'', acts'))"
  from assms obtain p fc sc da sa bss ra ta i f2 s seqs s' where a: "at_off (rx_data f) = Some p" "RTW_GET_LE16 (fbuf f) p = Some fc" "RTW_GET_LE16 (fbuf f) (p + 22) = Some sc"
    "acceptable ad (fattr (hdr_frame f i fc sc da sa bss ra ta)) i" "addrs_of f p (get_tofr_ds fc) (fattr (hdr_frame f i fc sc da sa bss ra ta))"
    "qos_fields (hdr_frame f i fc sc da sa bss ra ta) p = Some f2" "arr (pstainfo_buf (stapriv ad)) i = Some s" "recv_decache (fattr f2) (tid_rxseq s) = Some (True, seqs)"
    "arr (pstainfo_buf (stapriv ad')) i = Some s'" "tid_rxseq s' = seqs" "rx_fix ad' = rx_fix ad" "rtw_get_stainfo (stapriv ad') = rtw_get_stainfo (stapriv ad)"
    "myid (stapriv ad') = myid (stapriv ad)"
    by (rule accepted_form)
  note fx = rx_fixD [OF a(11)]
  have "\<not> check_fwstate ad' 0x10000"
    using assms(2) fx(3) by simp
  with again obtain p1 fc1 sc1 da1 sa1 bss1 ra1 ta1 j g2 s1 seqs1 where b: "at_off (rx_data f) = Some p1" "RTW_GET_LE16 (fbuf f) p1 = Some fc1"
    "RTW_GET_LE16 (fbuf f) (p1 + 22) = Some sc1" "acceptable ad' (fattr (hdr_frame f j fc1 sc1 da1 sa1 bss1 ra1 ta1)) j"
    "addrs_of f p1 (get_tofr_ds fc1) (fattr (hdr_frame f j fc1 sc1 da1 sa1 bss1 ra1 ta1))" "qos_fields (hdr_frame f j fc1 sc1 da1 sa1 bss1 ra1 ta1) p1 = Some g2"
    "arr (pstainfo_buf (stapriv ad')) j = Some s1" "recv_decache (fattr g2) (tid_rxseq s1) = Some (True, seqs1)"
    by (rule accepted_form)
  have hd: "p1 = p" "fc1 = fc" "sc1 = sc"
    using a(1-3) b(1-3) by simp_all
  then have ad: "da1 = da" "sa1 = sa" "bss1 = bss" "ra1 = ra" "ta1 = ta"
    using a(5) b(5) by (auto simp: addrs_of_def hdr_frame_def split: if_splits)
  have "acceptable ad (fattr (hdr_frame f i fc sc da sa bss ra ta)) j"
    using b(4) acceptable_same [OF a(12) fx(3,6) a(13)] hd ad by (simp add: hdr_frame_def)
  then have "j = i"
    using acceptable_unique a(4) by blast
  then have "g2 = f2" "tid_rxseq s1 = seqs"
    using a(6,9,10) b(6,7) hd ad by simp_all
  then show False
    using recv_decache_cached(1) [OF a(8)] recv_decache_cached(2) [OF b(8)] by simp
qed

theorem validate_not_twice_witness:
  "\<exists>f' ad' acts. validate_recv_frame (demo_ad False) (demo_rx 8) = Some (Some (RxSuccess, f', ad', acts)) \<and>
    (\<forall>f'' ad'' acts'. validate_recv_frame ad' (demo_rx 8) \<noteq> Some (Some (RxSuccess, f'', ad'', acts')))"
proof -
  obtain f' ad' where v: "validate_recv_frame (demo_ad False) (demo_rx 8) = Some (Some (RxSuccess, f', ad', []))"
    using demo_rx_validate [of 8] by auto
  have "\<not> check_fwstate (demo_ad False) 0x10000"
    by (simp add: check_fwstate_def demo_ad_def)
  then show ?thesis
    using validate_not_twice [OF v] v by blast
qed

end
