(* ===== verification/Recv_Pool.thy ===== *)
theory Recv_Pool
  imports Recv_Entry
begin

text \<open>
  The pool of receive frames of \<^verbatim>\<open>core/rtw_recv.c\<close>: \<open>_rtw_init_recv_priv\<close> (the frames), \<open>_rtw_alloc_recvframe\<close>, \<open>rtw_free_recvframe\<close>,
  \<open>rtw_free_recvframe_queue\<close> and \<open>rtw_free_uc_swdec_pending_queue\<close>, and the relation \<open>rx_step\<close> of taking a frame, handing it to \<open>rtw_recv_entry\<close>, giving it
  back unused and flushing the waiting frames, in any order. In every state they reach, each of the frames is in one place and the
  counter of free frames is exact.
\<close>

section \<open>Operations\<close>

text \<open>A frame is named by its position in \<open>precv_frame_buf\<close>. The frames have one list node each: freeing takes a frame out of the queue that it is in, which for a
  frame that is free already is the free queue itself.\<close>

record recv_pool =
  free_recv_queue :: "nat list"
  free_recvframe_cnt :: u32

abbreviation (input) NR_RECVFRAME :: nat where "NR_RECVFRAME \<equiv> 256"

definition rtw_init_recv_priv :: recv_pool where
  "rtw_init_recv_priv = \<lparr>free_recv_queue = [0..<NR_RECVFRAME], free_recvframe_cnt = of_nat NR_RECVFRAME\<rparr>"

definition rtw_alloc_recvframe :: "recv_pool \<Rightarrow> nat option \<times> recv_pool" where
  "rtw_alloc_recvframe p = (case free_recv_queue p of [] \<Rightarrow> (None, p)
     | i # is \<Rightarrow> (Some i, p\<lparr>free_recv_queue := is, free_recvframe_cnt := free_recvframe_cnt p - 1\<rparr>))"

definition rtw_free_recvframe :: "nat \<Rightarrow> recv_pool \<Rightarrow> recv_pool" where
  "rtw_free_recvframe i p = p\<lparr>free_recv_queue := removeAll i (free_recv_queue p) @ [i], free_recvframe_cnt := free_recvframe_cnt p + 1\<rparr>"

fun rtw_free_recvframe_queue :: "nat list \<Rightarrow> recv_pool \<Rightarrow> recv_pool" where
  "rtw_free_recvframe_queue [] p = p"
| "rtw_free_recvframe_queue (i # is) p = rtw_free_recvframe_queue is (rtw_free_recvframe i p)"

fun free_pending :: "rframe list \<Rightarrow> recv_pool \<Rightarrow> u32 \<Rightarrow> u32 \<times> recv_pool" where
  "free_pending [] p cnt = (cnt, p)"
| "free_pending (f # fs) p cnt = free_pending fs (rtw_free_recvframe (fid f) p) (cnt + 1)"

definition rtw_free_uc_swdec_pending_queue :: "rx_adapter \<Rightarrow> recv_pool \<Rightarrow> u32 \<times> rx_adapter \<times> recv_pool" where
  "rtw_free_uc_swdec_pending_queue ad p = (case free_pending (uc_swdec_pending_queue ad) p 0 of (cnt, p1) \<Rightarrow> (cnt, ad\<lparr>uc_swdec_pending_queue := []\<rparr>, p1))"

section \<open>The counter is exact\<close>

definition pool_ok :: "recv_pool \<Rightarrow> bool" where
  "pool_ok p \<longleftrightarrow> distinct (free_recv_queue p) \<and> free_recvframe_cnt p = of_nat (length (free_recv_queue p))"

lemma free_ok:
  assumes "pool_ok p" "i \<notin> set (free_recv_queue p)"
  shows "pool_ok (rtw_free_recvframe i p) \<and> mset (free_recv_queue (rtw_free_recvframe i p)) = add_mset i (mset (free_recv_queue p))"
  using assms by (simp add: pool_ok_def rtw_free_recvframe_def removeAll_id)

lemma alloc_ok:
  assumes "pool_ok p" "rtw_alloc_recvframe p = (Some i, p')"
  shows "pool_ok p' \<and> mset (free_recv_queue p) = add_mset i (mset (free_recv_queue p'))"
  using assms by (auto simp: rtw_alloc_recvframe_def pool_ok_def split: list.splits)

lemma free_queue_ok:
  assumes "pool_ok p" "distinct is" "set is \<inter> set (free_recv_queue p) = {}"
  shows "pool_ok (rtw_free_recvframe_queue is p) \<and> mset (free_recv_queue (rtw_free_recvframe_queue is p)) = mset is + mset (free_recv_queue p)"
  using assms
proof (induction "is" arbitrary: p)
  case (Cons i "is")
  have f: "pool_ok (rtw_free_recvframe i p)" "mset (free_recv_queue (rtw_free_recvframe i p)) = add_mset i (mset (free_recv_queue p))"
    using free_ok [of p i] Cons.prems by simp_all
  have "set (free_recv_queue (rtw_free_recvframe i p)) = insert i (set (free_recv_queue p))"
    using arg_cong [OF f(2), of set_mset] by simp
  then have "set is \<inter> set (free_recv_queue (rtw_free_recvframe i p)) = {}"
    using Cons.prems(2,3) by auto
  then show ?case
    using Cons.IH [OF f(1)] Cons.prems(2) f(2) by simp
qed simp

lemma free_pending_queue: "snd (free_pending fs p n) = rtw_free_recvframe_queue (map fid fs) p"
  by (induction fs arbitrary: p n) simp_all

section \<open>All operations together\<close>

text \<open>The third component are the frames in the hands of the hardware driver. \<open>other\<close> stands for everything else that may change the adapter: it
  leaves the queues of frames alone.\<close>

inductive rx_step :: "recv_pool \<times> rx_adapter \<times> nat multiset \<Rightarrow> recv_pool \<times> rx_adapter \<times> nat multiset \<Rightarrow> bool" where
  alloc: "rtw_alloc_recvframe p = (Some i, p') \<Longrightarrow> rx_step (p, ad, hs) (p', ad, add_mset i hs)"
| drop: "i \<in># hs \<Longrightarrow> rx_step (p, ad, hs) (rtw_free_recvframe i p, ad, hs - {#i#})"
| entry: "fid f \<in># hs \<Longrightarrow> whole_hdr f \<Longrightarrow> \<not> check_fwstate ad 0x10000 \<Longrightarrow> \<not> check_fwstate ad 0x80000000 \<Longrightarrow> mp_mode ad \<noteq> 1 \<Longrightarrow> \<not> bRTWSmbCfg ad \<Longrightarrow>
    rtw_recv_entry low ad f = Some (Some (r, ad', acts)) \<Longrightarrow> rx_step (p, ad, hs) (rtw_free_recvframe_queue (freed acts) p, ad', hs - {#fid f#})"
| flush: "rtw_free_uc_swdec_pending_queue ad p = (n, ad', p') \<Longrightarrow> rx_step (p, ad, hs) (p', ad', hs)"
| other: "queued (pstainfo_buf (stapriv ad')) = queued (pstainfo_buf (stapriv ad)) \<Longrightarrow> uc_swdec_pending_queue ad' = uc_swdec_pending_queue ad \<Longrightarrow>
    stopped (rx_env_of ad') = stopped (rx_env_of ad) \<Longrightarrow> rx_step (p, ad, hs) (p, ad', hs)"

inductive_cases rx_stepE [consumes 1, case_names alloc drop entry flush other]: "rx_step (p, ad, hs) (p', ad', hs')"

definition pool_inv :: "recv_pool \<times> rx_adapter \<times> nat multiset \<Rightarrow> bool" where
  "pool_inv x \<longleftrightarrow> (case x of (p, ad, hs) \<Rightarrow> pool_ok p \<and> rx_ok ad \<and> mset (free_recv_queue p) + rx_ids ad + hs = mset [0..<NR_RECVFRAME])"

lemma pool_invD:
  assumes "pool_inv (p, ad, hs)"
  shows "pool_ok p" "rx_ok ad" "mset (free_recv_queue p) + rx_ids ad + hs = mset [0..<NR_RECVFRAME]" "i \<in># rx_ids ad + hs \<Longrightarrow> i \<notin> set (free_recv_queue p)"
proof -
  show "pool_ok p" "rx_ok ad" and m: "mset (free_recv_queue p) + rx_ids ad + hs = mset [0..<NR_RECVFRAME]"
    using assms by (simp_all add: pool_inv_def)
  assume i: "i \<in># rx_ids ad + hs"
  have "count (mset [0..<NR_RECVFRAME]) i \<le> 1"
    by (simp add: count_mset_set')
  then have "count (mset (free_recv_queue p) + (rx_ids ad + hs)) i \<le> 1"
    by (simp only: m [unfolded add.assoc])
  then show "i \<notin> set (free_recv_queue p)"
    using i count_greater_zero_iff [of "rx_ids ad + hs" i] count_greater_zero_iff [of "mset (free_recv_queue p)" i] by (auto simp only: count_union set_mset_mset)
qed

lemma pool_inv_distinct:
  assumes "pool_inv (p, ad, hs)" "mset is + r = rx_ids ad + hs"
  shows "distinct is" "set is \<inter> set (free_recv_queue p) = {}"
proof -
  have m: "mset (free_recv_queue p) + (mset is + r) = mset [0..<NR_RECVFRAME]"
    using pool_invD(3) [OF assms(1)] assms(2) by (simp only: add.assoc)
  have one: "count (mset is) i \<le> 1" for i
  proof -
    have "count (mset (free_recv_queue p) + (mset is + r)) i \<le> 1"
      unfolding m by (simp add: count_mset_set')
    then show ?thesis
      by simp
  qed
  have "count (mset is) i = (if i \<in> set is then 1 else 0)" for i
    using one [of i] count_greater_zero_iff [of "mset is" i] by (auto simp: le_Suc_eq)
  then show "distinct is"
    by (simp add: distinct_count_atmost_1)
  show "set is \<inter> set (free_recv_queue p) = {}"
  proof (rule equals0I)
    fix i
    assume "i \<in> set is \<inter> set (free_recv_queue p)"
    moreover from this have "i \<in># rx_ids ad + hs"
      unfolding assms(2) [symmetric] by simp
    ultimately show False
      using pool_invD(4) [OF assms(1)] by blast
  qed
qed

text \<open>Freeing some of the frames that are held.\<close>

lemma pool_inv_free:
  assumes "pool_inv (p, ad, hs)" "mset is + (rx_ids ad' + hs') = rx_ids ad + hs" "rx_ok ad'"
  shows "pool_inv (rtw_free_recvframe_queue is p, ad', hs')"
proof -
  note f = free_queue_ok [OF pool_invD(1) [OF assms(1)] pool_inv_distinct [OF assms(1,2)]]
  have "mset is + mset (free_recv_queue p) + rx_ids ad' + hs' = mset (free_recv_queue p) + (mset is + (rx_ids ad' + hs'))"
    by (simp only: ac_simps)
  also have "\<dots> = mset [0..<NR_RECVFRAME]"
    unfolding assms(2) using pool_invD(3) [OF assms(1)] by (simp only: add.assoc)
  finally show ?thesis
    using f assms(3) by (simp add: pool_inv_def)
qed

lemma rx_step_inv:
  assumes "rx_step (p, ad, hs) (p', ad', hs')" "pool_inv (p, ad, hs)"
  shows "pool_inv (p', ad', hs')"
  using assms(1)
proof (cases rule: rx_stepE)
  case (alloc i)
  have a: "pool_ok p'" "mset (free_recv_queue p) = add_mset i (mset (free_recv_queue p'))"
    using alloc_ok [OF pool_invD(1) [OF assms(2)]] alloc by simp_all
  show ?thesis
    using a pool_invD(2,3) [OF assms(2)] alloc by (simp add: pool_inv_def)
next
  case (drop i)
  have "mset [i] + (rx_ids ad' + hs') = rx_ids ad + hs"
    using drop by (simp add: ac_simps)
  from pool_inv_free [OF assms(2) this] pool_invD(2) [OF assms(2)] show ?thesis
    using drop by simp
next
  case (entry f low r acts)
  have e: "mset (freed acts) + rx_ids ad' = add_mset (fid f) (rx_ids ad)" "rx_ok ad'"
    using recv_func_ids_entry [OF _ _ pool_invD(2) [OF assms(2)]] entry by simp_all
  have "mset (freed acts) + (rx_ids ad' + hs') = (mset (freed acts) + rx_ids ad') + hs'"
    by (simp only: add.assoc)
  also have "\<dots> = rx_ids ad + add_mset (fid f) hs'"
    by (simp only: e(1)) simp
  also have "add_mset (fid f) hs' = hs"
    using entry by simp
  finally show ?thesis
    using pool_inv_free [OF assms(2) _ e(2)] entry by simp
next
  case (flush n)
  have f: "p' = rtw_free_recvframe_queue (map fid (uc_swdec_pending_queue ad)) p" "ad' = ad\<lparr>uc_swdec_pending_queue := []\<rparr>"
    using flush free_pending_queue [of "uc_swdec_pending_queue ad" p 0] by (auto simp: rtw_free_uc_swdec_pending_queue_def split: prod.splits)
  have "mset (map fid (uc_swdec_pending_queue ad)) + (rx_ids ad' + hs') = rx_ids ad + hs"
    using flush by (simp add: f(2) rx_ids_def ac_simps)
  moreover have "rx_ok ad'"
    using pool_invD(2) [OF assms(2)] by (simp add: f(2) rx_ok_def)
  ultimately show ?thesis
    using pool_inv_free [OF assms(2)] f(1) by simp
next
  case other
  have "rx_ids ad' = rx_ids ad" "rx_ok ad' = rx_ok ad"
    using other by (simp_all add: rx_ids_def rx_ok_def)
  then show ?thesis
    using assms(2) other by (simp add: pool_inv_def)
qed



text \<open>A frame that is freed twice breaks the counter: the second \<open>rtw_free_recvframe\<close> moves the frame to the end of the free queue, where it is already,
  and counts it again, so that \<open>free_recvframe_cnt\<close> is one more than the number of free frames from then on.\<close>

lemma double_free_miscounts:
  assumes "pool_ok p" "i \<notin> set (free_recv_queue p)"
  shows "free_recv_queue (rtw_free_recvframe i (rtw_free_recvframe i p)) = free_recv_queue p @ [i] \<and>
    free_recvframe_cnt (rtw_free_recvframe i (rtw_free_recvframe i p)) = of_nat (length (free_recv_queue (rtw_free_recvframe i (rtw_free_recvframe i p)))) + 1"
  using assms by (simp add: rtw_free_recvframe_def pool_ok_def removeAll_id)

end
