(* ===== verification/Spec2Isabelle.thy ===== *)
theory Spec2Isabelle
  imports Rtw_Prelude Tlv Ie_Search Ie_Attr Ie_Parse Ie_Wpa Bcn_Info Ie_Rates
    Sec_Crc Sec_Arc4 Sec_Wep Sec_Mic Sec_Tkip Sec_Aes Sec_Ccmp
    Recv_Frame Recv_Reorder Recv_Defrag Macid Sta_Mgt Recv_Path Xmit_Frame Xmit_Queue Ap_Sleep Ap_Run
    Recv_Check Recv_Entry Recv_Pool
begin

text \<open>
  \<^bold>\<open>Verification of the rtl8812AU/8821AU Linux driver.\<close>

  \<^bold>\<open>The program.\<close> The driver moves frames between a USB radio and the Linux network stack. A received frame
  is checked and filtered, decrypted, reassembled, put in order and turned into Ethernet packets
  (\<^verbatim>\<open>core/rtw_recv.c\<close>); the state of each peer is kept in a table of stations
  (\<^verbatim>\<open>core/rtw_sta_mgt.c\<close>) whose hardware ids come from a bitmap (\<^verbatim>\<open>core/rtw_wlan_util.c\<close>); the ciphers
  are in \<^verbatim>\<open>core/rtw_security.c\<close>; the information elements of beacons and association frames are
  written and parsed by \<^verbatim>\<open>core/rtw_ieee80211.c\<close>.

  \<^bold>\<open>Conventions.\<close> The build modelled is the default one for USB on a PC: \<open>CONFIG_IOCTL_CFG80211\<close>, \<open>CONFIG_LITTLE_ENDIAN\<close>,
  \<open>CONFIG_AP_MODE\<close> with \<open>CONFIG_NATIVEAP_MLME\<close>, \<open>CONFIG_P2P\<close>, \<open>CONFIG_WFD\<close>, \<open>CONFIG_80211N_HT\<close>, \<open>CONFIG_80211AC_VHT\<close>,
  \<open>CONFIG_RECV_REORDERING_CTRL\<close>, \<open>CONFIG_SKB_COPY\<close>, \<open>CONFIG_MP_INCLUDED\<close> (the test mode is a bit of \<open>fw_state\<close>), \<open>CONFIG_BEAMFORMING\<close>; not \<open>CONFIG_CONCURRENT_MODE\<close>, \<open>CONFIG_TDLS\<close>, \<open>CONFIG_WAPI_SUPPORT\<close>,
  \<open>CONFIG_IEEE80211W\<close>. C integers are words of their width (\<open>u8\<close> to \<open>u64\<close>), \<open>int\<close> counters without a
  realistic overflow are integers. A C object is a byte list, a pointer into it an offset, and every access is checked:
  an access outside the object makes the result \<open>None\<close>, so a theorem that gives a \<open>Some\<close> also shows that memory is used
  safely. A loop that may run for ever is a \<open>partial_function\<close> of type \<open>run\<close>: its outer \<open>None\<close> is \<open>does not return\<close>, its
  inner \<open>None\<close> a fault. A pointer to a station, a received frame or a transmit frame is a number. What a function does to the
  world outside the model (packets handed up, frame objects freed, MIC failures reported) is a list of actions in
  their order. Locks are not modelled, except that the theorem on \<open>rtw_alloc_stainfo\<close> counts how often \<open>sta_hash_lock\<close> is held.

  \<^bold>\<open>Theories.\<close>

  \<^item> \<open>Rtw_Prelude\<close>: integer types, checked memory, endian accessors, shared lemmas. \<open>Tlv\<close>: the locale \<open>tlv_search\<close>, what a
    search over encoded elements promises; every element and attribute search below is an interpretation of it.

  \<^item> \<open>Ie_Search\<close>, \<open>Ie_Attr\<close>, \<open>Ie_Parse\<close>, \<open>Ie_Wpa\<close>, \<open>Bcn_Info\<close>, \<open>Ie_Rates\<close> (\<^verbatim>\<open>core/rtw_ieee80211.c\<close>): element builders and searches,
    WPS, P2P and WFD attributes, the parser \<open>rtw_ieee802_11_parse_elems\<close>, the WPA and RSN parsers (one proof for both, in the locale
    \<open>suite_decoder\<close>), the classification of beacons, rate sets and the ad hoc template. Shown: searches return the first
    match of a well-formed stream, removal filters, writing and reading round trips, the parser equals a reference decoder,
    which inputs make a function read outside its buffer or never return.

  \<^item> \<open>Sec_Crc\<close>, \<open>Sec_Arc4\<close>, \<open>Sec_Wep\<close>, \<open>Sec_Mic\<close>, \<open>Sec_Tkip\<close>, \<open>Sec_Aes\<close>, \<open>Sec_Ccmp\<close> (\<^verbatim>\<open>core/rtw_security.c\<close>): CRC-32, ARC4, WEP, the
    Michael code, TKIP, AES and CCMP. Shown: the table-driven CRC equals the bit-serial one, \<open>aes128k128d\<close> equals FIPS 197, the
    Michael code equals its definition; what one side seals the other opens (the locale \<open>arc4_scheme\<close> covers WEP and TKIP);
    frames with a wrong code are refused; TKIP packet keys do not repeat.

  \<^item> \<open>Recv_Frame\<close>, \<open>Recv_Reorder\<close>, \<open>Recv_Defrag\<close>, \<open>Recv_Path\<close> (\<^verbatim>\<open>core/rtw_recv.c\<close>, \<^verbatim>\<open>include/rtw_recv.h\<close>, \<^verbatim>\<open>os_dep/linux/recv_linux.c\<close>): frame
    pointers, the duplicate filter, conversion to Ethernet, A-MSDU splitting, the A-MPDU reorder buffer with its timer,
    reassembly, the MIC check, the 802.1X port and \<open>recv_func_posthandle\<close>, which runs them. Shown: delivery in order and without
    repetition, progress of the timer, exactness of conversion and reassembly, one release per frame, nothing but EAPOL from
    a blocked station. The ciphers see a frame as \<open>Sec_Wep.recv_frame\<close>, the data path as \<open>Recv_Frame.rframe\<close>; \<open>to_recv_frame\<close>
    and \<open>of_recv_frame\<close> go between them.

  \<^item> \<open>Macid\<close>, \<open>Sta_Mgt\<close>: hardware ids and the station table. Shown: the hash table refines a map (the locale \<open>station_table\<close>), and
    in every reachable table addresses and hardware ids are distinct.

  \<^item> \<open>Xmit_Frame\<close>, \<open>Xmit_Queue\<close>, \<open>Ap_Sleep\<close>, \<open>Ap_Run\<close> (\<^verbatim>\<open>core/rtw_xmit.c\<close>, \<^verbatim>\<open>hal/rtl8812a/usb/rtl8812au_xmit.c\<close>): transmit frame objects and
    their pools, the queues of stations and hardware, and the power saving of stations in access point mode. A queue is a
    list of frames inside \<open>sta_info\<close> (the four queues of a station in the order voice, video, best effort, background), the
    hardware queues list the stations that are linked there. Shown: dequeueing keeps the priorities and the order; a
    station that falls asleep loses nothing and is left alone; waking up and service periods deliver what was
    buffered in order; every sequence of operations (relation \<open>ap_step\<close>) keeps each frame object in one place. Stations have
    association ids below 16 in these theorems: the bit maps of the code have 16 bits.

  \<^item> \<open>Recv_Check\<close>, \<open>Recv_Entry\<close>, \<open>Recv_Pool\<close> (\<^verbatim>\<open>core/rtw_recv.c\<close>, \<^verbatim>\<open>include/wifi.h\<close>): the header checks \<open>validate_recv_frame\<close>, the entry \<open>rtw_recv_entry\<close>
    with the queue of frames that wait for a key, and the pool of receive frames. They join the two sides: the power bit and
    PS-Poll of a received frame act on the transmit queues of \<open>Ap_Sleep\<close>, the rest goes down the data path of \<open>Recv_Path\<close>. Shown:
    which frames pass, that a retransmission is refused, that the sleep state of a station is the announced one, that a PS-Poll
    releases one frame, and that in every state of \<open>rx_step\<close> each receive frame is in one place (fragments apart: a
    released fragment is one of the findings).
  \<^bold>\<open>Parameters.\<close> Kernel services the code calls are arguments: whether \<open>rtw_skb_alloc\<close> or \<open>skb_clone\<close> succeeds, whether the
  pool of stations could be allocated, the flags of the adapter (driver stopped, HT enabled). No theorem needs an
  assumption on them other than the ones it states.

  \<^bold>\<open>Fuel.\<close> None is used; every recursion has a termination proof or is a \<open>partial_function\<close>.

  \<^bold>\<open>Not modelled.\<close> Management (\<^verbatim>\<open>core/rtw_mlme.c\<close>, \<^verbatim>\<open>core/rtw_mlme_ext.c\<close> but for one handler), P2P and access point control
  (\<^verbatim>\<open>core/rtw_p2p.c\<close>, \<^verbatim>\<open>core/rtw_ap.c\<close>), the building of transmit frames, the driver's own power saving, the command thread, efuse, the chip code
  under \<^verbatim>\<open>hal/\<close> (register sequences and firmware images whose meaning is in the hardware) and the operating system glue under
  \<^verbatim>\<open>os_dep/\<close> (system calls, USB requests, ioctl tables).
  Of the receive side, the USB receive buffers, the test and monitor modes and the management frame handlers behind \<open>mgt_dispatcher\<close> are left out.
\<close>

end
